(* ===== verification/Prelude.thy ===== *)
theory Prelude
  imports Main "HOL-Library.State_Monad"
begin

text \<open>
  Shared vocabulary of the development: error values, clocks and durations as Go and
  PostgreSQL count them, SQL statements over tables kept as lists of rows, loops of the
  source as monadic folds, and two program logics over the state monad of the library
  (\<open>wp\<close> for results, \<open>guar\<close> for what a program guarantees about the states before and
  after it) with the collections \<open>wp\<close>, \<open>guar\<close> that the component proofs use.
\<close>

named_theorems wp \<open>weakest-precondition equations\<close>
named_theorems guar \<open>introduction rules for guarantees\<close>
named_theorems sqldefs \<open>definitions of SQL statement helpers\<close>

subsection \<open>Errors\<close>

text \<open>
  Go's \<open>error\<close> values. \<open>ErrDB\<close> stands for any error the database driver returns;
  \<open>ErrInvalid field code\<close> is \<open>uptime.ValidationError\<close>; \<open>ErrEdge\<close> stands for
  the refusals of \<open>depsuppress.Store\<close> by name; \<open>ErrJoin\<close> is \<open>errors.Join\<close>;
  \<open>ErrMsg\<close> an error that carries only a text.
\<close>

datatype error =
    ErrDB
  | ErrNotFound
  | ErrInvalidMonitor
  | ErrInvalid string string
  | ErrInvalidWindow string
  | ErrInvalidPolicy string
  | ErrEdge string
  | ErrUnknownSource
  | ErrStaleClaim
  | ErrMsg string
  | ErrJoin "error list"

type_synonym 'a result = "error + 'a"

text \<open>\<open>errors.Join\<close>: nil when every argument is nil.\<close>

definition errors_join :: "error option list \<Rightarrow> error option" where
  "errors_join es =
     (case List.map_filter id es of [] \<Rightarrow> None | js \<Rightarrow> Some (ErrJoin js))"

lemma map_filter_id_eq_Nil [simp]:
  "List.map_filter id es = [] \<longleftrightarrow> (\<forall>e \<in> set es. e = None)"
  by (induction es) (auto simp: List.map_filter_simps split: option.splits)

lemma errors_join_None_iff [simp]:
  "errors_join es = None \<longleftrightarrow> (\<forall>e \<in> set es. e = None)"
proof -
  have "errors_join es = None \<longleftrightarrow> List.map_filter id es = []"
    unfolding errors_join_def by (cases "List.map_filter id es") (simp_all del: map_filter_id_eq_Nil)
  then show ?thesis by simp
qed

subsection \<open>Instants and durations\<close>

text \<open>
  \<open>time.Time\<close> is an \<open>int\<close> of nanoseconds since the Unix epoch; \<open>time.Duration\<close> is an
  \<open>int\<close> of nanoseconds in the range of a signed 64-bit integer. \<open>Time.Sub\<close> saturates
  at the two ends of that range.
\<close>

type_synonym time = int
type_synonym duration = int

abbreviation second :: duration where "second \<equiv> 1000000000"
abbreviation minute :: duration where "minute \<equiv> 60000000000"
abbreviation hour :: duration where "hour \<equiv> 3600000000000"
abbreviation minDuration :: duration where "minDuration \<equiv> - 9223372036854775808"
abbreviation maxDuration :: duration where "maxDuration \<equiv> 9223372036854775807"

definition time_sub :: "time \<Rightarrow> time \<Rightarrow> duration" where
  "time_sub t u = max minDuration (min maxDuration (t - u))"

lemma time_sub_less_iff: "minDuration < d \<Longrightarrow> d \<le> maxDuration \<Longrightarrow> time_sub t u < d \<longleftrightarrow> t - u < d"
  by (auto simp: time_sub_def)

lemma time_sub_self [simp]: "time_sub t t = 0"
  by (simp add: time_sub_def)

text \<open>Go's integer division truncates towards zero; arithmetic on 64-bit integers wraps.\<close>

definition quot :: "int \<Rightarrow> int \<Rightarrow> int" where
  "quot a b = sgn a * sgn b * (\<bar>a\<bar> div \<bar>b\<bar>)"

lemma quot_nonneg: "0 \<le> a \<Longrightarrow> 0 < b \<Longrightarrow> quot a b = a div b"
  by (cases "a = 0") (simp_all add: quot_def)

definition wrap64 :: "int \<Rightarrow> int" where
  "wrap64 x = (x + 9223372036854775808) mod 18446744073709551616 - 9223372036854775808"

lemma wrap64_id: "minDuration \<le> x \<Longrightarrow> x \<le> maxDuration \<Longrightarrow> wrap64 x = x"
  by (simp add: wrap64_def)

subsection \<open>The state monad, loops, and two program logics\<close>

definition wp :: "('s, 'a) state \<Rightarrow> ('a \<Rightarrow> 's \<Rightarrow> bool) \<Rightarrow> 's \<Rightarrow> bool" where
  "wp c Q s = (case run_state c s of (a, s') \<Rightarrow> Q a s')"

lemma wp_return [wp]: "wp (State_Monad.return a) Q s = Q a s"
  by (simp add: wp_def)

lemma wp_bind [wp]: "wp (State_Monad.bind c f) Q s = wp c (\<lambda>a. wp (f a) Q) s"
  by (simp add: wp_def split: prod.splits)

lemma wp_get [wp]: "wp State_Monad.get Q s = Q s s"
  by (simp add: wp_def)

lemma wp_set [wp]: "wp (State_Monad.set t) Q s = Q () t"
  by (simp add: wp_def)

lemma wp_if [wp]: "wp (if b then c else d) Q s = (if b then wp c Q s else wp d Q s)"
  by simp

lemma wp_case_option [wp]:
  "wp (case x of None \<Rightarrow> c | Some y \<Rightarrow> f y) Q s =
     (case x of None \<Rightarrow> wp c Q s | Some y \<Rightarrow> wp (f y) Q s)"
  by (simp split: option.splits)

lemma wp_case_sum [wp]:
  "wp (case x of Inl e \<Rightarrow> c e | Inr y \<Rightarrow> f y) Q s =
     (case x of Inl e \<Rightarrow> wp (c e) Q s | Inr y \<Rightarrow> wp (f y) Q s)"
  by (simp split: sum.splits)

lemma wp_case_prod [wp]:
  "wp (case x of (a, b) \<Rightarrow> f a b) Q s = (case x of (a, b) \<Rightarrow> wp (f a b) Q s)"
  by (simp split: prod.splits)

lemma wp_mono: "wp c Q s \<Longrightarrow> (\<And>a s'. Q a s' \<Longrightarrow> R a s') \<Longrightarrow> wp c R s"
  by (auto simp: wp_def split: prod.splits)

lemma wp_conj: "wp c (\<lambda>a s'. Q a s' \<and> R a s') s \<longleftrightarrow> wp c Q s \<and> wp c R s"
  by (simp add: wp_def split: prod.splits)

text \<open>
  \<open>guar R c\<close>: whatever the start state, running \<open>c\<close> relates it to the final state by
  \<open>R\<close>. For a reflexive and transitive \<open>R\<close> this composes along the program text.
\<close>

definition guar :: "('s \<Rightarrow> 's \<Rightarrow> bool) \<Rightarrow> ('s, 'a) state \<Rightarrow> bool" where
  "guar R c \<longleftrightarrow> (\<forall>s. R s (snd (run_state c s)))"

lemma guarD: "guar R c \<Longrightarrow> R s (snd (run_state c s))"
  by (simp add: guar_def)

lemma guar_wp: "guar R c \<longleftrightarrow> (\<forall>s. wp c (\<lambda>_. R s) s)"
  by (simp add: guar_def wp_def case_prod_beta)

lemma guar_return [guar]: "reflp R \<Longrightarrow> guar R (State_Monad.return a)"
  by (simp add: guar_def reflpD)

lemma guar_get [guar]: "reflp R \<Longrightarrow> guar R State_Monad.get"
  by (simp add: guar_def reflpD)

lemma guar_bind [guar]:
  "transp R \<Longrightarrow> guar R c \<Longrightarrow> (\<And>a. guar R (f a)) \<Longrightarrow> guar R (State_Monad.bind c f)"
  unfolding guar_def by (simp add: case_prod_beta) (meson transpD)

lemma guar_if [guar]: "guar R c \<Longrightarrow> guar R d \<Longrightarrow> guar R (if b then c else d)"
  by simp

lemma guar_case_option [guar]:
  "guar R c \<Longrightarrow> (\<And>y. guar R (f y)) \<Longrightarrow> guar R (case x of None \<Rightarrow> c | Some y \<Rightarrow> f y)"
  by (simp split: option.splits)

lemma guar_case_sum [guar]:
  "(\<And>e. guar R (c e)) \<Longrightarrow> (\<And>y. guar R (f y)) \<Longrightarrow>
     guar R (case x of Inl e \<Rightarrow> c e | Inr y \<Rightarrow> f y)"
  by (simp split: sum.splits)

lemma guar_case_prod [guar]:
  "(\<And>a b. guar R (f a b)) \<Longrightarrow> guar R (case x of (a, b) \<Rightarrow> f a b)"
  by (simp split: prod.splits)

lemma guar_case_prod_app: "(\<And>a b. guar R (f a b x)) \<Longrightarrow> guar R ((case p of (a, b) \<Rightarrow> f a b) x)"
  by (simp split: prod.splits)

lemma guar_case_bool: "guar R c \<Longrightarrow> guar R d \<Longrightarrow> guar R (case b of True \<Rightarrow> c | False \<Rightarrow> d)"
  by (simp split: bool.splits)

lemma guar_mono: "guar R c \<Longrightarrow> R \<le> S \<Longrightarrow> guar S c"
  by (auto simp: guar_def)

text \<open>A \<open>for ... range\<close> loop: run for its effect, and with an accumulator.\<close>

primrec for_each :: "'a list \<Rightarrow> ('a \<Rightarrow> ('s, unit) state) \<Rightarrow> ('s, unit) state" where
  "for_each [] f = State_Monad.return ()"
| "for_each (x # xs) f = State_Monad.bind (f x) (\<lambda>_. for_each xs f)"

primrec for_acc :: "'b \<Rightarrow> 'a list \<Rightarrow> ('b \<Rightarrow> 'a \<Rightarrow> ('s, 'b) state) \<Rightarrow> ('s, 'b) state" where
  "for_acc acc [] f = State_Monad.return acc"
| "for_acc acc (x # xs) f = State_Monad.bind (f acc x) (\<lambda>acc'. for_acc acc' xs f)"

lemma guar_for_each [guar]:
  assumes "reflp R" "transp R" "\<And>x. x \<in> set xs \<Longrightarrow> guar R (f x)"
  shows "guar R (for_each xs f)"
  using assms(3) by (induction xs) (auto intro!: guar assms(1,2))

lemma guar_for_acc [guar]:
  assumes "reflp R" "transp R" "\<And>acc x. x \<in> set xs \<Longrightarrow> guar R (f acc x)"
  shows "guar R (for_acc acc xs f)"
  using assms(3) by (induction xs arbitrary: acc) (auto intro!: guar assms(1,2))

lemma wp_for_acc_inv:
  assumes "I acc s"
    and "\<And>acc x s. x \<in> set xs \<Longrightarrow> I acc s \<Longrightarrow> wp (f acc x) I s"
  shows "wp (for_acc acc xs f) I s"
  using assms
proof (induction xs arbitrary: acc s)
  case (Cons x xs)
  have "wp (f acc x) I s" using Cons.prems by simp
  then show ?case
    using Cons.IH Cons.prems(2) by (auto simp: wp intro: wp_mono)
qed (simp add: wp)

lemma sort_key_eq_Nil [simp]: "sort_key f xs = [] \<longleftrightarrow> xs = []"
  by (metis length_0_conv length_sort)

lemma sort_key_snoc: "(\<And>y. y \<in> set xs \<Longrightarrow> f y \<le> f x) \<Longrightarrow> sort_key f (xs @ [x]) = sort_key f xs @ [x]"
proof (induction xs)
  case (Cons a xs)
  have "insort_key f a (ys @ [x]) = insort_key f a ys @ [x]" for ys
    using Cons.prems [of a] by (induction ys) simp_all
  with Cons show ?case by simp
qed simp

lemma find_SomeD: "find p xs = Some x \<Longrightarrow> x \<in> set xs \<and> p x"
  by (induction xs) (auto split: if_splits)

subsection \<open>Decimal text\<close>

text \<open>\<open>strconv.Itoa\<close> and the verb \<open>%d\<close>.\<close>

fun dec_digits :: "nat \<Rightarrow> string" where
  "dec_digits n = (if n < 10 then [char_of (48 + n)]
     else dec_digits (n div 10) @ [char_of (48 + n mod 10)])"

declare dec_digits.simps [simp del]

definition itoa :: "int \<Rightarrow> string" where
  "itoa i = (if i < 0 then CHR ''-'' # dec_digits (nat (- i)) else dec_digits (nat i))"

definition dec_value :: "string \<Rightarrow> nat" where
  "dec_value = foldl (\<lambda>v c. 10 * v + (of_char c - 48)) 0"

lemma dec_value_digits [simp]: "dec_value (dec_digits n) = n"
proof (induction n rule: dec_digits.induct)
  case (1 n)
  show ?case
  proof (cases "n < 10")
    case True
    then show ?thesis by (subst dec_digits.simps) (simp add: dec_value_def)
  next
    case False
    then show ?thesis using 1 by (subst dec_digits.simps) (simp add: dec_value_def)
  qed
qed

lemma dec_digits_hd: "hd (dec_digits n) \<noteq> CHR ''-'' \<and> dec_digits n \<noteq> []"
proof (induction n rule: dec_digits.induct)
  case (1 n)
  show ?case
  proof (cases "n < 10")
    case True
    have "char_of (48 + n) \<noteq> (CHR ''-'' :: char)"
    proof
      assume "char_of (48 + n) = CHR ''-''"
      then have "(of_char (char_of (48 + n)) :: nat) = of_char (CHR ''-'')" by (rule arg_cong)
      then show False using True by simp
    qed
    with True show ?thesis by (subst (1 2) dec_digits.simps) simp
  next
    case False
    with 1 show ?thesis by (subst (1 2) dec_digits.simps) simp
  qed
qed

lemma itoa_inject [simp]: "itoa i = itoa j \<longleftrightarrow> i = j"
proof
  assume eq: "itoa i = itoa j"
  have digits: "nat a = nat b" if "dec_digits (nat a) = dec_digits (nat b)" for a b
    using arg_cong [OF that, of dec_value] by simp
  have "\<not> (i < 0 \<and> j \<ge> 0)" "\<not> (j < 0 \<and> i \<ge> 0)"
    using eq dec_digits_hd [of "nat i"] dec_digits_hd [of "nat j"] by (auto simp: itoa_def)
       (metis list.sel(1))+
  with eq digits [of i j] digits [of "- i" "- j"] show "i = j"
    by (auto simp: itoa_def split: if_splits)
qed simp

subsection \<open>SQL statements over lists of rows\<close>

definition sql_update :: "('r \<Rightarrow> bool) \<Rightarrow> ('r \<Rightarrow> 'r) \<Rightarrow> 'r list \<Rightarrow> 'r list" where
  [sqldefs]: "sql_update p f rows = map (\<lambda>r. if p r then f r else r) rows"

definition sql_delete :: "('r \<Rightarrow> bool) \<Rightarrow> 'r list \<Rightarrow> 'r list" where
  [sqldefs]: "sql_delete p rows = filter (\<lambda>r. \<not> p r) rows"

lemma set_sql_update: "set (sql_update p f rows) = (\<lambda>r. if p r then f r else r) ` set rows"
  by (simp add: sql_update_def)

lemma sql_update_key:
  "(\<And>r. k (f r) = k r) \<Longrightarrow> map k (sql_update p f rows) = map k rows"
  by (auto simp: sql_update_def)

lemma sql_update_none: "(\<And>r. r \<in> set rows \<Longrightarrow> \<not> p r) \<Longrightarrow> sql_update p f rows = rows"
  by (auto simp: sql_update_def intro: map_idI)

lemma distinct_key_unique:
  "distinct (map k rows) \<Longrightarrow> r \<in> set rows \<Longrightarrow> r' \<in> set rows \<Longrightarrow> k r = k r' \<Longrightarrow> r = r'"
  by (auto simp: distinct_map inj_on_def)

lemma distinct_map_filter: "distinct (map k rows) \<Longrightarrow> distinct (map k (filter p rows))"
  by (induction rows) auto

lemma filter_one_by_key:
  "distinct (map k rows) \<Longrightarrow> r \<in> set rows \<Longrightarrow> p r \<Longrightarrow>
     (\<And>r'. r' \<in> set rows \<Longrightarrow> p r' \<Longrightarrow> k r' = k r) \<Longrightarrow> filter p rows = [r]"
proof (induction rows)
  case (Cons x rows)
  show ?case
  proof (cases "x = r")
    case True
    have "\<not> p y" if "y \<in> set rows" for y
    proof
      assume "p y"
      then have "k y = k x" using Cons.prems(4) that True by simp
      then have "k x \<in> k ` set rows" using that by (metis imageI)
      then show False using Cons.prems(1) by simp
    qed
    then have "filter p rows = []" by (simp add: filter_empty_conv)
    with True Cons.prems(3) show ?thesis by simp
  next
    case False
    then have "r \<in> set rows" using Cons.prems by simp
    moreover have "\<not> p x"
    proof
      assume "p x"
      then have "k x = k r" using Cons.prems(4) by simp
      then have "k x \<in> k ` set rows" using \<open>r \<in> set rows\<close> by (metis imageI)
      then show False using Cons.prems(1) by simp
    qed
    moreover have "filter p rows = [r]"
    proof (rule Cons.IH)
      show "distinct (map k rows)" using Cons.prems(1) by simp
      show "k r' = k r" if "r' \<in> set rows" "p r'" for r'
        using that by (intro Cons.prems(4)) simp_all
    qed (fact \<open>r \<in> set rows\<close>, fact Cons.prems(3))
    ultimately show ?thesis by simp
  qed
qed simp

subsection \<open>Faults of database calls\<close>

text \<open>
  A statement sent to PostgreSQL either succeeds, fails without effect, or fails from the
  caller's point of view after its effect was applied (the reply was lost). Every call
  of a program consumes one entry of a schedule that also says how much time passes
  before it; an exhausted schedule means no fault and no delay.
\<close>

datatype fault = NoFault | FailClean | FailApplied

end
