(* ===== verification/Store.thy ===== *)
theory Store
  imports Prelude Complex_Main
begin

text \<open>
  The rows the modelled components keep in PostgreSQL and the world they run in. A table
  is a list of rows in the order of insertion; every SQL statement of the source becomes
  a function on the record of tables, run through \<open>sql\<close>, which takes the next entry of
  the fault schedule and the database clock (\<open>now()\<close>) of that statement. Identity columns
  draw from a counter per table.
\<close>

subsection \<open>Uptime rows\<close>

text \<open>
  \<open>uptime.Monitor\<close>. \<open>RegionCount\<close>, \<open>Regions\<close> and \<open>ChannelIDs\<close> are filled by the queries that
  join the other tables and are zero in a row of the table; the last three fields are
  columns that only SQL reads (\<open>ssl_alerted_days\<close> is \<open>SSLAlertedDays\<close>, filled by
  \<open>SSLCandidates\<close>).
\<close>

record monitor =
  m_id :: int
  m_project :: int
  m_name :: string
  m_kind :: string
  m_enabled :: bool
  m_interval :: int
  m_timeout :: int
  m_config :: string
  m_fail_threshold :: int
  m_recovery_threshold :: int
  m_retries :: int
  m_consensus :: string
  m_remind_every :: int
  m_ssl_alert_days :: int
  m_ssl_expires :: "time option"
  m_last_beat :: "time option"
  m_created :: time
  m_region_count :: int
  m_regions :: "string list"
  m_channels :: "int list"
  m_token_hash :: "string option"
  m_last_scheduled :: "time option"
  m_ssl_alerted :: "int list"

text \<open>\<open>uptime.State\<close>: one row per monitor and region.\<close>

record mstate =
  s_monitor :: int
  s_region :: string
  s_status :: string
  s_fails :: int
  s_oks :: int
  s_checked :: "time option"
  s_error :: string

text \<open>
  \<open>uptime.Incident\<close>, with the columns \<open>group_id\<close> and \<open>dep_released_at\<close> that the
  escalation query reads.
\<close>

record incident =
  i_id :: int
  i_monitor :: int
  i_started :: time
  i_resolved :: "time option"
  i_cause :: string
  i_regions :: "string list"
  i_in_maintenance :: bool
  i_notified_open :: bool
  i_notified_close :: bool
  i_last_reminded :: "time option"
  i_suppressed :: bool
  i_acked_at :: "time option"
  i_acked_by :: "int option"
  i_severity :: string
  i_level :: int
  i_last_escalated :: "time option"
  i_notify_failed :: bool
  i_notify_attempts :: int
  i_notify_channels :: "int list"
  i_group :: "int option"
  i_dep_released :: "time option"

record queue_row =
  q_id :: int
  q_monitor :: int
  q_region :: string
  q_due :: time
  q_leased_by :: "int option"
  q_lease_until :: "time option"

record probe =
  p_id :: int
  p_org :: int
  p_region :: string
  p_name :: string
  p_token_hash :: string
  p_last_seen :: "time option"
  p_revoked :: bool
  p_created :: time

text \<open>A row of \<open>maintenance_windows\<close>; times of day are microseconds (\<open>pgtype.Time\<close>).\<close>

record window_row =
  wr_id :: int
  wr_project :: int
  wr_name :: string
  wr_weekly :: bool
  wr_starts :: "time option"
  wr_ends :: "time option"
  wr_weekday :: "int option"
  wr_start_time :: "int option"
  wr_end_time :: "int option"
  wr_timezone :: string

subsection \<open>Hosts and dependencies\<close>

text \<open>
  \<open>host.Host\<close> (an absent \<open>agent_version\<close> is the empty text, as it is read), the thresholds of
  hosts, and \<open>depsuppress.Edge\<close>, a row of \<open>alert_dependencies\<close>. Go's \<open>float64\<close> values are
  rationals: the code only compares, scales and divides them, and the model does not round.
\<close>

record host_row =
  h_id :: int
  h_project :: int
  h_name :: string
  h_first_seen :: time
  h_last_seen :: time
  h_agent :: string
  h_env :: string
  h_role :: string

text \<open>\<open>host.Settings\<close> and \<open>host.ThresholdOverride\<close>, whose unset fields inherit.\<close>

record host_settings =
  hs_DiskEnabled :: bool
  hs_DiskThreshold :: rat
  hs_MemoryEnabled :: bool
  hs_MemoryThreshold :: rat
  hs_LoadEnabled :: bool
  hs_LoadThreshold :: rat
  hs_SilentEnabled :: bool
  hs_SilentAfter :: duration

record threshold_override =
  to_DiskEnabled :: "bool option"
  to_DiskThreshold :: "rat option"
  to_MemoryEnabled :: "bool option"
  to_MemoryThreshold :: "rat option"
  to_LoadEnabled :: "bool option"
  to_LoadThreshold :: "rat option"
  to_SilentEnabled :: "bool option"
  to_SilentAfter :: "duration option"

record dep_edge =
  de_ID :: int
  de_ProjectID :: int
  de_ParentHostID :: "int option"
  de_ParentMonitorID :: "int option"
  de_ChildHostID :: "int option"
  de_ChildMonitorID :: "int option"
  de_ChildLabelScope :: "string option"
  de_ChildLabelValue :: "string option"

subsection \<open>Incidents of the other sources\<close>

text \<open>
  The columns that \<open>host_incidents\<close>, \<open>metric_incidents\<close> and \<open>slo_incidents\<close> share, and the
  rows of the three tables (\<open>host.Incident\<close>, \<open>metric.Incident\<close>, \<open>slo.Incident\<close>). A group of
  incidents is a row of \<open>incident_groups\<close> (\<open>incidentgroup.Group\<close>).
\<close>

record alert_incident =
  a_id :: int
  a_project :: int
  a_status :: string
  a_started :: time
  a_resolved :: "time option"
  a_in_maintenance :: bool
  a_notified_open :: bool
  a_notified_close :: bool
  a_acked_at :: "time option"
  a_acked_by :: "int option"
  a_severity :: string
  a_level :: int
  a_last_escalated :: "time option"
  a_group :: "int option"

record host_incident = alert_incident +
  hi_host :: int
  hi_kind :: string
  hi_current :: rat
  hi_peak :: rat
  hi_detail :: string
  hi_suppressed :: bool
  hi_dep_released :: "time option"

record metric_incident = alert_incident +
  mi_rule :: int
  mi_current :: rat
  mi_peak :: rat

record slo_incident = alert_incident +
  si_slo :: int
  si_burn :: rat
  si_budget :: "rat option"

record metric_rule =
  mr_ID :: int
  mr_ProjectID :: int
  mr_MetricName :: string
  mr_Aggregation :: string
  mr_Comparator :: string
  mr_Threshold :: rat
  mr_WindowSeconds :: int
  mr_Environment :: string
  mr_LabelKey :: string
  mr_LabelValue :: string
  mr_Enabled :: bool
  mr_Severity :: string
  mr_CreatedAt :: time

record slo_row =
  sl_ID :: int
  sl_ProjectID :: int
  sl_Name :: string
  sl_Kind :: string
  sl_Target :: rat
  sl_WindowDays :: int
  sl_Transaction :: string
  sl_Environment :: string
  sl_ThresholdMS :: int
  sl_MonitorID :: "int option"
  sl_BurnThreshold :: rat
  sl_BurnLongMin :: int
  sl_BurnShortMin :: int
  sl_Enabled :: bool
  sl_CreatedAt :: time
  sl_UpdatedAt :: time

record group_row =
  g_ID :: int
  g_ProjectID :: int
  g_RootSource :: string
  g_RootIncidentID :: int
  g_RootNodeKind :: string
  g_RootNodeID :: int
  g_StartedAt :: time
  g_ResolvedAt :: "time option"

subsection \<open>Escalation and notification rows\<close>

record esc_row =
  e_source :: string
  e_incident :: int
  e_channel :: int
  e_step :: int
  e_sent_at :: time

record logfail_row =
  f_source :: string
  f_incident :: int
  f_step :: int
  f_attempts :: int
  f_last :: time

record step_row =
  st_id :: int
  st_project :: int
  st_severity :: string
  st_no :: int
  st_delay :: int

record channel_row =
  c_id :: int
  c_project :: int
  c_kind :: string
  c_enabled :: bool
  c_target :: string
  c_secret :: string
  c_trusted :: bool

text \<open>Payload values: the JSON scalars and lists the notifiers put in.\<close>

datatype jval = JStr string | JInt int | JNum rat | JBool bool | JList "string list"

type_synonym payload = "(string \<times> jval) list"

record outbox_row =
  o_id :: int
  o_channel :: int
  o_payload :: payload
  o_status :: string
  o_attempts :: int
  o_error :: string
  o_next_retry :: time
  o_created :: time
  o_sent_at :: "time option"
  o_key :: "string option"

subsection \<open>The database and the world\<close>

record db =
  t_monitors :: "monitor list"
  t_monitor_seq :: int
  t_monitor_regions :: "(int \<times> string) list"
  t_monitor_channels :: "(int \<times> int) list"
  t_monitor_state :: "mstate list"
  t_incidents :: "incident list"
  t_incident_seq :: int
  t_groups :: "group_row list"
  t_group_seq :: int
  t_queue :: "queue_row list"
  t_queue_seq :: int
  t_projects :: "(int \<times> int) list"
  t_probes :: "probe list"
  t_probe_seq :: int
  t_windows :: "window_row list"
  t_window_seq :: int
  t_esc :: "esc_row list"
  t_logfail :: "logfail_row list"
  t_steps :: "step_row list"
  t_step_seq :: int
  t_step_channels :: "(int \<times> int) list"
  t_channels :: "channel_row list"
  t_outbox :: "outbox_row list"
  t_outbox_seq :: int
  t_source_incidents :: "(string \<times> int \<times> time option) list"
  t_hosts :: "host_row list"
  t_host_seq :: int
  t_host_settings :: "(int \<times> host_settings) list"
  t_host_overrides :: "(int \<times> threshold_override) list"
  t_host_group_thresholds :: "((int \<times> string \<times> string) \<times> threshold_override) list"
  t_host_incidents :: "host_incident list"
  t_host_incident_seq :: int
  t_metric_rules :: "metric_rule list"
  t_metric_rule_seq :: int
  t_metric_incidents :: "metric_incident list"
  t_metric_incident_seq :: int
  t_slos :: "slo_row list"
  t_slo_seq :: int
  t_slo_incidents :: "slo_incident list"
  t_slo_incident_seq :: int
  t_deps :: "dep_edge list"
  t_dep_seq :: int

text \<open>
  \<open>t_projects\<close> pairs a project with its organization, and \<open>t_source_incidents\<close> is the
  union of the two incident tables whose packages are not modelled (\<open>perf_regressions\<close> and
  \<open>profile_regressions\<close>): source name, id, \<open>resolved_at\<close>. The threshold tables of hosts pair
  their key (project; host; project, scope and label) with the thresholds.
\<close>

definition empty_db :: db where
  "empty_db = \<lparr>t_monitors = [], t_monitor_seq = 1, t_monitor_regions = [], t_monitor_channels = [],
     t_monitor_state = [], t_incidents = [], t_incident_seq = 1, t_groups = [], t_group_seq = 1, t_queue = [],
     t_queue_seq = 1, t_projects = [], t_probes = [], t_probe_seq = 1, t_windows = [], t_window_seq = 1,
     t_esc = [], t_logfail = [], t_steps = [], t_step_seq = 1, t_step_channels = [],
     t_channels = [], t_outbox = [], t_outbox_seq = 1, t_source_incidents = [],
     t_hosts = [], t_host_seq = 1, t_host_settings = [], t_host_overrides = [], t_host_group_thresholds = [],
     t_host_incidents = [], t_host_incident_seq = 1, t_metric_rules = [], t_metric_rule_seq = 1,
     t_metric_incidents = [], t_metric_incident_seq = 1, t_slos = [], t_slo_seq = 1, t_slo_incidents = [],
     t_slo_incident_seq = 1, t_deps = [], t_dep_seq = 1\<rparr>"

record world =
  db :: db
  sched :: "(fault \<times> nat) list"
  pg_now :: time
  go_now :: time

text \<open>A world whose calls meet no fault and take no time.\<close>

definition calm :: "time \<Rightarrow> db \<Rightarrow> world" where
  "calm t d = \<lparr>db = d, sched = [], pg_now = t, go_now = t\<rparr>"

lemma calm_simps [simp]:
  "db (calm t d) = d" "sched (calm t d) = []" "pg_now (calm t d) = t" "go_now (calm t d) = t"
  "(calm t d)\<lparr>db := d'\<rparr> = calm t d'"
  by (simp_all add: calm_def)

type_synonym 'a prog = "(world, 'a) state"

text \<open>A call whose result is not used.\<close>

abbreviation ignore :: "'a prog \<Rightarrow> unit prog" where
  "ignore p \<equiv> State_Monad.bind p (\<lambda>_. State_Monad.return ())"

text \<open>The next entry of the schedule; both clocks move on by its delay.\<close>

definition advance :: "world \<Rightarrow> fault \<times> world" where
  "advance w =
     (case sched w of
        [] \<Rightarrow> (NoFault, w)
      | (f, dt) # rest \<Rightarrow>
          (f, w\<lparr>sched := rest, pg_now := pg_now w + int dt, go_now := go_now w + int dt\<rparr>))"

definition sql :: "(time \<Rightarrow> db \<Rightarrow> 'a \<times> db) \<Rightarrow> 'a result prog" where
  "sql q = State (\<lambda>w.
     (case advance w of (f, w') \<Rightarrow>
       (case q (pg_now w') (db w) of (a, d') \<Rightarrow>
         (case f of
            NoFault \<Rightarrow> (Inr a, w'\<lparr>db := d'\<rparr>)
          | FailClean \<Rightarrow> (Inl ErrDB, w')
          | FailApplied \<Rightarrow> (Inl ErrDB, w'\<lparr>db := d'\<rparr>)))))"

text \<open>A query that only reads.\<close>

definition sql_read :: "(time \<Rightarrow> db \<Rightarrow> 'a) \<Rightarrow> 'a result prog" where
  "sql_read q = sql (\<lambda>t d. (q t d, d))"

text \<open>\<open>time.Now()\<close> of the Go process.\<close>

definition time_now :: "time prog" where
  "time_now = State (\<lambda>w. (go_now w, w))"

lemma db_advance [simp]: "db (snd (advance w)) = db w"
  by (auto simp: advance_def split: list.splits)

lemma advance_db: "advance w = (f, w') \<Longrightarrow> db w' = db w"
  by (metis db_advance snd_conv)

lemma advance_clock: "advance w = (f, w') \<Longrightarrow> pg_now w \<le> pg_now w'"
  by (auto simp: advance_def split: list.splits)

lemma advance_no_sched [simp]: "sched w = [] \<Longrightarrow> advance w = (NoFault, w)"
  by (simp add: advance_def)

lemma run_sql_no_sched [simp]:
  "sched w = [] \<Longrightarrow> run_state (sql q) w =
     (Inr (fst (q (pg_now w) (db w))), w\<lparr>db := snd (q (pg_now w) (db w))\<rparr>)"
  by (simp add: sql_def case_prod_beta)

lemma run_sql_read_no_sched [simp]:
  "sched w = [] \<Longrightarrow> run_state (sql_read q) w = (Inr (q (pg_now w) (db w)), w)"
  by (simp add: sql_read_def)

lemma run_time_now [simp]: "run_state time_now w = (go_now w, w)"
  by (simp add: time_now_def)

lemma wp_time_now [wp]: "wp time_now Q w = Q (go_now w) w"
  by (simp add: wp_def)

text \<open>
  The rule for a statement: whatever the schedule says, either the statement took effect
  (and the caller may or may not know) or the tables are as they were and it failed.
\<close>

lemma wp_sqlI:
  assumes "\<And>t w'. pg_now w \<le> t \<Longrightarrow> db w' = snd (q t (db w)) \<Longrightarrow> Q (Inr (fst (q t (db w)))) w'"
    and "\<And>t w'. pg_now w \<le> t \<Longrightarrow> db w' = snd (q t (db w)) \<Longrightarrow> Q (Inl ErrDB) w'"
    and "\<And>w'. db w' = db w \<Longrightarrow> Q (Inl ErrDB) w'"
  shows "wp (sql q) Q w"
proof -
  obtain f w' where a: "advance w = (f, w')" by (cases "advance w")
  have eq: "db w' = db w" and le: "pg_now w \<le> pg_now w'"
    using advance_db [OF a] advance_clock [OF a] by simp_all
  show ?thesis
    using assms(1) [OF le] assms(2) [OF le] assms(3) [OF eq]
    by (cases f) (simp_all add: wp_def sql_def a case_prod_beta)
qed

text \<open>The same, with what the schedule says: faults only when it is not empty.\<close>

lemma wp_sql_schedI:
  assumes "\<And>t w'. db w' = snd (q t (db w)) \<Longrightarrow> (sched w = [] \<Longrightarrow> sched w' = []) \<Longrightarrow> Q (Inr (fst (q t (db w)))) w'"
    and "\<And>t w'. sched w \<noteq> [] \<Longrightarrow> db w' = snd (q t (db w)) \<Longrightarrow> Q (Inl ErrDB) w'"
    and "\<And>w'. sched w \<noteq> [] \<Longrightarrow> db w' = db w \<Longrightarrow> Q (Inl ErrDB) w'"
  shows "wp (sql q) Q w"
proof (cases "sched w = []")
  case True
  then show ?thesis using assms(1) [of "w\<lparr>db := snd (q (pg_now w) (db w))\<rparr>" "pg_now w"] by (simp add: wp_def)
next
  case False
  then show ?thesis using assms by (intro wp_sqlI) auto
qed

text \<open>The same as a case distinction on the run.\<close>

lemma run_sql_cases:
  obtains (ok) t w' where "run_state (sql q) w = (Inr (fst (q t (db w))), w')" "db w' = snd (q t (db w))"
  | (lost) t w' where "run_state (sql q) w = (Inl ErrDB, w')" "db w' = snd (q t (db w))"
  | (clean) w' where "run_state (sql q) w = (Inl ErrDB, w')" "db w' = db w"
proof -
  have "wp (sql q) (\<lambda>r w'. (\<exists>t. r = Inr (fst (q t (db w))) \<and> db w' = snd (q t (db w))) \<or>
      (\<exists>t. r = Inl ErrDB \<and> db w' = snd (q t (db w))) \<or> (r = Inl ErrDB \<and> db w' = db w)) w"
    by (rule wp_sqlI) blast+
  then show ?thesis
    using that by (cases "run_state (sql q) w") (auto simp: wp_def)
qed

lemma wp_sql_readI:
  assumes "\<And>t w'. pg_now w \<le> t \<Longrightarrow> db w' = db w \<Longrightarrow> Q (Inr (q t (db w))) w'"
    and "\<And>w'. db w' = db w \<Longrightarrow> Q (Inl ErrDB) w'"
  shows "wp (sql_read q) Q w"
  unfolding sql_read_def by (rule wp_sqlI) (simp_all add: assms)

lemma wp_sql_read_schedI:
  assumes "\<And>t w'. db w' = db w \<Longrightarrow> (sched w = [] \<Longrightarrow> sched w' = []) \<Longrightarrow> Q (Inr (q t (db w))) w'"
    and "\<And>w'. sched w \<noteq> [] \<Longrightarrow> db w' = db w \<Longrightarrow> Q (Inl ErrDB) w'"
  shows "wp (sql_read q) Q w"
  unfolding sql_read_def by (rule wp_sql_schedI) (simp_all add: assms)

text \<open>What a query returned is what the tables held.\<close>

lemma read_value: "run_state (sql_read (\<lambda>_. q)) w = (Inr a, w') \<Longrightarrow> a = q (db w)"
  unfolding sql_read_def by (cases rule: run_sql_cases [of "\<lambda>_ d. (q d, d)" w]) auto

subsection \<open>Guarantees about the tables\<close>

definition on_db :: "(db \<Rightarrow> db \<Rightarrow> bool) \<Rightarrow> world \<Rightarrow> world \<Rightarrow> bool" where
  "on_db R w w' = R (db w) (db w')"

lemma reflp_on_db [guar]: "reflp R \<Longrightarrow> reflp (on_db R)"
  by (auto simp: on_db_def reflp_def)

lemma transp_on_db [guar]: "transp R \<Longrightarrow> transp (on_db R)"
  unfolding transp_def on_db_def by blast

lemma guar_sql [guar]:
  assumes "reflp R" and "\<And>t d. R d (snd (q t d))"
  shows "guar (on_db R) (sql q)"
  unfolding guar_wp on_db_def
  by (auto intro!: wp_sqlI simp: assms(2) reflpD [OF assms(1)])

lemma guar_sql_read [guar]: "reflp R \<Longrightarrow> guar (on_db R) (sql_read q)"
  unfolding sql_read_def by (rule guar_sql) (simp_all add: reflpD)

lemma guar_time_now [guar]: "reflp R \<Longrightarrow> guar (on_db R) time_now"
  by (simp add: guar_def on_db_def reflpD)

text \<open>An invariant of the tables as a guarantee.\<close>

definition inv_rel :: "('d \<Rightarrow> bool) \<Rightarrow> 'd \<Rightarrow> 'd \<Rightarrow> bool" where
  "inv_rel I d d' \<longleftrightarrow> (I d \<longrightarrow> I d')"

lemma reflp_inv_rel [guar]: "reflp (inv_rel I)"
  by (simp add: reflp_def inv_rel_def)

lemma transp_inv_rel [guar]: "transp (inv_rel I)"
  by (auto simp: transp_def inv_rel_def)

text \<open>A projection of the tables that does not change.\<close>

definition same_rel :: "('d \<Rightarrow> 'b) \<Rightarrow> 'd \<Rightarrow> 'd \<Rightarrow> bool" where
  "same_rel v d d' \<longleftrightarrow> v d' = v d"

lemma reflp_same_rel [guar]: "reflp (same_rel v)"
  by (simp add: reflp_def same_rel_def)

lemma transp_same_rel [guar]: "transp (same_rel v)"
  by (auto simp: transp_def same_rel_def)

subsection \<open>A small installation\<close>

text \<open>
  One organization with one project, a monitor in one region with a leased check, two
  channels and an open incident whose first page went out: the concrete database on which
  the properties of the components are evaluated.
\<close>

definition ex_monitor :: monitor where
  "ex_monitor = \<lparr>m_id = 1, m_project = 1, m_name = ''api'', m_kind = ''http'', m_enabled = True, m_interval = 60,
     m_timeout = 10, m_config = '''', m_fail_threshold = 2, m_recovery_threshold = 2, m_retries = 1,
     m_consensus = ''majority'', m_remind_every = 0, m_ssl_alert_days = 14, m_ssl_expires = None, m_last_beat = None,
     m_created = 0, m_region_count = 0, m_regions = [], m_channels = [], m_token_hash = None,
     m_last_scheduled = None, m_ssl_alerted = []\<rparr>"

definition ex_incident :: incident where
  "ex_incident = \<lparr>i_id = 1, i_monitor = 1, i_started = 0, i_resolved = None, i_cause = ''timeout'',
     i_regions = [''local''], i_in_maintenance = False, i_notified_open = True, i_notified_close = False,
     i_last_reminded = None, i_suppressed = False, i_acked_at = None, i_acked_by = None,
     i_severity = ''critical'', i_level = 1, i_last_escalated = None, i_notify_failed = False,
     i_notify_attempts = 0, i_notify_channels = [], i_group = None, i_dep_released = None\<rparr>"

definition ex_channel :: "int \<Rightarrow> channel_row" where
  "ex_channel c = \<lparr>c_id = c, c_project = 1, c_kind = ''email'', c_enabled = True, c_target = ''ops'',
     c_secret = '''', c_trusted = False\<rparr>"

definition ex_db :: db where
  "ex_db = empty_db\<lparr>t_monitors := [ex_monitor], t_monitor_seq := 2, t_monitor_regions := [(1, ''local'')],
     t_incidents := [ex_incident], t_incident_seq := 2,
     t_queue := [\<lparr>q_id = 1, q_monitor = 1, q_region = ''local'', q_due = 0, q_leased_by = None, q_lease_until = Some 50\<rparr>],
     t_queue_seq := 2, t_projects := [(1, 1)], t_channels := [ex_channel 7, ex_channel 8]\<rparr>"

lemmas ex_defs = ex_db_def empty_db_def ex_monitor_def ex_incident_def ex_channel_def

end
