(* ===== verification/Escalation_Policy.thy ===== *)
theory Escalation_Policy
  imports Store "HOL-Library.Multiset"
begin

text \<open>
  \<open>internal/escalation/policy.go\<close>: severities, the steps of an escalation ladder, their
  validation, and the policy store that writes and reads ladders. The properties: what
  \<open>ValidateSteps\<close> accepts, that a stored ladder is read back in step order, and that no
  channel of another project enters a ladder.
\<close>

subsection \<open>Model\<close>

abbreviation SeverityCritical :: string where "SeverityCritical \<equiv> ''critical''"
abbreviation SeverityWarning :: string where "SeverityWarning \<equiv> ''warning''"

text \<open>\<open>Step\<close>; a \<open>Ladder\<close> is a list of steps.\<close>

record ladder_step =
  StepNo :: int
  DelayMinutes :: int
  ChannelIDs :: "int list"

type_synonym ladder = "ladder_step list"

definition validSeverity :: "string \<Rightarrow> bool" where
  "validSeverity severity \<longleftrightarrow> severity = SeverityCritical \<or> severity = SeverityWarning"

text \<open>The loop of \<open>ValidateSteps\<close> over the sorted copy, from position \<open>i\<close> on.\<close>

fun validate_from :: "int \<Rightarrow> ladder_step list \<Rightarrow> error option" where
  "validate_from i [] = None"
| "validate_from i (st # sts) =
     (if StepNo st \<noteq> i then Some (ErrInvalidPolicy ''step_no'')
      else if DelayMinutes st < 0 then Some (ErrInvalidPolicy ''delay_minutes'')
      else if ChannelIDs st = [] then Some (ErrInvalidPolicy ''no channels'')
      else validate_from (i + 1) sts)"

definition ValidateSteps :: "ladder_step list \<Rightarrow> error option" where
  "ValidateSteps steps =
     (if steps = [] then None else validate_from 0 (sort_key StepNo steps))"

text \<open>
  The result rows of the query of \<open>Ladder\<close>: \<open>escalation_steps LEFT JOIN
  escalation_step_channels\<close>, ordered by step and then channel (NULL last).
\<close>

definition join_channels :: "db \<Rightarrow> step_row \<Rightarrow> (int \<times> int \<times> int option) list" where
  "join_channels d s =
     (case filter (\<lambda>(sid, _). sid = st_id s) (t_step_channels d) of
        [] \<Rightarrow> [(st_no s, st_delay s, None)]
      | cs \<Rightarrow> map (\<lambda>(_, c). (st_no s, st_delay s, Some c)) cs)"

definition order_rows :: "(int \<times> int \<times> int option) list \<Rightarrow> (int \<times> int \<times> int option) list" where
  "order_rows rows =
     sort_key fst
       (sort_key (\<lambda>r. the (snd (snd r))) (filter (\<lambda>r. snd (snd r) \<noteq> None) rows)
        @ filter (\<lambda>r. snd (snd r) = None) rows)"

definition ladder_rows :: "db \<Rightarrow> int \<Rightarrow> string \<Rightarrow> (int \<times> int \<times> int option) list" where
  "ladder_rows d projectID severity =
     order_rows
       (concat (map (join_channels d)
         (filter (\<lambda>s. st_project s = projectID \<and> st_severity s = severity) (t_steps d))))"

text \<open>One iteration of the row loop of \<open>Ladder\<close>: \<open>stepIndex\<close> finds the step's entry.\<close>

definition add_row :: "ladder \<Rightarrow> int \<times> int \<times> int option \<Rightarrow> ladder" where
  "add_row l row =
     (case row of (no, delay, ch) \<Rightarrow>
       (let l' = (if \<exists>s \<in> set l. StepNo s = no then l
                  else l @ [\<lparr>StepNo = no, DelayMinutes = delay, ChannelIDs = []\<rparr>])
        in case ch of
             None \<Rightarrow> l'
           | Some c \<Rightarrow>
               map (\<lambda>s. if StepNo s = no then s\<lparr>ChannelIDs := ChannelIDs s @ [c]\<rparr> else s) l'))"

definition ladder_of_rows :: "(int \<times> int \<times> int option) list \<Rightarrow> ladder" where
  "ladder_of_rows rows = foldl add_row [] rows"

definition default_channels :: "db \<Rightarrow> int \<Rightarrow> int list" where
  "default_channels d projectID =
     sort (map c_id (filter (\<lambda>c. c_project c = projectID \<and> c_enabled c) (t_channels d)))"

definition defaultLadder :: "int \<Rightarrow> ladder result prog" where
  "defaultLadder projectID =
     do {
       r \<leftarrow> sql_read (\<lambda>_ d. default_channels d projectID);
       State_Monad.return
         (case r of
            Inl e \<Rightarrow> Inl e
          | Inr channelIDs \<Rightarrow>
              Inr [\<lparr>StepNo = 0, DelayMinutes = 0, ChannelIDs = channelIDs\<rparr>])
     }"

definition Ladder :: "int \<Rightarrow> string \<Rightarrow> ladder result prog" where
  "Ladder projectID severity =
     do {
       r \<leftarrow> sql_read (\<lambda>_ d. ladder_rows d projectID severity);
       (case r of
          Inl e \<Rightarrow> State_Monad.return (Inl e)
        | Inr rows \<Rightarrow>
            (let ladder = ladder_of_rows rows
             in if ladder = [] then defaultLadder projectID
                else State_Monad.return (Inr ladder)))
     }"

text \<open>\<open>Ladders\<close>: both severities, stopping at the first error.\<close>

definition Ladders :: "int \<Rightarrow> (string \<times> ladder) list result prog" where
  "Ladders projectID =
     for_acc (Inr []) [SeverityCritical, SeverityWarning]
       (\<lambda>out severity.
          case out of
            Inl e \<Rightarrow> State_Monad.return (Inl e)
          | Inr m \<Rightarrow>
              do {
                r \<leftarrow> Ladder projectID severity;
                State_Monad.return
                  (case r of Inl e \<Rightarrow> Inl e | Inr l \<Rightarrow> Inr (m @ [(severity, l)]))
              })"

text \<open>
  \<open>verifyChannelsBelongToProject\<close> inside the transaction: the distinct ids the steps name,
  in the order of first use, each looked up among the project's channels.
\<close>

definition step_channel_ids :: "ladder_step list \<Rightarrow> int list" where
  "step_channel_ids steps =
     foldl (\<lambda>ids c. if c \<in> set ids then ids else ids @ [c]) [] (concat (map ChannelIDs steps))"

definition verifyChannelsBelongToProject :: "db \<Rightarrow> int \<Rightarrow> ladder_step list \<Rightarrow> error option" where
  "verifyChannelsBelongToProject d projectID steps =
     (let ids = step_channel_ids steps;
          owned = map c_id (filter (\<lambda>c. c_project c = projectID \<and> c_id c \<in> set ids) (t_channels d))
      in if ids = [] then None
         else if \<forall>c \<in> set ids. c \<in> set owned then None
         else Some (ErrInvalidPolicy ''channel''))"

text \<open>\<open>DELETE FROM escalation_steps\<close>; the foreign key of the channels cascades.\<close>

definition delete_steps :: "int \<Rightarrow> string \<Rightarrow> db \<Rightarrow> db" where
  "delete_steps projectID severity d =
     (let gone = (\<lambda>s. st_project s = projectID \<and> st_severity s = severity);
          gids = map st_id (filter gone (t_steps d))
      in d\<lparr>t_steps := sql_delete gone (t_steps d),
           t_step_channels := sql_delete (\<lambda>(sid, _). sid \<in> set gids) (t_step_channels d)\<rparr>)"

text \<open>
  One iteration of the insert loop: the step takes the next identity; a duplicate channel
  in one step violates the primary key \<open>(step_id, channel_id)\<close> and fails the transaction.
\<close>

definition insert_step :: "int \<Rightarrow> string \<Rightarrow> ladder_step \<Rightarrow> db \<Rightarrow> db option" where
  "insert_step projectID severity st d =
     (let sid = t_step_seq d + 1
      in if distinct (ChannelIDs st)
         then Some (d\<lparr>t_step_seq := sid,
                     t_steps := t_steps d @
                       [\<lparr>st_id = sid, st_project = projectID, st_severity = severity,
                         st_no = StepNo st, st_delay = DelayMinutes st\<rparr>],
                     t_step_channels := t_step_channels d @ map (Pair sid) (ChannelIDs st)\<rparr>)
         else None)"

fun insert_steps :: "int \<Rightarrow> string \<Rightarrow> ladder_step list \<Rightarrow> db \<Rightarrow> db option" where
  "insert_steps projectID severity [] d = Some d"
| "insert_steps projectID severity (st # sts) d =
     (case insert_step projectID severity st d of
        None \<Rightarrow> None
      | Some d' \<Rightarrow> insert_steps projectID severity sts d')"

text \<open>The transaction of \<open>SetLadder\<close>: an error rolls the tables back.\<close>

definition set_ladder_tx :: "int \<Rightarrow> string \<Rightarrow> ladder_step list \<Rightarrow> db \<Rightarrow> unit result \<times> db" where
  "set_ladder_tx projectID severity steps d =
     (case verifyChannelsBelongToProject d projectID steps of
        Some e \<Rightarrow> (Inl e, d)
      | None \<Rightarrow>
          (case insert_steps projectID severity steps (delete_steps projectID severity d) of
             None \<Rightarrow> (Inl ErrDB, d)
           | Some d' \<Rightarrow> (Inr (), d')))"

definition SetLadder :: "int \<Rightarrow> string \<Rightarrow> ladder_step list \<Rightarrow> unit result prog" where
  "SetLadder projectID severity steps =
     (if \<not> validSeverity severity then State_Monad.return (Inl (ErrInvalidPolicy ''severity''))
      else case ValidateSteps steps of
        Some e \<Rightarrow> State_Monad.return (Inl e)
      | None \<Rightarrow>
          do {
            r \<leftarrow> sql (\<lambda>_ d. set_ladder_tx projectID severity steps d);
            State_Monad.return (case r of Inl e \<Rightarrow> Inl e | Inr r' \<Rightarrow> r')
          })"

subsection \<open>What \<open>ValidateSteps\<close> accepts\<close>

lemma validate_from_None_iff:
  "validate_from i sts = None \<longleftrightarrow>
     map StepNo sts = [i .. i + int (length sts) - 1] \<and>
     list_all (\<lambda>s. 0 \<le> DelayMinutes s \<and> ChannelIDs s \<noteq> []) sts"
proof (induction i sts rule: validate_from.induct)
  case (2 i st sts)
  have "[i .. i + int (length (st # sts)) - 1] = i # [i + 1 .. (i + 1) + int (length sts) - 1]"
    by (simp add: upto_rec1 algebra_simps)
  with 2 show ?case by auto
qed simp

lemma map_sort_key: "map f (sort_key f xs) = sort (map f xs)"
proof (rule properties_for_sort [symmetric])
  show "mset (map f (sort_key f xs)) = mset (map f xs)" by simp
  show "sorted (map f (sort_key f xs))" by simp
qed

lemma sort_upto [simp]: "sort [i..j] = [i..j]"
  by (simp add: sort_key_id_if_sorted)

lemma ValidateSteps_None_iff:
  "ValidateSteps steps = None \<longleftrightarrow>
     mset (map StepNo steps) = mset [0 .. int (length steps) - 1] \<and>
     list_all (\<lambda>s. 0 \<le> DelayMinutes s \<and> ChannelIDs s \<noteq> []) steps"
proof -
  let ?n = "int (length steps) - 1"
  have "validate_from 0 (sort_key StepNo steps) = None \<longleftrightarrow>
      sort (map StepNo steps) = [0 .. ?n] \<and>
      list_all (\<lambda>s. 0 \<le> DelayMinutes s \<and> ChannelIDs s \<noteq> []) steps"
    by (simp add: validate_from_None_iff map_sort_key list_all_iff)
  moreover have "sort (map StepNo steps) = [0 .. ?n] \<longleftrightarrow> mset (map StepNo steps) = mset [0 .. ?n]"
    by (metis mset_sort properties_for_sort sort_upto sorted_sort)
  ultimately show ?thesis by (auto simp: ValidateSteps_def)
qed

lemma ValidateSteps_sorted_nos:
  "ValidateSteps steps = None \<Longrightarrow>
     map StepNo (sort_key StepNo steps) = [0 .. int (length steps) - 1]"
  by (metis ValidateSteps_None_iff map_sort_key mset_sort properties_for_sort sort_upto sorted_sort)

subsection \<open>Sorting rows by step and channel\<close>

lemma concat_filters_if_sorted:
  assumes "sorted (map f xs)" and "f ` set xs \<subseteq> set ks" and "sorted ks" and "distinct ks"
  shows "concat (map (\<lambda>k. filter (\<lambda>x. f x = k) xs) ks) = xs"
  using assms
proof (induction ks arbitrary: xs)
  case (Cons k ks)
  obtain here rest where xs: "xs = here @ rest" and here: "\<forall>x \<in> set here. f x = k"
    and hd: "\<And>y ys. rest = y # ys \<Longrightarrow> f y \<noteq> k"
  proof (rule that [of "takeWhile (\<lambda>x. f x = k) xs" "dropWhile (\<lambda>x. f x = k) xs"])
    show "\<forall>x \<in> set (takeWhile (\<lambda>x. f x = k) xs). f x = k" by (auto dest: set_takeWhileD)
    show "f y \<noteq> k" if "dropWhile (\<lambda>x. f x = k) xs = y # ys" for y ys
      using that by (rule dropWhile_eq_Cons_conv [THEN iffD1, THEN conjunct2])
  qed simp
  have srest: "sorted (map f rest)" using Cons.prems(1) by (simp add: xs sorted_append)
  have rest: "f x \<noteq> k" if x: "x \<in> set rest" for x
  proof -
    from x obtain y ys where r: "rest = y # ys" by (cases rest) auto
    have "k < f y" using Cons.prems(2,3) hd [OF r] by (auto simp: xs r less_le)
    then show ?thesis using x r srest by (auto simp: less_le_not_le)
  qed
  have "filter (\<lambda>x. f x = k) xs = here"
    unfolding xs using here rest by (simp add: filter_empty_conv)
  moreover have "filter (\<lambda>x. f x = j) xs = filter (\<lambda>x. f x = j) rest" if "j \<in> set ks" for j
    unfolding xs using here that Cons.prems(4) by (auto simp: filter_empty_conv)
  moreover have "concat (map (\<lambda>j. filter (\<lambda>x. f x = j) rest) ks) = rest"
    using Cons.prems srest rest by (intro Cons.IH) (auto simp: xs)
  ultimately show ?case by (simp add: xs cong: map_cong)
qed simp

lemma insort_key_map:
  "(\<And>x. f (g x) = x) \<Longrightarrow> insort_key f (g x) (map g xs) = map g (insort x xs)"
  by (induction xs) auto

lemma sort_key_map_inverse: "(\<And>x. f (g x) = x) \<Longrightarrow> sort_key f (map g xs) = map g (sort xs)"
  by (induction xs) (auto simp: insort_key_map)

text \<open>The rows of one step.\<close>

abbreviation step_rows :: "ladder_step \<Rightarrow> (int \<times> int \<times> int option) list" where
  "step_rows st \<equiv> map (\<lambda>c. (StepNo st, DelayMinutes st, Some c)) (ChannelIDs st)"

abbreviation sort_channels :: "ladder_step \<Rightarrow> ladder_step" where
  "sort_channels st \<equiv> st\<lparr>ChannelIDs := sort (ChannelIDs st)\<rparr>"

lemma filter_step_rows:
  "distinct (map StepNo sts) \<Longrightarrow> st \<in> set sts \<Longrightarrow>
     filter (\<lambda>r. fst r = StepNo st) (concat (map step_rows sts)) = step_rows st"
proof (induction sts)
  case (Cons x sts)
  show ?case
  proof (cases "x = st")
    case True
    have "filter (\<lambda>r. fst r = StepNo st) (concat (map step_rows sts)) = []"
      using Cons.prems True by (auto simp: filter_empty_conv image_iff)
    with True show ?thesis by (simp add: comp_def)
  next
    case False
    with Cons.prems have "st \<in> set sts" by simp
    moreover from this Cons.prems have "StepNo x \<noteq> StepNo st" by (auto simp: image_iff)
    ultimately show ?thesis using Cons by simp
  qed
qed simp

lemma order_rows_steps:
  assumes "distinct (map StepNo steps)"
  shows "order_rows (concat (map step_rows steps)) =
           concat (map (\<lambda>st. step_rows (sort_channels st)) (sort_key StepNo steps))"
proof -
  let ?rows = "concat (map step_rows steps)"
  let ?chan = "\<lambda>r :: int \<times> int \<times> int option. the (snd (snd r))"
  let ?srt = "sort_key fst (sort_key ?chan ?rows)"
  let ?sts = "sort_key StepNo steps"
  have all_some: "\<forall>r \<in> set ?rows. snd (snd r) \<noteq> None" by auto
  then have ord: "order_rows ?rows = ?srt"
    by (simp add: order_rows_def filter_empty_conv)
  have grp: "filter (\<lambda>r. fst r = StepNo st) ?srt = step_rows (sort_channels st)"
    if "st \<in> set steps" for st
  proof -
    have "filter (\<lambda>r. fst r = StepNo st) ?srt = sort_key ?chan (filter (\<lambda>r. fst r = StepNo st) ?rows)"
      by (simp only: sort_key_stable filter_sort)
    then show ?thesis
      by (simp only: filter_step_rows [OF assms that])
        (simp add: sort_key_map_inverse [where f = ?chan and g = "\<lambda>c. (StepNo st, DelayMinutes st, Some c)"])
  qed
  have "?srt = concat (map (\<lambda>k. filter (\<lambda>r. fst r = k) ?srt) (map StepNo ?sts))"
  proof (rule concat_filters_if_sorted [symmetric])
    show "distinct (map StepNo ?sts)"
      using assms by (metis distinct_sort map_sort_key)
  qed auto
  also have "\<dots> = concat (map (\<lambda>st. filter (\<lambda>r. fst r = StepNo st) ?srt) ?sts)"
    by (simp add: comp_def)
  also have "\<dots> = concat (map (\<lambda>st. step_rows (sort_channels st)) ?sts)"
    using grp by (intro arg_cong [where f = concat] map_cong) simp_all
  finally show ?thesis using ord by simp
qed

lemma add_row_append:
  assumes "\<forall>s \<in> set l. StepNo s \<noteq> StepNo st"
  shows "foldl add_row (l @ [st]) (map (\<lambda>c. (StepNo st, dl, Some c)) cs) =
           l @ [st\<lparr>ChannelIDs := ChannelIDs st @ cs\<rparr>]"
  using assms
proof (induction cs arbitrary: st)
  case (Cons c cs)
  have "add_row (l @ [st]) (StepNo st, dl, Some c) = l @ [st\<lparr>ChannelIDs := ChannelIDs st @ [c]\<rparr>]"
    using Cons.prems by (auto simp: add_row_def intro: map_idI)
  with Cons.IH [of "st\<lparr>ChannelIDs := ChannelIDs st @ [c]\<rparr>"] Cons.prems show ?case by simp
qed simp

lemma add_rows_new_step:
  assumes "\<forall>s \<in> set l. StepNo s \<noteq> StepNo st" and "ChannelIDs st \<noteq> []"
  shows "foldl add_row l (step_rows st) = l @ [st]"
proof -
  obtain c cs where chs: "ChannelIDs st = c # cs" using assms(2) by (cases "ChannelIDs st") auto
  let ?st1 = "\<lparr>StepNo = StepNo st, DelayMinutes = DelayMinutes st, ChannelIDs = [c]\<rparr>"
  have "add_row l (StepNo st, DelayMinutes st, Some c) = l @ [?st1]"
    using assms(1) by (auto simp: add_row_def intro: map_idI)
  then have "foldl add_row l (step_rows st) = l @ [?st1\<lparr>ChannelIDs := [c] @ cs\<rparr>]"
    using add_row_append [of l ?st1 "DelayMinutes st" cs] assms(1) by (simp add: chs)
  then show ?thesis using chs by (cases st) simp
qed

lemma foldl_step_rows:
  "distinct (map StepNo (l @ sts)) \<Longrightarrow> \<forall>s \<in> set sts. ChannelIDs s \<noteq> [] \<Longrightarrow>
     foldl add_row l (concat (map step_rows sts)) = l @ sts"
proof (induction sts arbitrary: l)
  case (Cons st sts)
  have "foldl add_row l (step_rows st) = l @ [st]"
    using Cons.prems by (intro add_rows_new_step) (auto simp: image_iff)
  then show ?case using Cons.IH [of "l @ [st]"] Cons.prems by simp
qed simp

subsection \<open>The tables of the policy store\<close>

text \<open>
  The invariant of the store: step identities are unique and drawn from the counter, every
  channel entry belongs to an existing step, and the channel is one of the step's project.
\<close>

definition policy_wf :: "db \<Rightarrow> bool" where
  "policy_wf d \<longleftrightarrow>
     distinct (map st_id (t_steps d)) \<and>
     (\<forall>s \<in> set (t_steps d). st_id s \<le> t_step_seq d) \<and>
     (\<forall>(sid, c) \<in> set (t_step_channels d).
        \<exists>s \<in> set (t_steps d). st_id s = sid \<and>
          (\<exists>ch \<in> set (t_channels d). c_id ch = c \<and> c_project ch = st_project s))"

text \<open>The rows and channel entries \<open>insert_steps\<close> adds, numbered from \<open>n + 1\<close>.\<close>

primrec new_rows :: "int \<Rightarrow> string \<Rightarrow> ladder_step list \<Rightarrow> int \<Rightarrow> step_row list" where
  "new_rows p sev [] n = []"
| "new_rows p sev (st # sts) n =
     \<lparr>st_id = n + 1, st_project = p, st_severity = sev, st_no = StepNo st,
       st_delay = DelayMinutes st\<rparr> # new_rows p sev sts (n + 1)"

primrec new_channels :: "ladder_step list \<Rightarrow> int \<Rightarrow> (int \<times> int) list" where
  "new_channels [] n = []"
| "new_channels (st # sts) n = map (Pair (n + 1)) (ChannelIDs st) @ new_channels sts (n + 1)"

lemma insert_steps_Some:
  "insert_steps p sev sts d = Some d' \<Longrightarrow>
     d' = d\<lparr>t_step_seq := t_step_seq d + int (length sts),
           t_steps := t_steps d @ new_rows p sev sts (t_step_seq d),
           t_step_channels := t_step_channels d @ new_channels sts (t_step_seq d)\<rparr>"
  by (induction p sev sts d rule: insert_steps.induct)
    (auto simp: insert_step_def Let_def split: option.splits if_splits)

lemma new_rows_props:
  "r \<in> set (new_rows p sev sts n) \<Longrightarrow>
     st_project r = p \<and> st_severity r = sev \<and> n < st_id r \<and> st_id r \<le> n + int (length sts)"
proof (induction sts arbitrary: n)
  case (Cons st sts)
  then show ?case using Cons.IH [of "n + 1"] by fastforce
qed simp

lemma distinct_new_rows: "distinct (map st_id (new_rows p sev sts n))"
  by (induction sts arbitrary: n) (auto dest!: new_rows_props)

lemma new_channels_owner:
  "(sid, c) \<in> set (new_channels sts n) \<Longrightarrow>
     n < sid \<and> (\<exists>r \<in> set (new_rows p sev sts n). st_id r = sid) \<and> (\<exists>st \<in> set sts. c \<in> set (ChannelIDs st))"
proof (induction sts arbitrary: n)
  case (Cons st sts)
  then show ?case using Cons.IH [of "n + 1"] by fastforce
qed simp

lemma filter_new_channels:
  "filter (\<lambda>(sid, _). sid = n + 1) (new_channels (st # sts) n) = map (Pair (n + 1)) (ChannelIDs st)"
proof -
  have "filter (\<lambda>(sid, _). sid = n + 1) (new_channels sts (n + 1)) = []"
    by (auto simp: filter_empty_conv dest: new_channels_owner)
  then show ?thesis by (simp add: comp_def)
qed

lemma join_new_rows:
  assumes "t_step_channels d = old @ new_channels sts n" and "\<forall>(sid, _) \<in> set old. sid \<le> n"
    and "\<forall>st \<in> set sts. ChannelIDs st \<noteq> []"
  shows "concat (map (join_channels d) (new_rows p sev sts n)) = concat (map step_rows sts)"
  using assms
proof (induction sts arbitrary: n old)
  case (Cons st sts)
  let ?row = "\<lparr>st_id = n + 1, st_project = p, st_severity = sev, st_no = StepNo st, st_delay = DelayMinutes st\<rparr>"
  have "filter (\<lambda>(sid, _). sid = n + 1) old = []"
    using Cons.prems(2) by (fastforce simp: filter_empty_conv)
  then have "filter (\<lambda>(sid, _). sid = n + 1) (t_step_channels d) = map (Pair (n + 1)) (ChannelIDs st)"
    using filter_new_channels [of n st sts] by (simp add: Cons.prems(1))
  then have "join_channels d ?row = step_rows st"
    using Cons.prems(3) by (cases "ChannelIDs st") (simp_all add: join_channels_def)
  moreover have "concat (map (join_channels d) (new_rows p sev sts (n + 1))) = concat (map step_rows sts)"
  proof (rule Cons.IH)
    show "t_step_channels d = (old @ map (Pair (n + 1)) (ChannelIDs st)) @ new_channels sts (n + 1)"
      using Cons.prems(1) by simp
    show "\<forall>(sid, _) \<in> set (old @ map (Pair (n + 1)) (ChannelIDs st)). sid \<le> n + 1"
      using Cons.prems(2) by fastforce
  qed (use Cons.prems(3) in simp)
  ultimately show ?case by simp
qed simp

lemma set_step_channel_ids: "set (step_channel_ids steps) = (\<Union>st \<in> set steps. set (ChannelIDs st))"
proof -
  have "set (foldl (\<lambda>ids c. if c \<in> set ids then ids else ids @ [c]) acc xs) = set acc \<union> set xs"
    for acc xs :: "int list"
    by (induction xs arbitrary: acc) auto
  then show ?thesis by (simp add: step_channel_ids_def)
qed

lemma verify_None_owned:
  "verifyChannelsBelongToProject d p steps = None \<Longrightarrow> st \<in> set steps \<Longrightarrow> c \<in> set (ChannelIDs st) \<Longrightarrow>
     \<exists>ch \<in> set (t_channels d). c_id ch = c \<and> c_project ch = p"
proof -
  assume v: "verifyChannelsBelongToProject d p steps = None" and "st \<in> set steps" "c \<in> set (ChannelIDs st)"
  then have "c \<in> set (step_channel_ids steps)" by (auto simp: set_step_channel_ids)
  with v show ?thesis
    by (auto simp: verifyChannelsBelongToProject_def Let_def split: if_splits)
qed

lemma delete_steps_frame [simp]:
  "t_channels (delete_steps p sev d) = t_channels d"
  "t_step_seq (delete_steps p sev d) = t_step_seq d"
  by (simp_all add: delete_steps_def Let_def)

lemma policy_wf_delete_steps:
  assumes "policy_wf d"
  shows "policy_wf (delete_steps p sev d)"
proof -
  have owner: "\<exists>s \<in> set (t_steps d). st_id s = sid \<and> \<not> (st_project s = p \<and> st_severity s = sev) \<and>
      (\<exists>ch \<in> set (t_channels d). c_id ch = c \<and> c_project ch = st_project s)"
    if "(sid, c) \<in> set (t_step_channels (delete_steps p sev d))" for sid c
  proof -
    from that have m: "(sid, c) \<in> set (t_step_channels d)"
      and ng: "\<And>s. s \<in> set (t_steps d) \<Longrightarrow> st_project s = p \<Longrightarrow> st_severity s = sev \<Longrightarrow> st_id s \<noteq> sid"
      by (auto simp: delete_steps_def sqldefs Let_def)
    from m assms obtain s where "s \<in> set (t_steps d)" "st_id s = sid"
      "\<exists>ch \<in> set (t_channels d). c_id ch = c \<and> c_project ch = st_project s"
      by (fastforce simp: policy_wf_def)
    with ng [of s] show ?thesis by blast
  qed
  have "t_steps (delete_steps p sev d) = filter (\<lambda>s. \<not> (st_project s = p \<and> st_severity s = sev)) (t_steps d)"
    by (simp add: delete_steps_def sqldefs Let_def)
  then show ?thesis
    using assms owner unfolding policy_wf_def by (fastforce simp: distinct_map_filter)
qed

lemma policy_wf_set_ladder_tx:
  assumes "policy_wf d"
  shows "policy_wf (snd (set_ladder_tx p sev steps d))"
proof (cases "verifyChannelsBelongToProject d p steps")
  case None
  let ?d0 = "delete_steps p sev d" and ?n = "t_step_seq d"
  have wf0: "policy_wf ?d0" using assms by (rule policy_wf_delete_steps)
  show ?thesis
  proof (cases "insert_steps p sev steps ?d0")
    case (Some d')
    have d': "t_steps d' = t_steps ?d0 @ new_rows p sev steps ?n"
      "t_step_channels d' = t_step_channels ?d0 @ new_channels steps ?n"
      "t_channels d' = t_channels d" "t_step_seq d' = ?n + int (length steps)"
      using insert_steps_Some [OF Some] by simp_all
    have "distinct (map st_id (t_steps d'))"
      using wf0 distinct_new_rows [of p sev steps ?n]
      by (fastforce simp: d' policy_wf_def dest: new_rows_props)
    moreover have "\<forall>s \<in> set (t_steps d'). st_id s \<le> t_step_seq d'"
      using wf0 by (fastforce simp: d' policy_wf_def dest: new_rows_props)
    moreover have "\<exists>s \<in> set (t_steps d'). st_id s = sid \<and>
        (\<exists>ch \<in> set (t_channels d'). c_id ch = c \<and> c_project ch = st_project s)"
      if "(sid, c) \<in> set (t_step_channels d')" for sid c
    proof (cases "(sid, c) \<in> set (new_channels steps ?n)")
      case True
      then obtain r st where "r \<in> set (new_rows p sev steps ?n)" "st_id r = sid"
        "st \<in> set steps" "c \<in> set (ChannelIDs st)"
        using new_channels_owner by blast
      then show ?thesis
        using verify_None_owned [OF None] new_rows_props [of r p sev steps ?n] by (auto simp: d')
    next
      case False
      then show ?thesis using that wf0 by (fastforce simp: d' policy_wf_def)
    qed
    ultimately show ?thesis using None Some unfolding set_ladder_tx_def policy_wf_def by auto
  qed (use None assms in \<open>simp add: set_ladder_tx_def\<close>)
qed (use assms in \<open>simp add: set_ladder_tx_def\<close>)

lemma ladder_rows_after_set:
  assumes wf: "policy_wf d" and ok: "set_ladder_tx p sev steps d = (Inr (), d')"
    and valid: "ValidateSteps steps = None"
  shows "ladder_rows d' p sev = concat (map (\<lambda>st. step_rows (sort_channels st)) (sort_key StepNo steps))"
proof -
  let ?d0 = "delete_steps p sev d" and ?n = "t_step_seq d"
  from ok have ins: "insert_steps p sev steps ?d0 = Some d'"
    by (auto simp: set_ladder_tx_def split: option.splits)
  have d': "t_steps d' = t_steps ?d0 @ new_rows p sev steps ?n"
    "t_step_channels d' = t_step_channels ?d0 @ new_channels steps ?n"
    using insert_steps_Some [OF ins] by simp_all
  have "filter (\<lambda>s. st_project s = p \<and> st_severity s = sev) (t_steps d') = new_rows p sev steps ?n"
    by (auto simp: d' delete_steps_def sqldefs Let_def filter_empty_conv filter_id_conv dest: new_rows_props)
  moreover have "\<forall>(sid, _) \<in> set (t_step_channels ?d0). sid \<le> ?n"
    using policy_wf_delete_steps [OF wf, of p sev] by (fastforce simp: policy_wf_def)
  moreover have "\<forall>st \<in> set steps. ChannelIDs st \<noteq> []"
    using valid by (simp add: ValidateSteps_None_iff list_all_iff)
  ultimately have "ladder_rows d' p sev = order_rows (concat (map step_rows steps))"
    using join_new_rows [OF d'(2)] by (simp add: ladder_rows_def)
  moreover have "distinct (map StepNo steps)"
    using valid by (metis ValidateSteps_None_iff distinct_upto mset_eq_imp_distinct_iff)
  ultimately show ?thesis by (simp add: order_rows_steps)
qed

lemma ladder_of_sorted_steps:
  assumes "ValidateSteps steps = None"
  shows "ladder_of_rows (concat (map (\<lambda>st. step_rows (sort_channels st)) (sort_key StepNo steps))) =
           map sort_channels (sort_key StepNo steps)"
proof -
  let ?sts = "map sort_channels (sort_key StepNo steps)"
  have "distinct (map StepNo ?sts)"
    using ValidateSteps_sorted_nos [OF assms] by (simp add: comp_def)
  moreover have "\<forall>s \<in> set ?sts. ChannelIDs s \<noteq> []"
    using assms by (auto simp: ValidateSteps_None_iff list_all_iff)
  ultimately have "foldl add_row [] (concat (map step_rows ?sts)) = ?sts"
    using foldl_step_rows [of "[]" ?sts] by simp
  then show ?thesis by (simp add: ladder_of_rows_def comp_def)
qed

lemma run_SetLadder_ok:
  assumes "sched w = []" and "run_state (SetLadder p sev steps) w = (Inr (), w')"
  shows "ValidateSteps steps = None" and "validSeverity sev"
    and "set_ladder_tx p sev steps (db w) = (Inr (), db w')" and "sched w' = []"
  using assms by (auto simp: SetLadder_def prod_eq_iff split: if_splits option.splits)

lemma guar_SetLadder [guar]:
  assumes "reflp R" and "transp R" and "\<And>d. R d (snd (set_ladder_tx p sev steps d))"
  shows "guar (on_db R) (SetLadder p sev steps)"
  unfolding SetLadder_def by (intro guar assms)

subsection \<open>Properties\<close>

text \<open>
  \<open>ValidateSteps\<close> accepts a list of steps exactly when its step numbers are 0..n-1 in
  some order, without gaps or duplicates, no delay is negative and every step has a
  channel; the empty ladder is accepted.
\<close>

theorem ValidateSteps_accepts:
  "ValidateSteps steps = None \<longleftrightarrow>
     mset (map StepNo steps) = mset [0 .. int (length steps) - 1] \<and>
     list_all (\<lambda>s. 0 \<le> DelayMinutes s \<and> ChannelIDs s \<noteq> []) steps"
  by (rule ValidateSteps_None_iff)

text \<open>
  C23: a ladder stored with \<open>SetLadder\<close> is what \<open>Ladder\<close> returns: the same steps in the
  order of their numbers, the channels of each step in ascending order; storing the empty
  ladder restores the default one (a single immediate step with the project's enabled
  channels).
\<close>

theorem SetLadder_Ladder_roundtrip:
  assumes "policy_wf (db w)" and "sched w = []"
    and "run_state (SetLadder p sev steps) w = (Inr (), w')"
  shows "fst (run_state (Ladder p sev) w') =
           Inr (if steps = [] then [\<lparr>StepNo = 0, DelayMinutes = 0, ChannelIDs = default_channels (db w') p\<rparr>]
                else map (\<lambda>s. s\<lparr>ChannelIDs := sort (ChannelIDs s)\<rparr>) (sort_key StepNo steps))"
proof -
  note ok = run_SetLadder_ok [OF assms(2,3)]
  have "ladder_of_rows (ladder_rows (db w') p sev) = map sort_channels (sort_key StepNo steps)"
    using ladder_rows_after_set [OF assms(1) ok(3,1)] ladder_of_sorted_steps [OF ok(1)] by simp
  then show ?thesis
    using ok(4) by (simp add: Ladder_def defaultLadder_def Let_def)
qed

definition ex_ladder :: ladder where
  "ex_ladder = [\<lparr>StepNo = 1, DelayMinutes = 15, ChannelIDs = [8]\<rparr>, \<lparr>StepNo = 0, DelayMinutes = 0, ChannelIDs = [8, 7]\<rparr>]"

theorem SetLadder_Ladder_roundtrip_witness:
  "fst (run_state (Ladder 1 ''critical'') (snd (run_state (SetLadder 1 ''critical'' ex_ladder) (calm 0 ex_db)))) =
     Inr [\<lparr>StepNo = 0, DelayMinutes = 0, ChannelIDs = [7, 8]\<rparr>, \<lparr>StepNo = 1, DelayMinutes = 15, ChannelIDs = [8]\<rparr>]"
proof -
  have "policy_wf (db (calm 0 ex_db))" by code_simp
  moreover have "run_state (SetLadder 1 ''critical'' ex_ladder) (calm 0 ex_db) =
      (Inr (), snd (run_state (SetLadder 1 ''critical'' ex_ladder) (calm 0 ex_db)))" by code_simp
  ultimately show ?thesis
    using SetLadder_Ladder_roundtrip [of "calm 0 ex_db" 1 "''critical''" ex_ladder]
    by (simp add: ex_ladder_def)
qed

text \<open>
  Under every schedule of database faults and lost replies, \<open>SetLadder\<close> keeps the
  store well formed; in particular no ladder ever holds a channel of another project.
\<close>

theorem SetLadder_keeps_policy_wf:
  assumes "policy_wf (db w)"
  shows "policy_wf (db (snd (run_state (SetLadder p sev steps) w)))"
proof -
  have "guar (on_db (inv_rel policy_wf)) (SetLadder p sev steps)"
    by (rule guar_SetLadder) (simp_all add: guar inv_rel_def policy_wf_set_ladder_tx)
  then show ?thesis using assms guarD by (fastforce simp: on_db_def inv_rel_def)
qed

theorem SetLadder_keeps_policy_wf_witness:
  "policy_wf (db (snd (run_state (SetLadder 1 ''critical'' ex_ladder) (calm 0 ex_db))))"
  by (rule SetLadder_keeps_policy_wf) code_simp

end
