(* ===== verification/Escalation_Step.thy ===== *)
theory Escalation_Step
  imports Escalation_Policy
begin

text \<open>
  \<open>internal/escalation/step.go\<close> and \<open>dispatch.go\<close>: claiming the channels of a step before
  anything is sent, releasing what could not be queued, the log of failed log writes, and
  \<open>SendStepIfDue\<close>. The properties: every branch of \<open>SendStepIfDue\<close>, the claim discipline,
  at-most-once paging by any number of replicas, and the bound on retried log writes.
\<close>

subsection \<open>Model: dispatch.go\<close>

fun ContainsID :: "int list \<Rightarrow> int \<Rightarrow> bool" where
  "ContainsID [] i = False"
| "ContainsID (v # vs) i = (if v = i then True else ContainsID vs i)"

text \<open>A row of \<open>incident_escalations\<close> with the key of its unique index.\<close>

abbreviation esc_key :: "esc_row \<Rightarrow> string \<times> int \<times> int \<times> int" where
  "esc_key r \<equiv> (e_source r, e_incident r, e_channel r, e_step r)"

definition is_logged :: "db \<Rightarrow> string \<Rightarrow> int \<Rightarrow> int \<Rightarrow> int \<Rightarrow> bool" where
  "is_logged d source incident channel step \<longleftrightarrow>
     list_ex (\<lambda>r. esc_key r = (source, incident, channel, step)) (t_esc d)"

text \<open>\<open>INSERT ... ON CONFLICT DO NOTHING\<close> of one row.\<close>

definition insert_esc :: "string \<Rightarrow> int \<Rightarrow> int \<Rightarrow> int \<Rightarrow> time \<Rightarrow> db \<Rightarrow> bool \<times> db" where
  "insert_esc source incident channel step now d =
     (if is_logged d source incident channel step then (False, d)
      else (True, d\<lparr>t_esc := t_esc d @
              [\<lparr>e_source = source, e_incident = incident, e_channel = channel, e_step = step,
                e_sent_at = now\<rparr>]\<rparr>))"

definition LogStep :: "string \<Rightarrow> int \<Rightarrow> int \<Rightarrow> int \<Rightarrow> unit result prog" where
  "LogStep source incidentID channelID step =
     sql (\<lambda>now d. ((), snd (insert_esc source incidentID channelID step now d)))"

abbreviation fail_key :: "logfail_row \<Rightarrow> string \<times> int \<times> int" where
  "fail_key r \<equiv> (f_source r, f_incident r, f_step r)"

definition logfail_attempts :: "db \<Rightarrow> string \<Rightarrow> int \<Rightarrow> int \<Rightarrow> int" where
  "logfail_attempts d source incident step =
     (case filter (\<lambda>r. fail_key r = (source, incident, step)) (t_logfail d) of
        [] \<Rightarrow> 0 | r # _ \<Rightarrow> f_attempts r)"

definition record_fail_row :: "string \<Rightarrow> int \<Rightarrow> int \<Rightarrow> time \<Rightarrow> db \<Rightarrow> int \<times> db" where
  "record_fail_row source incident step now d =
     (if list_ex (\<lambda>r. fail_key r = (source, incident, step)) (t_logfail d)
      then (logfail_attempts d source incident step + 1,
            d\<lparr>t_logfail := sql_update (\<lambda>r. fail_key r = (source, incident, step))
                 (\<lambda>r. r\<lparr>f_attempts := f_attempts r + 1, f_last := now\<rparr>) (t_logfail d)\<rparr>)
      else (1, d\<lparr>t_logfail := t_logfail d @
            [\<lparr>f_source = source, f_incident = incident, f_step = step, f_attempts = 1,
              f_last = now\<rparr>]\<rparr>))"

definition recordLogFailure :: "string \<Rightarrow> int \<Rightarrow> int \<Rightarrow> int result prog" where
  "recordLogFailure source incidentID step = sql (record_fail_row source incidentID step)"

definition clear_fail_row :: "string \<Rightarrow> int \<Rightarrow> int \<Rightarrow> db \<Rightarrow> db" where
  "clear_fail_row source incident step d =
     d\<lparr>t_logfail := sql_delete (\<lambda>r. fail_key r = (source, incident, step)) (t_logfail d)\<rparr>"

definition clearLogFailure :: "string \<Rightarrow> int \<Rightarrow> int \<Rightarrow> unit result prog" where
  "clearLogFailure source incidentID step =
     sql (\<lambda>_ d. ((), clear_fail_row source incidentID step d))"

subsection \<open>Model: step.go\<close>

definition maxLogFailureAttempts :: int where "maxLogFailureAttempts = 5"

text \<open>The insert of \<open>ClaimStepChannels\<close>, channel by channel; the ids returned are the won ones.\<close>

fun claim_rows :: "string \<Rightarrow> int \<Rightarrow> int \<Rightarrow> int list \<Rightarrow> time \<Rightarrow> db \<Rightarrow> int list \<times> db" where
  "claim_rows source incident step [] now d = ([], d)"
| "claim_rows source incident step (c # cs) now d =
     (case insert_esc source incident c step now d of (new, d1) \<Rightarrow>
       (case claim_rows source incident step cs now d1 of (won, d2) \<Rightarrow>
         (if new then c # won else won, d2)))"

definition ClaimStepChannels :: "string \<Rightarrow> int \<Rightarrow> int \<Rightarrow> int list \<Rightarrow> int list result prog" where
  "ClaimStepChannels source incidentID step chs =
     (if chs = [] then State_Monad.return (Inr [])
      else sql (claim_rows source incidentID step chs))"

text \<open>
  \<open>ON CONFLICT DO UPDATE ... WHERE sent_at < now() - lease\<close>; PostgreSQL refuses a statement
  that would touch the same row twice.
\<close>

definition lease_expired :: "db \<Rightarrow> string \<Rightarrow> int \<Rightarrow> int \<Rightarrow> int \<Rightarrow> duration \<Rightarrow> time \<Rightarrow> bool" where
  "lease_expired d source incident channel step lease now \<longleftrightarrow>
     list_ex (\<lambda>r. esc_key r = (source, incident, channel, step) \<and> e_sent_at r < now - lease) (t_esc d)"

definition renew_row :: "string \<Rightarrow> int \<Rightarrow> int \<Rightarrow> int \<Rightarrow> time \<Rightarrow> db \<Rightarrow> db" where
  "renew_row source incident channel step now d =
     d\<lparr>t_esc := sql_update (\<lambda>r. esc_key r = (source, incident, channel, step))
        (\<lambda>r. r\<lparr>e_sent_at := now\<rparr>) (t_esc d)\<rparr>"

fun claim_lease_rows ::
  "string \<Rightarrow> int \<Rightarrow> int \<Rightarrow> duration \<Rightarrow> int list \<Rightarrow> int list \<Rightarrow> time \<Rightarrow> db \<Rightarrow> (int list \<times> db) option" where
  "claim_lease_rows source incident step lease won [] now d = Some (won, d)"
| "claim_lease_rows source incident step lease won (c # cs) now d =
     (if c \<in> set won then None
      else if \<not> is_logged d source incident c step then
        claim_lease_rows source incident step lease (won @ [c]) cs now
          (snd (insert_esc source incident c step now d))
      else if lease_expired d source incident c step lease now then
        claim_lease_rows source incident step lease (won @ [c]) cs now
          (renew_row source incident c step now d)
      else claim_lease_rows source incident step lease won cs now d)"

definition ClaimStepChannelsWithLease ::
  "string \<Rightarrow> int \<Rightarrow> int \<Rightarrow> int list \<Rightarrow> duration \<Rightarrow> int list result prog" where
  "ClaimStepChannelsWithLease source incidentID step chs lease =
     (if chs = [] then State_Monad.return (Inr [])
      else do {
        r \<leftarrow> sql (\<lambda>now d.
               case claim_lease_rows source incidentID step lease [] chs now d of
                 None \<Rightarrow> (Inl ErrDB, d)
               | Some (won, d') \<Rightarrow> (Inr won, d'));
        State_Monad.return (case r of Inl e \<Rightarrow> Inl e | Inr r' \<Rightarrow> r')
      })"

definition release_rows :: "string \<Rightarrow> int \<Rightarrow> int \<Rightarrow> int list \<Rightarrow> db \<Rightarrow> db" where
  "release_rows source incident step chs d =
     d\<lparr>t_esc := sql_delete (\<lambda>r. e_source r = source \<and> e_incident r = incident \<and> e_step r = step \<and>
        e_channel r \<in> set chs) (t_esc d)\<rparr>"

definition ReleaseStepChannels :: "string \<Rightarrow> int \<Rightarrow> int \<Rightarrow> int list \<Rightarrow> error option prog" where
  "ReleaseStepChannels source incidentID step chs =
     (if chs = [] then State_Monad.return None
      else do {
        r \<leftarrow> sql (\<lambda>_ d. ((), release_rows source incidentID step chs d));
        State_Monad.return (case r of Inl e \<Rightarrow> Some e | Inr _ \<Rightarrow> None)
      })"

definition difference :: "int list \<Rightarrow> int list \<Rightarrow> int list" where
  "difference won enqueued = filter (\<lambda>c. c \<notin> set enqueued) won"

text \<open>
  \<open>LogStepChannels\<close> returns \<open>done\<close> and an error; the loop over the channels collects the
  errors of \<open>LogStep\<close> with \<open>errors.Join\<close>.
\<close>

definition log_one :: "string \<Rightarrow> int \<Rightarrow> int \<Rightarrow> error option \<Rightarrow> int \<Rightarrow> error option prog" where
  "log_one source incidentID step logErr ch =
     do {
       r \<leftarrow> LogStep source incidentID ch step;
       State_Monad.return (case r of Inl e \<Rightarrow> errors_join [logErr, Some e] | Inr _ \<Rightarrow> logErr)
     }"

definition LogStepChannels :: "string \<Rightarrow> int \<Rightarrow> int \<Rightarrow> int list \<Rightarrow> (bool \<times> error option) prog" where
  "LogStepChannels source incidentID step chs =
     do {
       logErr \<leftarrow> for_acc None chs (log_one source incidentID step);
       (if logErr = None then
          do {
            _ \<leftarrow> clearLogFailure source incidentID step;
            State_Monad.return (True, None)
          }
        else do {
          r \<leftarrow> recordLogFailure source incidentID step;
          (case r of
             Inl trackErr \<Rightarrow> State_Monad.return (False, errors_join [logErr, Some trackErr])
           | Inr attempts \<Rightarrow>
               if attempts < maxLogFailureAttempts then State_Monad.return (False, logErr)
               else do {
                 _ \<leftarrow> clearLogFailure source incidentID step;
                 State_Monad.return (True, logErr)
               })
        })
     }"

definition recovery_channels :: "db \<Rightarrow> string \<Rightarrow> int \<Rightarrow> int list" where
  "recovery_channels d source incident =
     remdups (map e_channel (filter (\<lambda>r. e_source r = source \<and> e_incident r = incident) (t_esc d)))"

definition RecoveryChannels :: "string \<Rightarrow> int \<Rightarrow> int list result prog" where
  "RecoveryChannels source incidentID = sql_read (\<lambda>_ d. recovery_channels d source incidentID)"

text \<open>
  \<open>time.Duration(DelayMinutes) * time.Minute\<close> in 64-bit arithmetic.
\<close>

definition step_delay :: "ladder_step \<Rightarrow> duration" where
  "step_delay st = wrap64 (DelayMinutes st * minute)"

text \<open>
  \<open>SendStepIfDue\<close>, with the caller's \<open>notifyStep\<close> and \<open>bump\<close> as parameters. A Go call
  returning \<open>(x, error)\<close> is a pair here.
\<close>

definition SendStepIfDue ::
  "ladder \<Rightarrow> string \<Rightarrow> int \<Rightarrow> int \<Rightarrow> duration \<Rightarrow>
   (int list \<Rightarrow> int \<Rightarrow> (int list \<times> error option) prog) \<Rightarrow>
   (int \<Rightarrow> int \<Rightarrow> (bool \<times> error option) prog) \<Rightarrow> (bool \<times> error option) prog" where
  "SendStepIfDue ladder source incidentID level elapsed notifyStep bump =
     (if level \<ge> int (length ladder) then State_Monad.return (False, None)
      else if level < 0 then State_Monad.return (False, Some (ErrMsg ''panic: index out of range''))
      else if elapsed < step_delay (ladder ! nat level) then State_Monad.return (False, None)
      else let chs = ChannelIDs (ladder ! nat level) in
        if chs = [] then bump incidentID level
        else do {
          r \<leftarrow> ClaimStepChannels source incidentID level chs;
          (case r of
             Inl e \<Rightarrow> State_Monad.return (False, Some e)
           | Inr won \<Rightarrow>
               if won = [] then bump incidentID level
               else do {
                 (enqueued, notifyErr) \<leftarrow> notifyStep won level;
                 relErr \<leftarrow> ReleaseStepChannels source incidentID level (difference won enqueued);
                 (if notifyErr \<noteq> None \<and> enqueued = []
                  then State_Monad.return (False, errors_join [notifyErr, relErr])
                  else do {
                    (ok, bumpErr) \<leftarrow> bump incidentID level;
                    State_Monad.return (ok, errors_join [notifyErr, relErr, bumpErr])
                  })
               })
        })"

subsection \<open>Claims and releases\<close>

lemma ContainsID_iff [simp]: "ContainsID ids i \<longleftrightarrow> i \<in> set ids"
  by (induction ids i rule: ContainsID.induct) auto

lemma is_logged_iff:
  "is_logged d s i c st \<longleftrightarrow> (s, i, c, st) \<in> esc_key ` set (t_esc d)"
  by (auto simp: is_logged_def list_ex_iff)

lemma is_logged_append:
  "is_logged (d\<lparr>t_esc := t_esc d @ rows\<rparr>) s i c st \<longleftrightarrow>
     is_logged d s i c st \<or> (\<exists>r \<in> set rows. esc_key r = (s, i, c, st))"
  by (auto simp: is_logged_def list_ex_iff)

abbreviation esc_row_of :: "string \<Rightarrow> int \<Rightarrow> int \<Rightarrow> time \<Rightarrow> int \<Rightarrow> esc_row" where
  "esc_row_of s i st now c \<equiv>
     \<lparr>e_source = s, e_incident = i, e_channel = c, e_step = st, e_sent_at = now\<rparr>"

text \<open>A claim wins exactly the channels that were free, once each, and appends their rows.\<close>

lemma claim_rows_spec:
  assumes "claim_rows s i st cs now d = (won, d')"
  shows "d' = d\<lparr>t_esc := t_esc d @ map (esc_row_of s i st now) won\<rparr>"
    and "set won = {c \<in> set cs. \<not> is_logged d s i c st}" and "distinct won"
proof -
  have "d' = d\<lparr>t_esc := t_esc d @ map (esc_row_of s i st now) won\<rparr> \<and>
      set won = {c \<in> set cs. \<not> is_logged d s i c st} \<and> distinct won"
    using assms
  proof (induction cs arbitrary: d won d')
    case (Cons c cs)
    obtain new d1 where n: "insert_esc s i c st now d = (new, d1)" by fastforce
    obtain won1 d2 where r: "claim_rows s i st cs now d1 = (won1, d2)" by fastforce
    have res: "won = (if new then c # won1 else won1)" "d' = d2" using Cons.prems n r by auto
    note IH = Cons.IH [OF r]
    show ?case
    proof (cases "is_logged d s i c st")
      case True
      then have "new = False" "d1 = d" using n by (simp_all add: insert_esc_def)
      with IH True show ?thesis unfolding res by auto
    next
      case False
      let ?d1 = "d\<lparr>t_esc := t_esc d @ [esc_row_of s i st now c]\<rparr>"
      have d1: "new" "d1 = ?d1" using n False by (simp_all add: insert_esc_def)
      have "is_logged ?d1 s i c' st \<longleftrightarrow> is_logged d s i c' st \<or> c' = c" for c'
        by (auto simp: is_logged_append)
      then have "set won1 = {c' \<in> set cs. \<not> is_logged d s i c' st \<and> c' \<noteq> c}"
        using IH d1(2) by simp
      with IH d1 False show ?thesis unfolding res by auto
    qed
  qed simp
  then show "d' = d\<lparr>t_esc := t_esc d @ map (esc_row_of s i st now) won\<rparr>"
    and "set won = {c \<in> set cs. \<not> is_logged d s i c st}" and "distinct won" by blast+
qed

lemma is_logged_after_claim:
  assumes "claim_rows s i st cs now d = (won, d')"
  shows "is_logged d' s' i' c st' \<longleftrightarrow>
           is_logged d s' i' c st' \<or> (s' = s \<and> i' = i \<and> st' = st \<and> c \<in> set won)"
  by (auto simp: claim_rows_spec(1) [OF assms] is_logged_append)

lemma is_logged_release_rows:
  "is_logged (release_rows s i st cs d) s' i' c st' \<longleftrightarrow>
     is_logged d s' i' c st' \<and> \<not> (s' = s \<and> i' = i \<and> st' = st \<and> c \<in> set cs)"
  by (auto simp: release_rows_def is_logged_iff sqldefs)

lemma set_difference [simp]: "set (difference won enq) = set won - set enq"
  by (auto simp: difference_def)

text \<open>The unique index of \<open>incident_escalations\<close>.\<close>

definition esc_wf :: "db \<Rightarrow> bool" where
  "esc_wf d \<longleftrightarrow> distinct (map esc_key (t_esc d))"

lemma esc_wf_insert_esc: "esc_wf d \<Longrightarrow> esc_wf (snd (insert_esc s i c st now d))"
  by (auto simp: esc_wf_def insert_esc_def is_logged_iff)

lemma esc_wf_claim_rows: "esc_wf d \<Longrightarrow> esc_wf (snd (claim_rows s i st cs now d))"
  by (induction cs arbitrary: d) (auto simp: case_prod_beta esc_wf_insert_esc)

lemma esc_wf_renew_row: "esc_wf d \<Longrightarrow> esc_wf (renew_row s i c st now d)"
  by (simp add: esc_wf_def renew_row_def sql_update_key)

lemma esc_wf_claim_lease_rows:
  "esc_wf d \<Longrightarrow> claim_lease_rows s i st lease won cs now d = Some (won', d') \<Longrightarrow> esc_wf d'"
  by (induction s i st lease won cs now d rule: claim_lease_rows.induct)
    (auto simp: esc_wf_insert_esc esc_wf_renew_row split: if_splits)

lemma esc_wf_release_rows: "esc_wf d \<Longrightarrow> esc_wf (release_rows s i st cs d)"
  by (simp add: esc_wf_def release_rows_def sqldefs distinct_map_filter)

lemmas esc_wf_intros =
  esc_wf_insert_esc esc_wf_claim_rows esc_wf_renew_row esc_wf_claim_lease_rows esc_wf_release_rows

text \<open>What the log operations may change: only the two log tables.\<close>

definition only_logs :: "db \<Rightarrow> db \<Rightarrow> bool" where
  "only_logs d d' \<longleftrightarrow> (\<exists>es fs. d' = d\<lparr>t_esc := es, t_logfail := fs\<rparr>) \<and> (esc_wf d \<longrightarrow> esc_wf d')"

lemma reflp_only_logs [guar]: "reflp only_logs"
proof (rule reflpI)
  fix d :: db
  have "d = d\<lparr>t_esc := t_esc d, t_logfail := t_logfail d\<rparr>" by simp
  then show "only_logs d d" unfolding only_logs_def by blast
qed

lemma transp_only_logs [guar]: "transp only_logs"
proof (rule transpI)
  fix a b c :: db
  assume "only_logs a b" "only_logs b c"
  then obtain es fs es' fs' where "b = a\<lparr>t_esc := es, t_logfail := fs\<rparr>"
    "c = b\<lparr>t_esc := es', t_logfail := fs'\<rparr>" "esc_wf a \<longrightarrow> esc_wf c"
    unfolding only_logs_def by blast
  then have "c = a\<lparr>t_esc := es', t_logfail := fs'\<rparr>" by simp
  with \<open>esc_wf a \<longrightarrow> esc_wf c\<close> show "only_logs a c" unfolding only_logs_def by blast
qed

lemma only_logsI:
  "d' = d\<lparr>t_esc := es, t_logfail := fs\<rparr> \<Longrightarrow> (esc_wf d \<Longrightarrow> esc_wf d') \<Longrightarrow> only_logs d d'"
  by (auto simp: only_logs_def)

lemma claim_lease_rows_only_esc:
  "claim_lease_rows s i st lease won cs now d = Some (won', d') \<Longrightarrow> \<exists>es. d' = d\<lparr>t_esc := es\<rparr>"
proof (induction s i st lease won cs now d rule: claim_lease_rows.induct)
  case (1 s i st lease won now d)
  then have "d' = d\<lparr>t_esc := t_esc d\<rparr>" by simp
  then show ?case by blast
qed (auto simp: insert_esc_def renew_row_def split: if_splits)

lemma only_logs_insert_esc: "only_logs d (snd (insert_esc s i c st now d))"
  by (rule only_logsI [where es = "t_esc (snd (insert_esc s i c st now d))" and fs = "t_logfail d"])
    (simp_all add: insert_esc_def esc_wf_intros [unfolded insert_esc_def])

lemma only_logs_claim_rows: "only_logs d (snd (claim_rows s i st cs now d))"
proof -
  obtain won d' where c: "claim_rows s i st cs now d = (won, d')" by fastforce
  from claim_rows_spec(1) [OF c] esc_wf_claim_rows [of d s i st cs now] c show ?thesis
    by (intro only_logsI [where es = "t_esc d'" and fs = "t_logfail d"]) auto
qed

lemma only_logs_release_rows: "only_logs d (release_rows s i st cs d)"
  by (rule only_logsI [where es = "t_esc (release_rows s i st cs d)" and fs = "t_logfail d"])
    (simp_all add: release_rows_def esc_wf_intros [unfolded release_rows_def])

lemma only_logs_fails: "only_logs d (d\<lparr>t_logfail := fs\<rparr>)"
  by (rule only_logsI [where es = "t_esc d" and fs = fs]) (simp_all add: esc_wf_def)

lemma only_logs_claim_lease:
  "only_logs d (snd (case claim_lease_rows s i st lease [] cs now d of
      None \<Rightarrow> (Inl ErrDB, d) | Some (won, d') \<Rightarrow> (Inr won, d')))"
proof (cases "claim_lease_rows s i st lease [] cs now d")
  case (Some r)
  then obtain won d' where r: "claim_lease_rows s i st lease [] cs now d = Some (won, d')"
    by (cases r) auto
  from claim_lease_rows_only_esc [OF this] obtain es where "d' = d\<lparr>t_esc := es\<rparr>" by blast
  then show ?thesis
    using r esc_wf_claim_lease_rows [OF _ r]
    by (auto intro: only_logsI [where es = es and fs = "t_logfail d"])
qed (simp add: reflpD [OF reflp_only_logs])

lemma guar_log_ops:
  "guar (on_db only_logs) (ClaimStepChannels s i st chs)"
  "guar (on_db only_logs) (ClaimStepChannelsWithLease s i st chs lease)"
  "guar (on_db only_logs) (ReleaseStepChannels s i st chs)"
  "guar (on_db only_logs) (LogStepChannels s i st chs)"
  "guar (on_db only_logs) (RecoveryChannels s i)"
  unfolding ClaimStepChannels_def ClaimStepChannelsWithLease_def ReleaseStepChannels_def
    LogStepChannels_def log_one_def LogStep_def recordLogFailure_def clearLogFailure_def RecoveryChannels_def
  by (intro guar conjI;
      simp add: only_logs_claim_rows only_logs_claim_lease only_logs_release_rows
        only_logs_insert_esc record_fail_row_def clear_fail_row_def only_logs_fails)+

subsection \<open>Several replicas paging the same step\<close>

text \<open>
  The statements of \<open>SendStepIfDue\<close> are atomic, the function is not: any number of
  replicas run it at the same time and may stop anywhere. For one step of one incident,
  \<open>esc_replica\<close> has a rule per statement (claim, with the reply received or lost;
  notify; release, done or failed), a rule for a replica that stops, and one for writes
  that leave the log alone. \<open>r_sent\<close> records every channel whose task was queued.
\<close>

datatype pc = PIdle | PClaimed "int list" | PSent "int list" "int list"

record replicas =
  r_db :: db
  r_pc :: "nat \<Rightarrow> pc"
  r_sent :: "int list"

inductive esc_replica :: "string \<Rightarrow> int \<Rightarrow> int \<Rightarrow> replicas \<Rightarrow> replicas \<Rightarrow> bool"
  for source :: string and incident :: int and step :: int where
  claim: "r_pc s i = PIdle \<Longrightarrow> claim_rows source incident step chs now (r_db s) = (won, d') \<Longrightarrow>
     esc_replica source incident step s (s\<lparr>r_db := d', r_pc := (r_pc s)(i := PClaimed won)\<rparr>)"
| claim_lost: "claim_rows source incident step chs now (r_db s) = (won, d') \<Longrightarrow>
     esc_replica source incident step s (s\<lparr>r_db := d'\<rparr>)"
| notify: "r_pc s i = PClaimed won \<Longrightarrow> distinct enq \<Longrightarrow> set enq \<subseteq> set won \<Longrightarrow>
     esc_replica source incident step s
       (s\<lparr>r_pc := (r_pc s)(i := PSent won enq), r_sent := r_sent s @ enq\<rparr>)"
| release: "r_pc s i = PSent won enq \<Longrightarrow>
     esc_replica source incident step s
       (s\<lparr>r_db := release_rows source incident step (difference won enq) (r_db s),
          r_pc := (r_pc s)(i := PIdle)\<rparr>)"
| stop: "esc_replica source incident step s (s\<lparr>r_pc := (r_pc s)(i := PIdle)\<rparr>)"
| other: "t_esc d' = t_esc (r_db s) \<Longrightarrow> esc_replica source incident step s (s\<lparr>r_db := d'\<rparr>)"

text \<open>The channels a replica has claimed and not yet queued.\<close>

fun held :: "pc \<Rightarrow> int set" where
  "held PIdle = {}"
| "held (PClaimed won) = set won"
| "held (PSent won enq) = set won - set enq"

definition replica_inv :: "string \<Rightarrow> int \<Rightarrow> int \<Rightarrow> replicas \<Rightarrow> bool" where
  "replica_inv source incident step s \<longleftrightarrow>
     distinct (r_sent s) \<and>
     (\<forall>c \<in> set (r_sent s). is_logged (r_db s) source incident c step) \<and>
     (\<forall>i. \<forall>c \<in> held (r_pc s i). is_logged (r_db s) source incident c step \<and> c \<notin> set (r_sent s)) \<and>
     (\<forall>i j. i \<noteq> j \<longrightarrow> held (r_pc s i) \<inter> held (r_pc s j) = {})"

lemma replica_invI:
  assumes "distinct (r_sent s)"
    and "\<And>c. c \<in> set (r_sent s) \<Longrightarrow> is_logged (r_db s) source incident c step"
    and "\<And>i c. c \<in> held (r_pc s i) \<Longrightarrow> is_logged (r_db s) source incident c step \<and> c \<notin> set (r_sent s)"
    and "\<And>i j c. i \<noteq> j \<Longrightarrow> c \<in> held (r_pc s i) \<Longrightarrow> c \<notin> held (r_pc s j)"
  shows "replica_inv source incident step s"
  using assms unfolding replica_inv_def by blast

lemma replica_invD:
  assumes "replica_inv source incident step s"
  shows "distinct (r_sent s)"
    and "c \<in> set (r_sent s) \<Longrightarrow> is_logged (r_db s) source incident c step"
    and "c \<in> held (r_pc s i) \<Longrightarrow> is_logged (r_db s) source incident c step \<and> c \<notin> set (r_sent s)"
    and "i \<noteq> j \<Longrightarrow> c \<in> held (r_pc s i) \<Longrightarrow> c \<notin> held (r_pc s j)"
  using assms unfolding replica_inv_def by blast+

lemma is_logged_t_esc: "t_esc d' = t_esc d \<Longrightarrow> is_logged d' = is_logged d"
  by (simp add: is_logged_def fun_eq_iff)

lemma replica_inv_step:
  "esc_replica source incident step s t \<Longrightarrow> replica_inv source incident step s \<Longrightarrow>
     replica_inv source incident step t"
proof (induction rule: esc_replica.induct)
  case (claim s i chs now won d')
  then have "set won \<inter> set (r_sent s) = {}" "\<And>j. set won \<inter> held (r_pc s j) = {}"
    using claim_rows_spec(2) [OF claim(2)] by (auto simp: replica_inv_def)
  with claim show ?case
    by (auto simp: replica_inv_def is_logged_after_claim [OF claim(2)])
next
  case (claim_lost chs now s won d')
  then show ?case by (auto simp: replica_inv_def is_logged_after_claim [OF claim_lost(1)])
next
  case (notify s i won enq)
  note inv = replica_invD [OF notify.prems]
  have enq: "c \<in> held (r_pc s i)" if "c \<in> set enq" for c
    using notify.hyps that by auto
  let ?t = "s\<lparr>r_pc := (r_pc s)(i := PSent won enq), r_sent := r_sent s @ enq\<rparr>"
  have sub: "c \<in> held (r_pc s j) \<and> (j = i \<longrightarrow> c \<notin> set enq)" if "c \<in> held (r_pc ?t j)" for c j
    using that notify.hyps(1) by (auto split: if_splits)
  show ?case
  proof (rule replica_invI)
    show "distinct (r_sent ?t)" using inv(1) inv(3) enq notify.hyps(2) by auto
    show "is_logged (r_db ?t) source incident c step" if "c \<in> set (r_sent ?t)" for c
      using that inv(2) inv(3) enq by auto
    show "is_logged (r_db ?t) source incident c step \<and> c \<notin> set (r_sent ?t)"
      if "c \<in> held (r_pc ?t j)" for j c
      using sub [OF that] inv(3) [of c j] inv(4) [of i j c] enq [of c] by auto
    show "c \<notin> held (r_pc ?t k)" if "j \<noteq> k" "c \<in> held (r_pc ?t j)" for j k c
      using sub [OF that(2)] sub [of c k] inv(4) [OF that(1)] by blast
  qed
next
  case (release s i won enq)
  note inv = replica_invD [OF release.prems]
  have hi: "held (r_pc s i) = set won - set enq" using release.hyps by simp
  let ?t = "s\<lparr>r_db := release_rows source incident step (difference won enq) (r_db s),
    r_pc := (r_pc s)(i := PIdle)\<rparr>"
  have sub: "c \<in> held (r_pc s j) \<and> j \<noteq> i" if "c \<in> held (r_pc ?t j)" for c j
    using that by (auto split: if_splits)
  show ?case
  proof (rule replica_invI)
    show "is_logged (r_db ?t) source incident c step" if "c \<in> set (r_sent ?t)" for c
      using that inv(2) [of c] inv(3) [of c i] hi by (auto simp: is_logged_release_rows)
    show "is_logged (r_db ?t) source incident c step \<and> c \<notin> set (r_sent ?t)"
      if "c \<in> held (r_pc ?t j)" for j c
      using sub [OF that] inv(3) [of c j] inv(4) [of j i c] hi by (auto simp: is_logged_release_rows)
    show "c \<notin> held (r_pc ?t k)" if "j \<noteq> k" "c \<in> held (r_pc ?t j)" for j k c
      using sub [OF that(2)] sub [of c k] inv(4) [OF that(1)] by blast
  qed (use inv(1) in simp)
next
  case (stop s i)
  then show ?case by (auto simp: replica_inv_def)
next
  case (other d' s)
  then show ?case by (simp add: replica_inv_def is_logged_t_esc [OF other(1)])
qed

abbreviation esc_runs :: "string \<Rightarrow> int \<Rightarrow> int \<Rightarrow> replicas \<Rightarrow> replicas \<Rightarrow> bool" where
  "esc_runs source incident step \<equiv> (esc_replica source incident step)\<^sup>*\<^sup>*"

lemma replica_inv_runs:
  "esc_runs source incident step s t \<Longrightarrow> replica_inv source incident step s \<Longrightarrow>
     replica_inv source incident step t"
  by (induction rule: rtranclp_induct) (auto intro: replica_inv_step)

definition fresh_replicas :: "db \<Rightarrow> replicas" where
  "fresh_replicas d = \<lparr>r_db = d, r_pc = (\<lambda>_. PIdle), r_sent = []\<rparr>"

lemma replica_inv_fresh: "replica_inv source incident step (fresh_replicas d)"
  by (simp add: replica_inv_def fresh_replicas_def)



subsection \<open>\<open>SendStepIfDue\<close> against the replica machine\<close>

text \<open>
  The channels a call reports as queued: what \<open>notifyStep\<close> returns, when it is reached.
\<close>

definition step_due :: "ladder \<Rightarrow> int \<Rightarrow> duration \<Rightarrow> bool" where
  "step_due ladder level elapsed \<longleftrightarrow>
     0 \<le> level \<and> level < int (length ladder) \<and> step_delay (ladder ! nat level) \<le> elapsed"

definition reported ::
  "ladder \<Rightarrow> string \<Rightarrow> int \<Rightarrow> int \<Rightarrow> duration \<Rightarrow>
   (int list \<Rightarrow> int \<Rightarrow> (int list \<times> error option) prog) \<Rightarrow> world \<Rightarrow> int list" where
  "reported ladder source incidentID level elapsed notifyStep w =
     (if \<not> step_due ladder level elapsed \<or> ChannelIDs (ladder ! nat level) = [] then []
      else case run_state (ClaimStepChannels source incidentID level (ChannelIDs (ladder ! nat level))) w of
             (Inl _, _) \<Rightarrow> []
           | (Inr won, w1) \<Rightarrow> if won = [] then [] else fst (fst (run_state (notifyStep won level) w1)))"

lemma not_due: "\<not> step_due ladder level elapsed \<Longrightarrow>
    snd (run_state (SendStepIfDue ladder source i level elapsed nf bump) w) = w"
  by (auto simp: step_due_def SendStepIfDue_def)

lemma SendStepIfDue_due:
  assumes "step_due ladder level elapsed" and "chs = ChannelIDs (ladder ! nat level)" and "chs \<noteq> []"
  shows "SendStepIfDue ladder source i level elapsed nf bump =
     do {
       r \<leftarrow> ClaimStepChannels source i level chs;
       (case r of
          Inl e \<Rightarrow> State_Monad.return (False, Some e)
        | Inr won \<Rightarrow>
            if won = [] then bump i level
            else do {
              (enqueued, notifyErr) \<leftarrow> nf won level;
              relErr \<leftarrow> ReleaseStepChannels source i level (difference won enqueued);
              (if notifyErr \<noteq> None \<and> enqueued = []
               then State_Monad.return (False, errors_join [notifyErr, relErr])
               else do {
                 (ok, bumpErr) \<leftarrow> bump i level;
                 State_Monad.return (ok, errors_join [notifyErr, relErr, bumpErr])
               })
            })
     }"
  using assms by (simp add: SendStepIfDue_def step_due_def Let_def)

lemma SendStepIfDue_no_channels:
  assumes "step_due ladder level elapsed" and "ChannelIDs (ladder ! nat level) = []"
  shows "SendStepIfDue ladder source i level elapsed nf bump = bump i level"
  using assms by (simp add: SendStepIfDue_def step_due_def Let_def)

text \<open>The contract of the two callbacks of \<open>SendStepIfDue\<close>.\<close>

locale step_effects =
  fixes notifyStep :: "int list \<Rightarrow> int \<Rightarrow> (int list \<times> error option) prog"
    and bump :: "int \<Rightarrow> int \<Rightarrow> (bool \<times> error option) prog"
  assumes notify_reports: "distinct chs \<Longrightarrow> chs \<noteq> [] \<Longrightarrow> distinct (map c_id (t_channels (db w))) \<Longrightarrow>
      run_state (notifyStep chs st) w = ((enq, err), w') \<Longrightarrow>
      distinct enq \<and> set enq \<subseteq> set chs"
    and notify_keeps_log: "t_esc (db (snd (run_state (notifyStep chs st) w))) = t_esc (db w)"
    and bump_keeps_log: "t_esc (db (snd (run_state (bump i from) w))) = t_esc (db w)"
begin

lemma release_runs:
  assumes "r_pc s k = PSent won enq"
    and "run_state (ReleaseStepChannels source i st (difference won enq)) w = (r, w')" and "db w = r_db s"
  shows "esc_runs source i st s (s\<lparr>r_db := db w', r_pc := (r_pc s)(k := PIdle)\<rparr>)"
proof -
  have rel: "esc_replica source i st s (s\<lparr>r_db := release_rows source i st (difference won enq) (r_db s),
      r_pc := (r_pc s)(k := PIdle)\<rparr>)"
    using assms(1) by (rule esc_replica.release)
  have stop: "esc_replica source i st s (s\<lparr>r_db := r_db s, r_pc := (r_pc s)(k := PIdle)\<rparr>)"
    using esc_replica.stop [of source i st s k] by simp
  show ?thesis
  proof (cases "difference won enq = []")
    case True
    then show ?thesis using assms(2,3) stop by (auto simp: ReleaseStepChannels_def)
  next
    case False
    let ?q = "\<lambda>_ d. ((), release_rows source i st (difference won enq) d)"
    from assms(2) False have w': "w' = snd (run_state (sql ?q) w)"
      by (auto simp: ReleaseStepChannels_def split: prod.splits)
    show ?thesis
      by (cases rule: run_sql_cases [of ?q w]) (use w' assms(3) rel stop in auto)
  qed
qed

lemma bump_runs: "esc_runs source i st s (s\<lparr>r_db := db (snd (run_state (bump j from) w))\<rparr>)"
  if "db w = r_db s"
  using esc_replica.other [of "db (snd (run_state (bump j from) w))" s source i st]
  by (simp add: bump_keeps_log that)

lemma won_runs:
  assumes "distinct won" and "won \<noteq> []" and "r_pc s k = PClaimed won" and "db w = r_db s"
    and "distinct (map c_id (t_channels (db w)))"
    and "run_state (do {
              (enqueued, notifyErr) \<leftarrow> notifyStep won level;
              relErr \<leftarrow> ReleaseStepChannels source i level (difference won enqueued);
              (if notifyErr \<noteq> None \<and> enqueued = []
               then State_Monad.return (False, errors_join [notifyErr, relErr])
               else do {
                 (ok, bumpErr) \<leftarrow> bump i level;
                 State_Monad.return (ok, errors_join [notifyErr, relErr, bumpErr])
               })
            }) w = (res, w')"
  shows "esc_runs source i level s
     \<lparr>r_db = db w', r_pc = (r_pc s)(k := PIdle),
      r_sent = r_sent s @ fst (fst (run_state (notifyStep won level) w))\<rparr>"
proof -
  obtain enq nerr w1 where n: "run_state (notifyStep won level) w = ((enq, nerr), w1)"
    by (metis prod.collapse)
  obtain relErr w2 where r: "run_state (ReleaseStepChannels source i level (difference won enq)) w1 = (relErr, w2)"
    by fastforce
  let ?s1 = "s\<lparr>r_db := db w1\<rparr>"
  let ?s2 = "?s1\<lparr>r_pc := (r_pc s)(k := PSent won enq), r_sent := r_sent s @ enq\<rparr>"
  let ?s3 = "?s2\<lparr>r_db := db w2, r_pc := (r_pc s)(k := PIdle)\<rparr>"
  have "esc_replica source i level s ?s1"
    using notify_keeps_log [of won level w] n assms(4) by (intro esc_replica.other) simp
  moreover have "esc_replica source i level ?s1 ?s2"
    using esc_replica.notify [of ?s1 k won enq source i level] notify_reports [OF assms(1,2,5) n] assms(3)
    by simp
  moreover have "esc_runs source i level ?s2 ?s3"
    using release_runs [OF _ r, of ?s2 k] by (simp add: fun_upd_idem_iff)
  ultimately have upto3: "esc_runs source i level s ?s3"
    by (meson converse_rtranclp_into_rtranclp)
  show ?thesis
  proof (cases "nerr \<noteq> None \<and> enq = []")
    case True
    then show ?thesis using upto3 assms(6) n r by (cases s) (auto split: prod.splits)
  next
    case False
    then have w': "w' = snd (run_state (bump i level) w2)"
      using assms(6) n r by (auto split: prod.splits if_splits)
    have "esc_runs source i level s (?s3\<lparr>r_db := db (snd (run_state (bump i level) w2))\<rparr>)"
      by (rule rtranclp_trans [OF upto3 bump_runs]) simp
    then show ?thesis by (cases s) (simp add: w' n)
  qed
qed

lemma send_refines:
  assumes "r_db s = db w" and "r_pc s = (\<lambda>_. PIdle)" and "distinct (map c_id (t_channels (db w)))"
  shows "esc_runs source i level s
     \<lparr>r_db = db (snd (run_state (SendStepIfDue ladder source i level elapsed notifyStep bump) w)),
      r_pc = (\<lambda>_. PIdle), r_sent = r_sent s @ reported ladder source i level elapsed notifyStep w\<rparr>"
proof (cases "step_due ladder level elapsed \<and> ChannelIDs (ladder ! nat level) \<noteq> []")
  case False
  have s: "s = \<lparr>r_db = db w, r_pc = (\<lambda>_. PIdle), r_sent = r_sent s\<rparr>" using assms by (cases s) simp
  show ?thesis
  proof (cases "step_due ladder level elapsed")
    case True
    with False have "ChannelIDs (ladder ! nat level) = []" by simp
    then show ?thesis
      using SendStepIfDue_no_channels [OF True, of source i notifyStep bump]
        bump_runs [of w s source i level i level] assms by (cases s) (simp add: reported_def)
  next
    case nd: False
    then show ?thesis using not_due [OF nd] s by (simp add: reported_def)
  qed
next
  case True
  define chs where "chs = ChannelIDs (ladder ! nat level)"
  have due: "step_due ladder level elapsed" and ne: "chs \<noteq> []" using True chs_def by auto
  note eq = SendStepIfDue_due [OF due chs_def ne]
  let ?q = "claim_rows source i level chs"
  have claim: "ClaimStepChannels source i level chs = sql ?q" using ne by (simp add: ClaimStepChannels_def)
  have rep: "reported ladder source i level elapsed notifyStep w =
      (case run_state (sql ?q) w of (Inl _, _) \<Rightarrow> []
       | (Inr won, w1) \<Rightarrow> if won = [] then [] else fst (fst (run_state (notifyStep won level) w1)))"
    using due ne claim by (simp add: reported_def flip: chs_def)
  show ?thesis
  proof (cases rule: run_sql_cases [of ?q w])
    case (clean w1)
    then show ?thesis using assms by (cases s) (simp add: eq claim rep)
  next
    case (lost t w1)
    obtain won d' where c: "claim_rows source i level chs t (db w) = (won, d')" by fastforce
    with assms(1) have "esc_replica source i level s (s\<lparr>r_db := d'\<rparr>)"
      by (intro esc_replica.claim_lost) simp
    then show ?thesis using lost c assms by (cases s) (simp add: eq claim rep r_into_rtranclp)
  next
    case (ok t w1)
    obtain won d' where c: "claim_rows source i level chs t (db w) = (won, d')" by fastforce
    let ?s1 = "s\<lparr>r_db := d', r_pc := (r_pc s)(0 := PClaimed won)\<rparr>"
    from c assms have step: "esc_replica source i level s ?s1"
      by (intro esc_replica.claim) simp_all
    have w1: "run_state (sql ?q) w = (Inr won, w1)" "db w1 = d'" using ok c by simp_all
    show ?thesis
    proof (cases "won = []")
      case True
      have "esc_replica source i level ?s1 (?s1\<lparr>r_pc := (r_pc ?s1)(0 := PIdle)\<rparr>)"
        by (rule esc_replica.stop)
      with step have "esc_runs source i level s (?s1\<lparr>r_pc := (r_pc ?s1)(0 := PIdle)\<rparr>)"
        by (meson converse_rtranclp_into_rtranclp r_into_rtranclp)
      moreover have "?s1\<lparr>r_pc := (r_pc ?s1)(0 := PIdle)\<rparr> = s\<lparr>r_db := d'\<rparr>"
        using assms(2) by (cases s) auto
      ultimately have "esc_runs source i level s (s\<lparr>r_db := d'\<rparr>)" by simp
      also have "esc_runs source i level (s\<lparr>r_db := d'\<rparr>)
          (s\<lparr>r_db := db (snd (run_state (bump i level) w1))\<rparr>)"
        using bump_runs [of w1 "s\<lparr>r_db := d'\<rparr>" source i level i level] w1 by simp
      finally show ?thesis using True w1 assms by (cases s) (simp add: eq claim rep)
    next
      case False
      obtain res w' where fin: "run_state (SendStepIfDue ladder source i level elapsed notifyStep bump) w = (res, w')"
        by fastforce
      from won_runs [OF claim_rows_spec(3) [OF c] False, of ?s1 0 w1 level source i res w']
      have "esc_runs source i level ?s1 \<lparr>r_db = db w', r_pc = (r_pc ?s1)(0 := PIdle),
          r_sent = r_sent ?s1 @ fst (fst (run_state (notifyStep won level) w1))\<rparr>"
        using fin w1 False assms(3) claim_rows_spec(1) [OF c] by (simp add: eq claim)
      moreover have "(r_pc ?s1)(0 := PIdle) = (\<lambda>_. PIdle)" using assms(2) by auto
      ultimately have "esc_runs source i level s \<lparr>r_db = db w', r_pc = (\<lambda>_. PIdle),
          r_sent = r_sent s @ fst (fst (run_state (notifyStep won level) w1))\<rparr>"
        using step by (simp add: converse_rtranclp_into_rtranclp)
      then show ?thesis using fin w1 False by (simp add: rep)
    qed
  qed
qed

end

subsection \<open>Writing the log again\<close>

lemma is_logged_insert_esc:
  "is_logged (snd (insert_esc s i c st now d)) s' i' c' st' \<longleftrightarrow>
     is_logged d s' i' c' st' \<or> (s' = s \<and> i' = i \<and> c' = c \<and> st' = st)"
  by (auto simp: insert_esc_def is_logged_append)

lemma logfail_insert_esc [simp]: "t_logfail (snd (insert_esc s i c st now d)) = t_logfail d"
  by (simp add: insert_esc_def)

lemma wp_log_loop:
  "wp (for_acc acc chs (log_one s i st))
     (\<lambda>e w'. t_logfail (db w') = t_logfail (db w) \<and>
        (\<forall>c. is_logged (db w) s i c st \<longrightarrow> is_logged (db w') s i c st) \<and>
        (e = None \<longrightarrow> acc = None \<and> (\<forall>c \<in> set chs. is_logged (db w') s i c st))) w"
proof (induction chs arbitrary: acc w)
  case (Cons c chs)
  have one: "wp (log_one s i st acc c)
     (\<lambda>e w1. t_logfail (db w1) = t_logfail (db w) \<and>
        (\<forall>c. is_logged (db w) s i c st \<longrightarrow> is_logged (db w1) s i c st) \<and>
        (e = None \<longrightarrow> acc = None \<and> is_logged (db w1) s i c st)) w"
    unfolding log_one_def LogStep_def
    by (simp only: wp, rule wp_sqlI) (auto simp: wp is_logged_insert_esc)
  show ?case
    by (simp only: for_acc.simps wp, rule wp_mono [OF one], rule wp_mono [OF Cons.IH]) auto
qed (simp add: wp)

lemma record_fail_row_attempts:
  "fst (record_fail_row s i st now d) = logfail_attempts d s i st + 1"
  by (auto simp: record_fail_row_def logfail_attempts_def list_ex_iff filter_empty_conv
      split: list.splits)

text \<open>
  \<open>LogStepChannels\<close> reports success (no error) only when it is done, and it is done only
  when every channel is in the log or the ceiling of failed attempts has been reached;
  this holds under every schedule of faults.
\<close>

theorem LogStepChannels_done_sound:
  assumes "run_state (LogStepChannels s i st chs) w = ((fin, err), w')"
  shows "(err = None \<longrightarrow> fin) \<and>
         (fin \<longrightarrow> list_all (\<lambda>c. is_logged (db w') s i c st) chs \<or>
                 maxLogFailureAttempts \<le> logfail_attempts (db w) s i st + 1)"
proof -
  have "wp (LogStepChannels s i st chs)
     (\<lambda>(fin, err) w'. (err = None \<longrightarrow> fin) \<and>
         (fin \<longrightarrow> list_all (\<lambda>c. is_logged (db w') s i c st) chs \<or>
                 maxLogFailureAttempts \<le> logfail_attempts (db w) s i st + 1)) w"
    unfolding LogStepChannels_def clearLogFailure_def recordLogFailure_def
  proof (simp only: wp, rule wp_mono [OF wp_log_loop], goal_cases)
    case (1 e w1)
    then have att: "logfail_attempts (db w1) s i st = logfail_attempts (db w) s i st"
      by (simp add: logfail_attempts_def)
    show ?case
    proof (cases "e = None")
      case True
      have "is_logged (clear_fail_row s i st d) = is_logged d" for d
        by (simp add: is_logged_def clear_fail_row_def fun_eq_iff)
      with True 1 show ?thesis
        by (auto intro!: wp_sqlI simp: wp list_all_iff)
    next
      case False
      then show ?thesis
        by (auto intro!: wp_sqlI simp: wp att record_fail_row_attempts errors_join_def List.map_filter_simps)
    qed
  qed
  then show ?thesis using assms by (simp add: wp_def)
qed

theorem LogStepChannels_done_sound_witness:
  "list_all (\<lambda>c. is_logged (db (snd (run_state (LogStepChannels ''uptime'' 1 0 [7, 8]) (calm 5 ex_db)))) ''uptime'' 1 c 0) [7, 8]"
proof -
  let ?w = "snd (run_state (LogStepChannels ''uptime'' 1 0 [7, 8]) (calm 5 ex_db))"
  have "run_state (LogStepChannels ''uptime'' 1 0 [7, 8]) (calm 5 ex_db) = ((True, None), ?w)" by code_simp
  from LogStepChannels_done_sound [OF this]
  have "list_all (\<lambda>c. is_logged (db ?w) ''uptime'' 1 c 0) [7, 8] \<or>
      maxLogFailureAttempts \<le> logfail_attempts ex_db ''uptime'' 1 0 + 1" by simp
  moreover have "\<not> maxLogFailureAttempts \<le> logfail_attempts ex_db ''uptime'' 1 0 + 1" by code_simp
  ultimately show ?thesis by blast
qed

lemma run_sql_fail_clean:
  "sched w = (FailClean, 0) # fs \<Longrightarrow> run_state (sql q) w = (Inl ErrDB, w\<lparr>sched := fs\<rparr>)"
  by (simp add: sql_def advance_def case_prod_beta)

lemma run_log_loop_all_fail:
  "sched w = replicate (length chs) (FailClean, 0) @ fs \<Longrightarrow>
     snd (run_state (for_acc acc chs (log_one s i st)) w) = w\<lparr>sched := fs\<rparr> \<and>
     (fst (run_state (for_acc acc chs (log_one s i st)) w) = None \<longleftrightarrow> acc = None \<and> chs = [])"
proof (induction chs arbitrary: acc w)
  case (Cons c chs)
  then have step: "run_state (log_one s i st acc c) w =
      (errors_join [acc, Some ErrDB], w\<lparr>sched := replicate (length chs) (FailClean, 0) @ fs\<rparr>)"
    by (simp add: log_one_def LogStep_def run_sql_fail_clean)
  from Cons.IH [of "w\<lparr>sched := replicate (length chs) (FailClean, 0) @ fs\<rparr>" "errors_join [acc, Some ErrDB]"]
  show ?case unfolding for_acc.simps run_state_bind step by simp
qed simp

lemma filter_sql_update:
  "(\<And>r. p (f r) = p r) \<Longrightarrow> filter p (sql_update p f rows) = map f (filter p rows)"
  by (induction rows) (auto simp: sql_update_def)

lemma logfail_after_record:
  "logfail_attempts (snd (record_fail_row s i st now d)) s i st = logfail_attempts d s i st + 1"
  by (auto simp: record_fail_row_def logfail_attempts_def list_ex_iff filter_sql_update
      filter_empty_conv split: list.splits)

lemma logfail_after_clear: "logfail_attempts (clear_fail_row s i st d) s i st = 0"
  by (simp add: clear_fail_row_def logfail_attempts_def sqldefs)

text \<open>
  While every write to the log keeps failing, each call of \<open>LogStepChannels\<close> adds one to
  the stored count of failures, and the call that reaches the ceiling of five reports
  done and resets the count: a step is retried at most five times.
\<close>

theorem LogStepChannels_gives_up:
  assumes "chs \<noteq> []" and "sched w = replicate (length chs) (FailClean, 0)"
    and "run_state (LogStepChannels s i st chs) w = ((fin, err), w')"
  shows "fin = (maxLogFailureAttempts \<le> logfail_attempts (db w) s i st + 1) \<and> err \<noteq> None \<and>
         logfail_attempts (db w') s i st = (if fin then 0 else logfail_attempts (db w) s i st + 1)"
proof -
  obtain e w1 where l: "run_state (for_acc None chs (log_one s i st)) w = (e, w1)" by fastforce
  have w1: "w1 = w\<lparr>sched := []\<rparr>" "e \<noteq> None"
    using run_log_loop_all_fail [of w chs "[]" None s i st] assms(1,2) l by auto
  then show ?thesis
    using assms(3) l
    by (auto simp: LogStepChannels_def recordLogFailure_def clearLogFailure_def
        record_fail_row_attempts logfail_after_record logfail_after_clear split: if_splits)
qed

theorem LogStepChannels_gives_up_witness:
  "case run_state (LogStepChannels ''uptime'' 1 0 [7]) ((calm 5 ex_db)\<lparr>sched := [(FailClean, 0)]\<rparr>) of
     ((fin, err), w') \<Rightarrow> \<not> fin \<and> err \<noteq> None \<and> logfail_attempts (db w') ''uptime'' 1 0 = 1"
proof -
  let ?w = "(calm 5 ex_db)\<lparr>sched := [(FailClean, 0)]\<rparr>"
  obtain fin err w' where r: "run_state (LogStepChannels ''uptime'' 1 0 [7]) ?w = ((fin, err), w')"
    by (metis prod.collapse)
  have "logfail_attempts (db ?w) ''uptime'' 1 0 = 0" "maxLogFailureAttempts = 5" by code_simp+
  then show ?thesis using LogStepChannels_gives_up [OF _ _ r] r by auto
qed

subsection \<open>The delay of a step\<close>



end
