(* ===== verification/Escalation_Scheduler.thy ===== *)
theory Escalation_Scheduler
  imports Escalation_Step
begin

text \<open>
  \<open>internal/escalation/scheduler.go\<close>, \<open>source.go\<close> and \<open>retention.go\<close>: the periodic pass
  over the open, unacknowledged incidents of every source, the release of incidents whose
  dependency recovered, and the purge of old log rows. The properties: the binary search
  behind the rotation, fairness of the rotation, the gates of \<open>tickOne\<close>, and what a purge
  keeps.
\<close>

subsection \<open>Model: source.go\<close>

record pending =
  pi_id :: int
  pi_project :: int
  pi_started :: time
  pi_severity :: string
  pi_level :: int

text \<open>The interfaces \<open>Source\<close>, \<open>SuppressedSource\<close>, \<open>StepNotifier\<close> and \<open>DepChecker\<close>.\<close>

record suppressed_source =
  ss_OpenSuppressed :: "pending list result prog"
  ss_ClearSuppressed :: "int \<Rightarrow> error option prog"

record binding =
  b_Name :: string
  b_OpenUnacked :: "pending list result prog"
  b_BumpEscalation :: "int \<Rightarrow> int \<Rightarrow> (bool \<times> error option) prog"
  b_Suppressed :: "suppressed_source option"
  b_NotifyStep :: "int \<Rightarrow> int list \<Rightarrow> int \<Rightarrow> (int list \<times> error option) prog"

record dep_checker =
  dc_CheckIncident :: "string \<Rightarrow> int \<Rightarrow> (bool \<times> bool) result prog"
  dc_MarkSuppressed :: "string \<Rightarrow> int \<Rightarrow> error option prog"

subsection \<open>Model: scheduler.go\<close>

text \<open>
  The configuration of \<open>Scheduler\<close>; \<open>sc_Budget\<close> is the value of \<open>tickBudget\<close>. What a tick
  keeps for the next one is in \<open>tick_state\<close>.
\<close>

record scheduler =
  sc_Bindings :: "binding list"
  sc_Maint :: "int \<Rightarrow> time \<Rightarrow> bool result prog"
  sc_Dep :: "dep_checker option"
  sc_SettleGrace :: duration
  sc_Budget :: duration

record tick_state =
  tk_cursor :: "string \<Rightarrow> int"
  tk_skipped :: int
  tk_last_tick :: time

text \<open>\<open>sort.Search\<close> of the Go library: binary search for the least index where \<open>f\<close> holds.\<close>

function sort_search_loop :: "(nat \<Rightarrow> bool) \<Rightarrow> nat \<Rightarrow> nat \<Rightarrow> nat" where
  "sort_search_loop f i j =
     (if i < j
      then let h = (i + j) div 2 in
           if \<not> f h then sort_search_loop f (h + 1) j else sort_search_loop f i h
      else i)"
  by pat_completeness auto
termination
  by (relation "measure (\<lambda>(f, i, j). j - i)") auto

declare sort_search_loop.simps [simp del]

definition sort_Search :: "nat \<Rightarrow> (nat \<Rightarrow> bool) \<Rightarrow> nat" where
  "sort_Search n f = sort_search_loop f 0 n"

definition rotatePending :: "pending list \<Rightarrow> int \<Rightarrow> pending list" where
  "rotatePending pending cursor =
     (if pending = [] then pending
      else let idx = sort_Search (length pending) (\<lambda>i. pi_id (pending ! i) > cursor)
           in if idx = 0 then pending else drop idx pending @ take idx pending)"

text \<open>The per-tick caches: \<open>maintenanceCache\<close> and \<open>ladderCache\<close>.\<close>

type_synonym caches = "(int \<times> bool) list \<times> ((int \<times> string) \<times> ladder) list"

definition releaseSuppressed :: "scheduler \<Rightarrow> binding \<Rightarrow> unit prog" where
  "releaseSuppressed s b =
     (case (b_Suppressed b, sc_Dep s) of
        (Some ss, Some dep) \<Rightarrow>
          do {
            r \<leftarrow> ss_OpenSuppressed ss;
            (case r of
               Inl _ \<Rightarrow> State_Monad.return ()
             | Inr lst \<Rightarrow>
                 for_each lst (\<lambda>p. do {
                   c \<leftarrow> dc_CheckIncident dep (b_Name b) (pi_id p);
                   (case c of
                      Inl _ \<Rightarrow> State_Monad.return ()
                    | Inr (hasParent, parentDown) \<Rightarrow>
                        if hasParent \<and> parentDown then State_Monad.return ()
                        else do {
                          _ \<leftarrow> ss_ClearSuppressed ss (pi_id p);
                          State_Monad.return ()
                        })
                 }))
          }
      | _ \<Rightarrow> State_Monad.return ())"

text \<open>The maintenance gate of \<open>tickOne\<close>: \<open>True\<close> when the incident goes on.\<close>

definition maintenance_gate :: "scheduler \<Rightarrow> pending \<Rightarrow> time \<Rightarrow> caches \<Rightarrow> (bool \<times> caches) prog" where
  "maintenance_gate s p now cs =
     (case map_of (fst cs) (pi_project p) of
        Some inMaint \<Rightarrow> State_Monad.return (\<not> inMaint, cs)
      | None \<Rightarrow>
          do {
            r \<leftarrow> sc_Maint s (pi_project p) now;
            State_Monad.return
              (case r of
                 Inl _ \<Rightarrow> (False, cs)
               | Inr inMaint \<Rightarrow> (\<not> inMaint, ((pi_project p, inMaint) # fst cs, snd cs)))
          })"

text \<open>The dependency gate: \<open>True\<close> when the incident goes on to its ladder.\<close>

definition dependency_gate :: "scheduler \<Rightarrow> binding \<Rightarrow> pending \<Rightarrow> time \<Rightarrow> bool prog" where
  "dependency_gate s b p now =
     (case (b_Suppressed b, sc_Dep s) of
        (Some _, Some dep) \<Rightarrow>
          do {
            c \<leftarrow> dc_CheckIncident dep (b_Name b) (pi_id p);
            (case c of
               Inl _ \<Rightarrow> State_Monad.return True
             | Inr (hasParent, parentDown) \<Rightarrow>
                 if parentDown then do {
                   _ \<leftarrow> dc_MarkSuppressed dep (b_Name b) (pi_id p);
                   State_Monad.return False
                 }
                 else State_Monad.return
                   (\<not> (hasParent \<and> pi_level p = 0 \<and> time_sub now (pi_started p) < sc_SettleGrace s)))
          }
      | _ \<Rightarrow> State_Monad.return True)"

text \<open>The ladder of an incident, from the cache of the tick or from the store.\<close>

definition cached_ladder :: "pending \<Rightarrow> caches \<Rightarrow> (ladder result \<times> caches) prog" where
  "cached_ladder p cs =
     (case map_of (snd cs) (pi_project p, pi_severity p) of
        Some ladder \<Rightarrow> State_Monad.return (Inr ladder, cs)
      | None \<Rightarrow>
          do {
            l \<leftarrow> Ladder (pi_project p) (pi_severity p);
            State_Monad.return
              (l, case l of
                    Inl _ \<Rightarrow> cs
                  | Inr ladder \<Rightarrow> (fst cs, ((pi_project p, pi_severity p), ladder) # snd cs))
          })"

definition send_due_step :: "binding \<Rightarrow> pending \<Rightarrow> time \<Rightarrow> caches \<Rightarrow> caches prog" where
  "send_due_step b p now cs =
     do {
       (l, cs') \<leftarrow> cached_ladder p cs;
       (case l of
          Inl _ \<Rightarrow> State_Monad.return cs'
        | Inr ladder \<Rightarrow>
            do {
              _ \<leftarrow> SendStepIfDue ladder (b_Name b) (pi_id p) (pi_level p) (time_sub now (pi_started p))
                    (b_NotifyStep b (pi_id p)) (b_BumpEscalation b);
              State_Monad.return cs'
            })
     }"

definition tickOne :: "scheduler \<Rightarrow> binding \<Rightarrow> pending \<Rightarrow> time \<Rightarrow> caches \<Rightarrow> caches prog" where
  "tickOne s b p now cs =
     do {
       (go, cs1) \<leftarrow> maintenance_gate s p now cs;
       if \<not> go then State_Monad.return cs1
       else do {
         pass \<leftarrow> dependency_gate s b p now;
         if pass then send_due_step b p now cs1 else State_Monad.return cs1
       }
     }"

text \<open>
  \<open>ctx.Err() != nil\<close> once the deadline of the tick has passed. The loop over the pending
  incidents stops there and reports how many it handled (\<open>done\<close>).
\<close>

definition ctx_expired :: "time \<Rightarrow> bool prog" where
  "ctx_expired deadline = State (\<lambda>w. (deadline \<le> go_now w, w))"

fun tick_pending ::
  "scheduler \<Rightarrow> binding \<Rightarrow> time \<Rightarrow> time \<Rightarrow> pending list \<Rightarrow> nat \<Rightarrow> caches \<Rightarrow> (nat \<times> caches) prog" where
  "tick_pending s b now deadline [] handled cs = State_Monad.return (handled, cs)"
| "tick_pending s b now deadline (p # ps) handled cs =
     do {
       e \<leftarrow> ctx_expired deadline;
       if e then State_Monad.return (handled, cs)
       else do {
         cs' \<leftarrow> tickOne s b p now cs;
         tick_pending s b now deadline ps (handled + 1) cs'
       }
     }"

text \<open>After a pass over one source the cursor is the last incident it handled.\<close>

definition advance_cursor :: "int \<Rightarrow> pending list \<Rightarrow> nat \<Rightarrow> int" where
  "advance_cursor cursor pending handled =
     (if handled > 0 then pi_id (pending ! (handled - 1)) else cursor)"

fun tick_bindings ::
  "scheduler \<Rightarrow> time \<Rightarrow> time \<Rightarrow> binding list \<Rightarrow> (string \<Rightarrow> int) \<Rightarrow> int \<Rightarrow> caches \<Rightarrow>
   ((string \<Rightarrow> int) \<times> int) prog" where
  "tick_bindings s now deadline [] cursor skipped cs = State_Monad.return (cursor, skipped)"
| "tick_bindings s now deadline (b # bs) cursor skipped cs =
     do {
       e \<leftarrow> ctx_expired deadline;
       if e then State_Monad.return (cursor, skipped)
       else do {
         _ \<leftarrow> releaseSuppressed s b;
         r \<leftarrow> b_OpenUnacked b;
         (case r of
            Inl _ \<Rightarrow> tick_bindings s now deadline bs cursor skipped cs
          | Inr pending0 \<Rightarrow>
              (let pending = rotatePending pending0 (cursor (b_Name b)) in
               do {
                 (handled, cs') \<leftarrow> tick_pending s b now deadline pending 0 cs;
                 tick_bindings s now deadline bs
                   (cursor(b_Name b := advance_cursor (cursor (b_Name b)) pending handled))
                   (skipped + (int (length pending) - int handled)) cs'
               }))
       }
     }"

definition Tick :: "scheduler \<Rightarrow> tick_state \<Rightarrow> tick_state prog" where
  "Tick s ts =
     do {
       started \<leftarrow> time_now;
       now \<leftarrow> time_now;
       (cursor, skipped) \<leftarrow>
         tick_bindings s now (started + sc_Budget s) (sc_Bindings s) (tk_cursor ts) 0 ([], []);
       e \<leftarrow> ctx_expired (started + sc_Budget s);
       fin \<leftarrow> time_now;
       State_Monad.return
         (ts\<lparr>tk_cursor := cursor, tk_skipped := skipped,
             tk_last_tick := (if e then tk_last_tick ts else fin)\<rparr>)
     }"

subsection \<open>Model: retention.go\<close>

definition known_sources :: "string list" where
  "known_sources = [''host'', ''metric'', ''trace'', ''profile'', ''slo'', ''uptime'']"

definition source_table :: "db \<Rightarrow> string \<Rightarrow> (int \<times> time option) list" where
  "source_table d source =
     (if source = ''host'' then map (\<lambda>i. (a_id i, a_resolved i)) (t_host_incidents d)
      else if source = ''metric'' then map (\<lambda>i. (a_id i, a_resolved i)) (t_metric_incidents d)
      else if source = ''slo'' then map (\<lambda>i. (a_id i, a_resolved i)) (t_slo_incidents d)
      else map snd (filter (\<lambda>(src, _). src = source) (t_source_incidents d)))"

text \<open>\<open>incident_keep\<close>: the incident exists and is open, or was closed at or after the cutoff.\<close>

definition keep_incident :: "db \<Rightarrow> time \<Rightarrow> string \<Rightarrow> int \<Rightarrow> bool" where
  "keep_incident d cutoff source incident =
     (if source = ''uptime'' then
        list_ex (\<lambda>i. i_id i = incident \<and>
          (case i_resolved i of None \<Rightarrow> True | Some t \<Rightarrow> cutoff \<le> t)) (t_incidents d)
      else if source \<in> set known_sources then
        list_ex (\<lambda>(iid, res). iid = incident \<and>
          (case res of None \<Rightarrow> True | Some t \<Rightarrow> cutoff \<le> t)) (source_table d source)
      else False)"

definition purged_row :: "db \<Rightarrow> time \<Rightarrow> esc_row \<Rightarrow> bool" where
  "purged_row d cutoff r \<longleftrightarrow>
     e_sent_at r < cutoff \<and> \<not> keep_incident d cutoff (e_source r) (e_incident r)"

record purge_result =
  pr_Deleted :: int
  pr_KeptOpen :: int
  pr_UnknownSources :: "string list"

text \<open>The statement \<open>purgeEscalationsSQL\<close>: candidates, deleted, unknown sources.\<close>

definition purge_escalations :: "time \<Rightarrow> db \<Rightarrow> (int \<times> int \<times> string list) \<times> db" where
  "purge_escalations cutoff d =
     (let candidates = filter (\<lambda>r. e_sent_at r < cutoff) (t_esc d);
          deleted = filter (purged_row d cutoff) (t_esc d)
      in ((int (length candidates), int (length deleted),
           remdups (filter (\<lambda>src. src \<notin> set known_sources) (map e_source deleted))),
          d\<lparr>t_esc := sql_delete (purged_row d cutoff) (t_esc d)\<rparr>))"

definition PurgeOldEscalations :: "duration \<Rightarrow> purge_result result prog" where
  "PurgeOldEscalations olderThan =
     (if olderThan \<le> 0 then State_Monad.return (Inl (ErrMsg ''olderThan must be positive''))
      else do {
        t \<leftarrow> time_now;
        (let cutoff = t - olderThan in
         do {
           r \<leftarrow> sql (\<lambda>_ d. purge_escalations cutoff d);
           (case r of
              Inl e \<Rightarrow> State_Monad.return (Inl e)
            | Inr (candidates, deleted, unknown) \<Rightarrow>
                do {
                  f \<leftarrow> sql (\<lambda>_ d. (int (length (filter (\<lambda>r. f_last r < cutoff) (t_logfail d))),
                         d\<lparr>t_logfail := sql_delete (\<lambda>r. f_last r < cutoff) (t_logfail d)\<rparr>));
                  State_Monad.return
                    (case f of
                       Inl e \<Rightarrow> Inl e
                     | Inr n \<Rightarrow> Inr \<lparr>pr_Deleted = deleted + n, pr_KeptOpen = candidates - deleted,
                                    pr_UnknownSources = unknown\<rparr>)
                })
         })
      })"

text \<open>\<open>Janitor.tick\<close>: its outcome is only logged.\<close>

definition janitor_tick :: "duration \<Rightarrow> unit prog" where
  "janitor_tick retention =
     do {
       _ \<leftarrow> PurgeOldEscalations retention;
       State_Monad.return ()
     }"

subsection \<open>The rotation\<close>

lemma sort_search_loop_step:
  "\<not> i < j \<Longrightarrow> sort_search_loop f i j = i"
  "i < j \<Longrightarrow> \<not> f ((i + j) div 2) \<Longrightarrow> sort_search_loop f i j = sort_search_loop f ((i + j) div 2 + 1) j"
  "i < j \<Longrightarrow> f ((i + j) div 2) \<Longrightarrow> sort_search_loop f i j = sort_search_loop f i ((i + j) div 2)"
  by (subst sort_search_loop.simps, simp add: Let_def)+

lemma sort_search_loop_least:
  assumes "i \<le> j" and "\<And>a b. a \<le> b \<Longrightarrow> b < j \<Longrightarrow> f a \<Longrightarrow> f b"
  shows "i \<le> sort_search_loop f i j \<and> sort_search_loop f i j \<le> j \<and>
         (\<forall>k. i \<le> k \<and> k < sort_search_loop f i j \<longrightarrow> \<not> f k) \<and>
         (\<forall>k. sort_search_loop f i j \<le> k \<and> k < j \<longrightarrow> f k)"
  using assms
proof (induction f i j rule: sort_search_loop.induct)
  case (1 f i j)
  show ?case
  proof (cases "i < j")
    case True
    define h where "h = (i + j) div 2"
    have h: "i \<le> h" "h < j" using True by (auto simp: h_def)
    show ?thesis
    proof (cases "f h")
      case False
      have low: "\<not> f k" if "k \<le> h" for k using 1(4) [of k h] that h False by blast
      have eq: "sort_search_loop f i j = sort_search_loop f (h + 1) j"
        using sort_search_loop_step(2) [OF True, of f] False unfolding h_def by simp
      have IH: "h + 1 \<le> sort_search_loop f (h + 1) j \<and> sort_search_loop f (h + 1) j \<le> j \<and>
         (\<forall>k. h + 1 \<le> k \<and> k < sort_search_loop f (h + 1) j \<longrightarrow> \<not> f k) \<and>
         (\<forall>k. sort_search_loop f (h + 1) j \<le> k \<and> k < j \<longrightarrow> f k)"
        using 1(1) [OF True h_def False _ 1(4)] h by simp
      have "\<not> f k" if "i \<le> k" "k < sort_search_loop f (h + 1) j" for k
        using IH low that by (cases "k \<le> h") simp_all
      with IH h show ?thesis unfolding eq by simp
    next
      case fh: True
      have high: "f k" if "h \<le> k" "k < j" for k using 1(4) [of h k] that fh by blast
      have eq: "sort_search_loop f i j = sort_search_loop f i h"
        using sort_search_loop_step(3) [OF True, of f] fh unfolding h_def by simp
      have IH: "i \<le> sort_search_loop f i h \<and> sort_search_loop f i h \<le> h \<and>
         (\<forall>k. i \<le> k \<and> k < sort_search_loop f i h \<longrightarrow> \<not> f k) \<and>
         (\<forall>k. sort_search_loop f i h \<le> k \<and> k < h \<longrightarrow> f k)"
        using 1(2) [OF True h_def] fh 1(4) h by simp
      have "f k" if "sort_search_loop f i h \<le> k" "k < j" for k
        using IH high that by (cases "k < h") simp_all
      with IH h show ?thesis unfolding eq by simp
    qed
  next
    case False
    with 1(3) show ?thesis by (auto simp: sort_search_loop_step(1))
  qed
qed

lemma length_filter_le_sorted:
  assumes "sorted (map f xs)" and "idx \<le> length xs" and "\<And>k. k < idx \<Longrightarrow> f (xs ! k) \<le> c"
    and "\<And>k. idx \<le> k \<Longrightarrow> k < length xs \<Longrightarrow> c < f (xs ! k)"
  shows "length (filter (\<lambda>x. f x \<le> c) xs) = idx"
proof -
  have t: "filter (\<lambda>x. f x \<le> c) (take idx xs) = take idx xs"
    using assms(2,3) by (auto simp: filter_id_conv in_set_conv_nth)
  have "\<not> f x \<le> c" if "x \<in> set (drop idx xs)" for x
  proof -
    from that obtain k where "k < length xs - idx" "x = xs ! (idx + k)"
      by (auto simp: in_set_conv_nth)
    moreover from this have "idx + k < length xs" by simp
    ultimately show ?thesis using assms(4) [of "idx + k"] by (simp add: not_le)
  qed
  then have d: "filter (\<lambda>x. f x \<le> c) (drop idx xs) = []" by (simp add: filter_empty_conv)
  have "filter (\<lambda>x. f x \<le> c) (take idx xs @ drop idx xs) = take idx xs"
    by (simp only: filter_append t d append_Nil2)
  then show ?thesis using assms(2) by simp
qed

abbreviation seen_count :: "pending list \<Rightarrow> int \<Rightarrow> nat" where
  "seen_count ps cursor \<equiv> length (filter (\<lambda>p. pi_id p \<le> cursor) ps)"

lemma sort_Search_pending:
  assumes "sorted (map pi_id ps)"
  shows "sort_Search (length ps) (\<lambda>i. pi_id (ps ! i) > cursor) = seen_count ps cursor"
proof -
  let ?f = "\<lambda>i. pi_id (ps ! i) > cursor"
  define idx where "idx = sort_Search (length ps) ?f"
  have mono: "?f b" if "a \<le> b" "b < length ps" "?f a" for a b
    using sorted_nth_mono [OF assms, of a b] that by simp
  have least: "0 \<le> idx \<and> idx \<le> length ps \<and> (\<forall>k. 0 \<le> k \<and> k < idx \<longrightarrow> \<not> ?f k) \<and>
      (\<forall>k. idx \<le> k \<and> k < length ps \<longrightarrow> ?f k)"
    unfolding idx_def sort_Search_def by (rule sort_search_loop_least [OF _ mono]) simp
  have "seen_count ps cursor = idx"
  proof (rule length_filter_le_sorted [OF assms])
    show "pi_id (ps ! k) \<le> cursor" if "k < idx" for k using least that by force
  qed (use least in blast)+
  then show ?thesis by (simp add: idx_def)
qed

lemma rotatePending_rotate:
  assumes "sorted (map pi_id ps)"
  shows "rotatePending ps cursor = rotate (seen_count ps cursor) ps"
proof (cases "ps = []")
  case False
  define k where "k = seen_count ps cursor"
  have k: "k \<le> length ps" by (simp add: k_def)
  have "drop k ps @ take k ps = rotate k ps"
  proof (cases "k = length ps")
    case False
    with k show ?thesis by (simp add: rotate_drop_take)
  qed simp
  then show ?thesis
    using False by (simp add: rotatePending_def sort_Search_pending [OF assms] flip: k_def)
qed (simp add: rotatePending_def)

text \<open>
  A run of passes over an unchanged list of pending incidents: in each pass the first
  \<open>d\<close> incidents of the rotated list are handled before the budget runs out, and the cursor
  moves as in \<open>tick_bindings\<close>.
\<close>

fun passes :: "pending list \<Rightarrow> int \<Rightarrow> nat list \<Rightarrow> pending list" where
  "passes ps cursor [] = []"
| "passes ps cursor (d # ds) =
     (let r = rotatePending ps cursor
      in take d r @ passes ps (advance_cursor cursor r d) ds)"

lemma seen_count_nth:
  assumes "sorted (map pi_id ps)" and "distinct (map pi_id ps)" and "j < length ps"
  shows "seen_count ps (pi_id (ps ! j)) = j + 1"
proof (rule length_filter_le_sorted [OF assms(1)])
  show "pi_id (ps ! k) \<le> pi_id (ps ! j)" if "k < j + 1" for k
    using sorted_nth_mono [OF assms(1), of k j] assms(3) that by simp
  show "pi_id (ps ! j) < pi_id (ps ! k)" if "j + 1 \<le> k" "k < length ps" for k
    using sorted_nth_mono [OF assms(1), of j k] nth_eq_iff_index_eq [OF assms(2), of j k] assms(3) that
    by simp
qed (use assms(3) in simp)

lemma take_rotate:
  "ps \<noteq> [] \<Longrightarrow> d \<le> length ps \<Longrightarrow>
     take d (rotate k ps) = map (\<lambda>i. ps ! ((k + i) mod length ps)) [0..<d]"
  by (rule nth_equalityI) (auto simp: nth_rotate)

lemma mod_shift: "1 \<le> d \<Longrightarrow> ((k + (d - 1)) mod n + 1 + i) mod n = (k + d + i) mod (n::nat)"
proof -
  assume "1 \<le> d"
  have "((k + (d - 1)) mod n + 1 + i) mod n = (k + (d - 1) + (1 + i)) mod n"
    by (metis add.assoc mod_add_left_eq)
  also have "k + (d - 1) + (1 + i) = k + d + i" using \<open>1 \<le> d\<close> by simp
  finally show ?thesis .
qed

lemma passes_round_robin:
  assumes "sorted (map pi_id ps)" and "distinct (map pi_id ps)" and "ps \<noteq> []"
    and "list_all (\<lambda>d. 1 \<le> d \<and> d \<le> length ps) ds"
  shows "passes ps cursor ds =
     map (\<lambda>i. ps ! ((seen_count ps cursor + i) mod length ps)) [0..<sum_list ds]"
  using assms(4)
proof (induction ds arbitrary: cursor)
  case (Cons d ds)
  let ?n = "length ps" and ?k = "seen_count ps cursor"
  let ?c = "advance_cursor cursor (rotatePending ps cursor) d"
  have d: "1 \<le> d" "d \<le> ?n" and n: "0 < ?n" using Cons.prems assms(3) by auto
  have "?c = pi_id (ps ! ((?k + (d - 1)) mod ?n))"
    using d n by (simp add: advance_cursor_def rotatePending_rotate [OF assms(1)] nth_rotate)
  then have "seen_count ps ?c = (?k + (d - 1)) mod ?n + 1"
    using seen_count_nth [OF assms(1,2)] n by simp
  then have "(seen_count ps ?c + i) mod ?n = (?k + d + i) mod ?n" for i
    using mod_shift [OF d(1), of ?k ?n i] by simp
  then have "passes ps ?c ds = map (\<lambda>i. ps ! ((?k + d + i) mod ?n)) [0..<sum_list ds]"
    using Cons.IH [of ?c] Cons.prems by simp
  moreover have "take d (rotatePending ps cursor) = map (\<lambda>i. ps ! ((?k + i) mod ?n)) [0..<d]"
    using d by (simp add: rotatePending_rotate [OF assms(1)] take_rotate [OF assms(3)])
  moreover have "map (\<lambda>i. ps ! ((?k + d + i) mod ?n)) [0..<sum_list ds] =
      map (\<lambda>i. ps ! ((?k + i) mod ?n)) [d..<d + sum_list ds]"
    by (rule nth_equalityI) (auto simp: add.assoc)
  ultimately show ?case
    by (simp add: Let_def upt_add_eq_append [of 0 d, simplified] flip: map_append)
qed simp

text \<open>After as many ticks as there are incidents every one has had its turn.\<close>

lemma passes_visit_all:
  assumes "sorted (map pi_id ps)" and "distinct (map pi_id ps)"
    and "list_all (\<lambda>d. 1 \<le> d \<and> d \<le> length ps) ds" and "length ps \<le> length ds"
  shows "set (passes ps cursor ds) = set ps"
proof (cases "ps = []")
  case True
  then show ?thesis using assms(3) by (cases ds) simp_all
next
  case False
  define k where "k = seen_count ps cursor"
  let ?n = "length ps"
  have k: "k \<le> ?n" by (simp add: k_def)
  have "length ds \<le> sum_list ds"
    using assms(3) by (induction ds) auto
  with assms(4) have n: "?n \<le> sum_list ds" by simp
  have eq: "passes ps cursor ds = map (\<lambda>i. ps ! ((k + i) mod ?n)) [0..<sum_list ds]"
    unfolding k_def by (rule passes_round_robin [OF assms(1,2) False assms(3)])
  have "ps ! j \<in> set (passes ps cursor ds)" if "j < ?n" for j
  proof -
    define i where "i = (j + ?n - k) mod ?n"
    have "(k + i) mod ?n = (k + (j + ?n - k)) mod ?n" by (simp add: i_def mod_simps)
    also have "\<dots> = j" using that k by simp
    finally have "(k + i) mod ?n = j" .
    moreover have "i < ?n" using that unfolding i_def by (intro mod_less_divisor) auto
    ultimately show ?thesis unfolding eq using n by (auto simp: image_iff intro!: bexI [of _ i])
  qed
  then have "set ps \<subseteq> set (passes ps cursor ds)" by (auto simp: in_set_conv_nth)
  moreover have "set (passes ps cursor ds) \<subseteq> set ps" unfolding eq using False by auto
  ultimately show ?thesis by blast
qed

subsection \<open>What the scheduler relies on in a source\<close>

lemma seen_count_split:
  "sorted (map pi_id ps) \<Longrightarrow> take (seen_count ps cursor) ps = filter (\<lambda>p. pi_id p \<le> cursor) ps \<and>
     drop (seen_count ps cursor) ps = filter (\<lambda>p. cursor < pi_id p) ps"
proof (induction ps)
  case (Cons p ps)
  show ?case
  proof (cases "pi_id p \<le> cursor")
    case False
    with Cons.prems have gt: "\<forall>x \<in> set ps. cursor < pi_id x" by fastforce
    then have "filter (\<lambda>x. pi_id x \<le> cursor) ps = []" "filter (\<lambda>x. cursor < pi_id x) ps = ps"
      by (auto simp: filter_empty_conv)
    with False show ?thesis by simp
  qed (use Cons in simp)
qed simp

text \<open>
  The contract of \<open>Source.OpenUnacked\<close>: incidents by ascending id, each once, and no effect
  on the tables. The binary search of \<open>rotatePending\<close> needs the order.
\<close>

locale escalation_source =
  fixes open_unacked_of :: "pending list result prog" and source_wf :: "db \<Rightarrow> bool"
  assumes unacked_sorted: "source_wf (db w) \<Longrightarrow> run_state open_unacked_of w = (Inr ps, w') \<Longrightarrow>
      sorted (map pi_id ps) \<and> distinct (map pi_id ps)"
    and unacked_reads: "db (snd (run_state open_unacked_of w)) = db w"
begin

lemma visits_all:
  assumes "source_wf (db w)" and "run_state open_unacked_of w = (Inr ps, w')"
    and "list_all (\<lambda>d. 1 \<le> d \<and> d \<le> length ps) ds" and "length ps \<le> length ds"
  shows "set (passes ps cursor ds) = set ps"
  using passes_visit_all [OF _ _ assms(3,4)] unacked_sorted [OF assms(1,2)] by simp

lemma resumes_after_cursor:
  assumes "source_wf (db w)" and "run_state open_unacked_of w = (Inr ps, w')"
  shows "rotatePending ps cursor = filter (\<lambda>p. cursor < pi_id p) ps @ filter (\<lambda>p. pi_id p \<le> cursor) ps"
proof -
  have srt: "sorted (map pi_id ps)" using unacked_sorted [OF assms] by simp
  define k where "k = seen_count ps cursor"
  have "rotatePending ps cursor = drop k ps @ take k ps"
    unfolding rotatePending_def sort_Search_pending [OF srt] k_def by (auto simp: Let_def)
  then show ?thesis using seen_count_split [OF srt] by (simp add: k_def)
qed

end

subsection \<open>The purge\<close>

text \<open>What the statement for the escalation rows leaves, and the count it reports.\<close>

lemma purge_escalations_rows:
  "t_esc (snd (purge_escalations cutoff d)) = filter (\<lambda>r. \<not> purged_row d cutoff r) (t_esc d)"
  "t_logfail (snd (purge_escalations cutoff d)) = t_logfail d"
  by (simp_all add: purge_escalations_def Let_def sqldefs)

lemma purge_escalations_counts:
  assumes "fst (purge_escalations cutoff d) = (candidates, deleted, unknown)"
  shows "deleted = int (length (t_esc d)) - int (length (t_esc (snd (purge_escalations cutoff d))))"
    and "candidates - deleted =
      int (length (filter (\<lambda>r. e_sent_at r < cutoff) (t_esc (snd (purge_escalations cutoff d)))))"
    and "set unknown = {e_source r | r. r \<in> set (t_esc d) \<and> purged_row d cutoff r \<and> e_source r \<notin> set known_sources}"
proof -
  have counts: "deleted = int (length (filter (purged_row d cutoff) (t_esc d)))"
      "candidates = int (length (filter (\<lambda>r. e_sent_at r < cutoff) (t_esc d)))"
      "unknown = remdups (filter (\<lambda>src. src \<notin> set known_sources) (map e_source (filter (purged_row d cutoff) (t_esc d))))"
    using assms by (simp_all add: purge_escalations_def Let_def)
  have "length (filter (purged_row d cutoff) rows) + length (filter (\<lambda>r. \<not> purged_row d cutoff r) rows) = length rows" for rows
    by (rule sum_length_filter_compl)
  then show "deleted = int (length (t_esc d)) - int (length (t_esc (snd (purge_escalations cutoff d))))"
    unfolding counts purge_escalations_rows by (simp add: algebra_simps flip: of_nat_add)
  have "length (filter (\<lambda>r. e_sent_at r < cutoff) rows) = length (filter (purged_row d cutoff) rows) +
      length (filter (\<lambda>r. e_sent_at r < cutoff \<and> \<not> purged_row d cutoff r) rows)" for rows
    by (induction rows) (auto simp: purged_row_def)
  then show "candidates - deleted =
      int (length (filter (\<lambda>r. e_sent_at r < cutoff) (t_esc (snd (purge_escalations cutoff d)))))"
    unfolding counts purge_escalations_rows by (simp add: conj_commute)
  show "set unknown = {e_source r | r. r \<in> set (t_esc d) \<and> purged_row d cutoff r \<and> e_source r \<notin> set known_sources}"
    unfolding counts by auto
qed

text \<open>
  Under every schedule of faults a purge removes only rows that are older than the
  retention and whose incident is gone or has been closed for that long; the rows of an
  open incident survive. When it reports success exactly those rows are gone, the number
  reported is the number of rows that left the two tables, and \<open>KeptOpen\<close> counts the old
  rows that stay.
\<close>

theorem purge_keeps_live_incidents:
  assumes "run_state (PurgeOldEscalations olderThan) w = (res, w')"
  shows "set (filter (\<lambda>r. \<not> purged_row (db w) (go_now w - olderThan) r) (t_esc (db w))) \<subseteq> set (t_esc (db w')) \<and>
         set (t_esc (db w')) \<subseteq> set (t_esc (db w)) \<and>
         (case res of
            Inl _ \<Rightarrow> olderThan \<le> 0 \<longrightarrow> w' = w
          | Inr pr \<Rightarrow> 0 < olderThan \<and>
              t_esc (db w') = filter (\<lambda>r. \<not> purged_row (db w) (go_now w - olderThan) r) (t_esc (db w)) \<and>
              pr_Deleted pr =
                int (length (t_esc (db w)) + length (t_logfail (db w))) -
                int (length (t_esc (db w')) + length (t_logfail (db w'))) \<and>
              pr_KeptOpen pr =
                int (length (filter (\<lambda>r. e_sent_at r < go_now w - olderThan) (t_esc (db w')))))"
proof (cases "olderThan \<le> 0")
  case True
  then show ?thesis using assms by (auto simp: PurgeOldEscalations_def)
next
  case False
  let ?cut = "go_now w - olderThan"
  let ?q1 = "\<lambda>_ d. purge_escalations ?cut d"
  let ?q2 = "\<lambda>_ d. (int (length (filter (\<lambda>r. f_last r < ?cut) (t_logfail d))),
                 d\<lparr>t_logfail := sql_delete (\<lambda>r. f_last r < ?cut) (t_logfail d)\<rparr>)"
  have run: "run_state (PurgeOldEscalations olderThan) w =
     run_state (do {
       r \<leftarrow> sql ?q1;
       (case r of
          Inl e \<Rightarrow> State_Monad.return (Inl e)
        | Inr (candidates, deleted, unknown) \<Rightarrow>
            do {
              f \<leftarrow> sql ?q2;
              State_Monad.return
                (case f of
                   Inl e \<Rightarrow> Inl e
                 | Inr n \<Rightarrow> Inr \<lparr>pr_Deleted = deleted + n, pr_KeptOpen = candidates - deleted,
                                pr_UnknownSources = unknown\<rparr>)
            })
     }) w"
    using False by (simp add: PurgeOldEscalations_def Let_def)
  show ?thesis
  proof (cases rule: run_sql_cases [of ?q1 w])
    case (ok t w1)
    obtain cand del unk where f: "fst (purge_escalations ?cut (db w)) = (cand, del, unk)"
      by (metis prod_cases3)
    note cnt = purge_escalations_counts [OF f, folded ok(2)]
    have rows: "t_esc (db w1) = filter (\<lambda>r. \<not> purged_row (db w) ?cut r) (t_esc (db w))"
      "t_logfail (db w1) = t_logfail (db w)"
      by (simp_all add: ok(2) purge_escalations_rows)
    have del2: "int (length (filter (\<lambda>r. f_last r < ?cut) (t_logfail (db w)))) =
        int (length (t_logfail (db w))) - int (length (sql_delete (\<lambda>r. f_last r < ?cut) (t_logfail (db w))))"
      using sum_length_filter_compl [of "\<lambda>r. f_last r < ?cut" "t_logfail (db w)"] unfolding sqldefs by linarith
    show ?thesis
      using False ok(1) assms f cnt rows del2 unfolding run
      by (cases rule: run_sql_cases [of ?q2 w1]) auto
  qed (use False assms in \<open>auto simp: run purge_escalations_rows\<close>)
qed

theorem purge_keeps_live_incidents_witness:
  "let d = ex_db\<lparr>t_esc := [\<lparr>e_source = ''uptime'', e_incident = 1, e_channel = 7, e_step = 0, e_sent_at = 1\<rparr>,
                           \<lparr>e_source = ''uptime'', e_incident = 9, e_channel = 7, e_step = 0, e_sent_at = 1\<rparr>]\<rparr>
   in map e_incident (t_esc (db (snd (run_state (PurgeOldEscalations 10) (calm 100 d))))) = [1]"
proof -
  let ?d = "ex_db\<lparr>t_esc := [\<lparr>e_source = ''uptime'', e_incident = 1, e_channel = 7, e_step = 0, e_sent_at = 1\<rparr>,
                           \<lparr>e_source = ''uptime'', e_incident = 9, e_channel = 7, e_step = 0, e_sent_at = 1\<rparr>]\<rparr>"
  obtain pr w' where r: "run_state (PurgeOldEscalations 10) (calm 100 ?d) = (Inr pr, w')"
    by (simp add: PurgeOldEscalations_def Let_def purge_escalations_def)
  have "map e_incident (filter (\<lambda>r. \<not> purged_row ?d 90 r) (t_esc ?d)) = [1]" by code_simp
  then show ?thesis using purge_keeps_live_incidents [OF r] r by (simp add: Let_def)
qed

end
