(* ===== verification/Uptime_Incident.thy ===== *)
theory Uptime_Incident
  imports Escalation_Scheduler
begin

text \<open>
  \<open>internal/uptime/incident.go\<close>: the incidents of monitors, from opening to resolution, with
  the columns that the detector and the escalation scheduler use to coordinate. The
  properties: at most one open incident per monitor, the life of an incident only moves
  forward, the compare-and-set of the escalation level, the queries that feed the
  scheduler, and paging.
\<close>

subsection \<open>Model: incident.go\<close>

definition maxNotifyOpenAttempts :: int where "maxNotifyOpenAttempts = 5"

definition DeliveryExhausted :: "incident \<Rightarrow> bool" where
  "DeliveryExhausted inc \<longleftrightarrow> i_notify_failed inc \<and> i_notify_attempts inc \<ge> maxNotifyOpenAttempts"

abbreviation is_open :: "incident \<Rightarrow> bool" where
  "is_open i \<equiv> i_resolved i = None"

text \<open>A Go call returning \<open>(x, ok, err)\<close> is \<open>x option result\<close> where \<open>x\<close> is zero unless \<open>ok\<close>.\<close>

definition IncidentByID :: "int \<Rightarrow> incident option result prog" where
  "IncidentByID iid = sql_read (\<lambda>_ d. find (\<lambda>i. i_id i = iid) (t_incidents d))"

definition OpenIncidentFor :: "int \<Rightarrow> incident option result prog" where
  "OpenIncidentFor monitorID =
     sql_read (\<lambda>_ d. find (\<lambda>i. i_monitor i = monitorID \<and> is_open i) (t_incidents d))"

definition new_incident :: "int \<Rightarrow> int \<Rightarrow> string \<Rightarrow> string list \<Rightarrow> bool \<Rightarrow> time \<Rightarrow> incident" where
  "new_incident iid monitorID cause regions inMaintenance now =
     \<lparr>i_id = iid, i_monitor = monitorID, i_started = now, i_resolved = None, i_cause = cause,
      i_regions = regions, i_in_maintenance = inMaintenance, i_notified_open = False,
      i_notified_close = False, i_last_reminded = None, i_suppressed = False, i_acked_at = None,
      i_acked_by = None, i_severity = ''critical'', i_level = 0, i_last_escalated = None,
      i_notify_failed = False, i_notify_attempts = 0, i_notify_channels = [], i_group = None,
      i_dep_released = None\<rparr>"

text \<open>
  The insert: the foreign key to \<open>monitors\<close> may fail, and the partial unique index on open
  incidents turns a second open incident into no row. The sequence moves on in any case.
\<close>

definition insert_incident ::
  "int \<Rightarrow> string \<Rightarrow> string list \<Rightarrow> bool \<Rightarrow> time \<Rightarrow> db \<Rightarrow> incident option result \<times> db" where
  "insert_incident monitorID cause regions inMaintenance now d =
     (let d1 = d\<lparr>t_incident_seq := t_incident_seq d + 1\<rparr>;
          inc = new_incident (t_incident_seq d) monitorID cause regions inMaintenance now
      in if list_ex (\<lambda>i. i_monitor i = monitorID \<and> is_open i) (t_incidents d) then (Inr None, d1)
         else if \<not> list_ex (\<lambda>m. m_id m = monitorID) (t_monitors d) then (Inl ErrDB, d1)
         else (Inr (Some inc), d1\<lparr>t_incidents := t_incidents d @ [inc]\<rparr>))"

definition OpenIncident ::
  "int \<Rightarrow> string \<Rightarrow> string list \<Rightarrow> bool \<Rightarrow> (incident \<times> bool) result prog" where
  "OpenIncident monitorID cause regions inMaintenance =
     do {
       r \<leftarrow> sql (insert_incident monitorID cause regions inMaintenance);
       (case r of
          Inl e \<Rightarrow> State_Monad.return (Inl e)
        | Inr (Inl e) \<Rightarrow> State_Monad.return (Inl e)
        | Inr (Inr (Some inc)) \<Rightarrow> State_Monad.return (Inr (inc, True))
        | Inr (Inr None) \<Rightarrow>
            do {
              f \<leftarrow> OpenIncidentFor monitorID;
              State_Monad.return
                (case f of
                   Inl e \<Rightarrow> Inl e
                 | Inr None \<Rightarrow> Inl (ErrMsg ''conflicted but no open incident found'')
                 | Inr (Some existing) \<Rightarrow> Inr (existing, False))
            })
     }"

text \<open>An \<open>UPDATE\<close> with \<open>RETURNING\<close>: the updated rows, in the order of the table.\<close>

definition update_incidents :: "(incident \<Rightarrow> bool) \<Rightarrow> (incident \<Rightarrow> incident) \<Rightarrow> db \<Rightarrow> incident list \<times> db" where
  "update_incidents p f d =
     (map f (filter p (t_incidents d)), d\<lparr>t_incidents := sql_update p f (t_incidents d)\<rparr>)"

definition ResolveIncident :: "int \<Rightarrow> time \<Rightarrow> incident option result prog" where
  "ResolveIncident monitorID moment =
     do {
       r \<leftarrow> sql (\<lambda>_. update_incidents (\<lambda>i. i_monitor i = monitorID \<and> is_open i) (\<lambda>i. i\<lparr>i_resolved := Some moment\<rparr>));
       State_Monad.return
         (case r of Inl e \<Rightarrow> Inl e | Inr [] \<Rightarrow> Inr None | Inr (inc # _) \<Rightarrow> Inr (Some inc))
     }"

text \<open>\<open>ORDER BY started_at DESC\<close>.\<close>

abbreviation newest_first :: "incident list \<Rightarrow> incident list" where
  "newest_first \<equiv> sort_key (\<lambda>i. - i_started i)"

definition incidents_of_project :: "int \<Rightarrow> db \<Rightarrow> incident list" where
  "incidents_of_project projectID d =
     newest_first (filter (\<lambda>i. list_ex (\<lambda>m. m_id m = i_monitor i \<and> m_project m = projectID) (t_monitors d))
       (t_incidents d))"

definition incidents_of_monitor :: "int \<Rightarrow> db \<Rightarrow> incident list" where
  "incidents_of_monitor monitorID d =
     newest_first (filter (\<lambda>i. i_monitor i = monitorID) (t_incidents d))"

definition Incidents :: "int \<Rightarrow> nat \<Rightarrow> incident list result prog" where
  "Incidents projectID limit = sql_read (\<lambda>_ d. take limit (incidents_of_project projectID d))"

definition IncidentsForMonitor :: "int \<Rightarrow> nat \<Rightarrow> incident list result prog" where
  "IncidentsForMonitor monitorID limit = sql_read (\<lambda>_ d. take limit (incidents_of_monitor monitorID d))"

definition IncidentsForMonitorsBatch :: "int list \<Rightarrow> int \<Rightarrow> (int \<rightharpoonup> incident list) result prog" where
  "IncidentsForMonitorsBatch monitorIDs limit =
     (let none = (\<lambda>i. if i \<in> set monitorIDs then Some [] else None) in
      if monitorIDs = [] then State_Monad.return (Inr Map.empty)
      else if limit \<le> 0 then State_Monad.return (Inr none)
      else sql_read (\<lambda>_ d. \<lambda>i. if i \<in> set monitorIDs
             then Some (take (nat limit) (incidents_of_monitor i d)) else None))"

text \<open>
  \<open>queryIncidentsPaged\<close>: a count and then a page; past the end both are zero.
\<close>

definition queryIncidentsPaged ::
  "(db \<Rightarrow> incident list) \<Rightarrow> nat \<Rightarrow> nat \<Rightarrow> (incident list \<times> int) result prog" where
  "queryIncidentsPaged q limit offset =
     do {
       c \<leftarrow> sql_read (\<lambda>_ d. int (length (q d)));
       (case c of
          Inl e \<Rightarrow> State_Monad.return (Inl e)
        | Inr cnt \<Rightarrow>
            if int offset \<ge> cnt then State_Monad.return (Inr ([], 0))
            else do {
              r \<leftarrow> sql_read (\<lambda>_ d. take limit (drop offset (q d)));
              State_Monad.return
                (case r of
                   Inl e \<Rightarrow> Inl e
                 | Inr out \<Rightarrow> Inr (if out = [] then ([], 0) else (out, cnt)))
            })
     }"

definition IncidentsPaged :: "int \<Rightarrow> nat \<Rightarrow> nat \<Rightarrow> (incident list \<times> int) result prog" where
  "IncidentsPaged projectID = queryIncidentsPaged (incidents_of_project projectID)"

definition IncidentsForMonitorPaged :: "int \<Rightarrow> nat \<Rightarrow> nat \<Rightarrow> (incident list \<times> int) result prog" where
  "IncidentsForMonitorPaged monitorID = queryIncidentsPaged (incidents_of_monitor monitorID)"

text \<open>An \<open>UPDATE ... WHERE id = $1\<close> whose zero affected rows mean \<open>ErrNotFound\<close>.\<close>

definition update_by_id :: "int \<Rightarrow> (incident \<Rightarrow> incident) \<Rightarrow> error option prog" where
  "update_by_id iid f =
     do {
       r \<leftarrow> sql (\<lambda>_. update_incidents (\<lambda>i. i_id i = iid) f);
       State_Monad.return
         (case r of Inl e \<Rightarrow> Some e | Inr rows \<Rightarrow> if rows = [] then Some ErrNotFound else None)
     }"

definition MarkNotified :: "int \<Rightarrow> bool \<Rightarrow> error option prog" where
  "MarkNotified incidentID opn =
     update_by_id incidentID
       (if opn then (\<lambda>i. i\<lparr>i_notified_open := True, i_notify_failed := False, i_level := max (i_level i) 1\<rparr>)
        else (\<lambda>i. i\<lparr>i_notified_close := True\<rparr>))"

definition MarkNotifyOpenFailed :: "int \<Rightarrow> error option prog" where
  "MarkNotifyOpenFailed incidentID =
     update_by_id incidentID (\<lambda>i. i\<lparr>i_notify_failed := True, i_notify_attempts := i_notify_attempts i + 1\<rparr>)"

definition SetNotifyOpenChannels :: "int \<Rightarrow> int list \<Rightarrow> error option prog" where
  "SetNotifyOpenChannels incidentID channelIDs =
     update_by_id incidentID (\<lambda>i. i\<lparr>i_notify_channels := channelIDs\<rparr>)"

definition ClearNotifyOpenChannels :: "int \<Rightarrow> error option prog" where
  "ClearNotifyOpenChannels incidentID = update_by_id incidentID (\<lambda>i. i\<lparr>i_notify_channels := []\<rparr>)"

definition Acknowledge :: "int \<Rightarrow> int \<Rightarrow> int \<Rightarrow> bool result prog" where
  "Acknowledge incidentID projectID userID =
     do {
       r \<leftarrow> sql (\<lambda>now d. update_incidents
              (\<lambda>i. i_id i = incidentID \<and> is_open i \<and> i_acked_at i = None \<and>
                 list_ex (\<lambda>m. m_id m = i_monitor i \<and> m_project m = projectID) (t_monitors d))
              (\<lambda>i. i\<lparr>i_acked_at := Some now, i_acked_by := Some userID\<rparr>) d);
       State_Monad.return (case r of Inl e \<Rightarrow> Inl e | Inr rows \<Rightarrow> Inr (rows \<noteq> []))
     }"

text \<open>
  \<open>OpenUnacked\<close>: the group of an incident by a left join; the clock of the ladder starts
  at the latest of start, resolution of the group and release by the dependency.
\<close>

definition group_of :: "db \<Rightarrow> incident \<Rightarrow> time option option" where
  "group_of d i = (case i_group i of None \<Rightarrow> None | Some g \<Rightarrow> map_option g_ResolvedAt (find (\<lambda>r. g_ID r = g) (t_groups d)))"

definition pending_of :: "db \<Rightarrow> time \<Rightarrow> incident \<Rightarrow> monitor \<Rightarrow> pending" where
  "pending_of d started i m =
     \<lparr>pi_id = i_id i, pi_project = m_project m, pi_started = started, pi_severity = i_severity i,
      pi_level = i_level i\<rparr>"

definition clock_start :: "db \<Rightarrow> incident \<Rightarrow> time" where
  "clock_start d i =
     max (i_started i)
       (max (case group_of d i of Some (Some t) \<Rightarrow> t | _ \<Rightarrow> i_started i)
            (case i_dep_released i of Some t \<Rightarrow> t | None \<Rightarrow> i_started i))"

definition open_unacked :: "db \<Rightarrow> pending list" where
  "open_unacked d =
     sort_key pi_id (concat (map (\<lambda>i. map (pending_of d (clock_start d i) i)
        (filter (\<lambda>m. m_id m = i_monitor i \<and> m_enabled m) (t_monitors d)))
       (filter (\<lambda>i. is_open i \<and> i_acked_at i = None \<and> \<not> i_suppressed i \<and> i_level i > 0 \<and>
          (case group_of d i of Some None \<Rightarrow> False | _ \<Rightarrow> True)) (t_incidents d))))"

definition OpenUnacked :: "pending list result prog" where
  "OpenUnacked = sql_read (\<lambda>_ d. open_unacked d)"

definition BumpEscalation :: "int \<Rightarrow> int \<Rightarrow> (bool \<times> error option) prog" where
  "BumpEscalation iid from =
     do {
       r \<leftarrow> sql (\<lambda>now. update_incidents (\<lambda>i. i_id i = iid \<and> i_level i = from)
              (\<lambda>i. i\<lparr>i_level := from + 1, i_last_escalated := Some now\<rparr>));
       State_Monad.return (case r of Inl e \<Rightarrow> (False, Some e) | Inr rows \<Rightarrow> (rows \<noteq> [], None))
     }"

definition MarkSuppressedByDep :: "int \<Rightarrow> error option prog" where
  "MarkSuppressedByDep incidentID = update_by_id incidentID (\<lambda>i. i\<lparr>i_suppressed := True\<rparr>)"

definition ClearSuppressedByDep :: "int \<Rightarrow> error option prog" where
  "ClearSuppressedByDep incidentID =
     do {
       r \<leftarrow> sql (\<lambda>now. update_incidents (\<lambda>i. i_id i = incidentID \<and> i_suppressed i)
              (\<lambda>i. i\<lparr>i_suppressed := False, i_dep_released := Some now\<rparr>));
       State_Monad.return (case r of Inl e \<Rightarrow> Some e | Inr _ \<Rightarrow> None)
     }"

definition open_suppressed :: "db \<Rightarrow> pending list" where
  "open_suppressed d =
     sort_key pi_id (concat (map (\<lambda>i. map (pending_of d (i_started i) i)
        (filter (\<lambda>m. m_id m = i_monitor i) (t_monitors d)))
       (filter (\<lambda>i. is_open i \<and> i_acked_at i = None \<and> i_suppressed i) (t_incidents d))))"

definition OpenSuppressed :: "pending list result prog" where
  "OpenSuppressed = sql_read (\<lambda>_ d. open_suppressed d)"

definition ClearSuppressed :: "int \<Rightarrow> error option prog" where
  "ClearSuppressed incidentID = ClearSuppressedByDep incidentID"

subsection \<open>One open incident per monitor\<close>

definition incident_wf :: "db \<Rightarrow> bool" where
  "incident_wf d \<longleftrightarrow>
     distinct (map i_id (t_incidents d)) \<and> (\<forall>x \<in> set (map i_id (t_incidents d)). x < t_incident_seq d) \<and>
     distinct (map i_monitor (filter is_open (t_incidents d)))"

lemma distinct_filter_map:
  "distinct (map k (filter p rows)) \<Longrightarrow> (\<And>r. r \<in> set rows \<Longrightarrow> q r \<Longrightarrow> p r) \<Longrightarrow> distinct (map k (filter q rows))"
  by (induction rows) (auto split: if_splits)

text \<open>Updates that keep id, monitor and never reopen keep the invariant.\<close>

definition forward_update :: "(incident \<Rightarrow> incident) \<Rightarrow> bool" where
  "forward_update f \<longleftrightarrow> (\<forall>i. i_id (f i) = i_id i \<and> i_monitor (f i) = i_monitor i \<and>
     (is_open (f i) \<longrightarrow> is_open i))"

lemma filter_update_open:
  assumes "forward_update f"
  shows "distinct (map i_monitor (filter is_open rows)) \<Longrightarrow>
    distinct (map i_monitor (filter is_open (sql_update p f rows)))"
proof (induction rows)
  case (Cons r rows)
  have sub: "i_monitor ` {x \<in> set (sql_update p f rows). is_open x} \<subseteq> i_monitor ` {x \<in> set rows. is_open x}"
    using assms by (auto simp: set_sql_update forward_update_def split: if_splits)
  have ih: "distinct (map i_monitor (filter is_open (sql_update p f rows)))"
    using Cons by (simp split: if_splits)
  have eq: "sql_update p f (r # rows) = (if p r then f r else r) # sql_update p f rows"
    by (simp add: sql_update_def)
  have mon: "i_monitor (if p r then f r else r) = i_monitor r"
    and opn: "is_open (if p r then f r else r) \<Longrightarrow> is_open r"
    using assms by (auto simp: forward_update_def split: if_splits)
  show ?case
  proof (cases "is_open (if p r then f r else r)")
    case True
    then have "i_monitor r \<notin> i_monitor ` {x \<in> set rows. is_open x}"
      using Cons.prems opn by simp
    then have "i_monitor r \<notin> i_monitor ` {x \<in> set (sql_update p f rows). is_open x}" using sub by blast
    then show ?thesis unfolding eq using True ih mon by auto
  next
    case False
    then show ?thesis unfolding eq using ih by (auto split: if_splits)
  qed
qed (simp add: sql_update_def)

lemma incident_wf_update:
  assumes "forward_update f" and "incident_wf d"
  shows "incident_wf (snd (update_incidents p f d))"
proof -
  have "map i_id (sql_update p f (t_incidents d)) = map i_id (t_incidents d)"
    using assms(1) by (intro sql_update_key) (simp add: forward_update_def)
  moreover have "distinct (map i_monitor (filter is_open (sql_update p f (t_incidents d))))"
    using filter_update_open [OF assms(1)] assms(2) by (simp add: incident_wf_def)
  ultimately show ?thesis using assms(2) by (simp add: incident_wf_def update_incidents_def del: set_map)
qed

lemma incident_wf_insert:
  "incident_wf d \<Longrightarrow> incident_wf (snd (insert_incident m c rs mt now d))"
  by (auto simp: incident_wf_def insert_incident_def Let_def new_incident_def list_ex_iff)

text \<open>The operations of the component, as values.\<close>

datatype incident_op =
    OpOpen int string "string list" bool
  | OpResolve int time
  | OpMarkNotified int bool
  | OpMarkFailed int
  | OpSetChannels int "int list"
  | OpClearChannels int
  | OpAcknowledge int int int
  | OpBump int int
  | OpSuppress int
  | OpRelease int

fun run_op :: "incident_op \<Rightarrow> unit prog" where
  "run_op (OpOpen m c rs mt) = ignore (OpenIncident m c rs mt)"
| "run_op (OpResolve m t) = ignore (ResolveIncident m t)"
| "run_op (OpMarkNotified i b) = ignore (MarkNotified i b)"
| "run_op (OpMarkFailed i) = ignore (MarkNotifyOpenFailed i)"
| "run_op (OpSetChannels i cs) = ignore (SetNotifyOpenChannels i cs)"
| "run_op (OpClearChannels i) = ignore (ClearNotifyOpenChannels i)"
| "run_op (OpAcknowledge i p u) = ignore (Acknowledge i p u)"
| "run_op (OpBump i n) = ignore (BumpEscalation i n)"
| "run_op (OpSuppress i) = ignore (MarkSuppressedByDep i)"
| "run_op (OpRelease i) = ignore (ClearSuppressedByDep i)"

lemmas incident_op_defs = OpenIncident_def OpenIncidentFor_def ResolveIncident_def MarkNotified_def
  MarkNotifyOpenFailed_def SetNotifyOpenChannels_def ClearNotifyOpenChannels_def Acknowledge_def
  BumpEscalation_def MarkSuppressedByDep_def ClearSuppressedByDep_def ClearSuppressed_def update_by_id_def

text \<open>
  A relation between tables that the insert respects and that every forward update of the
  kinds the code makes respects is a guarantee of every operation.
\<close>

lemma guar_update_by_id:
  assumes "reflp R" "transp R" "\<And>d. R d (snd (update_incidents (\<lambda>i. i_id i = iid) f d))"
  shows "guar (on_db R) (update_by_id iid f)"
  unfolding update_by_id_def by (intro guar assms(1,2)) (simp add: assms(3))

lemma guar_incident_ops:
  assumes R: "reflp R" "transp R"
    and ins: "\<And>m c rs mt now d. R d (snd (insert_incident m c rs mt now d))"
    and res: "\<And>m moment d. R d (snd (update_incidents (\<lambda>i. i_monitor i = m \<and> is_open i) (\<lambda>i. i\<lparr>i_resolved := Some moment\<rparr>) d))"
    and ack: "\<And>p now u d. R d (snd (update_incidents (\<lambda>i. i_acked_at i = None \<and> p i) (\<lambda>i. i\<lparr>i_acked_at := Some now, i_acked_by := Some u\<rparr>) d))"
    and bump: "\<And>p now from d. R d (snd (update_incidents (\<lambda>i. p i \<and> i_level i = from) (\<lambda>i. i\<lparr>i_level := from + 1, i_last_escalated := Some now\<rparr>) d))"
    and opened: "\<And>p d. R d (snd (update_incidents p (\<lambda>i. i\<lparr>i_notified_open := True, i_notify_failed := False, i_level := max (i_level i) 1\<rparr>) d))"
    and other: "\<And>p d. R d (snd (update_incidents p (\<lambda>i. i\<lparr>i_notified_close := True\<rparr>) d))"
      "\<And>p d. R d (snd (update_incidents p (\<lambda>i. i\<lparr>i_notify_failed := True, i_notify_attempts := i_notify_attempts i + 1\<rparr>) d))"
      "\<And>p cs d. R d (snd (update_incidents p (\<lambda>i. i\<lparr>i_notify_channels := cs\<rparr>) d))"
      "\<And>p d. R d (snd (update_incidents p (\<lambda>i. i\<lparr>i_suppressed := True\<rparr>) d))"
      "\<And>p t d. R d (snd (update_incidents p (\<lambda>i. i\<lparr>i_suppressed := False, i_dep_released := t\<rparr>) d))"
  shows "guar (on_db R) (run_op oper)"
proof -
  note g = guar R reflp_on_db [OF R(1)] transp_on_db [OF R(2)] guar_update_by_id
  have ack': "R d (snd (update_incidents (\<lambda>i. i_id i = iid \<and> is_open i \<and> i_acked_at i = None \<and> q i)
      (\<lambda>i. i\<lparr>i_acked_at := Some now, i_acked_by := Some u\<rparr>) d))" for iid q now u d
    using ack [of d "\<lambda>i. i_id i = iid \<and> is_open i \<and> q i"] by (simp add: conj_ac)
  show ?thesis
  proof (cases oper)
    case (OpMarkNotified i b)
    have "guar (on_db R) (MarkNotified i b)"
      unfolding MarkNotified_def by (cases b) (simp_all add: g opened other)
    then show ?thesis unfolding OpMarkNotified run_op.simps by (intro g)
  next
    case (OpOpen m c rs mt)
    show ?thesis unfolding OpOpen run_op.simps OpenIncident_def OpenIncidentFor_def
      by (intro g ins)
  next
    case (OpResolve m t)
    show ?thesis unfolding OpResolve run_op.simps ResolveIncident_def by (intro g res)
  next
    case (OpMarkFailed i)
    show ?thesis unfolding OpMarkFailed run_op.simps MarkNotifyOpenFailed_def by (intro g other)
  next
    case (OpSetChannels i cs)
    show ?thesis unfolding OpSetChannels run_op.simps SetNotifyOpenChannels_def by (intro g other)
  next
    case (OpClearChannels i)
    show ?thesis unfolding OpClearChannels run_op.simps ClearNotifyOpenChannels_def by (intro g other)
  next
    case (OpAcknowledge i p u)
    show ?thesis unfolding OpAcknowledge run_op.simps Acknowledge_def by (intro g ack')
  next
    case (OpBump i n)
    show ?thesis unfolding OpBump run_op.simps BumpEscalation_def by (intro g bump)
  next
    case (OpSuppress i)
    show ?thesis unfolding OpSuppress run_op.simps MarkSuppressedByDep_def by (intro g other)
  next
    case (OpRelease i)
    show ?thesis unfolding OpRelease run_op.simps ClearSuppressedByDep_def by (intro g other)
  qed
qed

definition run_ops :: "incident_op list \<Rightarrow> unit prog" where
  "run_ops ops = for_each ops run_op"

lemma forward_updates [simp]:
  "forward_update (\<lambda>i. i\<lparr>i_resolved := Some moment\<rparr>)"
  "forward_update (\<lambda>i. i\<lparr>i_acked_at := Some now, i_acked_by := Some u\<rparr>)"
  "forward_update (\<lambda>i. i\<lparr>i_level := from + 1, i_last_escalated := Some now\<rparr>)"
  "forward_update (\<lambda>i. i\<lparr>i_notified_open := True, i_notify_failed := False, i_level := max (i_level i) 1\<rparr>)"
  "forward_update (\<lambda>i. i\<lparr>i_notified_close := True\<rparr>)"
  "forward_update (\<lambda>i. i\<lparr>i_notify_failed := True, i_notify_attempts := i_notify_attempts i + 1\<rparr>)"
  "forward_update (\<lambda>i. i\<lparr>i_notify_channels := cs\<rparr>)"
  "forward_update (\<lambda>i. i\<lparr>i_suppressed := True\<rparr>)"
  "forward_update (\<lambda>i. i\<lparr>i_suppressed := False, i_dep_released := t\<rparr>)"
  by (simp_all add: forward_update_def)

lemma guar_op_wf: "guar (on_db (inv_rel incident_wf)) (run_op oper)"
  by (rule guar_incident_ops; (rule guar)?; simp add: inv_rel_def incident_wf_insert incident_wf_update)

lemma guar_ops_wf: "guar (on_db (inv_rel incident_wf)) (run_ops ops)"
  unfolding run_ops_def by (intro guar guar_op_wf)

text \<open>
  C7: whatever operations replicas run in whatever order, and whatever faults and lost
  replies their statements meet, a monitor never has two open incidents, and incident ids
  stay unique.
\<close>

theorem one_open_incident:
  assumes "incident_wf (db w)" and "run_state (run_ops ops) w = ((), w')"
  shows "incident_wf (db w')"
  using guarD [OF guar_ops_wf, of w ops] assms by (simp add: on_db_def inv_rel_def)

theorem one_open_incident_witness:
  "incident_wf (db (snd (run_state (run_ops [OpOpen 1 ''x'' [] False, OpResolve 1 9, OpOpen 1 ''y'' [] False])
     ((calm 5 ex_db)\<lparr>sched := [(FailApplied, 1)]\<rparr>))))"
proof -
  have "incident_wf (db ((calm 5 ex_db)\<lparr>sched := [(FailApplied, 1)]\<rparr>))" by code_simp
  then show ?thesis by (rule one_open_incident [OF _ prod_eqI]) simp_all
qed

text \<open>An incident moves forward: what the operations may do to a row.\<close>

definition incident_le :: "incident \<Rightarrow> incident \<Rightarrow> bool" where
  "incident_le i j \<longleftrightarrow>
     i_id j = i_id i \<and> i_monitor j = i_monitor i \<and> i_started j = i_started i \<and>
     (i_resolved i \<noteq> None \<longrightarrow> i_resolved j = i_resolved i) \<and>
     (i_acked_at i \<noteq> None \<longrightarrow> i_acked_at j = i_acked_at i \<and> i_acked_by j = i_acked_by i) \<and>
     (i_notified_open i \<longrightarrow> i_notified_open j) \<and> (i_notified_close i \<longrightarrow> i_notified_close j) \<and>
     i_level i \<le> i_level j \<and> i_notify_attempts i \<le> i_notify_attempts j"

definition incidents_progress :: "db \<Rightarrow> db \<Rightarrow> bool" where
  "incidents_progress d d' \<longleftrightarrow>
     length (t_incidents d) \<le> length (t_incidents d') \<and>
     list_all2 incident_le (t_incidents d) (take (length (t_incidents d)) (t_incidents d'))"

lemma incident_le_refl: "incident_le i i"
  by (simp add: incident_le_def)

lemma incident_le_trans: "incident_le i j \<Longrightarrow> incident_le j k \<Longrightarrow> incident_le i k"
  by (auto simp: incident_le_def)

lemma progress_rel: "reflp incidents_progress" "transp incidents_progress"
proof -
  show "reflp incidents_progress"
    by (simp add: reflp_def incidents_progress_def list_all2_refl incident_le_refl)
  show "transp incidents_progress"
  proof (rule transpI)
    fix a b c assume ab: "incidents_progress a b" and bc: "incidents_progress b c"
    have "incident_le (t_incidents a ! k) (t_incidents c ! k)" if "k < length (t_incidents a)" for k
      using ab bc that by (auto simp: incidents_progress_def list_all2_conv_all_nth intro: incident_le_trans)
    then show "incidents_progress a c"
      using ab bc by (auto simp: incidents_progress_def list_all2_conv_all_nth)
  qed
qed

lemma uptime_progress_update:
  "(\<And>i. p i \<Longrightarrow> incident_le i (f i)) \<Longrightarrow> incidents_progress d (snd (update_incidents p f d))"
  by (auto simp: incidents_progress_def update_incidents_def sql_update_def list_all2_conv_all_nth incident_le_refl)

lemma uptime_progress_insert: "incidents_progress d (snd (insert_incident m c rs mt now d))"
  by (auto simp: incidents_progress_def insert_incident_def Let_def list_all2_refl incident_le_refl)

lemma guar_op_progress: "guar (on_db incidents_progress) (run_op oper)"
  by (rule guar_incident_ops; (rule progress_rel uptime_progress_insert)?; (rule uptime_progress_update)?; auto simp: incident_le_def)

lemma guar_ops_progress: "guar (on_db incidents_progress) (run_ops ops)"
  unfolding run_ops_def by (intro guar guar_op_progress progress_rel)

text \<open>
  The life of an incident only moves forward: under any sequence of operations and any
  faults no incident disappears or is renumbered, its start does not change, a resolution
  and an acknowledgement are never undone or rewritten, the marks of sent notifications
  are never taken back, and the escalation level and the count of failed attempts never
  decrease.
\<close>

theorem incident_life_moves_forward:
  assumes "run_state (run_ops ops) w = ((), w')" and "k < length (t_incidents (db w))"
  shows "k < length (t_incidents (db w')) \<and> incident_le (t_incidents (db w) ! k) (t_incidents (db w') ! k)"
  using guarD [OF guar_ops_progress, of w ops] assms
  by (auto simp: on_db_def incidents_progress_def list_all2_conv_all_nth)

theorem incident_life_moves_forward_witness:
  "incident_le (t_incidents ex_db ! 0)
     (t_incidents (db (snd (run_state (run_ops [OpAcknowledge 1 1 3, OpResolve 1 9]) (calm 5 ex_db)))) ! 0)"
  using incident_life_moves_forward [of "[OpAcknowledge 1 1 3, OpResolve 1 9]" "calm 5 ex_db" _ 0, OF prod_eqI]
  by (simp add: ex_db_def empty_db_def)

subsection \<open>Opening, escalating, listing\<close>

lemma find_open_unique:
  assumes "incident_wf d" and "i \<in> set (t_incidents d)" and "i_monitor i = m" and "is_open i"
  shows "find (\<lambda>i. i_monitor i = m \<and> is_open i) (t_incidents d) = Some i"
proof -
  obtain j where j: "find (\<lambda>i. i_monitor i = m \<and> is_open i) (t_incidents d) = Some j"
    using assms(2-4) by (cases "find (\<lambda>i. i_monitor i = m \<and> is_open i) (t_incidents d)") (auto simp: find_None_iff)
  then have "j \<in> set (t_incidents d)" "i_monitor j = m" "is_open j"
    by (auto simp: find_Some_iff in_set_conv_nth)
  then have "j = i"
    using distinct_key_unique [of i_monitor "filter is_open (t_incidents d)" j i] assms by (simp add: incident_wf_def)
  with j show ?thesis by simp
qed

text \<open>
  Opening an incident without faults gives the one open incident of the monitor: a new
  one, started now, without any notification or acknowledgement, exactly when the monitor
  had none, and the existing one unchanged otherwise.
\<close>

theorem OpenIncident_gives_the_open_one:
  assumes "incident_wf (db w)" and "sched w = []" and "mon \<in> set (t_monitors (db w))"
    and "run_state (OpenIncident (m_id mon) cause regions inMaint) w = (res, w')"
  shows "\<exists>inc created. res = Inr (inc, created) \<and>
     filter (\<lambda>i. i_monitor i = m_id mon \<and> is_open i) (t_incidents (db w')) = [inc] \<and>
     (created \<longleftrightarrow> filter (\<lambda>i. i_monitor i = m_id mon \<and> is_open i) (t_incidents (db w)) = []) \<and>
     (created \<longrightarrow> inc = new_incident (t_incident_seq (db w)) (m_id mon) cause regions inMaint (pg_now w) \<and>
        t_incidents (db w') = t_incidents (db w) @ [inc]) \<and>
     (\<not> created \<longrightarrow> t_incidents (db w') = t_incidents (db w))"
proof (cases "list_ex (\<lambda>i. i_monitor i = m_id mon \<and> is_open i) (t_incidents (db w))")
  case True
  then obtain i where i: "i \<in> set (t_incidents (db w))" "i_monitor i = m_id mon" "is_open i"
    by (auto simp: list_ex_iff)
  note f = find_open_unique [OF assms(1) i]
  have "distinct (map i_monitor (filter is_open (t_incidents (db w))))" using assms(1) by (simp add: incident_wf_def)
  then have "filter (\<lambda>j. i_monitor j = m_id mon) (filter is_open (t_incidents (db w))) = [i]"
    by (rule filter_one_by_key) (use i in auto)
  then have one: "filter (\<lambda>j. i_monitor j = m_id mon \<and> is_open j) (t_incidents (db w)) = [i]"
    by (simp add: conj_commute)
  then show ?thesis
    using assms(2,4) f True
    by (auto simp: OpenIncident_def OpenIncidentFor_def insert_incident_def Let_def)
next
  case False
  then have none: "filter (\<lambda>j. i_monitor j = m_id mon \<and> is_open j) (t_incidents (db w)) = []"
    by (auto simp: list_ex_iff filter_empty_conv)
  have "list_ex (\<lambda>m. m_id m = m_id mon) (t_monitors (db w))" using assms(3) by (auto simp: list_ex_iff)
  define inc where "inc = new_incident (t_incident_seq (db w)) (m_id mon) cause regions inMaint (pg_now w)"
  have "insert_incident (m_id mon) cause regions inMaint (pg_now w) (db w) =
      (Inr (Some inc), (db w)\<lparr>t_incident_seq := t_incident_seq (db w) + 1, t_incidents := t_incidents (db w) @ [inc]\<rparr>)"
    using False \<open>list_ex _ (t_monitors (db w))\<close> by (simp add: insert_incident_def Let_def inc_def)
  then have "res = Inr (inc, True)" "t_incidents (db w') = t_incidents (db w) @ [inc]"
    using assms(2,4) by (auto simp: OpenIncident_def)
  moreover have "i_monitor inc = m_id mon" "is_open inc" by (simp_all add: inc_def new_incident_def)
  ultimately show ?thesis using none inc_def by (intro exI [of _ inc] exI [of _ True]) simp
qed

theorem OpenIncident_gives_the_open_one_witness:
  "\<exists>inc. fst (run_state (OpenIncident 1 ''again'' [] False) (calm 5 ex_db)) = Inr (inc, False) \<and>
     t_incidents (db (snd (run_state (OpenIncident 1 ''again'' [] False) (calm 5 ex_db)))) = [ex_incident]"
proof -
  have wf: "incident_wf (db (calm 5 ex_db))" by code_simp
  have m: "ex_monitor \<in> set (t_monitors (db (calm 5 ex_db)))" and "m_id ex_monitor = 1"
    and "filter (\<lambda>i. i_monitor i = 1 \<and> is_open i) (t_incidents ex_db) = [ex_incident]" and "t_incidents ex_db = [ex_incident]"
    by (simp_all add: ex_defs)
  then show ?thesis
    using OpenIncident_gives_the_open_one [OF wf _ m, of "''again''" "[]" False, OF _ surjective_pairing] by auto
qed

lemma incident_by_id_progress:
  assumes "incident_wf d" and "incidents_progress d d'" and "incident_wf d'"
    and "i \<in> set (t_incidents d)" and "j \<in> set (t_incidents d')" and "i_id j = i_id i"
  shows "incident_le i j"
proof -
  from assms(4) obtain k where k: "k < length (t_incidents d)" "t_incidents d ! k = i" by (auto simp: in_set_conv_nth)
  with assms(2) have k': "k < length (t_incidents d')" "incident_le i (t_incidents d' ! k)"
    by (auto simp: incidents_progress_def list_all2_conv_all_nth)
  then have "i_id (t_incidents d' ! k) = i_id j" using assms(6) by (simp add: incident_le_def)
  then have "t_incidents d' ! k = j"
    using distinct_key_unique [of i_id "t_incidents d'" "t_incidents d' ! k" j] assms(3,5) k'(1) by (simp add: incident_wf_def)
  with k'(2) show ?thesis by simp
qed

text \<open>
  C11: an escalation level is passed once: after a replica has raised the level of an
  incident from \<open>n\<close>, no later attempt to raise it from \<open>n\<close> succeeds, whatever operations
  ran in between and whatever faults they met.
\<close>

theorem level_is_passed_once:
  assumes "incident_wf (db w)" and "run_state (BumpEscalation i n) w = ((True, e), w1)"
    and "run_state (run_ops ops) w1 = ((), w2)" and "run_state (BumpEscalation i n) w2 = ((ok, e'), w3)"
  shows "\<not> ok"
proof -
  let ?q = "\<lambda>now. update_incidents (\<lambda>x. i_id x = i \<and> i_level x = n) (\<lambda>x. x\<lparr>i_level := n + 1, i_last_escalated := Some now\<rparr>)"
  obtain t where t: "db w1 = snd (?q t (db w))" "fst (?q t (db w)) \<noteq> []"
    using assms(2) by (cases rule: run_sql_cases [of ?q w]) (auto simp: BumpEscalation_def)
  then obtain x where x: "x \<in> set (t_incidents (db w))" "i_id x = i" "i_level x = n"
    by (auto simp: update_incidents_def filter_empty_conv)
  let ?x1 = "x\<lparr>i_level := n + 1, i_last_escalated := Some t\<rparr>"
  have x1: "?x1 \<in> set (t_incidents (db w1))"
    using x by (force simp: t(1) update_incidents_def set_sql_update)
  have wf1: "incident_wf (db w1)" using assms(1) by (simp add: t(1) incident_wf_update)
  have prog: "incidents_progress (db w1) (db w2)" and wf2: "incident_wf (db w2)"
    using guarD [OF guar_ops_progress, of w1 ops] guarD [OF guar_ops_wf, of w1 ops] assms(3) wf1
    by (simp_all add: on_db_def inv_rel_def)
  have "n + 1 \<le> i_level j" if "j \<in> set (t_incidents (db w2))" "i_id j = i" for j
    using incident_by_id_progress [OF wf1 prog wf2 x1 that(1)] that(2) x(2) by (simp add: incident_le_def)
  then have none: "fst (?q t (db w2)) = []" for t
    by (force simp: update_incidents_def filter_empty_conv)
  show ?thesis
    using assms(4) by (cases rule: run_sql_cases [of ?q w2]) (auto simp: BumpEscalation_def none)
qed

theorem level_is_passed_once_witness:
  "\<not> fst (fst (run_state (BumpEscalation 1 1) (snd (run_state (run_ops [OpAcknowledge 1 1 3])
     (snd (run_state (BumpEscalation 1 1) (calm 5 ex_db)))))))"
proof -
  let ?r1 = "run_state (BumpEscalation 1 1) (calm 5 ex_db)"
  let ?r2 = "run_state (run_ops [OpAcknowledge 1 1 3]) (snd ?r1)"
  let ?r3 = "run_state (BumpEscalation 1 1) (snd ?r2)"
  have wf: "incident_wf (db (calm 5 ex_db))" and r1: "?r1 = ((True, snd (fst ?r1)), snd ?r1)" by code_simp+
  have r2: "?r2 = ((), snd ?r2)" and r3: "?r3 = ((fst (fst ?r3), snd (fst ?r3)), snd ?r3)" by (simp_all add: prod_eq_iff)
  show ?thesis by (rule level_is_passed_once [OF wf r1 r2 r3])
qed

text \<open>The queries for the scheduler list an incident at most once, by ascending id.\<close>

lemma distinct_joined:
  assumes "distinct (map i_id rows)" and "distinct (map m_id ms)"
  shows "distinct (map pi_id (concat (map (\<lambda>i. map (pending_of d (st i) i) (filter (\<lambda>m. m_id m = i_monitor i \<and> q m) ms)) rows)))"
  using assms(1)
proof (induction rows)
  case (Cons i rows)
  let ?one = "map (pending_of d (st i) i) (filter (\<lambda>m. m_id m = i_monitor i \<and> q m) ms)"
  let ?rest = "concat (map (\<lambda>i. map (pending_of d (st i) i) (filter (\<lambda>m. m_id m = i_monitor i \<and> q m) ms)) rows)"
  have "length (filter (\<lambda>m. m_id m = i_monitor i \<and> q m) ms) \<le> 1"
    using assms(2) by (induction ms) (force simp: filter_empty_conv)+
  then have "distinct (map pi_id ?one)"
    by (cases "filter (\<lambda>m. m_id m = i_monitor i \<and> q m) ms") auto
  moreover have "set (map pi_id ?one) \<subseteq> {i_id i}" by (auto simp: pending_of_def)
  moreover have "set (map pi_id ?rest) \<subseteq> set (map i_id rows)" by (auto simp: pending_of_def)
  moreover have "distinct (map pi_id ?rest)" "i_id i \<notin> set (map i_id rows)" using Cons by simp_all
  ultimately have "distinct (map pi_id (?one @ ?rest))"
    unfolding map_append distinct_append by blast
  then show ?case by simp
qed simp

definition source_tables_wf :: "db \<Rightarrow> bool" where
  "source_tables_wf d \<longleftrightarrow> distinct (map i_id (t_incidents d)) \<and> distinct (map m_id (t_monitors d))"

lemma open_unacked_sorted: "sorted (map pi_id (open_unacked d))"
  by (simp add: open_unacked_def)

lemma open_unacked_distinct: "source_tables_wf d \<Longrightarrow> distinct (map pi_id (open_unacked d))"
proof -
  assume "source_tables_wf d"
  then have "distinct (map pi_id (concat (map (\<lambda>i. map (pending_of d (clock_start d i) i)
      (filter (\<lambda>m. m_id m = i_monitor i \<and> m_enabled m) (t_monitors d)))
     (filter (\<lambda>i. is_open i \<and> i_acked_at i = None \<and> \<not> i_suppressed i \<and> i_level i > 0 \<and>
        (case group_of d i of Some None \<Rightarrow> False | _ \<Rightarrow> True)) (t_incidents d)))))"
    by (intro distinct_joined) (simp_all add: source_tables_wf_def distinct_map_filter)
  then show ?thesis unfolding open_unacked_def by (simp add: distinct_map)
qed

interpretation uptime_source: escalation_source OpenUnacked source_tables_wf
proof
  fix w ps w'
  assume "source_tables_wf (db w)" and r: "run_state OpenUnacked w = (Inr ps, w')"
  moreover have "ps = open_unacked (db w)"
    using r unfolding OpenUnacked_def sql_read_def
    by (cases rule: run_sql_cases [of "\<lambda>_ d. (open_unacked d, d)" w]) auto
  ultimately show "sorted (map pi_id ps) \<and> distinct (map pi_id ps)"
    using open_unacked_sorted open_unacked_distinct by simp
next
  fix w
  show "db (snd (run_state OpenUnacked w)) = db w"
    unfolding OpenUnacked_def sql_read_def
    by (cases rule: run_sql_cases [of "\<lambda>_ d. (open_unacked d, d)" w]) auto
qed

text \<open>
  The scheduler is fair to the incidents of the uptime source: a pass resumes right
  after the incident the last pass ended with, and as long as every tick handles at least
  one incident before its budget runs out, after as many ticks as there are pending
  incidents every one has been handled.
\<close>

theorem uptime_ticks_are_fair:
  assumes "source_tables_wf (db w)" and "run_state OpenUnacked w = (Inr ps, w')"
    and "list_all (\<lambda>d. 1 \<le> d \<and> d \<le> length ps) ds" and "length ps \<le> length ds"
  shows "set (passes ps cursor ds) = set ps \<and>
         rotatePending ps cursor = filter (\<lambda>p. cursor < pi_id p) ps @ filter (\<lambda>p. pi_id p \<le> cursor) ps"
  using uptime_source.visits_all [OF assms] uptime_source.resumes_after_cursor [OF assms(1,2)] by simp

theorem uptime_ticks_are_fair_witness:
  "\<exists>p. pi_id p = 1 \<and> fst (run_state OpenUnacked (calm 5 ex_db)) = Inr [p] \<and> set (passes [p] 0 [1]) = {p}"
proof -
  obtain p where p: "run_state OpenUnacked (calm 5 ex_db) = (Inr [p], calm 5 ex_db)" "pi_id p = 1"
    by (simp add: OpenUnacked_def open_unacked_def ex_defs pending_of_def group_of_def)
  have "source_tables_wf (db (calm 5 ex_db))" by code_simp
  from uptime_ticks_are_fair [OF this p(1), of "[1]" 0] show ?thesis using p by auto
qed

text \<open>
  What the scheduler is given to escalate: exactly the incidents that are open, not
  acknowledged, not suppressed, already past their first notification, on an enabled
  monitor, and not in a group that is still open; and the clock of the ladder never starts
  before the incident, the resolution of its group, or its release by the dependency.
\<close>

theorem OpenUnacked_lists_escalatable:
  "set (open_unacked d) =
     {pending_of d (clock_start d i) i m | i m.
        i \<in> set (t_incidents d) \<and> m \<in> set (t_monitors d) \<and> m_id m = i_monitor i \<and> m_enabled m \<and>
        i_resolved i = None \<and> i_acked_at i = None \<and> \<not> i_suppressed i \<and> 0 < i_level i \<and> group_of d i \<noteq> Some None} \<and>
   i_started i \<le> clock_start d i \<and>
   list_all (\<lambda>t. t \<le> clock_start d i)
     (List.map_filter id [Option.bind (group_of d i) id, i_dep_released i])"
proof
  show "set (open_unacked d) =
     {pending_of d (clock_start d i) i m | i m.
        i \<in> set (t_incidents d) \<and> m \<in> set (t_monitors d) \<and> m_id m = i_monitor i \<and> m_enabled m \<and>
        i_resolved i = None \<and> i_acked_at i = None \<and> \<not> i_suppressed i \<and> 0 < i_level i \<and> group_of d i \<noteq> Some None}"
    by (fastforce simp: open_unacked_def split: option.splits)
  show "i_started i \<le> clock_start d i \<and> list_all (\<lambda>t. t \<le> clock_start d i)
     (List.map_filter id [Option.bind (group_of d i) id, i_dep_released i])"
    by (auto simp: clock_start_def List.map_filter_simps split: option.splits)
qed

text \<open>
  Paging through an unchanged history shows every incident once: the pages at
  consecutive offsets, put together, are the whole list, newest first.
\<close>

theorem pages_cover_history:
  assumes "0 < limit" and "sched w = []"
    and "length (incidents_of_monitor m (db w)) \<le> n * limit"
  shows "concat (map (\<lambda>k. case fst (run_state (IncidentsForMonitorPaged m limit (k * limit)) w) of
            Inr (page, _) \<Rightarrow> page | Inl _ \<Rightarrow> []) [0..<n]) = incidents_of_monitor m (db w) \<and>
         sorted (map (\<lambda>i. - i_started i) (incidents_of_monitor m (db w)))"
proof
  let ?xs = "incidents_of_monitor m (db w)"
  have page: "(case fst (run_state (IncidentsForMonitorPaged m limit off) w) of
            Inr (page, _) \<Rightarrow> page | Inl _ \<Rightarrow> []) = take limit (drop off ?xs)" for off
    using assms(2) by (simp add: IncidentsForMonitorPaged_def queryIncidentsPaged_def)
  have "concat (map (\<lambda>k. take limit (drop (k * limit) xs)) [0..<n]) = take (n * limit) xs" for xs :: "incident list" and n
  proof (induction n)
    case (Suc n)
    have "take (Suc n * limit) xs = take (n * limit) xs @ take limit (drop (n * limit) xs)"
      by (simp add: take_add [symmetric] add.commute)
    with Suc show ?case by simp
  qed simp
  then show "concat (map (\<lambda>k. case fst (run_state (IncidentsForMonitorPaged m limit (k * limit)) w) of
            Inr (page, _) \<Rightarrow> page | Inl _ \<Rightarrow> []) [0..<n]) = ?xs"
    unfolding page using assms(3) by simp
  show "sorted (map (\<lambda>i. - i_started i) ?xs)" by (simp add: incidents_of_monitor_def)
qed

theorem pages_cover_history_witness:
  "concat (map (\<lambda>k. case fst (run_state (IncidentsForMonitorPaged 1 1 (k * 1)) (calm 5 ex_db)) of
      Inr (page, _) \<Rightarrow> page | Inl _ \<Rightarrow> []) [0..<2]) = [ex_incident]"
proof -
  have "incidents_of_monitor 1 ex_db = [ex_incident]" by code_simp
  then show ?thesis using pages_cover_history [of 1 "calm 5 ex_db" 1 2] by simp
qed

end
