(* ===== verification/Uptime_State.thy ===== *)
theory Uptime_State
  imports Store "HOL-Library.List_Lexorder" "HOL-Library.Char_ord"
begin

text \<open>
  \<open>internal/uptime/state.go\<close> and the aggregation of \<open>detector.go\<close>: how one result of a check
  moves the state of a monitor in a region, and how the states of the regions make the
  state of the monitor. The properties: the two counters are the lengths of the current
  runs of failures and successes, a status changes exactly when a run reaches its
  threshold, results that arrive late do not count at all, and what each consensus means.
\<close>

subsection \<open>Model: state.go\<close>

text \<open>
  \<open>States\<close> and \<open>StatesBatch\<close>: only regions the monitor still has, by region. Text is
  ordered by character codes.
\<close>

definition states_of :: "int \<Rightarrow> db \<Rightarrow> mstate list" where
  "states_of monitorID d =
     sort_key s_region (filter (\<lambda>s. s_monitor s = monitorID \<and>
       (s_monitor s, s_region s) \<in> set (t_monitor_regions d)) (t_monitor_state d))"

definition States :: "int \<Rightarrow> mstate list result prog" where
  "States monitorID = sql_read (\<lambda>_ d. states_of monitorID d)"

definition StatesBatch :: "int list \<Rightarrow> (int \<rightharpoonup> mstate list) result prog" where
  "StatesBatch monitorIDs =
     (if monitorIDs = [] then State_Monad.return (Inr Map.empty)
      else sql_read (\<lambda>_ d. \<lambda>i. if i \<in> set monitorIDs then Some (states_of i d) else None))"

text \<open>
  The row \<open>ApplyResult\<close> inserts, and the row its \<open>ON CONFLICT DO UPDATE\<close> leaves. A comparison
  with a missing \<open>last_checked_at\<close> is NULL, so the first branch of a \<open>CASE\<close> is skipped;
  \<open>GREATEST\<close> ignores NULL.
\<close>

definition first_state :: "int \<Rightarrow> int \<Rightarrow> int \<Rightarrow> string \<Rightarrow> bool \<Rightarrow> string \<Rightarrow> time \<Rightarrow> mstate" where
  "first_state ft rt monitorID region ok errText moment =
     \<lparr>s_monitor = monitorID, s_region = region,
      s_status = (if \<not> ok \<and> 1 \<ge> ft then ''down'' else if ok \<and> 1 \<ge> rt then ''up'' else ''unknown''),
      s_fails = (if ok then 0 else 1), s_oks = (if ok then 1 else 0),
      s_checked = Some moment, s_error = errText\<rparr>"

definition is_late :: "mstate \<Rightarrow> time \<Rightarrow> bool" where
  "is_late s moment \<longleftrightarrow> (case s_checked s of None \<Rightarrow> False | Some c \<Rightarrow> moment < c)"

definition next_state :: "int \<Rightarrow> int \<Rightarrow> bool \<Rightarrow> string \<Rightarrow> time \<Rightarrow> mstate \<Rightarrow> mstate" where
  "next_state ft rt ok errText moment s =
     s\<lparr>s_fails := (if is_late s moment then s_fails s else if ok then 0 else s_fails s + 1),
       s_oks := (if is_late s moment then s_oks s else if ok then s_oks s + 1 else 0),
       s_checked := (case s_checked s of None \<Rightarrow> Some moment | Some c \<Rightarrow> Some (max c moment)),
       s_error := (case s_checked s of None \<Rightarrow> s_error s | Some c \<Rightarrow> if moment \<ge> c then errText else s_error s),
       s_status := (if is_late s moment then s_status s
         else if \<not> ok \<and> s_fails s + 1 \<ge> ft then ''down''
         else if ok \<and> s_oks s + 1 \<ge> rt then ''up''
         else s_status s)\<rparr>"

definition apply_result :: "int \<Rightarrow> string \<Rightarrow> bool \<Rightarrow> string \<Rightarrow> time \<Rightarrow> db \<Rightarrow> mstate option \<times> db" where
  "apply_result monitorID region ok errText moment d =
     (case filter (\<lambda>m. m_id m = monitorID) (t_monitors d) of
        [] \<Rightarrow> (None, d)
      | m # _ \<Rightarrow>
          (let ft = m_fail_threshold m; rt = m_recovery_threshold m;
               hit = (\<lambda>s. s_monitor s = monitorID \<and> s_region s = region)
           in case filter hit (t_monitor_state d) of
                [] \<Rightarrow> (let s = first_state ft rt monitorID region ok errText moment
                      in (Some s, d\<lparr>t_monitor_state := t_monitor_state d @ [s]\<rparr>))
              | s # _ \<Rightarrow> (Some (next_state ft rt ok errText moment s),
                  d\<lparr>t_monitor_state := sql_update hit (next_state ft rt ok errText moment) (t_monitor_state d)\<rparr>)))"

definition ApplyResult :: "int \<Rightarrow> string \<Rightarrow> bool \<Rightarrow> string \<Rightarrow> time \<Rightarrow> mstate result prog" where
  "ApplyResult monitorID region ok errText moment =
     do {
       r \<leftarrow> sql (\<lambda>_ d. apply_result monitorID region ok errText moment d);
       State_Monad.return
         (case r of Inl e \<Rightarrow> Inl e | Inr None \<Rightarrow> Inl ErrInvalidMonitor | Inr (Some s) \<Rightarrow> Inr s)
     }"

subsection \<open>Model: the aggregation of detector.go\<close>

datatype aggStatus = aggNone | aggUp | aggDown

definition aggregate :: "string \<Rightarrow> mstate list \<Rightarrow> int \<Rightarrow> aggStatus" where
  "aggregate consensus states wantRegions =
     (let up = int (length (filter (\<lambda>s. s_status s = ''up'') states));
          down = int (length (filter (\<lambda>s. s_status s = ''down'') states));
          decided = up + down
      in if decided = 0 then aggNone
         else let total = (if wantRegions > decided then wantRegions else decided)
              in if consensus = ''any'' then (if down > 0 then aggDown else aggUp)
                 else if consensus = ''all'' then (if down = total then aggDown else aggUp)
                 else (if down * 2 \<ge> total then aggDown else aggUp))"

definition Aggregate :: "monitor \<Rightarrow> mstate list \<Rightarrow> string" where
  "Aggregate m states =
     (case aggregate (m_consensus m) states (m_region_count m) of
        aggUp \<Rightarrow> ''up'' | aggDown \<Rightarrow> ''down'' | aggNone \<Rightarrow> ''unknown'')"

definition regionsWithStatus :: "mstate list \<Rightarrow> string \<Rightarrow> string list" where
  "regionsWithStatus states status = map s_region (filter (\<lambda>s. s_status s = status) states)"

definition causeFrom :: "mstate \<Rightarrow> mstate list \<Rightarrow> string" where
  "causeFrom st states =
     (if s_error st \<noteq> '''' then s_error st
      else case filter (\<lambda>s. s_status s = ''down'' \<and> s_error s \<noteq> '''') states of
             [] \<Rightarrow> '''' | s # _ \<Rightarrow> s_error s)"

subsection \<open>A sequence of results\<close>

text \<open>
  The state of one region after a sequence of results (success, error text, time), with
  the thresholds of its monitor.
\<close>

type_synonym check = "bool \<times> string \<times> time"

fun region_state :: "int \<Rightarrow> int \<Rightarrow> int \<Rightarrow> string \<Rightarrow> check list \<Rightarrow> mstate option" where
  "region_state ft rt m r [] = None"
| "region_state ft rt m r (c # cs) =
     Some (fold (\<lambda>(ok, e, t). next_state ft rt ok e t) cs
       (first_state ft rt m r (fst c) (fst (snd c)) (snd (snd c))))"

text \<open>The results that were not overtaken by one with a later time.\<close>

fun in_order :: "time option \<Rightarrow> check list \<Rightarrow> check list" where
  "in_order prev [] = []"
| "in_order prev ((ok, e, t) # cs) =
     (if (case prev of None \<Rightarrow> False | Some l \<Rightarrow> t < l) then in_order prev cs
      else (ok, e, t) # in_order (Some t) cs)"

lemma late_no_effect: "is_late s moment \<Longrightarrow> next_state ft rt ok e moment s = s"
  by (auto simp: next_state_def is_late_def max_def split: option.splits)

lemma next_checked: "\<not> is_late s moment \<Longrightarrow> s_checked (next_state ft rt ok e moment s) = Some moment"
  by (auto simp: next_state_def is_late_def split: option.splits)

lemma fold_in_order:
  "fold (\<lambda>(ok, e, t). next_state ft rt ok e t) cs s =
   fold (\<lambda>(ok, e, t). next_state ft rt ok e t) (in_order (s_checked s) cs) s"
proof (induction cs arbitrary: s)
  case (Cons c cs)
  obtain ok e t where c: "c = (ok, e, t)" by (metis prod_cases3)
  show ?case
  proof (cases "is_late s t")
    case True
    then show ?thesis using Cons [of s] by (simp add: c late_no_effect) (simp add: is_late_def split: option.splits)
  next
    case False
    then have "\<not> (case s_checked s of None \<Rightarrow> False | Some l \<Rightarrow> t < l)" by (simp add: is_late_def)
    then show ?thesis
      using Cons [of "next_state ft rt ok e t s"] by (simp add: c next_checked [OF False])
  qed
qed simp

text \<open>
  A result that arrives after a newer one does not count: the state of a region after
  any sequence of results is the one after the results that were not overtaken, in the
  order they arrived; and those have non-decreasing times.
\<close>

theorem late_results_do_not_count:
  "region_state ft rt m r cs = region_state ft rt m r (in_order None cs) \<and>
   sorted (map (\<lambda>(_, _, t). t) (in_order None cs))"
proof (cases cs)
  case (Cons c cs')
  obtain ok e t where c: "c = (ok, e, t)" by (metis prod_cases3)
  have "s_checked (first_state ft rt m r ok e t) = Some t" by (simp add: first_state_def)
  then have "region_state ft rt m r cs = region_state ft rt m r (in_order None cs)"
    using fold_in_order [of ft rt cs' "first_state ft rt m r ok e t"] by (simp add: Cons c)
  moreover have lower: "\<forall>(_, _, t) \<in> set (in_order (Some l) cs). l \<le> t" for l cs
    by (induction "Some l" cs arbitrary: l rule: in_order.induct) (fastforce split: if_splits)+
  moreover have "sorted (map (\<lambda>(_, _, t). t) (in_order prev cs))" for prev cs
    by (induction prev cs rule: in_order.induct) (use lower in \<open>fastforce split: if_splits\<close>)+
  ultimately show ?thesis by blast
qed simp

text \<open>The current runs of failures and successes at the end of a history.\<close>

definition run_len :: "(bool \<Rightarrow> bool) \<Rightarrow> bool list \<Rightarrow> nat" where
  "run_len p oks = length (takeWhile p (rev oks))"

lemma run_len_snoc: "run_len p (oks @ [b]) = (if p b then Suc (run_len p oks) else 0)"
  by (simp add: run_len_def)

text \<open>
  The reference: the status is down from the moment \<open>ft\<close> failures in a row were seen until
  \<open>rt\<close> successes in a row, and the other way round.
\<close>

function ref_status :: "int \<Rightarrow> int \<Rightarrow> bool list \<Rightarrow> string" where
  "ref_status ft rt [] = ''unknown''"
| "ref_status ft rt (oks @ [b]) =
     (if ft \<le> int (run_len Not (oks @ [b])) \<and> \<not> b then ''down''
      else if rt \<le> int (run_len (\<lambda>x. x) (oks @ [b])) \<and> b then ''up''
      else ref_status ft rt oks)"
  by (auto) (metis rev_exhaust)
termination
  by (relation "measure (\<lambda>(_, _, oks). length oks)") auto

lemma ref_status_code [code]:
  "ref_status ft rt oks =
     (if oks = [] then ''unknown''
      else if ft \<le> int (run_len Not oks) \<and> \<not> List.last oks then ''down''
      else if rt \<le> int (run_len (\<lambda>x. x) oks) \<and> List.last oks then ''up''
      else ref_status ft rt (butlast oks))"
  by (cases oks rule: rev_cases) auto

text \<open>
  With the results of a region in order of time and the thresholds positive, the stored
  counters are exactly the lengths of the current runs of failures and successes, and the
  stored status is that of the reference: it turns down when the run of failures reaches
  the failure threshold, up when the run of successes reaches the recovery threshold, and
  otherwise stays.
\<close>

theorem region_state_is_reference:
  assumes "cs \<noteq> []" and "sorted (map (\<lambda>c. snd (snd c)) cs)" and "1 \<le> ft" and "1 \<le> rt"
  shows "\<exists>s. region_state ft rt m r cs = Some s \<and>
     s_fails s = int (run_len Not (map fst cs)) \<and> s_oks s = int (run_len (\<lambda>x. x) (map fst cs)) \<and>
     s_status s = ref_status ft rt (map fst cs) \<and>
     s_checked s = Some (snd (snd (last cs))) \<and> s_error s = fst (snd (last cs))"
  using assms(1,2)
proof (induction cs rule: rev_nonempty_induct)
  case (single c)
  have "ref_status ft rt ([] @ [b]) = (if \<not> b \<and> 1 \<ge> ft then ''down'' else if b \<and> 1 \<ge> rt then ''up'' else ''unknown'')" for b
    by (simp only: ref_status.simps) (auto simp: run_len_def)
  then show ?case by (cases c) (simp add: first_state_def run_len_def)
next
  case (snoc c cs)
  obtain ok e t where c: "c = (ok, e, t)" by (metis prod_cases3)
  obtain s where s: "region_state ft rt m r cs = Some s"
     "s_fails s = int (run_len Not (map fst cs))" "s_oks s = int (run_len (\<lambda>x. x) (map fst cs))"
     "s_status s = ref_status ft rt (map fst cs)" "s_checked s = Some (snd (snd (last cs)))"
    using snoc.IH snoc.prems by (auto simp: sorted_append)
  have "snd (snd (last cs)) \<le> t"
    using snoc.prems last_in_set [OF snoc.hyps] c by (simp add: sorted_append)
  then have nl: "\<not> is_late s t" using s(5) by (simp add: is_late_def)
  have st: "region_state ft rt m r (cs @ [c]) = Some (next_state ft rt ok e t s)"
    using s(1) snoc.hyps by (cases cs) (simp_all add: c)
  have "ref_status ft rt (map fst (cs @ [c])) =
      (if \<not> ok \<and> s_fails s + 1 \<ge> ft then ''down'' else if ok \<and> s_oks s + 1 \<ge> rt then ''up'' else s_status s)"
    unfolding map_append list.map c fst_conv ref_status.simps run_len_snoc
    using s(2-4) by auto
  then show ?case
    unfolding st using s(2,3,5) nl \<open>snd (snd (last cs)) \<le> t\<close>
    by (simp add: next_state_def run_len_snoc c max_def)
qed

theorem region_state_is_reference_witness:
  "\<exists>s. region_state 2 2 1 ''local'' [(True, '''', 0), (False, ''timeout'', 60), (False, ''refused'', 120)] = Some s \<and>
     s_fails s = 2 \<and> s_status s = ''down'' \<and> s_error s = ''refused''"
proof -
  let ?cs = "[(True, '''', 0), (False, ''timeout'', 60), (False, ''refused'', 120)]"
  have "int (run_len Not (map fst ?cs)) = 2" "ref_status 2 2 (map fst ?cs) = ''down''" by code_simp+
  then show ?thesis using region_state_is_reference [of ?cs 2 2 1 "''local''"] by auto
qed

subsection \<open>The table of states\<close>

definition state_row :: "db \<Rightarrow> int \<Rightarrow> string \<Rightarrow> mstate option" where
  "state_row d m r = find (\<lambda>s. s_monitor s = m \<and> s_region s = r) (t_monitor_state d)"

text \<open>The primary keys of \<open>monitors\<close> and \<open>monitor_state\<close>.\<close>

definition state_wf :: "db \<Rightarrow> bool" where
  "state_wf d \<longleftrightarrow> distinct (map m_id (t_monitors d)) \<and>
     distinct (map (\<lambda>s. (s_monitor s, s_region s)) (t_monitor_state d))"

lemma next_state_key [simp]: "s_monitor (next_state ft rt ok e t s) = s_monitor s" "s_region (next_state ft rt ok e t s) = s_region s"
  by (simp_all add: next_state_def)

lemma find_sql_update:
  assumes "\<And>s. k (f s) = k s" and "\<And>s. p s \<longleftrightarrow> k s = key"
  shows "find (\<lambda>s. k s = key') (sql_update p f rows) =
     map_option (if key' = key then f else id) (find (\<lambda>s. k s = key') rows)"
  by (induction rows) (auto simp: sql_update_def assms)

lemma find_filter: "find p rows = (case filter p rows of [] \<Rightarrow> None | x # _ \<Rightarrow> Some x)"
  by (induction rows) auto

lemma apply_result_row:
  assumes "mon \<in> set (t_monitors d)" and "m_id mon = m" and "state_wf d"
    and "ft = m_fail_threshold mon" and "rt = m_recovery_threshold mon"
  shows "t_monitors (snd (apply_result m r ok e t d)) = t_monitors d"
    and "state_wf (snd (apply_result m r ok e t d))"
    and "state_row (snd (apply_result m r ok e t d)) m' r' =
       (if m' = m \<and> r' = r
        then Some (case state_row d m r of None \<Rightarrow> first_state ft rt m r ok e t
                   | Some s \<Rightarrow> next_state ft rt ok e t s)
        else state_row d m' r')"
    and "fst (apply_result m r ok e t d) = state_row (snd (apply_result m r ok e t d)) m r"
proof -
  let ?hit = "\<lambda>s. s_monitor s = m \<and> s_region s = r"
  have mon: "filter (\<lambda>x. m_id x = m) (t_monitors d) = [mon]"
    using filter_one_by_key [of m_id "t_monitors d" mon "\<lambda>x. m_id x = m"] assms(1-3) by (simp add: state_wf_def)
  consider (new) "filter ?hit (t_monitor_state d) = []" | (old) s rest where "filter ?hit (t_monitor_state d) = s # rest"
    by (cases "filter ?hit (t_monitor_state d)") auto
  then have eq: "apply_result m r ok e t d =
      (case state_row d m r of
         None \<Rightarrow> (Some (first_state ft rt m r ok e t),
                  d\<lparr>t_monitor_state := t_monitor_state d @ [first_state ft rt m r ok e t]\<rparr>)
       | Some s \<Rightarrow> (Some (next_state ft rt ok e t s),
                  d\<lparr>t_monitor_state := sql_update ?hit (next_state ft rt ok e t) (t_monitor_state d)\<rparr>))"
    by cases (simp_all add: apply_result_def mon state_row_def find_filter assms(4,5) Let_def)
  have upd: "find (\<lambda>s. s_monitor s = m' \<and> s_region s = r') (sql_update ?hit f rows) =
      map_option (if (m', r') = (m, r) then f else id) (find (\<lambda>s. s_monitor s = m' \<and> s_region s = r') rows)"
    if "\<And>s. s_monitor (f s) = s_monitor s \<and> s_region (f s) = s_region s" for f rows m' r'
    using find_sql_update [of "\<lambda>s. (s_monitor s, s_region s)" f ?hit "(m, r)" "(m', r')" rows] that by simp
  have append: "find p (rows @ [x]) = (case find p rows of Some y \<Rightarrow> Some y | None \<Rightarrow> if p x then Some x else None)"
    for p rows and x :: mstate by (induction rows) auto
  have key: "s_monitor (first_state ft rt m r ok e t) = m" "s_region (first_state ft rt m r ok e t) = r"
    by (simp_all add: first_state_def)
  show "t_monitors (snd (apply_result m r ok e t d)) = t_monitors d"
    by (simp add: eq split: option.splits)
  show "state_wf (snd (apply_result m r ok e t d))"
  proof (cases "state_row d m r")
    case None
    then have "(m, r) \<notin> (\<lambda>s. (s_monitor s, s_region s)) ` set (t_monitor_state d)"
      by (auto simp: state_row_def find_None_iff)
    then show ?thesis using assms(3) None by (simp add: eq state_wf_def key)
  next
    case (Some s)
    have "map (\<lambda>s. (s_monitor s, s_region s)) (sql_update ?hit (next_state ft rt ok e t) (t_monitor_state d)) =
        map (\<lambda>s. (s_monitor s, s_region s)) (t_monitor_state d)"
      by (rule sql_update_key) simp
    then show ?thesis using assms(3) Some by (simp add: eq state_wf_def)
  qed
  show row: "state_row (snd (apply_result m r ok e t d)) m' r' =
       (if m' = m \<and> r' = r
        then Some (case state_row d m r of None \<Rightarrow> first_state ft rt m r ok e t
                   | Some s \<Rightarrow> next_state ft rt ok e t s)
        else state_row d m' r')" for m' r'
  proof (cases "state_row d m r")
    case None
    then show ?thesis
      by (auto simp: eq state_row_def append key split: option.splits)
  next
    case (Some s)
    then show ?thesis by (auto simp: eq state_row_def upd option.map_id)
  qed
  show "fst (apply_result m r ok e t d) = state_row (snd (apply_result m r ok e t d)) m r"
    unfolding row [of m r] by (simp add: eq split: option.splits)
qed

text \<open>A run of results for the regions of monitors, as the ingestor applies them.\<close>

definition apply_results :: "(int \<times> string \<times> check) list \<Rightarrow> db \<Rightarrow> db" where
  "apply_results = fold (\<lambda>(m, r, ok, e, t) d. snd (apply_result m r ok e t d))"

definition own_checks :: "int \<Rightarrow> string \<Rightarrow> (int \<times> string \<times> check) list \<Rightarrow> check list" where
  "own_checks m r rs = map (snd \<circ> snd) (filter (\<lambda>(m', r', _). m' = m \<and> r' = r) rs)"

lemma region_state_snoc:
  "region_state ft rt m r (cs @ [(ok, e, t)]) =
     Some (case region_state ft rt m r cs of None \<Rightarrow> first_state ft rt m r ok e t
           | Some s \<Rightarrow> next_state ft rt ok e t s)"
  by (cases cs) simp_all

text \<open>
  C6: the table of states refines the per-region history: however the results of monitors
  and regions interleave, the row of a region is the state reached by that region's own
  results with the thresholds of its monitor, and results of other monitors or regions do
  not touch it.
\<close>

theorem state_table_refines_history:
  assumes "distinct (map m_id (t_monitors d))" and "t_monitor_state d = []" and "mon \<in> set (t_monitors d)"
    and "list_all (\<lambda>(m, _). m \<in> set (map m_id (t_monitors d))) rs"
  shows "state_row (apply_results rs d) (m_id mon) r =
     region_state (m_fail_threshold mon) (m_recovery_threshold mon) (m_id mon) r (own_checks (m_id mon) r rs)"
  using assms(4)
proof -
  have "list_all (\<lambda>(m, _). m \<in> set (map m_id (t_monitors d))) rs \<Longrightarrow>
      t_monitors (apply_results rs d) = t_monitors d \<and> state_wf (apply_results rs d) \<and>
      state_row (apply_results rs d) (m_id mon) r =
        region_state (m_fail_threshold mon) (m_recovery_threshold mon) (m_id mon) r (own_checks (m_id mon) r rs)"
  proof (induction rs rule: rev_induct)
    case Nil
    then show ?case using assms(1,2) by (simp add: apply_results_def state_wf_def state_row_def own_checks_def)
  next
    case (snoc x rs)
    obtain m r' ok e t where x: "x = (m, r', ok, e, t)" by (metis prod_cases5)
    let ?d = "apply_results rs d"
    have IH: "t_monitors ?d = t_monitors d" "state_wf ?d"
      "state_row ?d (m_id mon) r = region_state (m_fail_threshold mon) (m_recovery_threshold mon) (m_id mon) r (own_checks (m_id mon) r rs)"
      using snoc by simp_all
    from snoc.prems x obtain mon' where mon': "mon' \<in> set (t_monitors ?d)" "m_id mon' = m"
      using IH(1) by auto
    have same: "mon' = mon" if "m = m_id mon"
      using distinct_key_unique [OF assms(1), of mon' mon] assms(3) mon' IH(1) that by simp
    have step: "apply_results (rs @ [x]) d = snd (apply_result m r' ok e t ?d)"
      by (simp add: apply_results_def x)
    note row = apply_result_row [OF mon' IH(2) refl refl, of r' ok e t]
    show ?case
    proof (cases "m = m_id mon \<and> r' = r")
      case True
      then have eqs: "m = m_id mon" "r' = r" "mon' = mon" using same by simp_all
      have own: "own_checks (m_id mon) r (rs @ [x]) = own_checks (m_id mon) r rs @ [(ok, e, t)]"
        by (simp add: own_checks_def x eqs)
      show ?thesis
        unfolding step own region_state_snoc IH(3) [symmetric] eqs using row(1-3) [unfolded eqs] IH(1) by simp
    next
      case False
      then show ?thesis
        unfolding step row(3) using row(1,2) IH by (auto simp: own_checks_def x)
    qed
  qed
  then show ?thesis using assms(4) by simp
qed

theorem state_table_refines_history_witness:
  "state_row (apply_results [(1, ''local'', False, ''a'', 0), (1, ''eu'', True, '''', 1), (1, ''local'', False, ''b'', 2)] ex_db) 1 ''local'' =
     region_state 2 2 1 ''local'' [(False, ''a'', 0), (False, ''b'', 2)]"
proof -
  let ?rs = "[(1, ''local'', False, ''a'', 0), (1, ''eu'', True, '''', 1), (1, ''local'', False, ''b'', 2)]"
  have "own_checks 1 ''local'' ?rs = [(False, ''a'', 0), (False, ''b'', 2)]" by code_simp
  then show ?thesis
    using state_table_refines_history [of ex_db ex_monitor ?rs "''local''"] by (simp add: ex_defs)
qed

subsection \<open>The consensus\<close>

abbreviation count_status :: "string \<Rightarrow> mstate list \<Rightarrow> int" where
  "count_status st states \<equiv> int (length (filter (\<lambda>s. s_status s = st) states))"

text \<open>
  What each consensus means. With \<open>any\<close> the monitor is down as soon as one region is;
  with \<open>all\<close> only when every configured region reported down, regions that have not decided
  yet counting as not down; otherwise when at least half of the configured regions are
  down. Without any decided region there is no verdict.
\<close>

theorem aggregate_meaning:
  assumes "int (length states) \<le> want"
  shows "(aggregate c states want = aggNone \<longleftrightarrow> count_status ''up'' states + count_status ''down'' states = 0) \<and>
         (aggregate ''any'' states want = aggDown \<longleftrightarrow> 0 < count_status ''down'' states) \<and>
         (0 < want \<longrightarrow> (aggregate ''all'' states want = aggDown \<longleftrightarrow> count_status ''down'' states = want)) \<and>
         (0 < want \<longrightarrow> (aggregate ''majority'' states want = aggDown \<longleftrightarrow>
            want \<le> 2 * count_status ''down'' states))"
proof -
  have "filter (\<lambda>s. s_status s = ''up'') states = filter (\<lambda>s. s_status s = ''up'') (filter (\<lambda>s. s_status s \<noteq> ''down'') states)"
    by (induction states) auto
  then have "length (filter (\<lambda>s. s_status s = ''up'') states) \<le> length (filter (\<lambda>s. s_status s \<noteq> ''down'') states)"
    by (metis length_filter_le)
  then have le: "count_status ''up'' states + count_status ''down'' states \<le> want"
    using assms sum_length_filter_compl [of "\<lambda>s. s_status s = ''down''" states] by linarith
  define up down where "up = count_status ''up'' states" and "down = count_status ''down'' states"
  have ge: "0 \<le> up" "0 \<le> down" by (simp_all add: up_def down_def)
  show ?thesis
    unfolding aggregate_def Let_def up_def [symmetric] down_def [symmetric]
    using le ge unfolding up_def [symmetric] down_def [symmetric] by auto
qed

definition ex_states :: "mstate list" where
  "ex_states = map (\<lambda>(r, st). \<lparr>s_monitor = 1, s_region = r, s_status = st, s_fails = 0, s_oks = 0, s_checked = Some 0, s_error = ''''\<rparr>)
     [(''eu'', ''down''), (''us'', ''up''), (''local'', ''unknown'')]"

theorem aggregate_meaning_witness:
  "aggregate ''any'' ex_states 3 = aggDown \<and> aggregate ''all'' ex_states 3 \<noteq> aggDown \<and>
   aggregate ''majority'' ex_states 3 \<noteq> aggDown \<and> aggregate ''all'' ex_states 3 \<noteq> aggNone"
proof -
  have "int (length ex_states) \<le> 3" and "count_status ''down'' ex_states = 1" and "count_status ''up'' ex_states = 1"
    by code_simp+
  then show ?thesis using aggregate_meaning [of ex_states 3 "''all''"] aggregate_meaning [of ex_states 3 "''any''"] by simp
qed

text \<open>
  The verdict is monotone: when one more region goes down (and the others stay as they
  are) a monitor that was down stays down, under every consensus.
\<close>

theorem aggregate_monotone:
  assumes "aggregate c (xs @ s # ys) want = aggDown" and "s_status s' = ''down''"
  shows "aggregate c (xs @ s' # ys) want = aggDown"
proof -
  define u d where "u = count_status ''up'' (xs @ s # ys)" and "d = count_status ''down'' (xs @ s # ys)"
  consider "count_status ''up'' (xs @ s' # ys) = u - 1" "count_status ''down'' (xs @ s' # ys) = d + 1" "1 \<le> u"
    | "count_status ''up'' (xs @ s' # ys) = u" "count_status ''down'' (xs @ s' # ys) = d"
    | "count_status ''up'' (xs @ s' # ys) = u" "count_status ''down'' (xs @ s' # ys) = d + 1"
    using assms(2) by (cases "s_status s = ''up''"; cases "s_status s = ''down''") (auto simp: u_def d_def)
  moreover have "0 \<le> u" "0 \<le> d" by (simp_all add: u_def d_def)
  moreover have "(let total = (if want > u + d then want else u + d)
      in if c = ''any'' then d > 0 else if c = ''all'' then d = total else d * 2 \<ge> total)" "u + d \<noteq> 0"
    using assms(1) unfolding aggregate_def Let_def u_def [symmetric] d_def [symmetric] by (auto split: if_splits)
  ultimately show ?thesis
    unfolding aggregate_def Let_def by cases (simp_all only:, auto split: if_splits)
qed

theorem aggregate_monotone_witness:
  "aggregate ''majority'' ([hd ex_states] @ (ex_states ! 1)\<lparr>s_status := ''down''\<rparr> # []) 2 = aggDown"
  by (rule aggregate_monotone [of _ "[hd ex_states]" "ex_states ! 1" "[]"]) code_simp+

end
