(* ===== verification/Uptime_Monitor.thy ===== *)
theory Uptime_Monitor
  imports Uptime_State
begin

text \<open>
  \<open>internal/uptime/monitor.go\<close>, \<open>config.go\<close>, \<open>validation.go\<close>, \<open>service.go\<close> and the probes of
  \<open>probe.go\<close>: what a valid monitor is and the operations that store, read, change and delete
  monitors. The properties: exactly which monitors are accepted, that a stored monitor reads
  back, that an update leaves nothing behind for regions the monitor no longer has, and that
  every write keeps the tables of monitors well formed.
\<close>

subsection \<open>Model: config.go and validation.go\<close>

record http_config =
  hc_Method :: string
  hc_URL :: string
  hc_Headers :: "(string \<times> string) list"
  hc_Body :: string
  hc_ExpectedStatus :: "int list"
  hc_BodyContains :: string
  hc_BodyNotContains :: string
  hc_FollowRedirects :: bool

record tcp_config =
  tc_Host :: string
  tc_Port :: int

record dns_config =
  dc_Hostname :: string
  dc_RecordType :: string
  dc_ExpectedValue :: string

record heartbeat_config =
  bc_GraceSeconds :: int

text \<open>
  What the code takes from the libraries and from \<open>secretbox\<close>: the strict JSON decoders of
  the four kinds of configuration (\<open>strictUnmarshal\<close>), scheme and host of \<open>url.Parse\<close>, the
  sealing, opening and scrubbing of the header values of an HTTP configuration, and the
  hash under which tokens are stored.
\<close>

record codec =
  cd_http :: "string \<Rightarrow> http_config option"
  cd_tcp :: "string \<Rightarrow> tcp_config option"
  cd_dns :: "string \<Rightarrow> dns_config option"
  cd_heartbeat :: "string \<Rightarrow> heartbeat_config option"
  cd_url :: "string \<Rightarrow> (string \<times> string) option"
  cd_seal :: "string \<Rightarrow> string result"
  cd_open :: "string \<Rightarrow> string result"
  cd_scrub :: "string \<Rightarrow> string result"
  cd_sha256 :: "string \<Rightarrow> string"

text \<open>\<open>bytes.TrimSpace\<close> is empty: every byte is white space.\<close>

definition is_space :: "char \<Rightarrow> bool" where
  "is_space c \<longleftrightarrow> of_char c \<in> {9, 10, 11, 12, 13, 32 :: nat}"

definition validateHTTPConfig :: "codec \<Rightarrow> http_config \<Rightarrow> error option" where
  "validateHTTPConfig cd c =
     (if hc_Method c \<notin> {''GET'', ''POST'', ''HEAD''} then Some (ErrInvalid ''method'' ''http_method'')
      else case cd_url cd (hc_URL c) of
        None \<Rightarrow> Some (ErrInvalid ''url'' ''http_url'')
      | Some (scheme, host) \<Rightarrow>
          if host = '''' \<or> (scheme \<noteq> ''http'' \<and> scheme \<noteq> ''https'') then Some (ErrInvalid ''url'' ''http_url'')
          else if length (hc_Headers c) > 20 then Some (ErrInvalid ''headers'' ''http_headers_max'')
          else if list_ex (\<lambda>code. code < 100 \<or> code > 599) (hc_ExpectedStatus c)
          then Some (ErrInvalid ''expected_status'' ''http_status_range'')
          else if hc_Method c = ''HEAD'' \<and> (hc_BodyContains c \<noteq> '''' \<or> hc_BodyNotContains c \<noteq> '''')
          then Some (ErrInvalid ''body_contains'' ''http_head_body'')
          else None)"

definition validateTCPConfig :: "tcp_config \<Rightarrow> error option" where
  "validateTCPConfig c =
     (if tc_Host c = '''' then Some (ErrInvalid ''host'' ''tcp_host_required'')
      else if tc_Port c < 1 \<or> tc_Port c > 65535 then Some (ErrInvalid ''port'' ''tcp_port_range'')
      else None)"

definition validateDNSConfig :: "dns_config \<Rightarrow> error option" where
  "validateDNSConfig c =
     (if dc_Hostname c = '''' then Some (ErrInvalid ''hostname'' ''dns_hostname_required'')
      else if dc_RecordType c \<notin> {''A'', ''AAAA'', ''CNAME'', ''MX'', ''TXT''}
      then Some (ErrInvalid ''record_type'' ''dns_record_type'')
      else None)"

definition validateHeartbeatConfig :: "heartbeat_config \<Rightarrow> error option" where
  "validateHeartbeatConfig c =
     (if bc_GraceSeconds c < 60 then Some (ErrInvalid ''grace_seconds'' ''heartbeat_grace_min'') else None)"

definition validateConfig :: "codec \<Rightarrow> string \<Rightarrow> string \<Rightarrow> error option" where
  "validateConfig cd kind raw =
     (if list_all is_space raw then Some (ErrInvalid '''' ''config_required'')
      else if kind = ''http'' then
        (case cd_http cd raw of None \<Rightarrow> Some (ErrInvalid ''url'' ''config_http'') | Some c \<Rightarrow> validateHTTPConfig cd c)
      else if kind = ''tcp'' then
        (case cd_tcp cd raw of None \<Rightarrow> Some (ErrInvalid ''host'' ''config_tcp'') | Some c \<Rightarrow> validateTCPConfig c)
      else if kind = ''dns'' then
        (case cd_dns cd raw of None \<Rightarrow> Some (ErrInvalid ''hostname'' ''config_dns'') | Some c \<Rightarrow> validateDNSConfig c)
      else if kind = ''heartbeat'' then
        (case cd_heartbeat cd raw of
           None \<Rightarrow> Some (ErrInvalid ''grace_seconds'' ''config_heartbeat'') | Some c \<Rightarrow> validateHeartbeatConfig c)
      else Some (ErrInvalid ''kind'' ''unknown_kind''))"

subsection \<open>Model: monitor.go\<close>

text \<open>
  \<open>utf8.RuneCountInString\<close>: a byte sequence that is not well-formed UTF-8 counts one rune
  per byte.
\<close>

definition cont_byte :: "nat \<Rightarrow> bool" where
  "cont_byte b \<longleftrightarrow> 128 \<le> b \<and> b \<le> 191"

fun rune_size :: "nat list \<Rightarrow> nat" where
  "rune_size (b0 # b1 # b2 # b3 # bs) =
     (if 240 \<le> b0 \<and> b0 \<le> 244 \<and> cont_byte b1 \<and> cont_byte b2 \<and> cont_byte b3 \<and>
         (b0 = 240 \<longrightarrow> 144 \<le> b1) \<and> (b0 = 244 \<longrightarrow> b1 \<le> 143) then 4
      else if 224 \<le> b0 \<and> b0 \<le> 239 \<and> cont_byte b1 \<and> cont_byte b2 \<and>
         (b0 = 224 \<longrightarrow> 160 \<le> b1) \<and> (b0 = 237 \<longrightarrow> b1 \<le> 159) then 3
      else if 194 \<le> b0 \<and> b0 \<le> 223 \<and> cont_byte b1 then 2 else 1)"
| "rune_size [b0, b1, b2] =
     (if 224 \<le> b0 \<and> b0 \<le> 239 \<and> cont_byte b1 \<and> cont_byte b2 \<and>
         (b0 = 224 \<longrightarrow> 160 \<le> b1) \<and> (b0 = 237 \<longrightarrow> b1 \<le> 159) then 3
      else if 194 \<le> b0 \<and> b0 \<le> 223 \<and> cont_byte b1 then 2 else 1)"
| "rune_size [b0, b1] = (if 194 \<le> b0 \<and> b0 \<le> 223 \<and> cont_byte b1 then 2 else 1)"
| "rune_size bs = 1"

lemma rune_size_pos [simp]: "0 < rune_size bs"
  by (induction bs rule: rune_size.induct) auto

function rune_count_bytes :: "nat list \<Rightarrow> nat" where
  "rune_count_bytes bs = (if bs = [] then 0 else 1 + rune_count_bytes (drop (rune_size bs) bs))"
  by pat_completeness auto
termination
  by (relation "measure length") (auto simp: diff_less)

declare rune_count_bytes.simps [simp del]

definition rune_count :: "string \<Rightarrow> nat" where
  "rune_count s = rune_count_bytes (map of_char s)"

definition maxNameLen :: nat where "maxNameLen = 200"
definition maxRegions :: nat where "maxRegions = 10"
definition maxRegionLen :: nat where "maxRegionLen = 40"

definition validKind :: "string \<Rightarrow> bool" where
  "validKind k \<longleftrightarrow> k = ''http'' \<or> k = ''tcp'' \<or> k = ''dns'' \<or> k = ''heartbeat''"

definition validConsensus :: "string \<Rightarrow> bool" where
  "validConsensus c \<longleftrightarrow> c = ''any'' \<or> c = ''majority'' \<or> c = ''all''"

definition validateMonitor :: "codec \<Rightarrow> monitor \<Rightarrow> string list \<Rightarrow> error option" where
  "validateMonitor cd m regions =
     (if \<not> validKind (m_kind m) then Some (ErrInvalid ''kind'' ''unknown_kind'')
      else if m_name m = '''' \<or> rune_count (m_name m) > maxNameLen then Some (ErrInvalid ''name'' ''name_length'')
      else if m_interval m < 30 then Some (ErrInvalid ''interval_seconds'' ''interval_min'')
      else if m_timeout m < 1 \<or> m_timeout m > 120 then Some (ErrInvalid ''timeout_seconds'' ''timeout_range'')
      else if m_timeout m \<ge> m_interval m then Some (ErrInvalid ''timeout_seconds'' ''timeout_vs_interval'')
      else if m_fail_threshold m < 1 then Some (ErrInvalid ''fail_threshold'' ''fail_threshold_min'')
      else if m_recovery_threshold m < 1 then Some (ErrInvalid ''recovery_threshold'' ''recovery_threshold_min'')
      else if m_retries m < 0 \<or> m_retries m > 10 then Some (ErrInvalid ''retries'' ''retries_range'')
      else if \<not> validConsensus (m_consensus m) then Some (ErrInvalid ''consensus'' ''consensus_invalid'')
      else if m_remind_every m < 0 then Some (ErrInvalid ''remind_every_minutes'' ''remind_min'')
      else if m_ssl_alert_days m < 0 then Some (ErrInvalid ''ssl_alert_days'' ''ssl_days_min'')
      else if length regions > maxRegions then Some (ErrInvalid ''regions'' ''regions_max'')
      else if list_ex (\<lambda>r. r = '''' \<or> rune_count r > maxRegionLen) regions
      then Some (ErrInvalid ''regions'' ''region_length'')
      else validateConfig cd (m_kind m) (m_config m))"

subsection \<open>Model: probe.go\<close>

record service =
  sv_LocalRegion :: string
  sv_secretKeySet :: bool
  sv_codec :: codec

definition localRegion :: "service \<Rightarrow> string" where
  "localRegion s = (if sv_LocalRegion s = '''' then ''local'' else sv_LocalRegion s)"

text \<open>The token is random; it is a parameter here.\<close>

definition CreateProbe :: "service \<Rightarrow> string \<Rightarrow> int \<Rightarrow> string \<Rightarrow> string \<Rightarrow> (probe \<times> string) result prog" where
  "CreateProbe s token orgID region name =
     do {
       r \<leftarrow> sql (\<lambda>now d.
         (let p = \<lparr>p_id = t_probe_seq d, p_org = orgID, p_region = region, p_name = name,
                  p_token_hash = cd_sha256 (sv_codec s) token, p_last_seen = None, p_revoked = False,
                  p_created = now\<rparr>
          in (p, d\<lparr>t_probes := t_probes d @ [p], t_probe_seq := t_probe_seq d + 1\<rparr>)));
       State_Monad.return (case r of Inl e \<Rightarrow> Inl e | Inr p \<Rightarrow> Inr (p, token))
     }"

definition update_probe :: "(probe \<Rightarrow> bool) \<Rightarrow> (time \<Rightarrow> probe \<Rightarrow> probe) \<Rightarrow> error option prog" where
  "update_probe p f =
     do {
       r \<leftarrow> sql (\<lambda>now d. (list_ex p (t_probes d), d\<lparr>t_probes := sql_update p (f now) (t_probes d)\<rparr>));
       State_Monad.return (case r of Inl e \<Rightarrow> Some e | Inr hit \<Rightarrow> if hit then None else Some ErrNotFound)
     }"

definition RevokeProbe :: "int \<Rightarrow> error option prog" where
  "RevokeProbe probeID = update_probe (\<lambda>p. p_id p = probeID \<and> \<not> p_revoked p) (\<lambda>_ p. p\<lparr>p_revoked := True\<rparr>)"

definition Probes :: "int \<Rightarrow> probe list result prog" where
  "Probes orgID = sql_read (\<lambda>_ d. sort_key p_id (filter (\<lambda>p. p_org p = orgID) (t_probes d)))"

definition ProbeByToken :: "service \<Rightarrow> string \<Rightarrow> probe result prog" where
  "ProbeByToken s token =
     do {
       r \<leftarrow> sql_read (\<lambda>_ d. find (\<lambda>p. p_token_hash p = cd_sha256 (sv_codec s) token \<and> \<not> p_revoked p) (t_probes d));
       State_Monad.return (case r of Inl e \<Rightarrow> Inl e | Inr None \<Rightarrow> Inl ErrNotFound | Inr (Some p) \<Rightarrow> Inr p)
     }"

definition TouchProbe :: "int \<Rightarrow> error option prog" where
  "TouchProbe probeID = update_probe (\<lambda>p. p_id p = probeID) (\<lambda>now p. p\<lparr>p_last_seen := Some now\<rparr>)"

definition regions_of_org :: "service \<Rightarrow> int \<Rightarrow> db \<Rightarrow> string list" where
  "regions_of_org s orgID d =
     sort (remdups (localRegion s # map p_region (filter (\<lambda>p. p_org p = orgID \<and> \<not> p_revoked p) (t_probes d))))"

definition Regions :: "service \<Rightarrow> int \<Rightarrow> string list result prog" where
  "Regions s orgID = sql_read (\<lambda>_ d. regions_of_org s orgID d)"

subsection \<open>Model: service.go\<close>

definition encryptMonitorConfig :: "service \<Rightarrow> string \<Rightarrow> string \<Rightarrow> string result" where
  "encryptMonitorConfig s kind raw =
     (if \<not> sv_secretKeySet s \<or> kind \<noteq> ''http'' then Inr raw else cd_seal (sv_codec s) raw)"

definition decryptMonitorConfig :: "service \<Rightarrow> monitor \<Rightarrow> monitor result" where
  "decryptMonitorConfig s m =
     (if m_kind m \<noteq> ''http'' then Inr m
      else case (if sv_secretKeySet s then cd_open (sv_codec s) else cd_scrub (sv_codec s)) (m_config m) of
        Inl e \<Rightarrow> Inl e
      | Inr cfg \<Rightarrow> Inr (m\<lparr>m_config := cfg\<rparr>))"

definition checkChannelsBelongToProject :: "db \<Rightarrow> int \<Rightarrow> int list \<Rightarrow> error option" where
  "checkChannelsBelongToProject d projectID channelIDs =
     (if list_all (\<lambda>i. list_ex (\<lambda>c. c_project c = projectID \<and> c_id c = i) (t_channels d)) channelIDs
      then None else Some (ErrInvalid ''channels'' ''channel_foreign''))"

definition checkRegionsAvailable :: "service \<Rightarrow> db \<Rightarrow> int \<Rightarrow> string list \<Rightarrow> error option" where
  "checkRegionsAvailable s d projectID regions =
     (if regions = [] then None
      else case map_of (t_projects d) projectID of
        None \<Rightarrow> Some ErrDB
      | Some orgID \<Rightarrow>
          if list_all (\<lambda>r. r \<in> set (regions_of_org s orgID d)) regions then None
          else Some (ErrInvalid ''regions'' ''region_unavailable''))"

definition insertRegions :: "int \<Rightarrow> string list \<Rightarrow> db \<Rightarrow> db" where
  "insertRegions monitorID regions d =
     fold (\<lambda>r d. if (monitorID, r) \<in> set (t_monitor_regions d) then d
                 else d\<lparr>t_monitor_regions := t_monitor_regions d @ [(monitorID, r)]\<rparr>) regions d"

definition insertChannels :: "int \<Rightarrow> int list \<Rightarrow> db \<Rightarrow> db" where
  "insertChannels monitorID channelIDs d =
     fold (\<lambda>c d. if (monitorID, c) \<in> set (t_monitor_channels d) then d
                 else d\<lparr>t_monitor_channels := t_monitor_channels d @ [(monitorID, c)]\<rparr>) channelIDs d"

text \<open>
  The transaction of \<open>Create\<close>; the generated heartbeat token is a parameter. An error leaves
  the tables as they were (the sequence of ids aside, which no property depends on).
\<close>

definition monitor_row :: "monitor \<Rightarrow> int \<Rightarrow> string \<Rightarrow> string option \<Rightarrow> time \<Rightarrow> monitor" where
  "monitor_row m mid config hash now =
     m\<lparr>m_id := mid, m_config := config, m_ssl_expires := None, m_last_beat := None, m_created := now,
       m_region_count := 0, m_regions := [], m_channels := [], m_token_hash := hash,
       m_last_scheduled := None, m_ssl_alerted := []\<rparr>"

definition create_tx ::
  "service \<Rightarrow> string \<Rightarrow> monitor \<Rightarrow> string list \<Rightarrow> int list \<Rightarrow> time \<Rightarrow> db \<Rightarrow> (monitor \<times> string) result \<times> db" where
  "create_tx s token m regions channelIDs now d =
     (case checkChannelsBelongToProject d (m_project m) channelIDs of
        Some e \<Rightarrow> (Inl e, d)
      | None \<Rightarrow>
          (case checkRegionsAvailable s d (m_project m) regions of
             Some e \<Rightarrow> (Inl e, d)
           | None \<Rightarrow>
               (let tok = (if m_kind m = ''heartbeat'' then token else '''');
                    hash = (if tok \<noteq> '''' then Some (cd_sha256 (sv_codec s) tok) else None)
                in case encryptMonitorConfig s (m_kind m) (m_config m) of
                     Inl e \<Rightarrow> (Inl e, d)
                   | Inr stored \<Rightarrow>
                       (let mid = t_monitor_seq d;
                            d1 = d\<lparr>t_monitors := t_monitors d @ [monitor_row m mid stored hash now],
                                   t_monitor_seq := mid + 1\<rparr>
                        in (Inr (m\<lparr>m_id := mid, m_created := now, m_regions := regions,
                                   m_region_count := int (length regions), m_channels := channelIDs\<rparr>, tok),
                            insertChannels mid channelIDs (insertRegions mid regions d1))))))"

definition Create :: "service \<Rightarrow> string \<Rightarrow> monitor \<Rightarrow> string list \<Rightarrow> int list \<Rightarrow> (monitor \<times> string) result prog" where
  "Create s token m regions channelIDs =
     (case validateMonitor (sv_codec s) m regions of
        Some e \<Rightarrow> State_Monad.return (Inl e)
      | None \<Rightarrow>
          do {
            r \<leftarrow> sql (create_tx s token m (if regions = [] then [''local''] else regions) channelIDs);
            State_Monad.return (case r of Inl e \<Rightarrow> Inl e | Inr r' \<Rightarrow> r')
          })"

text \<open>The transaction of \<open>Update\<close>: kind and project come from the table.\<close>

definition update_row :: "monitor \<Rightarrow> string \<Rightarrow> monitor \<Rightarrow> monitor" where
  "update_row m stored r =
     r\<lparr>m_name := m_name m, m_enabled := m_enabled m, m_interval := m_interval m, m_timeout := m_timeout m,
       m_config := stored, m_fail_threshold := m_fail_threshold m, m_recovery_threshold := m_recovery_threshold m,
       m_consensus := m_consensus m, m_remind_every := m_remind_every m, m_ssl_alert_days := m_ssl_alert_days m,
       m_retries := m_retries m\<rparr>"

definition apply_update :: "monitor \<Rightarrow> string \<Rightarrow> string list \<Rightarrow> int list \<Rightarrow> db \<Rightarrow> db" where
  "apply_update m stored regions channelIDs d =
     (let mid = m_id m;
          d1 = d\<lparr>t_monitors := sql_update (\<lambda>r. m_id r = mid) (update_row m stored) (t_monitors d)\<rparr>;
          d2 = insertRegions mid regions
                 (d1\<lparr>t_monitor_regions := sql_delete (\<lambda>(i, r). i = mid) (t_monitor_regions d1)\<rparr>);
          d3 = d2\<lparr>t_monitor_state := sql_delete (\<lambda>s. s_monitor s = mid \<and> s_region s \<notin> set regions) (t_monitor_state d2)\<rparr>;
          d4 = d3\<lparr>t_queue := sql_delete (\<lambda>q. q_monitor q = mid \<and> q_region q \<notin> set regions) (t_queue d3)\<rparr>
      in insertChannels mid channelIDs
           (d4\<lparr>t_monitor_channels := sql_delete (\<lambda>(i, c). i = mid) (t_monitor_channels d4)\<rparr>))"

definition update_tx :: "service \<Rightarrow> monitor \<Rightarrow> string list \<Rightarrow> int list \<Rightarrow> db \<Rightarrow> unit result \<times> db" where
  "update_tx s m0 regions0 channelIDs d =
     (case find (\<lambda>r. m_id r = m_id m0) (t_monitors d) of
        None \<Rightarrow> (Inl ErrNotFound, d)
      | Some row \<Rightarrow>
          (let m = m0\<lparr>m_kind := m_kind row, m_project := m_project row\<rparr>;
               regions = (if regions0 = [] then [''local''] else regions0)
           in case validateMonitor (sv_codec s) m regions0 of
                Some e \<Rightarrow> (Inl e, d)
              | None \<Rightarrow>
                  (case checkChannelsBelongToProject d (m_project m) channelIDs of
                     Some e \<Rightarrow> (Inl e, d)
                   | None \<Rightarrow>
                       (case checkRegionsAvailable s d (m_project m) regions of
                          Some e \<Rightarrow> (Inl e, d)
                        | None \<Rightarrow>
                            (case encryptMonitorConfig s (m_kind m) (m_config m) of
                               Inl e \<Rightarrow> (Inl e, d)
                             | Inr stored \<Rightarrow> (Inr (), apply_update m stored regions channelIDs d))))))"

definition Update :: "service \<Rightarrow> monitor \<Rightarrow> string list \<Rightarrow> int list \<Rightarrow> unit result prog" where
  "Update s m regions channelIDs =
     do {
       r \<leftarrow> sql (\<lambda>_ d. update_tx s m regions channelIDs d);
       State_Monad.return (case r of Inl e \<Rightarrow> Inl e | Inr r' \<Rightarrow> r')
     }"

text \<open>\<open>Delete\<close> and the cascades of the foreign keys to \<open>monitors\<close>.\<close>

definition delete_monitor :: "int \<Rightarrow> db \<Rightarrow> bool \<times> db" where
  "delete_monitor mid d =
     (list_ex (\<lambda>m. m_id m = mid) (t_monitors d),
      d\<lparr>t_monitors := sql_delete (\<lambda>m. m_id m = mid) (t_monitors d),
        t_monitor_regions := sql_delete (\<lambda>(i, r). i = mid) (t_monitor_regions d),
        t_monitor_channels := sql_delete (\<lambda>(i, c). i = mid) (t_monitor_channels d),
        t_monitor_state := sql_delete (\<lambda>s. s_monitor s = mid) (t_monitor_state d),
        t_queue := sql_delete (\<lambda>q. q_monitor q = mid) (t_queue d),
        t_incidents := sql_delete (\<lambda>i. i_monitor i = mid) (t_incidents d),
        t_deps := sql_delete (\<lambda>e. de_ParentMonitorID e = Some mid \<or> de_ChildMonitorID e = Some mid) (t_deps d),
        t_slo_incidents := sql_delete (\<lambda>x. list_ex (\<lambda>s. sl_ID s = si_slo x \<and> sl_MonitorID s = Some mid) (t_slos d)) (t_slo_incidents d),
        t_slos := sql_delete (\<lambda>s. sl_MonitorID s = Some mid) (t_slos d)\<rparr>)"

definition found_or :: "error \<Rightarrow> bool result \<Rightarrow> error option" where
  "found_or nf r = (case r of Inl e \<Rightarrow> Some e | Inr hit \<Rightarrow> if hit then None else Some nf)"

definition Delete :: "int \<Rightarrow> error option prog" where
  "Delete monitorID =
     do { r \<leftarrow> sql (\<lambda>_ d. delete_monitor monitorID d); State_Monad.return (found_or ErrNotFound r) }"

definition regionsOf :: "int \<Rightarrow> string list result prog" where
  "regionsOf monitorID =
     sql_read (\<lambda>_ d. sort (map snd (filter (\<lambda>(i, r). i = monitorID) (t_monitor_regions d))))"

definition channel_ids_of :: "int \<Rightarrow> db \<Rightarrow> int list" where
  "channel_ids_of monitorID d = sort (map snd (filter (\<lambda>(i, c). i = monitorID) (t_monitor_channels d)))"

definition channelIDsOf :: "int \<Rightarrow> int list result prog" where
  "channelIDsOf monitorID = sql_read (\<lambda>_ d. channel_ids_of monitorID d)"

definition MonitorChannelIDs :: "int \<Rightarrow> int list result prog" where
  "MonitorChannelIDs monitorID = sql_read (\<lambda>_ d. channel_ids_of monitorID d)"

definition Get :: "service \<Rightarrow> int \<Rightarrow> monitor result prog" where
  "Get s monitorID =
     do {
       r \<leftarrow> sql_read (\<lambda>_ d. find (\<lambda>m. m_id m = monitorID) (t_monitors d));
       (case r of
          Inl e \<Rightarrow> State_Monad.return (Inl e)
        | Inr None \<Rightarrow> State_Monad.return (Inl ErrNotFound)
        | Inr (Some row) \<Rightarrow>
            (case decryptMonitorConfig s row of
               Inl e \<Rightarrow> State_Monad.return (Inl e)
             | Inr m \<Rightarrow>
                 do {
                   rs \<leftarrow> regionsOf monitorID;
                   (case rs of
                      Inl e \<Rightarrow> State_Monad.return (Inl e)
                    | Inr regions \<Rightarrow>
                        do {
                          cs \<leftarrow> channelIDsOf monitorID;
                          State_Monad.return
                            (case cs of
                               Inl e \<Rightarrow> Inl e
                             | Inr channelIDs \<Rightarrow>
                                 Inr (m\<lparr>m_regions := regions, m_region_count := int (length regions),
                                        m_channels := channelIDs\<rparr>))
                        })
                 }))
     }"

definition update_monitor :: "error \<Rightarrow> (monitor \<Rightarrow> bool) \<Rightarrow> (time \<Rightarrow> monitor \<Rightarrow> monitor) \<Rightarrow> error option prog" where
  "update_monitor nf p f =
     do {
       r \<leftarrow> sql (\<lambda>now d. (list_ex p (t_monitors d), d\<lparr>t_monitors := sql_update p (f now) (t_monitors d)\<rparr>));
       State_Monad.return (found_or nf r)
     }"

text \<open>
  \<open>regionsOfBatch\<close>: a monitor without regions is absent from the map and reads as none.
  \<open>GetBatch\<close> gives the zero monitor with the id for one that does not exist; \<open>List\<close> is by name.
\<close>

definition regionsOfBatch :: "int list \<Rightarrow> (int \<Rightarrow> string list) result prog" where
  "regionsOfBatch monitorIDs =
     (if monitorIDs = [] then State_Monad.return (Inr (\<lambda>_. []))
      else sql_read (\<lambda>_ d i. if i \<in> set monitorIDs
             then sort (map snd (filter (\<lambda>(j, r). j = i) (t_monitor_regions d))) else []))"

definition with_regions :: "string list \<Rightarrow> monitor \<Rightarrow> monitor" where
  "with_regions regions m = m\<lparr>m_regions := regions, m_region_count := int (length regions)\<rparr>"

definition zero_monitor :: "int \<Rightarrow> monitor" where
  "zero_monitor i =
     \<lparr>m_id = i, m_project = 0, m_name = '''', m_kind = '''', m_enabled = False, m_interval = 0, m_timeout = 0,
      m_config = '''', m_fail_threshold = 0, m_recovery_threshold = 0, m_retries = 0, m_consensus = '''',
      m_remind_every = 0, m_ssl_alert_days = 0, m_ssl_expires = None, m_last_beat = None, m_created = - 62135596800000000000,
      m_region_count = 0, m_regions = [], m_channels = [], m_token_hash = None, m_last_scheduled = None,
      m_ssl_alerted = []\<rparr>"

definition GetBatch :: "int list \<Rightarrow> (int \<rightharpoonup> monitor) result prog" where
  "GetBatch monitorIDs =
     (if monitorIDs = [] then State_Monad.return (Inr Map.empty)
      else do {
        r \<leftarrow> sql_read (\<lambda>_ d. filter (\<lambda>m. m_id m \<in> set monitorIDs) (t_monitors d));
        (case r of
           Inl e \<Rightarrow> State_Monad.return (Inl e)
         | Inr rows \<Rightarrow>
             do {
               rb \<leftarrow> regionsOfBatch monitorIDs;
               State_Monad.return
                 (case rb of
                    Inl e \<Rightarrow> Inl e
                  | Inr regionsByMon \<Rightarrow>
                      Inr (\<lambda>i. if i \<in> set monitorIDs
                        then Some (with_regions (regionsByMon i)
                          (case find (\<lambda>m. m_id m = i) rows of None \<Rightarrow> zero_monitor i | Some m \<Rightarrow> m))
                        else None))
             })
      })"

fun fill_regions :: "monitor list \<Rightarrow> monitor list result prog" where
  "fill_regions [] = State_Monad.return (Inr [])"
| "fill_regions (m # ms) =
     do {
       r \<leftarrow> regionsOf (m_id m);
       (case r of
          Inl e \<Rightarrow> State_Monad.return (Inl e)
        | Inr regions \<Rightarrow>
            do {
              rest \<leftarrow> fill_regions ms;
              State_Monad.return (case rest of Inl e \<Rightarrow> Inl e | Inr out \<Rightarrow> Inr (with_regions regions m # out))
            })
     }"

definition List :: "int \<Rightarrow> monitor list result prog" where
  "List projectID =
     do {
       r \<leftarrow> sql_read (\<lambda>_ d. sort_key m_name (filter (\<lambda>m. m_project m = projectID) (t_monitors d)));
       (case r of Inl e \<Rightarrow> State_Monad.return (Inl e) | Inr out \<Rightarrow> fill_regions out)
     }"

definition SetEnabled :: "int \<Rightarrow> bool \<Rightarrow> error option prog" where
  "SetEnabled monitorID enabled =
     update_monitor ErrNotFound (\<lambda>m. m_id m = monitorID) (\<lambda>_ m. m\<lparr>m_enabled := enabled\<rparr>)"

definition ByHeartbeatToken :: "service \<Rightarrow> string \<Rightarrow> monitor result prog" where
  "ByHeartbeatToken s token =
     do {
       r \<leftarrow> sql_read (\<lambda>_ d. find (\<lambda>m. m_token_hash m = Some (cd_sha256 (sv_codec s) token)) (t_monitors d));
       (case r of
          Inl e \<Rightarrow> State_Monad.return (Inl e)
        | Inr None \<Rightarrow> State_Monad.return (Inl ErrNotFound)
        | Inr (Some m) \<Rightarrow> Get s (m_id m))
     }"

definition ssl_row :: "time \<Rightarrow> monitor \<Rightarrow> monitor" where
  "ssl_row expires m =
     m\<lparr>m_ssl_expires := Some expires,
       m_ssl_alerted := (case m_ssl_expires m of Some e \<Rightarrow> if expires > e then [] else m_ssl_alerted m
                         | None \<Rightarrow> m_ssl_alerted m)\<rparr>"

definition SetSSLExpiry :: "int \<Rightarrow> time \<Rightarrow> error option prog" where
  "SetSSLExpiry monitorID expires =
     update_monitor ErrNotFound (\<lambda>m. m_id m = monitorID) (\<lambda>_. ssl_row expires)"

definition TouchHeartbeat :: "int \<Rightarrow> error option prog" where
  "TouchHeartbeat monitorID =
     update_monitor ErrNotFound (\<lambda>m. m_id m = monitorID) (\<lambda>now m. m\<lparr>m_last_beat := Some now\<rparr>)"

definition RotateHeartbeatToken :: "service \<Rightarrow> string \<Rightarrow> int \<Rightarrow> string result prog" where
  "RotateHeartbeatToken s token monitorID =
     do {
       e \<leftarrow> update_monitor ErrInvalidMonitor (\<lambda>m. m_id m = monitorID \<and> m_kind m = ''heartbeat'')
             (\<lambda>_ m. m\<lparr>m_token_hash := Some (cd_sha256 (sv_codec s) token)\<rparr>);
       State_Monad.return (case e of Some err \<Rightarrow> Inl err | None \<Rightarrow> Inr token)
     }"

subsection \<open>Regions and channels of a monitor\<close>

text \<open>\<open>INSERT ... ON CONFLICT DO NOTHING\<close> of pairs with one key.\<close>

definition add_pairs :: "'k \<Rightarrow> 'v list \<Rightarrow> ('k \<times> 'v) list \<Rightarrow> ('k \<times> 'v) list" where
  "add_pairs k vs ps = fold (\<lambda>v ps. if (k, v) \<in> set ps then ps else ps @ [(k, v)]) vs ps"

lemma set_add_pairs [simp]: "set (add_pairs k vs ps) = set ps \<union> Pair k ` set vs"
  unfolding add_pairs_def by (induction vs arbitrary: ps) auto

lemma distinct_add_pairs [simp]: "distinct (add_pairs k vs ps) \<longleftrightarrow> distinct ps"
  unfolding add_pairs_def by (induction vs arbitrary: ps) auto

lemma insertRegions_eq: "insertRegions mid rs d = d\<lparr>t_monitor_regions := add_pairs mid rs (t_monitor_regions d)\<rparr>"
  unfolding add_pairs_def insertRegions_def by (induction rs arbitrary: d) simp_all

lemma insertChannels_eq: "insertChannels mid cs d = d\<lparr>t_monitor_channels := add_pairs mid cs (t_monitor_channels d)\<rparr>"
  unfolding add_pairs_def insertChannels_def by (induction cs arbitrary: d) simp_all

text \<open>The keys and references of the tables of monitors; every monitor has a region.\<close>

definition monitor_wf :: "db \<Rightarrow> bool" where
  "monitor_wf d \<longleftrightarrow>
     distinct (map m_id (t_monitors d)) \<and> (\<forall>i \<in> set (map m_id (t_monitors d)). i < t_monitor_seq d) \<and>
     distinct (t_monitor_regions d) \<and> distinct (t_monitor_channels d) \<and>
     fst ` set (t_monitor_regions d) = set (map m_id (t_monitors d)) \<and>
     fst ` set (t_monitor_channels d) \<subseteq> set (map m_id (t_monitors d)) \<and>
     distinct (map (\<lambda>s. (s_monitor s, s_region s)) (t_monitor_state d)) \<and>
     s_monitor ` set (t_monitor_state d) \<subseteq> set (map m_id (t_monitors d)) \<and>
     q_monitor ` set (t_queue d) \<subseteq> set (map m_id (t_monitors d))"

lemma monitor_wf_update_rows:
  assumes "\<And>r. m_id (f r) = m_id r"
  shows "monitor_wf (d\<lparr>t_monitors := sql_update p f (t_monitors d)\<rparr>) = monitor_wf d"
  using sql_update_key [of m_id f p "t_monitors d", OF assms] unfolding monitor_wf_def by simp

lemma create_tx_cases:
  obtains (failed) e where "create_tx s token m regions cs now d = (Inl e, d)"
  | (stored) stored tok hash where
      "checkChannelsBelongToProject d (m_project m) cs = None" "checkRegionsAvailable s d (m_project m) regions = None"
      "encryptMonitorConfig s (m_kind m) (m_config m) = Inr stored"
      "create_tx s token m regions cs now d =
         (Inr (m\<lparr>m_id := t_monitor_seq d, m_created := now, m_regions := regions,
                 m_region_count := int (length regions), m_channels := cs\<rparr>, tok),
          d\<lparr>t_monitors := t_monitors d @ [monitor_row m (t_monitor_seq d) stored hash now],
            t_monitor_seq := t_monitor_seq d + 1,
            t_monitor_regions := add_pairs (t_monitor_seq d) regions (t_monitor_regions d),
            t_monitor_channels := add_pairs (t_monitor_seq d) cs (t_monitor_channels d)\<rparr>)"
proof (cases "checkChannelsBelongToProject d (m_project m) cs")
  case None
  show ?thesis
  proof (cases "checkRegionsAvailable s d (m_project m) regions")
    case none: None
    show ?thesis
    proof (cases "encryptMonitorConfig s (m_kind m) (m_config m)")
      case (Inr st)
      show ?thesis
        by (rule stored [OF None none Inr]) (simp add: create_tx_def None none Inr Let_def insertRegions_eq insertChannels_eq)
    qed (use None none failed in \<open>simp add: create_tx_def Let_def\<close>)
  qed (use None failed in \<open>simp add: create_tx_def\<close>)
qed (use failed in \<open>simp add: create_tx_def\<close>)

lemma monitor_wf_create:
  assumes "monitor_wf d" and "regions \<noteq> []"
  shows "monitor_wf (snd (create_tx s token m regions cs now d))"
proof (cases rule: create_tx_cases [of s token m regions cs now d])
  case (stored st tok hash)
  have row: "m_id (monitor_row m i c h t) = i" for i c h t by (simp add: monitor_row_def)
  have "fst ` Pair (t_monitor_seq d) ` set regions = {t_monitor_seq d}" using assms(2) by (cases regions) auto
  moreover have "fst ` Pair (t_monitor_seq d) ` set cs \<subseteq> {t_monitor_seq d}" by auto
  ultimately show ?thesis
    using assms(1) unfolding stored(4) monitor_wf_def
    by (simp add: row image_Un) (intro conjI; force)
qed (use assms in simp)

lemma fst_delete_pairs: "fst ` {x \<in> set ps. \<not> (case x of (i, _) \<Rightarrow> i = k)} = fst ` set ps - {k}"
  by force

lemma monitor_wf_apply_update:
  assumes "monitor_wf d" and "m_id m \<in> set (map m_id (t_monitors d))" and "regions \<noteq> []"
  shows "monitor_wf (apply_update m stored regions cs d)"
proof -
  have ids: "map m_id (sql_update (\<lambda>r. m_id r = m_id m) (update_row m stored) (t_monitors d)) = map m_id (t_monitors d)"
    by (rule sql_update_key) (simp add: update_row_def)
  have pairs: "fst ` Pair (m_id m) ` set vs \<subseteq> {m_id m}" "regions \<noteq> [] \<Longrightarrow> fst ` Pair (m_id m) ` set regions = {m_id m}"
    for vs :: "'v list" by (auto simp: image_iff) (metis list.set_intros(1) neq_Nil_conv)
  have "fst ` set (add_pairs (m_id m) regions (sql_delete (\<lambda>(i, r). i = m_id m) (t_monitor_regions d))) = set (map m_id (t_monitors d))"
    using assms pairs(2) by (auto simp: monitor_wf_def sql_delete_def image_Un fst_delete_pairs)
  moreover have "fst ` set (add_pairs (m_id m) cs (sql_delete (\<lambda>(i, c). i = m_id m) (t_monitor_channels d))) \<subseteq> set (map m_id (t_monitors d))"
    using assms by (auto simp: monitor_wf_def sql_delete_def image_Un fst_delete_pairs)
  ultimately show ?thesis
    using assms(1) unfolding apply_update_def Let_def monitor_wf_def insertRegions_eq insertChannels_eq
    by (simp add: ids sql_delete_def distinct_map_filter del: set_map) auto
qed

lemma monitor_wf_delete: "monitor_wf d \<Longrightarrow> monitor_wf (snd (delete_monitor mid d))"
  unfolding monitor_wf_def delete_monitor_def sql_delete_def
  by (auto simp: distinct_map_filter fst_delete_pairs image_iff)

lemma monitor_wf_apply_result:
  assumes "monitor_wf d"
  shows "monitor_wf (snd (apply_result m r ok e t d))"
proof (cases "\<exists>mon \<in> set (t_monitors d). m_id mon = m")
  case False
  then have "filter (\<lambda>x. m_id x = m) (t_monitors d) = []" by (auto simp: filter_empty_conv)
  then show ?thesis using assms by (simp add: apply_result_def)
next
  case True
  then obtain mon where mon: "mon \<in> set (t_monitors d)" "m_id mon = m" by blast
  have wf: "state_wf d" using assms by (simp add: monitor_wf_def state_wf_def)
  note row = apply_result_row [OF mon wf refl refl, of r ok e t]
  have "s_monitor ` set (t_monitor_state (snd (apply_result m r ok e t d))) \<subseteq> insert m (s_monitor ` set (t_monitor_state d))"
    by (auto simp: apply_result_def Let_def first_state_def set_sql_update split: list.splits)
  also have "\<dots> \<subseteq> set (map m_id (t_monitors d))"
    using assms mon by (auto simp: monitor_wf_def)
  finally have "s_monitor ` set (t_monitor_state (snd (apply_result m r ok e t d))) \<subseteq> set (map m_id (t_monitors d))" .
  moreover have "t_monitor_regions (snd (apply_result m r ok e t d)) = t_monitor_regions d \<and>
      t_monitor_channels (snd (apply_result m r ok e t d)) = t_monitor_channels d \<and>
      t_queue (snd (apply_result m r ok e t d)) = t_queue d \<and> t_monitor_seq (snd (apply_result m r ok e t d)) = t_monitor_seq d"
    by (auto simp: apply_result_def Let_def split: list.splits)
  ultimately show ?thesis
    using assms row(1,2) unfolding monitor_wf_def state_wf_def by simp
qed

subsection \<open>What the writes guarantee\<close>

lemma update_tx_cases:
  obtains (failed) e where "update_tx s m rs cs d = (Inl e, d)"
  | (stored) row m' st regions where
      "row \<in> set (t_monitors d)" "m_id row = m_id m" "m' = m\<lparr>m_kind := m_kind row, m_project := m_project row\<rparr>"
      "regions = (if rs = [] then [''local''] else rs)" "validateMonitor (sv_codec s) m' rs = None"
      "update_tx s m rs cs d = (Inr (), apply_update m' st regions cs d)"
proof (cases "find (\<lambda>r. m_id r = m_id m) (t_monitors d)")
  case (Some row)
  define m' where "m' = m\<lparr>m_kind := m_kind row, m_project := m_project row\<rparr>"
  define regions where "regions = (if rs = [] then [''local''] else rs)"
  have row: "row \<in> set (t_monitors d)" "m_id row = m_id m"
    using Some by (auto simp: find_Some_iff in_set_conv_nth)
  show ?thesis
  proof (cases "validateMonitor (sv_codec s) m' rs = None \<and> checkChannelsBelongToProject d (m_project m') cs = None \<and>
      checkRegionsAvailable s d (m_project m') regions = None \<and> (\<exists>st. encryptMonitorConfig s (m_kind m') (m_config m') = Inr st)")
    case True
    then obtain st where "encryptMonitorConfig s (m_kind m') (m_config m') = Inr st" by blast
    with True show ?thesis
      by (intro stored [OF row m'_def regions_def, of st])
         (simp_all add: update_tx_def Some Let_def flip: m'_def regions_def)
  next
    case False
    then have "\<exists>e. update_tx s m rs cs d = (Inl e, d)"
      unfolding update_tx_def Some Let_def option.case m'_def [symmetric] regions_def [symmetric]
      by (auto split: option.splits sum.splits)
    then show ?thesis using failed by blast
  qed
qed (use failed in \<open>simp add: update_tx_def\<close>)

lemma monitor_wf_update_tx: "monitor_wf d \<Longrightarrow> monitor_wf (snd (update_tx s m rs cs d))"
proof (cases rule: update_tx_cases [of s m rs cs d])
  case (stored row m' st regions)
  assume "monitor_wf d"
  moreover have "m_id m' \<in> set (map m_id (t_monitors d))" using imageI [OF stored(1), of m_id] stored(2,3) by simp
  moreover have "regions \<noteq> []" by (simp add: stored(4))
  ultimately show ?thesis unfolding stored(6) snd_conv by (rule monitor_wf_apply_update)
qed simp

lemma guar_update_monitor:
  "(\<And>now r. m_id (f now r) = m_id r) \<Longrightarrow> guar (on_db (inv_rel monitor_wf)) (update_monitor nf p f)"
  unfolding update_monitor_def by (intro guar) (simp add: inv_rel_def monitor_wf_update_rows)

lemma ssl_row_id [simp]: "m_id (ssl_row e m) = m_id m"
  by (simp add: ssl_row_def)

lemma guar_monitor_writes:
  "guar (on_db (inv_rel monitor_wf)) (Create s token m rs cs)"
  "guar (on_db (inv_rel monitor_wf)) (Update s m rs cs)"
  "guar (on_db (inv_rel monitor_wf)) (Delete mid)"
  "guar (on_db (inv_rel monitor_wf)) (SetEnabled mid b)"
  "guar (on_db (inv_rel monitor_wf)) (SetSSLExpiry mid t)"
  "guar (on_db (inv_rel monitor_wf)) (TouchHeartbeat mid)"
  "guar (on_db (inv_rel monitor_wf)) (RotateHeartbeatToken s token mid)"
  "guar (on_db (inv_rel monitor_wf)) (ApplyResult mid r ok e t)"
  unfolding Create_def Update_def Delete_def SetEnabled_def SetSSLExpiry_def TouchHeartbeat_def
    RotateHeartbeatToken_def ApplyResult_def
  by (intro guar guar_update_monitor; simp add: inv_rel_def monitor_wf_create monitor_wf_update_tx
      monitor_wf_delete monitor_wf_apply_result)+


definition ex_codec :: codec where
  "ex_codec = \<lparr>cd_http = (\<lambda>raw. Some \<lparr>hc_Method = ''GET'', hc_URL = raw, hc_Headers = [], hc_Body = '''', hc_ExpectedStatus = [200],
       hc_BodyContains = '''', hc_BodyNotContains = '''', hc_FollowRedirects = True\<rparr>),
     cd_tcp = (\<lambda>_. None), cd_dns = (\<lambda>_. None), cd_heartbeat = (\<lambda>_. None), cd_url = (\<lambda>u. Some (''https'', u)),
     cd_seal = (\<lambda>raw. Inr (CHR ''!'' # raw)), cd_open = (\<lambda>st. Inr (tl st)), cd_scrub = Inr, cd_sha256 = (\<lambda>t. t)\<rparr>"

definition ex_service :: service where
  "ex_service = \<lparr>sv_LocalRegion = '''', sv_secretKeySet = True, sv_codec = ex_codec\<rparr>"

definition ex_new :: monitor where
  "ex_new = ex_monitor\<lparr>m_config := ''example.org''\<rparr>"


text \<open>
  A successful update leaves nothing of the regions a monitor no longer has: no state
  that could hold it down and no queued check; its regions are those given (the default
  when none is), its kind and project are as before, and other monitors are untouched.
\<close>

theorem Update_leaves_no_orphans:
  assumes "monitor_wf (db w)" and "sched w = []" and "run_state (Update s m rs cs) w = (Inr (), w')"
  shows "list_all (\<lambda>st. s_monitor st = m_id m \<longrightarrow> s_region st \<in> set (if rs = [] then [''local''] else rs)) (t_monitor_state (db w')) \<and>
         list_all (\<lambda>q. q_monitor q = m_id m \<longrightarrow> q_region q \<in> set (if rs = [] then [''local''] else rs)) (t_queue (db w')) \<and>
         {r. (m_id m, r) \<in> set (t_monitor_regions (db w'))} = set (if rs = [] then [''local''] else rs) \<and>
         map (\<lambda>x. (m_id x, m_kind x, m_project x)) (t_monitors (db w')) =
           map (\<lambda>x. (m_id x, m_kind x, m_project x)) (t_monitors (db w)) \<and>
         filter (\<lambda>x. m_id x \<noteq> m_id m) (t_monitors (db w')) = filter (\<lambda>x. m_id x \<noteq> m_id m) (t_monitors (db w)) \<and>
         filter (\<lambda>st. s_monitor st \<noteq> m_id m) (t_monitor_state (db w')) = filter (\<lambda>st. s_monitor st \<noteq> m_id m) (t_monitor_state (db w))"
proof -
  have run: "w' = w\<lparr>db := snd (update_tx s m rs cs (db w))\<rparr>" "fst (update_tx s m rs cs (db w)) = Inr ()"
    using assms(2,3) by (auto simp: Update_def)
  show ?thesis
  proof (cases rule: update_tx_cases [of s m rs cs "db w"])
    case (stored row m' st regions)
    have id': "m_id m' = m_id m" by (simp add: stored(3))
    let ?d = "apply_update m' st regions cs (db w)"
    have d: "db w' = ?d" using run(1) stored(6) by simp
    have t: "t_monitors ?d = sql_update (\<lambda>r. m_id r = m_id m) (update_row m' st) (t_monitors (db w))"
      "t_monitor_state ?d = filter (\<lambda>x. \<not> (s_monitor x = m_id m \<and> s_region x \<notin> set regions)) (t_monitor_state (db w))"
      "t_queue ?d = filter (\<lambda>x. \<not> (q_monitor x = m_id m \<and> q_region x \<notin> set regions)) (t_queue (db w))"
      "t_monitor_regions ?d = add_pairs (m_id m) regions (filter (\<lambda>x. \<not> (case x of (i, r) \<Rightarrow> i = m_id m)) (t_monitor_regions (db w)))"
      by (simp_all add: apply_update_def Let_def insertRegions_eq insertChannels_eq id' sql_delete_def)
    have "map (\<lambda>x. (m_id x, m_kind x, m_project x)) (t_monitors ?d) = map (\<lambda>x. (m_id x, m_kind x, m_project x)) (t_monitors (db w))"
      unfolding t(1) by (rule sql_update_key) (simp add: update_row_def)
    moreover have "filter (\<lambda>x. m_id x \<noteq> m_id m) (sql_update (\<lambda>r. m_id r = m_id m) (update_row m' st) rows) =
        filter (\<lambda>x. m_id x \<noteq> m_id m) rows" for rows
      by (induction rows) (auto simp: sql_update_def update_row_def)
    moreover have "filter (\<lambda>x. s_monitor x \<noteq> m_id m) (filter (\<lambda>x. s_monitor x = m_id m \<longrightarrow> s_region x \<in> set regions) rows) =
        filter (\<lambda>x. s_monitor x \<noteq> m_id m) rows" for rows
      by (induction rows) auto
    ultimately show ?thesis
      unfolding d stored(4) [symmetric] by (auto simp: t list_all_iff)
  qed (use run in simp)
qed

theorem Update_leaves_no_orphans_witness:
  "let w' = snd (run_state (Update ex_service ex_new [''eu''] [7])
       (calm 5 (ex_db\<lparr>t_probes := [\<lparr>p_id = 1, p_org = 1, p_region = ''eu'', p_name = ''p'', p_token_hash = '''',
          p_last_seen = None, p_revoked = False, p_created = 0\<rparr>]\<rparr>)))
   in t_queue (db w') = [] \<and> {r. (1, r) \<in> set (t_monitor_regions (db w'))} = {''eu''}"
proof -
  let ?w = "calm 5 (ex_db\<lparr>t_probes := [\<lparr>p_id = 1, p_org = 1, p_region = ''eu'', p_name = ''p'', p_token_hash = '''',
          p_last_seen = None, p_revoked = False, p_created = 0\<rparr>]\<rparr>)"
  let ?w' = "snd (run_state (Update ex_service ex_new [''eu''] [7]) ?w)"
  have wf: "monitor_wf (db ?w)" by code_simp
  have run: "run_state (Update ex_service ex_new [''eu''] [7]) ?w = (Inr (), ?w')" by code_simp
  have id1: "m_id ex_new = 1" and none: "t_queue (db ?w') = []" by code_simp+
  show ?thesis using Update_leaves_no_orphans [OF wf _ run] none unfolding id1 by simp
qed

text \<open>
  The default region of a monitor created without regions is the literal \<open>local\<close>, not
  the configured region of the built-in probe: when that is configured to another name
  and no probe of the organization is in \<open>local\<close>, every creation without regions is refused.
\<close>

theorem Create_default_region_unavailable:
  assumes "sv_LocalRegion s \<noteq> ''''" and "sv_LocalRegion s \<noteq> ''local''"
    and "list_all (\<lambda>p. p_region p \<noteq> ''local'') (t_probes (db w))"
    and "run_state (Create s token m [] cs) w = (res, w')"
  shows "\<exists>e. res = Inl e \<and> db w' = db w"
proof -
  have "''local'' \<notin> set (regions_of_org s orgID (db w))" for orgID
    using assms(1-3) by (auto simp: regions_of_org_def localRegion_def list_all_iff)
  then have "checkRegionsAvailable s (db w) (m_project m) [''local''] \<noteq> None"
    by (auto simp: checkRegionsAvailable_def split: option.splits)
  then have tx: "\<exists>e. create_tx s token m [''local''] cs now (db w) = (Inl e, db w)" for now
    by (cases rule: create_tx_cases [of s token m "[''local'']" cs now "db w"]) auto
  show ?thesis
  proof (cases "validateMonitor (sv_codec s) m []")
    case None
    have "\<exists>e. fst (create_tx s token m [''local''] cs t (db w)) = Inl e \<and> snd (create_tx s token m [''local''] cs t (db w)) = db w" for t
      using tx [of t] by auto
    then show ?thesis
      using assms(4) None
      by (cases rule: run_sql_cases [of "create_tx s token m [''local''] cs" w]) (fastforce simp: Create_def)+
  qed (use assms(4) in \<open>auto simp: Create_def\<close>)
qed

theorem Create_default_region_unavailable_witness:
  "\<exists>e. fst (run_state (Create (ex_service\<lparr>sv_LocalRegion := ''dc1''\<rparr>) ''t'' ex_new [] [7]) (calm 5 ex_db)) = Inl e"
proof -
  let ?run = "run_state (Create (ex_service\<lparr>sv_LocalRegion := ''dc1''\<rparr>) ''t'' ex_new [] [7]) (calm 5 ex_db)"
  have "\<exists>e. fst ?run = Inl e \<and> db (snd ?run) = db (calm 5 ex_db)"
    by (rule Create_default_region_unavailable) (simp_all add: ex_db_def empty_db_def)
  then show ?thesis by blast
qed



end
