(* ===== verification/Notify_Outbox.thy ===== *)
theory Notify_Outbox
  imports Store
begin

text \<open>
  \<open>internal/notify/outbox.go\<close>, \<open>worker.go\<close>, \<open>direct.go\<close>, \<open>stats.go\<close> and the janitor: the queue
  of notifications kept in \<open>notification_outbox\<close> and the workers that deliver them. A
  worker claims a batch under a lease, sends, and finalizes with the attempt number it
  was given as a fence. The properties: one row per idempotency key, every attempt of a
  job belongs to one claim, a job once sent is never claimed again, stale finalizations
  have no effect, and a worker is a sequence of steps of that machine.
\<close>

subsection \<open>Model: outbox.go\<close>

definition claimLease :: duration where "claimLease = 5 * minute"

definition new_outbox_row :: "int \<Rightarrow> int \<Rightarrow> payload \<Rightarrow> string option \<Rightarrow> time \<Rightarrow> outbox_row" where
  "new_outbox_row oid channel payload key now =
     \<lparr>o_id = oid, o_channel = channel, o_payload = payload, o_status = ''pending'', o_attempts = 0,
      o_error = '''', o_next_retry = now, o_created = now, o_sent_at = None, o_key = key\<rparr>"

definition insert_outbox :: "int \<Rightarrow> payload \<Rightarrow> string option \<Rightarrow> time \<Rightarrow> db \<Rightarrow> db" where
  "insert_outbox channel payload key now d =
     d\<lparr>t_outbox := t_outbox d @ [new_outbox_row (t_outbox_seq d) channel payload key now],
       t_outbox_seq := t_outbox_seq d + 1\<rparr>"

definition Enqueue :: "int \<Rightarrow> payload \<Rightarrow> unit result prog" where
  "Enqueue channelID payload = sql (\<lambda>now d. ((), insert_outbox channelID payload None now d))"

text \<open>The insert with \<open>ON CONFLICT (idempotency_key) DO NOTHING\<close>.\<close>

definition insert_idempotent :: "int \<Rightarrow> payload \<Rightarrow> string \<Rightarrow> time \<Rightarrow> db \<Rightarrow> bool \<times> db" where
  "insert_idempotent channel payload key now d =
     (if list_ex (\<lambda>r. o_key r = Some key) (t_outbox d)
      then (False, d\<lparr>t_outbox_seq := t_outbox_seq d + 1\<rparr>)
      else (True, insert_outbox channel payload (Some key) now d))"

definition EnqueueIdempotent :: "int \<Rightarrow> payload \<Rightarrow> string \<Rightarrow> bool result prog" where
  "EnqueueIdempotent channelID payload key =
     (if key = '''' then do {
        r \<leftarrow> Enqueue channelID payload;
        State_Monad.return (case r of Inl e \<Rightarrow> Inl e | Inr _ \<Rightarrow> Inr True)
      }
      else sql (insert_idempotent channelID payload key))"

record job =
  j_ID :: int
  j_ChannelID :: int
  j_Payload :: payload
  j_Attempts :: int

text \<open>
  The statement of \<open>Claim\<close>: the due jobs by \<open>next_retry_at\<close>, at most \<open>limit\<close> of them, each
  with one more attempt and a new \<open>next_retry_at\<close> one lease ahead.
\<close>

definition outbox_due :: "time \<Rightarrow> outbox_row \<Rightarrow> bool" where
  "outbox_due now r \<longleftrightarrow> o_status r = ''pending'' \<and> o_next_retry r \<le> now"

definition claim_ids :: "nat \<Rightarrow> time \<Rightarrow> db \<Rightarrow> int list" where
  "claim_ids limit now d =
     map o_id (take limit (sort_key o_next_retry (filter (outbox_due now) (t_outbox d))))"

definition claim_row :: "time \<Rightarrow> outbox_row \<Rightarrow> outbox_row" where
  "claim_row now r = r\<lparr>o_attempts := o_attempts r + 1, o_next_retry := now + claimLease\<rparr>"

definition job_of_row :: "outbox_row \<Rightarrow> job" where
  "job_of_row r = \<lparr>j_ID = o_id r, j_ChannelID = o_channel r, j_Payload = o_payload r, j_Attempts = o_attempts r\<rparr>"

definition claim_jobs :: "nat \<Rightarrow> time \<Rightarrow> db \<Rightarrow> job list \<times> db" where
  "claim_jobs limit now d =
     (let ids = claim_ids limit now d;
          hit = (\<lambda>r. o_id r \<in> set ids)
      in (map (job_of_row \<circ> claim_row now) (filter hit (t_outbox d)),
          d\<lparr>t_outbox := sql_update hit (claim_row now) (t_outbox d)\<rparr>))"

definition Claim :: "nat \<Rightarrow> job list result prog" where
  "Claim limit = sql (claim_jobs limit)"

text \<open>
  The three finalizations share their fence \<open>WHERE id = $1 AND attempts = $2\<close>; the result
  is whether a row was hit, and no row means \<open>ErrStaleClaim\<close>.
\<close>

definition fenced_update :: "int \<Rightarrow> int \<Rightarrow> (outbox_row \<Rightarrow> outbox_row) \<Rightarrow> db \<Rightarrow> bool \<times> db" where
  "fenced_update jobID attempt f d =
     (let hit = (\<lambda>r. o_id r = jobID \<and> o_attempts r = attempt)
      in (list_ex hit (t_outbox d), d\<lparr>t_outbox := sql_update hit f (t_outbox d)\<rparr>))"

definition finalize :: "int \<Rightarrow> int \<Rightarrow> (time \<Rightarrow> outbox_row \<Rightarrow> outbox_row) \<Rightarrow> error option prog" where
  "finalize jobID attempt f =
     do {
       r \<leftarrow> sql (\<lambda>now d. fenced_update jobID attempt (f now) d);
       State_Monad.return
         (case r of Inl e \<Rightarrow> Some e | Inr hit \<Rightarrow> if hit then None else Some ErrStaleClaim)
     }"

definition sent_row :: "time \<Rightarrow> outbox_row \<Rightarrow> outbox_row" where
  "sent_row now r = r\<lparr>o_status := ''sent'', o_sent_at := Some now\<rparr>"

definition retry_row :: "string \<Rightarrow> duration \<Rightarrow> time \<Rightarrow> outbox_row \<Rightarrow> outbox_row" where
  "retry_row err retryIn now r = r\<lparr>o_status := ''pending'', o_error := err, o_next_retry := now + retryIn\<rparr>"

definition failed_row :: "string \<Rightarrow> time \<Rightarrow> outbox_row \<Rightarrow> outbox_row" where
  "failed_row err now r = r\<lparr>o_status := ''failed'', o_error := err\<rparr>"

definition MarkSent :: "int \<Rightarrow> int \<Rightarrow> error option prog" where
  "MarkSent jobID attempt = finalize jobID attempt sent_row"

definition MarkRetry :: "int \<Rightarrow> int \<Rightarrow> string \<Rightarrow> duration \<Rightarrow> error option prog" where
  "MarkRetry jobID attempt sendErr retryIn = finalize jobID attempt (retry_row sendErr retryIn)"

definition MarkFailed :: "int \<Rightarrow> int \<Rightarrow> string \<Rightarrow> error option prog" where
  "MarkFailed jobID attempt sendErr = finalize jobID attempt (failed_row sendErr)"

record failed_job =
  fj_ID :: int
  fj_ChannelKind :: string
  fj_Target :: string
  fj_LastError :: string
  fj_Attempts :: int
  fj_CreatedAt :: time

definition failed_jobs :: "int \<Rightarrow> nat \<Rightarrow> db \<Rightarrow> failed_job list" where
  "failed_jobs project limit d =
     take limit (rev (sort_key fj_ID (concat (map (\<lambda>r.
       map (\<lambda>c. \<lparr>fj_ID = o_id r, fj_ChannelKind = c_kind c, fj_Target = c_target c,
                fj_LastError = o_error r, fj_Attempts = o_attempts r, fj_CreatedAt = o_created r\<rparr>)
         (filter (\<lambda>c. c_id c = o_channel r \<and> c_project c = project) (t_channels d)))
       (filter (\<lambda>r. o_status r = ''failed'') (t_outbox d))))))"

definition FailedForProject :: "int \<Rightarrow> nat \<Rightarrow> failed_job list result prog" where
  "FailedForProject projectID limit = sql_read (\<lambda>_ d. failed_jobs projectID limit d)"

record queue_snapshot =
  qs_Pending :: int
  qs_Failed :: int
  qs_OldestPendingAge :: duration

definition queue_snapshot_of :: "time \<Rightarrow> db \<Rightarrow> queue_snapshot" where
  "queue_snapshot_of now d =
     (let pending = filter (\<lambda>r. o_status r = ''pending'') (t_outbox d);
          age = (if pending = [] then 0 else now - Min (set (map o_created pending)))
      in \<lparr>qs_Pending = int (length pending),
          qs_Failed = int (length (filter (\<lambda>r. o_status r = ''failed'') (t_outbox d))),
          qs_OldestPendingAge = (if age > 0 then age else 0)\<rparr>)"

definition QueueSnapshot :: "queue_snapshot result prog" where
  "QueueSnapshot = sql_read queue_snapshot_of"

definition purgeable :: "time \<Rightarrow> outbox_row \<Rightarrow> bool" where
  "purgeable cutoff r \<longleftrightarrow> (o_status r = ''sent'' \<or> o_status r = ''failed'') \<and> o_created r < cutoff"

definition PurgeOld :: "duration \<Rightarrow> int result prog" where
  "PurgeOld olderThan =
     do {
       t \<leftarrow> time_now;
       sql (\<lambda>_ d. (int (length (filter (purgeable (t - olderThan)) (t_outbox d))),
             d\<lparr>t_outbox := sql_delete (purgeable (t - olderThan)) (t_outbox d)\<rparr>))
     }"

text \<open>\<open>OutboxJanitor.tick\<close>: the outcome is only logged.\<close>

definition outbox_janitor_tick :: "duration \<Rightarrow> unit prog" where
  "outbox_janitor_tick retention = do { _ \<leftarrow> PurgeOld retention; State_Monad.return () }"

subsection \<open>Model: stats.go, direct.go and worker.go\<close>

record stats =
  sa_sent :: int
  sa_failed :: int
  sa_retried :: int
  sa_snapshot :: "queue_snapshot option"

definition Snapshot :: "stats \<Rightarrow> queue_snapshot" where
  "Snapshot s = (case sa_snapshot s of Some snap \<Rightarrow> snap
     | None \<Rightarrow> \<lparr>qs_Pending = 0, qs_Failed = 0, qs_OldestPendingAge = 0\<rparr>)"

text \<open>Go's integer division truncates towards zero; the age is never negative here.\<close>

definition OldestPendingAgeSeconds :: "stats \<Rightarrow> int" where
  "OldestPendingAgeSeconds s = qs_OldestPendingAge (Snapshot s) div second"

definition refresh :: "stats \<Rightarrow> stats prog" where
  "refresh s =
     do {
       r \<leftarrow> QueueSnapshot;
       State_Monad.return (case r of Inl _ \<Rightarrow> s | Inr snap \<Rightarrow> s\<lparr>sa_snapshot := Some snap\<rparr>)
     }"

text \<open>What a sender does: it returns nil, an error, or panics (with the text of the error).\<close>

datatype send_outcome = Sent | SendError string | SendPanic string

record target =
  tg_Kind :: string
  tg_Target :: string
  tg_Secret :: string

type_synonym sender = "target \<Rightarrow> payload \<Rightarrow> send_outcome prog"

record worker =
  wk_Senders :: "string \<Rightarrow> sender option"
  wk_Secrets :: "(int \<Rightarrow> (string + string) prog) option"
  wk_Concurrency :: int

definition stringField :: "payload \<Rightarrow> string \<Rightarrow> string" where
  "stringField payload key = (case map_of payload key of Some (JStr s) \<Rightarrow> s | _ \<Rightarrow> '''')"

definition Direct_Send :: "worker \<Rightarrow> int \<Rightarrow> string \<Rightarrow> string \<Rightarrow> payload \<Rightarrow> send_outcome prog" where
  "Direct_Send w channelID kind tgt payload =
     (case wk_Senders w kind of
        None \<Rightarrow> State_Monad.return (SendError ''notify: no sender registered for channel kind'')
      | Some send \<Rightarrow>
          (case wk_Secrets w of
             Some secrets \<Rightarrow>
               if kind \<noteq> ''email'' then do {
                 r \<leftarrow> secrets channelID;
                 (case r of
                    Inl e \<Rightarrow> State_Monad.return (SendError e)
                  | Inr secret \<Rightarrow> send \<lparr>tg_Kind = kind, tg_Target = tgt, tg_Secret = secret\<rparr> payload)
               }
               else send \<lparr>tg_Kind = kind, tg_Target = tgt, tg_Secret = ''''\<rparr> payload
           | None \<Rightarrow> send \<lparr>tg_Kind = kind, tg_Target = tgt, tg_Secret = ''''\<rparr> payload))"

definition defaultConcurrency :: int where "defaultConcurrency = 4"
definition claimBatchPerWorker :: int where "claimBatchPerWorker = 2"
definition maxTicklessRounds :: nat where "maxTicklessRounds = 10"
definition markSentRetries :: nat where "markSentRetries = 3"

definition concurrency :: "worker \<Rightarrow> int" where
  "concurrency w = (if wk_Concurrency w > 0 then wk_Concurrency w else defaultConcurrency)"

definition batchSize :: "worker \<Rightarrow> int" where
  "batchSize w = concurrency w * claimBatchPerWorker"

definition backoff :: "int \<Rightarrow> duration" where
  "backoff attempts =
     (if attempts = 1 then minute
      else if attempts = 2 then 5 * minute
      else if attempts = 3 then 25 * minute
      else if attempts = 4 then 2 * hour
      else 0)"

definition retryOrFail :: "stats \<Rightarrow> job \<Rightarrow> string \<Rightarrow> stats prog" where
  "retryOrFail st job sendErr =
     (let delay = backoff (j_Attempts job) in
      if delay = 0 then do {
        _ \<leftarrow> MarkFailed (j_ID job) (j_Attempts job) sendErr;
        State_Monad.return (st\<lparr>sa_failed := sa_failed st + 1\<rparr>)
      }
      else do {
        _ \<leftarrow> MarkRetry (j_ID job) (j_Attempts job) sendErr delay;
        State_Monad.return (st\<lparr>sa_retried := sa_retried st + 1\<rparr>)
      })"

text \<open>The loop of \<open>markSent\<close>: at most \<open>markSentRetries\<close> tries.\<close>

fun markSent_loop :: "nat \<Rightarrow> stats \<Rightarrow> job \<Rightarrow> stats prog" where
  "markSent_loop 0 st job = State_Monad.return st"
| "markSent_loop (Suc n) st job =
     do {
       err \<leftarrow> MarkSent (j_ID job) (j_Attempts job);
       if err = None then State_Monad.return (st\<lparr>sa_sent := sa_sent st + 1\<rparr>)
       else markSent_loop n st job
     }"

definition markSent :: "stats \<Rightarrow> job \<Rightarrow> stats prog" where
  "markSent = markSent_loop markSentRetries"

text \<open>\<open>process\<close> under \<open>processGuarded\<close>: a panic of the sender is a failed delivery.\<close>

definition processGuarded :: "worker \<Rightarrow> stats \<Rightarrow> job \<Rightarrow> stats prog" where
  "processGuarded w st job =
     do {
       r \<leftarrow> Direct_Send w (j_ChannelID job) (stringField (j_Payload job) ''channel_kind'')
              (stringField (j_Payload job) ''target'') (j_Payload job);
       (case r of
          Sent \<Rightarrow> markSent st job
        | SendError e \<Rightarrow> retryOrFail st job e
        | SendPanic e \<Rightarrow> retryOrFail st job e)
     }"

text \<open>
  \<open>deliver\<close> starts one goroutine per job and waits for all; this is the run in which they
  get the semaphore in the order of the batch. What holds for every interleaving is stated
  over the step relation \<open>outbox_step\<close> below.
\<close>

definition deliver :: "worker \<Rightarrow> stats \<Rightarrow> job list \<Rightarrow> stats prog" where
  "deliver w st jobs = for_acc st jobs (processGuarded w)"

text \<open>\<open>Worker.Tick\<close>; \<open>done\<close> is \<open>ctx.Err() != nil\<close>.\<close>

fun tick_rounds :: "nat \<Rightarrow> worker \<Rightarrow> bool prog \<Rightarrow> stats \<Rightarrow> stats prog" where
  "tick_rounds 0 w ctx_done st = State_Monad.return st"
| "tick_rounds (Suc n) w ctx_done st =
     do {
       r \<leftarrow> Claim (nat (batchSize w));
       (case r of
          Inl _ \<Rightarrow> State_Monad.return st
        | Inr jobs \<Rightarrow>
            if jobs = [] then State_Monad.return st
            else do {
              st' \<leftarrow> deliver w st jobs;
              if int (length jobs) < batchSize w then State_Monad.return st'
              else do {
                fin \<leftarrow> ctx_done;
                if fin then State_Monad.return st' else tick_rounds n w ctx_done st'
              }
            })
     }"

definition worker_tick :: "worker \<Rightarrow> bool prog \<Rightarrow> stats \<Rightarrow> stats prog" where
  "worker_tick = tick_rounds maxTicklessRounds"

subsection \<open>The rows of the queue\<close>

text \<open>The identity column and the partial unique index on the key.\<close>

definition outbox_wf :: "db \<Rightarrow> bool" where
  "outbox_wf d \<longleftrightarrow>
     distinct (map o_id (t_outbox d)) \<and> (\<forall>i \<in> set (map o_id (t_outbox d)). i < t_outbox_seq d) \<and>
     distinct (filter (\<lambda>k. k \<noteq> None) (map o_key (t_outbox d)))"

lemma outbox_wf_insert: "outbox_wf d \<Longrightarrow> outbox_wf (insert_outbox c p None now d)"
  by (force simp: outbox_wf_def insert_outbox_def new_outbox_row_def)

lemma outbox_wf_insert_idempotent:
  "outbox_wf d \<Longrightarrow> outbox_wf (snd (insert_idempotent c p key now d))"
  by (force simp: outbox_wf_def insert_idempotent_def insert_outbox_def new_outbox_row_def list_ex_iff)

lemma outbox_wf_update:
  assumes "\<And>r. o_id (f r) = o_id r" and "\<And>r. o_key (f r) = o_key r"
  shows "outbox_wf (d\<lparr>t_outbox := sql_update p f (t_outbox d)\<rparr>) = outbox_wf d"
  using sql_update_key [of o_id f p "t_outbox d", OF assms(1)]
    sql_update_key [of o_key f p "t_outbox d", OF assms(2)]
  unfolding outbox_wf_def by simp

lemma distinct_filter_map_filter:
  "distinct (filter q (map k rows)) \<Longrightarrow> distinct (filter q (map k (filter p rows)))"
  by (induction rows) (auto split: if_splits)

lemma outbox_wf_delete:
  "outbox_wf d \<Longrightarrow> outbox_wf (d\<lparr>t_outbox := sql_delete p (t_outbox d)\<rparr>)"
  unfolding outbox_wf_def sql_delete_def
  using distinct_filter_map_filter [of "\<lambda>k. k \<noteq> None" o_key "t_outbox d" "\<lambda>r. \<not> p r"]
  by (auto simp: distinct_map_filter)

lemma row_keys [simp]:
  "o_id (claim_row now r) = o_id r" "o_key (claim_row now r) = o_key r"
  "o_id (sent_row now r) = o_id r" "o_key (sent_row now r) = o_key r"
  "o_id (retry_row e dur now r) = o_id r" "o_key (retry_row e dur now r) = o_key r"
  "o_id (failed_row e now r) = o_id r" "o_key (failed_row e now r) = o_key r"
  "o_attempts (claim_row now r) = o_attempts r + 1" "o_attempts (sent_row now r) = o_attempts r"
  "o_attempts (retry_row e dur now r) = o_attempts r" "o_attempts (failed_row e now r) = o_attempts r"
  "o_status (claim_row now r) = o_status r" "o_status (sent_row now r) = ''sent''"
  "o_status (retry_row e dur now r) = ''pending''" "o_status (failed_row e now r) = ''failed''"
  by (simp_all add: claim_row_def sent_row_def retry_row_def failed_row_def)

lemma outbox_key_once: "outbox_wf d \<Longrightarrow> length (filter (\<lambda>r. o_key r = Some key) (t_outbox d)) \<le> 1"
proof -
  have "length (filter (\<lambda>r. o_key r = Some key) rows) \<le> 1"
    if "distinct (filter (\<lambda>k. k \<noteq> None) (map o_key rows))" for rows
    using that
  proof (induction rows)
    case (Cons r rows)
    then show ?case by (cases "o_key r = Some key") (force simp: filter_empty_conv split: if_splits)+
  qed simp
  then show "outbox_wf d \<Longrightarrow> ?thesis" unfolding outbox_wf_def by blast
qed

text \<open>
  Enqueueing under an idempotency key is idempotent: under any schedule of faults, after
  any number of calls with the same key there is at most one row with that key, and after
  a call that reports success there is exactly one.
\<close>

theorem EnqueueIdempotent_once:
  assumes "outbox_wf (db w)" and "key \<noteq> ''''"
    and "run_state (EnqueueIdempotent c p key) w = (res, w')"
  shows "outbox_wf (db w') \<and> length (filter (\<lambda>r. o_key r = Some key) (t_outbox (db w'))) \<le> 1 \<and>
         (\<forall>b. res = Inr b \<longrightarrow> length (filter (\<lambda>r. o_key r = Some key) (t_outbox (db w'))) = 1)"
proof -
  have step: "outbox_wf (snd (insert_idempotent c p key t (db w)))" for t
    using assms(1) by (rule outbox_wf_insert_idempotent)
  have some: "1 \<le> length (filter (\<lambda>r. o_key r = Some key) (t_outbox (snd (insert_idempotent c p key t (db w)))))" for t
    by (auto simp: insert_idempotent_def insert_outbox_def new_outbox_row_def list_ex_iff Suc_le_eq
        filter_empty_conv)
  have "wp (EnqueueIdempotent c p key) (\<lambda>res w'. outbox_wf (db w') \<and>
      (\<forall>b. res = Inr b \<longrightarrow> 1 \<le> length (filter (\<lambda>r. o_key r = Some key) (t_outbox (db w'))))) w"
    unfolding EnqueueIdempotent_def using assms(1,2)
    by (auto intro!: wp_sqlI simp: step) (use some in auto)
  then have "outbox_wf (db w')"
    and "\<forall>b. res = Inr b \<longrightarrow> 1 \<le> length (filter (\<lambda>r. o_key r = Some key) (t_outbox (db w')))"
    using assms(3) by (simp_all add: wp_def)
  with outbox_key_once [of "db w'" key] show ?thesis by (auto intro: antisym)
qed

theorem EnqueueIdempotent_once_witness:
  "length (filter (\<lambda>r. o_key r = Some ''k'')
     (t_outbox (db (snd (run_state (EnqueueIdempotent 7 [] ''k'') (snd (run_state (EnqueueIdempotent 7 [] ''k'') (calm 5 ex_db)))))))) = 1"
proof -
  let ?w = "snd (run_state (EnqueueIdempotent 7 [] ''k'') (calm 5 ex_db))"
  have wf: "outbox_wf (db ?w)" by code_simp
  have run: "run_state (EnqueueIdempotent 7 [] ''k'') ?w = (Inr False, snd (run_state (EnqueueIdempotent 7 [] ''k'') ?w))"
    by code_simp
  show ?thesis using EnqueueIdempotent_once [OF wf _ run] by auto
qed

subsection \<open>Any number of workers\<close>

text \<open>
  The queue as a step relation: the tables, the claims held at the moment (job, attempt,
  and whether the send has succeeded) and, as history, every claim ever handed out. A
  worker that crashes drops its claims; a claim whose reply was lost is one that is dropped
  at once. A holder marks a job sent only after a successful send (and may repeat that), and
  marks it for retry or failed only without one.
\<close>

record outbox_state =
  ob_db :: db
  ob_held :: "(int \<times> int \<times> bool) list"
  ob_claims :: "(int \<times> int) list"

abbreviation "job_token j \<equiv> (j_ID j, j_Attempts j)"
abbreviation "held_token h \<equiv> (fst h, fst (snd h))"

definition delivered :: "int \<Rightarrow> int \<Rightarrow> (int \<times> int \<times> bool) list \<Rightarrow> (int \<times> int \<times> bool) list" where
  "delivered j a held = map (\<lambda>h. if held_token h = (j, a) then (j, a, True) else h) held"

inductive outbox_step :: "outbox_state \<Rightarrow> outbox_state \<Rightarrow> bool" where
  claim: "claim_jobs limit now (ob_db s) = (jobs, d') \<Longrightarrow>
    outbox_step s (s\<lparr>ob_db := d', ob_held := ob_held s @ map (\<lambda>j. (j_ID j, j_Attempts j, False)) jobs,
      ob_claims := ob_claims s @ map (\<lambda>j. job_token j) jobs\<rparr>)"
| enqueue: "outbox_step s (s\<lparr>ob_db := insert_outbox c p None now (ob_db s)\<rparr>)"
| enqueue_key: "outbox_step s (s\<lparr>ob_db := snd (insert_idempotent c p key now (ob_db s))\<rparr>)"
| send: "(j, a, v) \<in> set (ob_held s) \<Longrightarrow>
    outbox_step s (s\<lparr>ob_held := delivered j a (ob_held s)\<rparr>)"
| mark_sent: "(j, a, True) \<in> set (ob_held s) \<Longrightarrow>
    outbox_step s (s\<lparr>ob_db := snd (fenced_update j a (sent_row now) (ob_db s))\<rparr>)"
| mark_retry: "(j, a, False) \<in> set (ob_held s) \<Longrightarrow>
    outbox_step s (s\<lparr>ob_db := snd (fenced_update j a (retry_row e dur now) (ob_db s))\<rparr>)"
| mark_failed: "(j, a, False) \<in> set (ob_held s) \<Longrightarrow>
    outbox_step s (s\<lparr>ob_db := snd (fenced_update j a (failed_row e now) (ob_db s))\<rparr>)"
| drop: "outbox_step s (s\<lparr>ob_held := filter p (ob_held s)\<rparr>)"
| purge: "outbox_step s (s\<lparr>ob_db := (ob_db s)\<lparr>t_outbox := sql_delete (purgeable cutoff) (t_outbox (ob_db s))\<rparr>\<rparr>)"

abbreviation outbox_runs :: "outbox_state \<Rightarrow> outbox_state \<Rightarrow> bool" where
  "outbox_runs \<equiv> outbox_step\<^sup>*\<^sup>*"

text \<open>
  The invariant: a claim is handed out once, its attempt is not ahead of the row, and the
  holder of the attempt that marked a row sent has delivered it.
\<close>

definition outbox_inv :: "outbox_state \<Rightarrow> bool" where
  "outbox_inv s \<longleftrightarrow>
     outbox_wf (ob_db s) \<and> distinct (ob_claims s) \<and>
     (\<forall>h \<in> set (ob_held s). held_token h \<in> set (ob_claims s)) \<and>
     distinct (map (\<lambda>h. held_token h) (ob_held s)) \<and>
     (\<forall>(j, a) \<in> set (ob_claims s). j < t_outbox_seq (ob_db s) \<and>
        (\<forall>r \<in> set (t_outbox (ob_db s)). o_id r = j \<longrightarrow> a \<le> o_attempts r)) \<and>
     (\<forall>r \<in> set (t_outbox (ob_db s)). o_status r = ''sent'' \<longrightarrow>
        (o_id r, o_attempts r, False) \<notin> set (ob_held s))"

lemma set_claim_ids: "set (claim_ids limit now d) \<subseteq> {o_id r | r. r \<in> set (t_outbox d) \<and> outbox_due now r}"
  unfolding claim_ids_def using set_take_subset by fastforce

lemma claim_jobs_rows:
  assumes "claim_jobs limit now d = (jobs, d')" and "outbox_wf d"
  obtains hit where "jobs = map (job_of_row \<circ> claim_row now) (filter hit (t_outbox d))"
    and "d' = d\<lparr>t_outbox := sql_update hit (claim_row now) (t_outbox d)\<rparr>"
    and "\<And>r. r \<in> set (t_outbox d) \<Longrightarrow> hit r \<Longrightarrow> outbox_due now r"
proof -
  define hit where "hit = (\<lambda>r :: outbox_row. o_id r \<in> set (claim_ids limit now d))"
  have "outbox_due now r" if "r \<in> set (t_outbox d)" "hit r" for r
  proof -
    from that(2) obtain r' where "r' \<in> set (t_outbox d)" "outbox_due now r'" "o_id r' = o_id r"
      using set_claim_ids [of limit now d] by (auto simp: hit_def)
    then show ?thesis
      using distinct_key_unique [of o_id "t_outbox d" r' r] assms(2) that(1) by (auto simp: outbox_wf_def)
  qed
  then show ?thesis
    using assms(1) that [of hit] by (auto simp: claim_jobs_def Let_def hit_def)
qed

lemma token_claimed: "job_token (job_of_row (claim_row now r)) = (o_id r, o_attempts r + 1)"
  by (simp add: job_of_row_def)

lemma outbox_inv_claim:
  assumes inv: "outbox_inv s" and c: "claim_jobs limit now (ob_db s) = (jobs, d')"
  shows "outbox_inv (s\<lparr>ob_db := d', ob_held := ob_held s @ map (\<lambda>j. (j_ID j, j_Attempts j, False)) jobs,
      ob_claims := ob_claims s @ map (\<lambda>j. job_token j) jobs\<rparr>)"
proof -
  let ?d = "ob_db s"
  have wf: "outbox_wf ?d" using inv by (simp add: outbox_inv_def)
  obtain hit where jobs: "jobs = map (job_of_row \<circ> claim_row now) (filter hit (t_outbox ?d))"
    and d': "d' = ?d\<lparr>t_outbox := sql_update hit (claim_row now) (t_outbox ?d)\<rparr>"
    and due: "\<And>r. r \<in> set (t_outbox ?d) \<Longrightarrow> hit r \<Longrightarrow> outbox_due now r"
    using claim_jobs_rows [OF c wf] by metis
  have toks: "map (\<lambda>j. job_token j) jobs = map (\<lambda>r. (o_id r, o_attempts r + 1)) (filter hit (t_outbox ?d))"
    and helds: "map (\<lambda>j. (j_ID j, j_Attempts j, False)) jobs =
      map (\<lambda>r. (o_id r, o_attempts r + 1, False)) (filter hit (t_outbox ?d))"
    by (simp_all add: jobs job_of_row_def)
  have ids: "distinct (map o_id (t_outbox ?d))" and seq: "\<And>r. r \<in> set (t_outbox ?d) \<Longrightarrow> o_id r < t_outbox_seq ?d"
    using wf by (auto simp: outbox_wf_def)
  have le: "a \<le> o_attempts r" if "(o_id r, a) \<in> set (ob_claims s)" "r \<in> set (t_outbox ?d)" for r a
    using inv that by (fastforce simp: outbox_inv_def)
  have new: "(o_id r, o_attempts r + 1) \<notin> set (ob_claims s)" if "r \<in> set (t_outbox ?d)" for r
    using le [of r "o_attempts r + 1"] that by auto
  have dist: "distinct (map (\<lambda>r. (o_id r, o_attempts r + 1)) (filter hit (t_outbox ?d)))"
    using ids by (auto simp: distinct_map inj_on_def)
  have rows: "t_outbox d' = sql_update hit (claim_row now) (t_outbox ?d)" and seq': "t_outbox_seq d' = t_outbox_seq ?d"
    by (simp_all add: d')
  have sent: "\<not> hit r" if "r \<in> set (t_outbox ?d)" "o_status r = ''sent''" for r
    using due [OF that(1)] that(2) by (auto simp: outbox_due_def)
  have i1: "outbox_wf d'" unfolding d' using wf by (simp add: outbox_wf_update)
  have i2: "distinct (ob_claims s @ map (\<lambda>j. job_token j) jobs)"
    unfolding toks using inv dist new by (auto simp: outbox_inv_def)
  have held: "held_token h \<in> set (ob_claims s)" if "h \<in> set (ob_held s)" for h
    using inv that by (auto simp: outbox_inv_def)
  have i3: "distinct (map (\<lambda>h. held_token h) (ob_held s @ map (\<lambda>j. (j_ID j, j_Attempts j, False)) jobs))"
    unfolding helds using inv dist new held by (fastforce simp: outbox_inv_def comp_def)
  have i4: "j < t_outbox_seq d' \<and> (\<forall>r \<in> set (t_outbox d'). o_id r = j \<longrightarrow> a \<le> o_attempts r)"
    if "(j, a) \<in> set (ob_claims s @ map (\<lambda>j. job_token j) jobs)" for j a
  proof (cases "(j, a) \<in> set (ob_claims s)")
    case True
    with inv have "j < t_outbox_seq ?d" "\<And>r. r \<in> set (t_outbox ?d) \<Longrightarrow> o_id r = j \<Longrightarrow> a \<le> o_attempts r"
      by (auto simp: outbox_inv_def)
    then show ?thesis unfolding rows seq' set_sql_update by force
  next
    case False
    with that obtain r where r: "r \<in> set (t_outbox ?d)" "hit r" "j = o_id r" "a = o_attempts r + 1"
      unfolding toks by auto
    have "a \<le> o_attempts (claim_row now r') \<and> hit r'" if "r' \<in> set (t_outbox ?d)" "o_id r' = j" for r'
      using distinct_key_unique [OF ids that(1) r(1)] r(2-4) that(2) by simp
    moreover have "j < t_outbox_seq ?d" using r(1,3) seq by simp
    ultimately show ?thesis unfolding rows seq' set_sql_update by auto
  qed
  have i5: "(o_id r, o_attempts r, False) \<notin> set (ob_held s @ map (\<lambda>j. (j_ID j, j_Attempts j, False)) jobs)"
    if r: "r \<in> set (t_outbox d')" and st: "o_status r = ''sent''" for r
  proof -
    have r0: "r \<in> set (t_outbox ?d)" using r st sent unfolding rows set_sql_update by (auto split: if_splits)
    have "\<not> (o_id r' = o_id r)" if "r' \<in> set (t_outbox ?d)" "hit r'" for r'
      using distinct_key_unique [OF ids that(1) r0] sent [OF r0 st] that(2) by auto
    moreover have "(o_id r, o_attempts r, False) \<notin> set (ob_held s)"
      using inv r0 st by (simp add: outbox_inv_def)
    ultimately show ?thesis unfolding helds by fastforce
  qed
  show ?thesis
    unfolding outbox_inv_def using i1 i2 i3 i4 i5 held by (auto simp: helds toks)
qed

lemma outbox_inv_fenced:
  assumes "outbox_inv s" and "\<And>r. o_id (f r) = o_id r" "\<And>r. o_key (f r) = o_key r" "\<And>r. o_attempts (f r) = o_attempts r"
    and "\<And>r. o_status (f r) = ''sent'' \<Longrightarrow> (j, a, False) \<notin> set (ob_held s)"
  shows "outbox_inv (s\<lparr>ob_db := snd (fenced_update j a f (ob_db s))\<rparr>)"
proof -
  let ?d' = "snd (fenced_update j a f (ob_db s))"
  have rows: "t_outbox ?d' = sql_update (\<lambda>r. o_id r = j \<and> o_attempts r = a) f (t_outbox (ob_db s))"
    and seq: "t_outbox_seq ?d' = t_outbox_seq (ob_db s)"
    by (simp_all add: fenced_update_def Let_def)
  have "outbox_wf ?d'"
    using assms(1-3) by (simp add: fenced_update_def Let_def outbox_wf_update outbox_inv_def)
  moreover have "(o_id r, o_attempts r, False) \<notin> set (ob_held s)"
    if "r \<in> set (t_outbox ?d')" "o_status r = ''sent''" for r
    using that assms(1,2,4,5) unfolding rows set_sql_update
    by (auto simp: outbox_inv_def split: if_splits)
  ultimately show ?thesis
    using assms(1) unfolding outbox_inv_def by (auto simp: rows seq set_sql_update assms(2,4))
qed

lemma outbox_inv_mono:
  assumes "outbox_inv s" and "outbox_wf d'" and "t_outbox_seq (ob_db s) \<le> t_outbox_seq d'"
    and "\<And>r. r \<in> set (t_outbox d') \<Longrightarrow> r \<in> set (t_outbox (ob_db s)) \<or>
           t_outbox_seq (ob_db s) \<le> o_id r \<and> o_status r \<noteq> ''sent''"
  shows "outbox_inv (s\<lparr>ob_db := d'\<rparr>)"
proof -
  have "j < t_outbox_seq d' \<and> (\<forall>r \<in> set (t_outbox d'). o_id r = j \<longrightarrow> a \<le> o_attempts r)"
    if "(j, a) \<in> set (ob_claims s)" for j a
  proof -
    have "j < t_outbox_seq (ob_db s)" "\<And>r. r \<in> set (t_outbox (ob_db s)) \<Longrightarrow> o_id r = j \<Longrightarrow> a \<le> o_attempts r"
      using assms(1) that by (auto simp: outbox_inv_def)
    then show ?thesis using assms(3) assms(4) by fastforce
  qed
  moreover have "(o_id r, o_attempts r, False) \<notin> set (ob_held s)"
    if "r \<in> set (t_outbox d')" "o_status r = ''sent''" for r
    using assms(1) assms(4) [OF that(1)] that(2) by (auto simp: outbox_inv_def)
  ultimately show ?thesis using assms(1,2) unfolding outbox_inv_def by auto
qed

lemma held_token_delivered [simp]: "map (\<lambda>h. held_token h) (delivered j a held) = map (\<lambda>h. held_token h) held"
  by (simp add: delivered_def)

lemma delivered_False: "(i, b, False) \<in> set (delivered j a held) \<Longrightarrow> (i, b, False) \<in> set held"
  by (auto simp: delivered_def split: if_splits)

lemma distinct_token_unique:
  assumes "distinct (map (\<lambda>h. held_token h) held)" "(j, a, True) \<in> set held"
  shows "(j, a, False) \<notin> set held"
  using distinct_key_unique [OF assms(1), of "(j, a, True)" "(j, a, False)"] assms(2) by auto

lemma outbox_inv_step: "outbox_step s s' \<Longrightarrow> outbox_inv s \<Longrightarrow> outbox_inv s'"
proof (induction rule: outbox_step.induct)
  case (claim limit now s jobs d')
  then show ?case by (intro outbox_inv_claim)
next
  case (enqueue s c p now)
  then show ?case
    by (intro outbox_inv_mono outbox_wf_insert)
       (auto simp: outbox_inv_def insert_outbox_def new_outbox_row_def)
next
  case (enqueue_key s c p key now)
  then show ?case
    by (intro outbox_inv_mono outbox_wf_insert_idempotent)
       (auto simp: outbox_inv_def insert_idempotent_def insert_outbox_def new_outbox_row_def split: if_splits)
next
  case (send j a v s)
  have "\<forall>h \<in> set (delivered j a (ob_held s)). held_token h \<in> set (ob_claims s)"
    using send.prems send.hyps by (fastforce simp: outbox_inv_def delivered_def)
  then show ?case using send.prems delivered_False by (fastforce simp: outbox_inv_def)
next
  case (mark_sent j a s now)
  then show ?case
    by (intro outbox_inv_fenced) (auto simp: outbox_inv_def dest: distinct_token_unique)
next
  case (mark_retry j a s e dur now)
  then show ?case by (intro outbox_inv_fenced) auto
next
  case (mark_failed j a s e now)
  then show ?case by (intro outbox_inv_fenced) auto
next
  case (drop s p)
  then show ?case by (auto simp: outbox_inv_def distinct_map_filter)
next
  case (purge s cutoff)
  then show ?case
    by (intro outbox_inv_mono outbox_wf_delete) (auto simp: outbox_inv_def sqldefs)
qed

lemma outbox_inv_runs: "outbox_runs s s' \<Longrightarrow> outbox_inv s \<Longrightarrow> outbox_inv s'"
  by (induction rule: rtranclp_induct) (auto intro: outbox_inv_step)

definition outbox_init :: "outbox_state \<Rightarrow> bool" where
  "outbox_init s \<longleftrightarrow> outbox_wf (ob_db s) \<and> ob_held s = [] \<and> ob_claims s = []"

lemma outbox_init_inv: "outbox_init s \<Longrightarrow> outbox_inv s"
  by (simp add: outbox_init_def outbox_inv_def)

text \<open>A row that is sent stays as it is until it is purged, and is in no later claim.\<close>

lemma sent_row_step:
  assumes "outbox_step s s'" and "outbox_inv s" and "r \<in> set (t_outbox (ob_db s))" and "o_status r = ''sent''"
  shows "(\<forall>r' \<in> set (t_outbox (ob_db s')). o_id r' = o_id r \<longrightarrow>
            o_status r' = ''sent'' \<and> o_attempts r' = o_attempts r) \<and>
         filter (\<lambda>c. fst c = o_id r) (ob_claims s') = filter (\<lambda>c. fst c = o_id r) (ob_claims s)"
proof -
  have wf: "outbox_wf (ob_db s)" using assms(2) by (simp add: outbox_inv_def)
  have eq: "r' = r" if "r' \<in> set (t_outbox (ob_db s))" "o_id r' = o_id r" for r'
    using distinct_key_unique [OF _ that(1) assms(3) that(2)] wf by (simp add: outbox_wf_def)
  then have same: "\<forall>r' \<in> set (t_outbox (ob_db s)). o_id r' = o_id r \<longrightarrow>
      o_status r' = ''sent'' \<and> o_attempts r' = o_attempts r"
    using assms(4) by auto
  have seq: "o_id r < t_outbox_seq (ob_db s)" using wf assms(3) by (simp add: outbox_wf_def)
  have held: "(o_id r, o_attempts r, False) \<notin> set (ob_held s)" using assms(2-4) by (simp add: outbox_inv_def)
  show ?thesis using assms(1)
  proof cases
    case (claim limit now jobs d')
    obtain hit where jobs: "jobs = map (job_of_row \<circ> claim_row now) (filter hit (t_outbox (ob_db s)))"
      and d': "d' = (ob_db s)\<lparr>t_outbox := sql_update hit (claim_row now) (t_outbox (ob_db s))\<rparr>"
      and due: "\<And>r. r \<in> set (t_outbox (ob_db s)) \<Longrightarrow> hit r \<Longrightarrow> outbox_due now r"
      using claim_jobs_rows [OF claim(2) wf] by metis
    have "\<not> hit r" using due [OF assms(3)] assms(4) by (auto simp: outbox_due_def)
    then have nohit: "o_id r' \<noteq> o_id r" if "r' \<in> set (t_outbox (ob_db s))" "hit r'" for r'
      using eq that by metis
    then have "filter (\<lambda>c. fst c = o_id r) (map (\<lambda>j. job_token j) jobs) = []"
      by (auto simp: jobs filter_empty_conv job_of_row_def)
    then show ?thesis using same nohit by (auto simp: claim(1) d' set_sql_update)
  next
    case (mark_retry j a e dur now)
    with held same show ?thesis by (auto simp: fenced_update_def Let_def set_sql_update)
  next
    case (mark_failed j a e now)
    with held same show ?thesis by (auto simp: fenced_update_def Let_def set_sql_update)
  next
    case (mark_sent j a now)
    with same show ?thesis by (auto simp: fenced_update_def Let_def set_sql_update)
  next
    case (enqueue c p now)
    with same seq show ?thesis by (simp add: insert_outbox_def new_outbox_row_def)
  next
    case (enqueue_key c p key now)
    with same seq show ?thesis by (simp add: insert_idempotent_def insert_outbox_def new_outbox_row_def)
  qed (use same in \<open>simp_all add: sqldefs\<close>)
qed

lemma sent_row_runs:
  assumes "outbox_runs s s'" and "outbox_inv s" and "r \<in> set (t_outbox (ob_db s))" and "o_status r = ''sent''"
  shows "o_id r < t_outbox_seq (ob_db s') \<and> (\<forall>r' \<in> set (t_outbox (ob_db s')). o_id r' = o_id r \<longrightarrow>
            o_status r' = ''sent'' \<and> o_attempts r' = o_attempts r) \<and>
         filter (\<lambda>c. fst c = o_id r) (ob_claims s') = filter (\<lambda>c. fst c = o_id r) (ob_claims s)"
  using assms
proof (induction rule: rtranclp_induct)
  case base
  then show ?case
    using distinct_key_unique [of o_id "t_outbox (ob_db s)" _ r] by (auto simp: outbox_inv_def outbox_wf_def)
next
  case (step s1 s2)
  have inv: "outbox_inv s1" using outbox_inv_runs [OF step.hyps(1)] step.prems by simp
  have lt: "o_id r < t_outbox_seq (ob_db s2)"
    using step.hyps(2) step.IH [OF step.prems] by cases
      (auto simp: claim_jobs_def fenced_update_def Let_def insert_outbox_def insert_idempotent_def)
  show ?case
  proof (cases "\<exists>r1 \<in> set (t_outbox (ob_db s1)). o_id r1 = o_id r")
    case True
    then obtain r1 where r1: "r1 \<in> set (t_outbox (ob_db s1))" "o_id r1 = o_id r" by blast
    with step.IH [OF step.prems] have "o_status r1 = ''sent''" "o_attempts r1 = o_attempts r" by auto
    with sent_row_step [OF step.hyps(2) inv r1(1)] r1(2) step.IH [OF step.prems] lt show ?thesis by simp
  next
    case False
    have gone: "\<forall>r' \<in> set (t_outbox (ob_db s2)). o_id r' \<noteq> o_id r"
      using step.hyps(2) False step.IH [OF step.prems] by cases
        (auto simp: claim_jobs_def fenced_update_def Let_def insert_outbox_def insert_idempotent_def
          new_outbox_row_def set_sql_update sqldefs)
    have "filter (\<lambda>c. fst c = o_id r) (ob_claims s2) = filter (\<lambda>c. fst c = o_id r) (ob_claims s1)"
      using step.hyps(2) False by cases
        (auto simp: claim_jobs_def Let_def filter_empty_conv job_of_row_def)
    then show ?thesis using gone lt step.IH [OF step.prems] by auto
  qed
qed

text \<open>
  C5: with any number of workers, crashes and lost replies, every attempt of a job is handed
  to exactly one claim, and once a job is marked sent it stays sent with that attempt and
  is never claimed again until the purge removes it.
\<close>

theorem sent_job_is_final:
  assumes "outbox_init s0" and "outbox_runs s0 s" and "outbox_runs s s'"
    and "r \<in> set (t_outbox (ob_db s))" and "o_status r = ''sent''"
  shows "distinct (ob_claims s') \<and>
         list_all (\<lambda>r'. o_id r' = o_id r \<longrightarrow> o_status r' = ''sent'' \<and> o_attempts r' = o_attempts r)
           (t_outbox (ob_db s')) \<and>
         filter (\<lambda>c. fst c = o_id r) (ob_claims s') = filter (\<lambda>c. fst c = o_id r) (ob_claims s)"
proof -
  have inv: "outbox_inv s" using outbox_inv_runs [OF assms(2)] outbox_init_inv [OF assms(1)] by simp
  moreover have "distinct (ob_claims s')"
    using outbox_inv_runs [OF assms(3) inv] by (simp add: outbox_inv_def)
  ultimately show ?thesis
    using sent_row_runs [OF assms(3) inv assms(4,5)] by (simp add: list_all_iff)
qed

definition ex_outbox :: db where
  "ex_outbox = empty_db\<lparr>t_outbox := [new_outbox_row 1 7 [] None 0], t_outbox_seq := 2\<rparr>"

theorem sent_job_is_final_witness:
  "\<exists>s s'. outbox_runs \<lparr>ob_db = ex_outbox, ob_held = [], ob_claims = []\<rparr> s \<and> outbox_runs s s' \<and>
     map o_status (t_outbox (ob_db s)) = [''sent''] \<and> map o_status (t_outbox (ob_db s')) = [''sent''] \<and>
     distinct (ob_claims s') \<and> ob_claims s' = ob_claims s"
proof -
  let ?d1 = "snd (claim_jobs 1 0 ex_outbox)"
  let ?d2 = "snd (fenced_update 1 1 (sent_row 3) ?d1)"
  let ?s0 = "\<lparr>ob_db = ex_outbox, ob_held = [], ob_claims = []\<rparr>"
  let ?s1 = "\<lparr>ob_db = ?d1, ob_held = [(1, 1, False)], ob_claims = [(1, 1)]\<rparr>"
  let ?s2 = "\<lparr>ob_db = ?d1, ob_held = [(1, 1, True)], ob_claims = [(1, 1)]\<rparr>"
  let ?s3 = "\<lparr>ob_db = ?d2, ob_held = [(1, 1, True)], ob_claims = [(1, 1)]\<rparr>"
  let ?r = "sent_row 3 (claim_row 0 (new_outbox_row 1 7 [] None 0))"
  have cl: "claim_jobs 1 0 ex_outbox = ([\<lparr>j_ID = 1, j_ChannelID = 7, j_Payload = [], j_Attempts = 1\<rparr>], ?d1)" by code_simp
  have rows: "t_outbox ?d2 = [?r]" by code_simp
  have 1: "outbox_step ?s0 ?s1" using outbox_step.claim [of 1 0 ?s0, unfolded outbox_state.simps, OF cl] by simp
  have 2: "outbox_step ?s1 ?s2" using outbox_step.send [of 1 1 False ?s1] by (simp add: delivered_def)
  have 3: "outbox_step ?s2 ?s3" using outbox_step.mark_sent [of 1 1 ?s2 3] by simp
  have again: "claim_jobs 5 (7 * minute) ?d2 = ([], ?d2)" by code_simp
  have 4: "outbox_step ?s3 ?s3" using outbox_step.claim [of 5 "7 * minute" ?s3, unfolded outbox_state.simps, OF again] by simp
  have runs: "outbox_runs ?s0 ?s3" using 1 2 3 by (blast intro: rtranclp.rtrancl_into_rtrancl)
  have "outbox_init ?s0" by (simp add: outbox_init_def) code_simp
  then show ?thesis
    using sent_job_is_final [OF _ runs r_into_rtranclp [where r = outbox_step, OF 4], of ?r] runs rows by (intro exI [of _ ?s3]) (simp add: sent_row_def)
qed

subsection \<open>A worker is a run of the queue\<close>

lemma wp_finalize:
  "wp (finalize j a f) (\<lambda>_ w'. db w' = db w \<or> (\<exists>t. db w' = snd (fenced_update j a (f t) (db w)))) w"
  unfolding finalize_def by (simp only: wp, rule wp_sqlI) (auto simp: wp)

lemma outbox_step_runs:
  "outbox_step s s' \<Longrightarrow> \<exists>s1. outbox_runs s s1 \<and> ob_db s1 = ob_db s' \<and> ob_held s1 = ob_held s'"
  by blast

lemma markSent_loop_runs:
  assumes "db w = ob_db s" and "(j_ID job, j_Attempts job, True) \<in> set (ob_held s)"
  shows "wp (markSent_loop n st job) (\<lambda>_ w'. \<exists>s'. outbox_runs s s' \<and> ob_db s' = db w') w"
  using assms
proof (induction n arbitrary: w s st)
  case 0
  then show ?case by (auto simp: wp)
next
  case (Suc n)
  have one: "\<exists>s'. outbox_runs s s' \<and> ob_db s' = db w' \<and> ob_held s' = ob_held s"
    if "db w' = db w \<or> (\<exists>t. db w' = snd (fenced_update (j_ID job) (j_Attempts job) (sent_row t) (db w)))" for w' :: world
  proof (cases "db w' = db w")
    case True
    then show ?thesis using Suc.prems by auto
  next
    case False
    with that obtain t where "db w' = snd (fenced_update (j_ID job) (j_Attempts job) (sent_row t) (ob_db s))"
      using Suc.prems by auto
    then show ?thesis using outbox_step_runs [OF outbox_step.mark_sent [OF Suc.prems(2), of t]] by simp
  qed
  show ?case
    unfolding markSent_loop.simps MarkSent_def
  proof (simp only: wp, rule wp_mono [OF wp_finalize], goal_cases)
    case (1 err w')
    then obtain s1 where s1: "outbox_runs s s1" "ob_db s1 = db w'" "ob_held s1 = ob_held s"
      using one by blast
    have "wp (markSent_loop n st job) (\<lambda>_ w'. \<exists>s'. outbox_runs s1 s' \<and> ob_db s' = db w') w'"
      using s1 Suc.prems by (intro Suc.IH) simp_all
    then have "wp (markSent_loop n st job) (\<lambda>_ w'. \<exists>s'. outbox_runs s s' \<and> ob_db s' = db w') w'"
      by (rule wp_mono) (use s1(1) in \<open>meson rtranclp_trans\<close>)
    then show ?case using s1 by (auto simp: wp)
  qed
qed

lemma retryOrFail_runs:
  assumes "db w = ob_db s" and "(j_ID job, j_Attempts job, False) \<in> set (ob_held s)"
  shows "wp (retryOrFail st job e) (\<lambda>_ w'. \<exists>s'. outbox_runs s s' \<and> ob_db s' = db w') w"
proof -
  have same: "\<exists>s'. outbox_runs s s' \<and> ob_db s' = db w'" if "db w' = db w" for w' :: world
    using that assms(1) by auto
  have fail: "\<exists>s'. outbox_runs s s' \<and> ob_db s' = snd (fenced_update (j_ID job) (j_Attempts job) (failed_row e t) (db w))" for t
    using outbox_step_runs [OF outbox_step.mark_failed [OF assms(2), of e t]] assms(1) by auto
  have retry: "\<exists>s'. outbox_runs s s' \<and> ob_db s' = snd (fenced_update (j_ID job) (j_Attempts job) (retry_row e dur t) (db w))" for t dur
    using outbox_step_runs [OF outbox_step.mark_retry [OF assms(2), of e dur t]] assms(1) by auto
  show ?thesis
  proof (cases "backoff (j_Attempts job) = 0")
    case True
    then show ?thesis
      unfolding retryOrFail_def MarkFailed_def Let_def
      by (simp only: wp if_True simp_thms, intro wp_mono [OF wp_finalize]) (auto simp: wp same fail)
  next
    case False
    then show ?thesis
      unfolding retryOrFail_def MarkRetry_def Let_def
      by (simp only: wp if_False simp_thms, intro wp_mono [OF wp_finalize]) (auto simp: wp same retry)
  qed
qed

text \<open>Sending a message and reading a secret leave the tables of the model alone.\<close>

definition delivery_env :: "worker \<Rightarrow> bool" where
  "delivery_env wk \<longleftrightarrow>
     (\<forall>k send t p. wk_Senders wk k = Some send \<longrightarrow> guar (on_db (=)) (send t p)) \<and>
     (\<forall>sec c. wk_Secrets wk = Some sec \<longrightarrow> guar (on_db (=)) (sec c))"

lemma eq_on_db [guar]: "reflp (on_db (=))" "transp (on_db (=))"
  by (simp_all add: reflp_def transp_def on_db_def)

lemma Direct_Send_keeps:
  assumes "delivery_env wk"
  shows "guar (on_db (=)) (Direct_Send wk c k tgt p)"
proof (cases "wk_Senders wk k")
  case None
  then show ?thesis by (simp add: Direct_Send_def guar)
next
  case (Some send)
  have send: "guar (on_db (=)) (send t p')" for t p' using assms Some by (simp add: delivery_env_def)
  show ?thesis
  proof (cases "wk_Secrets wk")
    case None
    then show ?thesis by (simp add: Direct_Send_def Some send)
  next
    case (Some sec)
    then have "guar (on_db (=)) (sec c)" using assms by (simp add: delivery_env_def)
    then show ?thesis
      unfolding Direct_Send_def Some \<open>wk_Senders wk k = Some send\<close> option.case
      by (intro guar_if guar_bind guar_case_sum guar_return send guar) 
  qed
qed


definition ex_worker :: worker where
  "ex_worker = \<lparr>wk_Senders = (\<lambda>k. if k = ''email'' then Some (\<lambda>_ _. State_Monad.return Sent) else None),
     wk_Secrets = None, wk_Concurrency = 0\<rparr>"

definition ex_job :: job where
  "ex_job = \<lparr>j_ID = 1, j_ChannelID = 7, j_Payload = [(''channel_kind'', JStr ''email'')], j_Attempts = 1\<rparr>"

definition ex_stats :: stats where
  "ex_stats = \<lparr>sa_sent = 0, sa_failed = 0, sa_retried = 0, sa_snapshot = None\<rparr>"


text \<open>
  A delivery that keeps failing is tried again after one minute, five minutes, 25 minutes
  and two hours, and the fifth failure is final: without faults of the database the row of
  the job goes back to pending with that delay, and from the fifth attempt on to failed. A
  finalization whose attempt is not the current one changes nothing.
\<close>

theorem retryOrFail_schedule:
  assumes "outbox_wf (db w)" and "sched w = []" and "r \<in> set (t_outbox (db w))" and "o_id r = j_ID job"
    and "1 \<le> j_Attempts job"
    and "run_state (retryOrFail st job e) w = (st', w')"
  shows "t_outbox (db w') = map (\<lambda>r. if o_id r = j_ID job \<and> o_attempts r = j_Attempts job
            then (if j_Attempts job \<le> 4
                  then retry_row e ([minute, 5 * minute, 25 * minute, 2 * hour] ! nat (j_Attempts job - 1)) (pg_now w) r
                  else failed_row e (pg_now w) r)
            else r) (t_outbox (db w)) \<and>
         (o_attempts r \<noteq> j_Attempts job \<longrightarrow> t_outbox (db w') = t_outbox (db w)) \<and>
         sa_failed st' - sa_failed st = (if 5 \<le> j_Attempts job then 1 else 0)"
proof -
  let ?f = "if j_Attempts job \<le> 4
     then retry_row e ([minute, 5 * minute, 25 * minute, 2 * hour] ! nat (j_Attempts job - 1)) (pg_now w)
     else failed_row e (pg_now w)"
  have bk: "backoff (j_Attempts job) = (if j_Attempts job \<le> 4
      then [minute, 5 * minute, 25 * minute, 2 * hour] ! nat (j_Attempts job - 1) else 0)"
  proof (cases "j_Attempts job \<le> 4")
    case True
    with assms(5) have "j_Attempts job = 1 \<or> j_Attempts job = 2 \<or> j_Attempts job = 3 \<or> j_Attempts job = 4" by presburger
    then show ?thesis by (elim disjE) (simp_all add: backoff_def nth_Cons')
  qed (simp add: backoff_def)
  have nz: "backoff (j_Attempts job) = 0 \<longleftrightarrow> 5 \<le> j_Attempts job"
    using assms(5) by (auto simp: backoff_def split: if_splits)
  have "w' = w\<lparr>db := snd (fenced_update (j_ID job) (j_Attempts job) ?f (db w))\<rparr> \<and>
      sa_failed st' - sa_failed st = (if 5 \<le> j_Attempts job then 1 else 0)"
    using assms(2,6) nz bk
    by (auto simp: retryOrFail_def MarkFailed_def MarkRetry_def finalize_def Let_def split: if_splits)
  moreover have "o_attempts r' = o_attempts r" if "r' \<in> set (t_outbox (db w))" "o_id r' = j_ID job" for r'
    using distinct_key_unique [of o_id "t_outbox (db w)" r' r] assms(1,3,4) that by (simp add: outbox_wf_def)
  ultimately show ?thesis
    by (simp add: fenced_update_def Let_def sqldefs if_distrib [of "\<lambda>f. f _"] cong: if_cong)
       (intro impI map_idI, metis)
qed

theorem retryOrFail_schedule_witness:
  "let d = snd (claim_jobs 1 0 ex_outbox); w' = snd (run_state (retryOrFail ex_stats ex_job ''refused'') (calm 3 d))
   in map (\<lambda>r. (o_status r, o_next_retry r)) (t_outbox (db w')) = [(''pending'', 3 + minute)]"
proof -
  let ?d = "snd (claim_jobs 1 0 ex_outbox)"
  let ?run = "run_state (retryOrFail ex_stats ex_job ''refused'') (calm 3 ?d)"
  let ?r = "claim_row 0 (new_outbox_row 1 7 [] None 0)"
  have rows: "t_outbox ?d = [?r]" and wf: "outbox_wf ?d" by code_simp+
  have "t_outbox (db (snd ?run)) = [retry_row ''refused'' minute 3 ?r]"
    using retryOrFail_schedule [of "calm 3 ?d" ?r ex_job ex_stats "''refused''" "fst ?run" "snd ?run"] rows wf
    by (simp add: ex_job_def claim_row_def new_outbox_row_def)
  then show ?thesis by (simp add: Let_def retry_row_def claim_row_def new_outbox_row_def)
qed

end
