(* ===== verification/Notify_Dispatch.thy ===== *)
theory Notify_Dispatch
  imports Notify_Outbox Escalation_Step "HOL-Library.AList" "HOL-Library.Sublist"
begin

text \<open>
  \<open>internal/escalation/notifydispatch.go\<close> with what it calls: the channels of a project
  (\<open>internal/alert/alert.go\<close>), the text around a message (\<open>internal/notify/project.go\<close>) and
  the redaction of what leaves the operator's perimeter (\<open>internal/notify/redact.go\<close>).
  The properties: only channels that pass every gate get a job, what is reported as queued
  is queued, base fields win over the fields of the source, and nothing outside the
  whitelist of safe keys reaches a channel that does not allow details.
\<close>

subsection \<open>Model: alert.go and the keyring\<close>

text \<open>
  \<open>alert.Channel\<close> is a row of \<open>alert_channels\<close> with its secret opened. Opening a secret
  (package \<open>secretbox\<close>, cryptography) is a parameter: whether a master key is set, the
  opening itself, and whether a stored text is an envelope.
\<close>

record keyring =
  kr_set :: bool
  kr_Open :: "string \<Rightarrow> string option"
  kr_IsEncrypted :: "string \<Rightarrow> bool"

record channel =
  ch_ID :: int
  ch_ProjectID :: int
  ch_Kind :: string
  ch_Enabled :: bool
  ch_Target :: string
  ch_Secret :: string
  ch_SecretBroken :: bool
  ch_Trusted :: bool

definition Deliverable :: "channel \<Rightarrow> bool" where
  "Deliverable c \<longleftrightarrow> ch_Enabled c \<and> \<not> ch_SecretBroken c"

definition open_channel :: "keyring \<Rightarrow> channel_row \<Rightarrow> channel" where
  "open_channel kr r =
     (let mk = (\<lambda>secret broken. \<lparr>ch_ID = c_id r, ch_ProjectID = c_project r, ch_Kind = c_kind r,
             ch_Enabled = c_enabled r, ch_Target = c_target r, ch_Secret = secret,
             ch_SecretBroken = broken, ch_Trusted = c_trusted r\<rparr>)
      in if kr_set kr then
           (case kr_Open kr (c_secret r) of None \<Rightarrow> mk '''' True | Some s \<Rightarrow> mk s False)
         else if kr_IsEncrypted kr (c_secret r) then mk '''' True
         else mk (c_secret r) False)"

definition Channels :: "keyring \<Rightarrow> int \<Rightarrow> channel list result prog" where
  "Channels kr projectID =
     sql_read (\<lambda>_ d. map (open_channel kr)
       (sort_key c_id (filter (\<lambda>c. c_project c = projectID) (t_channels d))))"

subsection \<open>Model: project.go and redact.go\<close>

text \<open>
  The catalogue of messages of the instance's locale: \<open>i18n.T\<close>, \<open>i18n.Tf\<close> and \<open>i18n.Tn\<close>.
\<close>

record i18n =
  i18n_T :: "string \<Rightarrow> string"
  i18n_Tf :: "string \<Rightarrow> (string \<times> string) list \<Rightarrow> string"
  i18n_Tn :: "string \<Rightarrow> int \<Rightarrow> string"

text \<open>\<open>strings.Join\<close>.\<close>

fun join_with :: "string \<Rightarrow> string list \<Rightarrow> string" where
  "join_with sep [] = ''''"
| "join_with sep [x] = x"
| "join_with sep (x # y # ys) = x @ sep @ join_with sep (y # ys)"

definition WithProjectSubject :: "i18n \<Rightarrow> string \<Rightarrow> string \<Rightarrow> string" where
  "WithProjectSubject l subject project =
     i18n_Tf l ''notify.subject.with_project'' [(''subject'', subject), (''project'', project)]"

definition WithProjectBody :: "i18n \<Rightarrow> string \<Rightarrow> string \<Rightarrow> string" where
  "WithProjectBody l body project =
     i18n_Tf l ''notify.body.with_project'' [(''body'', body), (''project'', project)]"

definition externalSafeKeys :: "string list" where
  "externalSafeKeys =
     [''channel_kind'', ''target'', ''kind'', ''url'', ''project_name'', ''project_id'', ''issue_id'',
      ''perf_issue_id'', ''monitor_id'', ''rule_id'', ''times_seen'', ''count'', ''regression'',
      ''duration_seconds'', ''days_left'']"

definition redactedKindKeys :: "(string \<times> string) list" where
  "redactedKindKeys =
     [(''new_issue'', ''notify.issue.kind.new_issue''),
      (''regression'', ''notify.issue.kind.regression''),
      (''spike'', ''notify.issue.kind.spike''),
      (''suppressed_digest'', ''notify.redacted.kind.suppressed_digest''),
      (''metric_alert_open'', ''notify.redacted.kind.metric_alert_open''),
      (''metric_alert_resolved'', ''notify.redacted.kind.metric_alert_resolved''),
      (''n_plus_one'', ''perf.issues.kind.n_plus_one''),
      (''slow_db_query'', ''perf.issues.kind.slow_db_query''),
      (''http_flood'', ''perf.issues.kind.http_flood''),
      (''regression_open'', ''notify.redacted.kind.regression_open''),
      (''regression_close'', ''notify.redacted.kind.regression_close''),
      (''slo_burn_open'', ''notify.redacted.kind.slo_burn_open''),
      (''slo_burn_close'', ''notify.redacted.kind.slo_burn_close''),
      (''profile_regression_open'', ''notify.redacted.kind.profile_regression_open''),
      (''profile_regression_resolved'', ''notify.redacted.kind.profile_regression_resolved''),
      (''down'', ''notify.redacted.kind.down''),
      (''up'', ''notify.redacted.kind.up''),
      (''ssl_expiring'', ''notify.redacted.kind.ssl_expiring''),
      (''reminder'', ''notify.redacted.kind.reminder''),
      (''host_alert_open'', ''notify.redacted.kind.host_alert_open''),
      (''host_alert_resolved'', ''notify.redacted.kind.host_alert_resolved''),
      (''host_retired'', ''notify.redacted.kind.host_retired'')]"

definition redactedKindLabel :: "i18n \<Rightarrow> string \<Rightarrow> string" where
  "redactedKindLabel l kind =
     (case map_of redactedKindKeys kind of Some key \<Rightarrow> i18n_T l key | None \<Rightarrow> kind)"

text \<open>
  A payload is the list of the pairs of a Go map; \<open>AList.update\<close> is the assignment to a key.
\<close>

definition RedactExternalPayload :: "i18n \<Rightarrow> payload \<Rightarrow> payload" where
  "RedactExternalPayload l payload =
     (let out = filter (\<lambda>(k, v). k \<in> set externalSafeKeys) payload;
          kind = stringField out ''kind'';
          short = stringField payload ''url_redacted'';
          url = (if short \<noteq> '''' then short else stringField out ''url'');
          out = (if short \<noteq> '''' then AList.update ''url'' (JStr short) out else out);
          label = redactedKindLabel l kind;
          subject = i18n_Tf l ''notify.redacted.subject'' [(''kind'', label)];
          body = i18n_Tf l ''notify.redacted.body'' [(''kind'', label), (''url'', url)];
          name = stringField out ''project_name'';
          subject = (if name \<noteq> '''' then WithProjectSubject l subject name else subject);
          body = (if name \<noteq> '''' then WithProjectBody l body name else body)
      in AList.update ''body'' (JStr body) (AList.update ''subject'' (JStr subject) out))"

subsection \<open>Model: notifydispatch.go\<close>

record dispatch_channel =
  dch_ID :: int
  dch_Kind :: string
  dch_Target :: string
  dch_IsEmail :: bool
  dch_Deliverable :: bool
  dch_AllowsDetails :: bool

text \<open>
  \<open>ProjectNamer\<close> (\<open>OrgProjectNamer\<close>) reads the name of a project; the query is a parameter,
  \<open>None\<close> where it finds no project.
\<close>

record dispatch_deps =
  dd_EmailEnabled :: bool
  dd_Projects :: "(int \<Rightarrow> db \<Rightarrow> string option) option"

record dispatch_input =
  di_ProjectID :: int
  di_Kind :: string
  di_Subject :: string
  di_Body :: string
  di_URL :: string
  di_RedactedURL :: string
  di_Extra :: payload
  di_ChannelIDs :: "int list"
  di_Channels :: "dispatch_channel list"
  di_IdempotencyKeyPrefix :: string

definition dispatchBaseKeys :: "string list" where
  "dispatchBaseKeys =
     [''kind'', ''project_id'', ''url'', ''subject'', ''body'', ''channel_kind'', ''target'']"

definition resolveProjectName :: "dispatch_deps \<Rightarrow> int \<Rightarrow> string prog" where
  "resolveProjectName deps projectID =
     (case dd_Projects deps of
        None \<Rightarrow> State_Monad.return ''''
      | Some name \<Rightarrow>
          do {
            r \<leftarrow> sql_read (\<lambda>_. name projectID);
            State_Monad.return (case r of Inr (Some n) \<Rightarrow> n | _ \<Rightarrow> '''')
          })"

definition withProjectName :: "payload \<Rightarrow> string \<Rightarrow> payload" where
  "withProjectName extra name = AList.update ''project_name'' (JStr name) extra"

text \<open>
  The gates of the loop of \<open>Dispatch\<close>, the payload it builds for a channel, and the call
  that puts it in the queue. An error of the queue is joined to the errors so far.
\<close>

definition passes_gates :: "dispatch_deps \<Rightarrow> dispatch_input \<Rightarrow> dispatch_channel \<Rightarrow> bool" where
  "passes_gates deps inp ch \<longleftrightarrow>
     dch_Deliverable ch \<and>
     \<not> (0 < length (di_ChannelIDs inp) \<and> \<not> ContainsID (di_ChannelIDs inp) (dch_ID ch)) \<and>
     \<not> (dch_IsEmail ch \<and> \<not> dd_EmailEnabled deps)"

definition full_payload :: "dispatch_input \<Rightarrow> string \<Rightarrow> string \<Rightarrow> dispatch_channel \<Rightarrow> payload" where
  "full_payload inp subject body ch =
     AList.update ''target'' (JStr (dch_Target ch))
      (AList.update ''channel_kind'' (JStr (dch_Kind ch))
        (AList.update ''body'' (JStr body)
          (AList.update ''subject'' (JStr subject)
            (AList.update ''url'' (JStr (di_URL inp))
              (AList.update ''project_id'' (JInt (di_ProjectID inp))
                (AList.update ''kind'' (JStr (di_Kind inp)) (di_Extra inp)))))))"

definition channel_payload :: "i18n \<Rightarrow> dispatch_input \<Rightarrow> string \<Rightarrow> string \<Rightarrow> dispatch_channel \<Rightarrow> payload" where
  "channel_payload l inp subject body ch =
     (let payload = full_payload inp subject body ch in
      if dch_AllowsDetails ch then payload
      else RedactExternalPayload l
        (if di_RedactedURL inp \<noteq> ''''
         then AList.update ''url_redacted'' (JStr (di_RedactedURL inp)) payload else payload))"

definition dispatch_key :: "dispatch_input \<Rightarrow> dispatch_channel \<Rightarrow> string" where
  "dispatch_key inp ch = di_IdempotencyKeyPrefix inp @ '':'' @ itoa (dch_ID ch)"

definition enqueue_channel :: "dispatch_input \<Rightarrow> payload \<Rightarrow> dispatch_channel \<Rightarrow> error option prog" where
  "enqueue_channel inp payload ch =
     (if di_IdempotencyKeyPrefix inp \<noteq> '''' then do {
        r \<leftarrow> EnqueueIdempotent (dch_ID ch) payload (dispatch_key inp ch);
        State_Monad.return (case r of Inl e \<Rightarrow> Some e | Inr _ \<Rightarrow> None)
      }
      else do {
        r \<leftarrow> Enqueue (dch_ID ch) payload;
        State_Monad.return (case r of Inl e \<Rightarrow> Some e | Inr _ \<Rightarrow> None)
      })"

definition dispatch_one ::
  "i18n \<Rightarrow> dispatch_deps \<Rightarrow> dispatch_input \<Rightarrow> string \<Rightarrow> string \<Rightarrow>
   int list \<times> error option \<Rightarrow> dispatch_channel \<Rightarrow> (int list \<times> error option) prog" where
  "dispatch_one l deps inp subject body acc ch =
     (case acc of (enqueued, errs) \<Rightarrow>
       if passes_gates deps inp ch then do {
         e \<leftarrow> enqueue_channel inp (channel_payload l inp subject body ch) ch;
         State_Monad.return
           (case e of
              Some err \<Rightarrow> (enqueued, errors_join [errs, Some err])
            | None \<Rightarrow> (enqueued @ [dch_ID ch], errs))
       }
       else State_Monad.return (enqueued, errs))"

definition Dispatch :: "i18n \<Rightarrow> dispatch_deps \<Rightarrow> dispatch_input \<Rightarrow> (int list \<times> error option) prog" where
  "Dispatch l deps inp =
     do {
       name \<leftarrow> resolveProjectName deps (di_ProjectID inp);
       (let subject = (if name \<noteq> '''' then WithProjectSubject l (di_Subject inp) name else di_Subject inp);
            body = (if name \<noteq> '''' then WithProjectBody l (di_Body inp) name else di_Body inp);
            inp' = (if name \<noteq> '''' then inp\<lparr>di_Extra := withProjectName (di_Extra inp) name\<rparr> else inp)
        in for_acc ([], None) (di_Channels inp') (dispatch_one l deps inp' subject body))
     }"

subsection \<open>What the redaction lets through\<close>

lemma map_of_filter_key: "map_of (filter (\<lambda>(k, v). k \<in> A) p) k = (if k \<in> A then map_of p k else None)"
  by (induction p) auto

lemma stringField_cong: "map_of p k = map_of q k \<Longrightarrow> stringField p k = stringField q k"
  by (simp add: stringField_def)

lemma redact_dom: "dom (map_of (RedactExternalPayload l p)) \<subseteq> set (''subject'' # ''body'' # externalSafeKeys)"
  unfolding RedactExternalPayload_def Let_def
  by (auto simp: update_conv' map_of_filter_key split: if_splits) (simp add: externalSafeKeys_def)+

text \<open>
  C10: nothing outside the whitelist leaves the perimeter: the keys of a redacted payload are
  safe keys or the rewritten subject and body, and the whole of it is determined by the
  safe keys and \<open>url_redacted\<close> of the original: two payloads that agree on those redact to
  the same message, whatever their other fields (title, cause, names, texts) are.
\<close>

theorem redaction_hides_details:
  assumes "list_all (\<lambda>k. map_of p k = map_of q k) (''url_redacted'' # externalSafeKeys)"
  shows "map_of (RedactExternalPayload l p) = map_of (RedactExternalPayload l q) \<and>
         dom (map_of (RedactExternalPayload l p)) \<subseteq> set (''subject'' # ''body'' # externalSafeKeys)"
proof -
  have safe: "map_of p k = map_of q k" if "k \<in> set externalSafeKeys" for k
    using assms that by (simp add: list_all_iff)
  let ?out = "filter (\<lambda>(k, v :: jval). k \<in> set externalSafeKeys)"
  have out: "map_of (?out p) k = map_of (?out q) k" for k
    using safe by (simp add: map_of_filter_key)
  have fields: "stringField (?out p) k = stringField (?out q) k" for k
    using out by (rule stringField_cong)
  have short: "stringField p ''url_redacted'' = stringField q ''url_redacted''"
    using assms by (intro stringField_cong) simp
  have "map_of (RedactExternalPayload l p) = map_of (RedactExternalPayload l q)"
    unfolding RedactExternalPayload_def Let_def fields short
    using out by (auto simp: update_conv' stringField_def fun_eq_iff)
  then show ?thesis using redact_dom ..
qed

definition ex_i18n :: i18n where
  "ex_i18n = \<lparr>i18n_T = (\<lambda>k. k), i18n_Tf = (\<lambda>k vs. k), i18n_Tn = (\<lambda>k n. itoa n @ k)\<rparr>"

theorem redaction_hides_details_witness:
  "map_of (RedactExternalPayload ex_i18n [(''kind'', JStr ''down''), (''cause'', JStr ''secret one'')]) =
   map_of (RedactExternalPayload ex_i18n [(''cause'', JStr ''secret two''), (''kind'', JStr ''down'')])"
  by (rule conjunct1 [OF redaction_hides_details]) code_simp

subsection \<open>What a dispatch queues\<close>

text \<open>A row that a dispatch may add: for a channel behind the gates, with that channel's payload.\<close>

definition dispatch_row :: "i18n \<Rightarrow> dispatch_deps \<Rightarrow> dispatch_input \<Rightarrow> string \<Rightarrow> string \<Rightarrow> outbox_row \<Rightarrow> bool" where
  "dispatch_row l deps inp subject body r \<longleftrightarrow>
     list_ex (\<lambda>ch. passes_gates deps inp ch \<and> o_channel r = dch_ID ch \<and>
        o_payload r = channel_payload l inp subject body ch) (di_Channels inp)"

text \<open>Only the queue changes.\<close>

definition only_outbox :: "db \<Rightarrow> db \<Rightarrow> bool" where
  "only_outbox d d' \<longleftrightarrow> d'\<lparr>t_outbox := [], t_outbox_seq := 0\<rparr> = d\<lparr>t_outbox := [], t_outbox_seq := 0\<rparr>"

lemma only_outbox_rel [guar]: "reflp only_outbox" "transp only_outbox"
  by (simp_all add: reflp_def transp_def only_outbox_def)

lemma only_outbox_same: "only_outbox d d' \<Longrightarrow> (\<And>x. v (x\<lparr>t_outbox := [], t_outbox_seq := 0\<rparr>) = v x) \<Longrightarrow> v d' = v d"
  unfolding only_outbox_def by metis

lemma wp_enqueue_channel:
  "wp (enqueue_channel inp p ch) (\<lambda>e w'.
      (\<exists>rows. t_outbox (db w') = t_outbox (db w) @ rows \<and>
         list_all (\<lambda>r. o_channel r = dch_ID ch \<and> o_payload r = p) rows) \<and>
      only_outbox (db w) (db w')) w"
proof -
  have "dispatch_key inp ch \<noteq> ''''" by (simp add: dispatch_key_def)
  then show ?thesis
    unfolding enqueue_channel_def EnqueueIdempotent_def Enqueue_def
    by (auto simp: wp intro!: wp_sqlI)
       (auto simp: insert_idempotent_def insert_outbox_def new_outbox_row_def only_outbox_def)
qed

text \<open>The effect of handling the channels \<open>chs\<close>: what was queued and reported, and the rows.\<close>

definition dispatched ::
  "i18n \<Rightarrow> dispatch_deps \<Rightarrow> dispatch_input \<Rightarrow> string \<Rightarrow> string \<Rightarrow> dispatch_channel list \<Rightarrow>
   int list \<times> error option \<Rightarrow> db \<Rightarrow> int list \<times> error option \<Rightarrow> db \<Rightarrow> bool" where
  "dispatched l deps inp subject body chs acc d acc' d' \<longleftrightarrow>
     (\<exists>sent rows. fst acc' = fst acc @ sent \<and>
       subseq sent (map dch_ID (filter (passes_gates deps inp) chs)) \<and>
       (snd acc' = None \<longrightarrow> snd acc = None \<and> sent = map dch_ID (filter (passes_gates deps inp) chs)) \<and>
       t_outbox d' = t_outbox d @ rows \<and> list_all (dispatch_row l deps inp subject body) rows) \<and>
     only_outbox d d'"

lemma dispatched_append:
  assumes "dispatched l deps inp subject body xs acc d acc1 d1"
    and "dispatched l deps inp subject body ys acc1 d1 acc2 d2"
  shows "dispatched l deps inp subject body (xs @ ys) acc d acc2 d2"
proof -
  from assms(1) obtain s1 r1 where 1: "fst acc1 = fst acc @ s1"
    "subseq s1 (map dch_ID (filter (passes_gates deps inp) xs))"
    "snd acc1 = None \<longrightarrow> snd acc = None \<and> s1 = map dch_ID (filter (passes_gates deps inp) xs)"
    "t_outbox d1 = t_outbox d @ r1" "list_all (dispatch_row l deps inp subject body) r1"
    unfolding dispatched_def by (elim conjE exE) (rule that)
  from assms(2) obtain s2 r2 where 2: "fst acc2 = fst acc1 @ s2"
    "subseq s2 (map dch_ID (filter (passes_gates deps inp) ys))"
    "snd acc2 = None \<longrightarrow> snd acc1 = None \<and> s2 = map dch_ID (filter (passes_gates deps inp) ys)"
    "t_outbox d2 = t_outbox d1 @ r2" "list_all (dispatch_row l deps inp subject body) r2"
    unfolding dispatched_def by (elim conjE exE) (rule that)
  have "only_outbox d d2"
    using assms transpD [OF only_outbox_rel(2)] unfolding dispatched_def by blast
  with 1 2 show ?thesis
    unfolding dispatched_def by (intro conjI exI [of _ "s1 @ s2"] exI [of _ "r1 @ r2"]) (simp_all add: list_emb_append_mono)
qed

lemma wp_dispatch_one:
  assumes "ch \<in> set (di_Channels inp)"
  shows "wp (dispatch_one l deps inp subject body acc ch)
     (\<lambda>acc' w'. dispatched l deps inp subject body [ch] acc (db w) acc' (db w')) w"
proof (cases "passes_gates deps inp ch")
  case False
  then show ?thesis using reflpD [OF only_outbox_rel(1)]
    by (auto simp: wp dispatch_one_def dispatched_def split: prod.splits)
next
  case True
  let ?p = "channel_payload l inp subject body ch"
  obtain enq errs where acc: "acc = (enq, errs)" by fastforce
  have row: "list_all (dispatch_row l deps inp subject body) rows"
    if "list_all (\<lambda>r. o_channel r = dch_ID ch \<and> o_payload r = ?p) rows" for rows
    using that True assms by (auto simp: list_all_iff dispatch_row_def list_ex_iff)
  show ?thesis
    unfolding dispatch_one_def acc prod.case
    by (simp only: wp True if_True, rule wp_mono [OF wp_enqueue_channel [of inp ?p ch w]])
       (auto simp: wp dispatched_def True dest: row split: option.splits)
qed

lemma wp_dispatch_loop:
  assumes "set chs \<subseteq> set (di_Channels inp)"
  shows "wp (for_acc acc chs (dispatch_one l deps inp subject body))
     (\<lambda>acc' w'. dispatched l deps inp subject body chs acc (db w) acc' (db w')) w"
  using assms
proof (induction chs arbitrary: acc w)
  case Nil
  show ?case using reflpD [OF only_outbox_rel(1)] by (simp add: wp dispatched_def)
next
  case (Cons ch chs)
  have ch: "ch \<in> set (di_Channels inp)" and chs: "set chs \<subseteq> set (di_Channels inp)" using Cons.prems by simp_all
  show ?case
    by (simp only: for_acc.simps wp, rule wp_mono [OF wp_dispatch_one [OF ch]], rule wp_mono [OF Cons.IH [OF chs]])
       (drule (1) dispatched_append, simp)
qed

lemma resolveProjectName_keeps: "wp (resolveProjectName deps p) (\<lambda>_ w'. db w' = db w) w"
  unfolding resolveProjectName_def
  by (cases "dd_Projects deps") (auto simp: wp intro!: wp_sql_readI)

lemma Dispatch_dispatched:
  assumes "run_state (Dispatch l deps inp) w = (res, w')"
  obtains subject body extra where
    "dispatched l deps (inp\<lparr>di_Extra := extra\<rparr>) subject body (di_Channels inp) ([], None) (db w) res (db w')"
proof -
  have "wp (Dispatch l deps inp) (\<lambda>res w'. \<exists>subject body extra.
     dispatched l deps (inp\<lparr>di_Extra := extra\<rparr>) subject body (di_Channels inp) ([], None) (db w) res (db w')) w"
    unfolding Dispatch_def Let_def
  proof (simp only: wp, rule wp_mono [OF resolveProjectName_keeps], goal_cases)
    case (1 name w1)
    let ?x = "if name \<noteq> '''' then withProjectName (di_Extra inp) name else di_Extra inp"
    have inp: "(if name \<noteq> '''' then inp\<lparr>di_Extra := withProjectName (di_Extra inp) name\<rparr> else inp) =
        inp\<lparr>di_Extra := ?x\<rparr>" by simp
    show ?case
      unfolding inp by (rule wp_mono [OF wp_dispatch_loop]) (simp, simp add: 1, blast)
  qed
  then show ?thesis using assms that by (auto simp: wp_def)
qed

lemma passes_gates_extra [simp]: "passes_gates deps (inp\<lparr>di_Extra := e\<rparr>) = passes_gates deps inp"
  by (simp add: passes_gates_def fun_eq_iff)

text \<open>
  A dispatch queues jobs only for channels that are deliverable, selected and, for mail,
  have a configured server; it reports a channel as queued only if it is one of those and
  in their order, and reports no error only if every one of them was queued; the rows it
  adds are of these channels, and it changes no other table. This holds under every
  schedule of faults.
\<close>

theorem Dispatch_only_through_gates:
  assumes "run_state (Dispatch l deps inp) w = ((enq, err), w')"
  shows "subseq enq (map dch_ID (filter (passes_gates deps inp) (di_Channels inp))) \<and>
         (err = None \<longrightarrow> enq = map dch_ID (filter (passes_gates deps inp) (di_Channels inp))) \<and>
         take (length (t_outbox (db w))) (t_outbox (db w')) = t_outbox (db w) \<and>
         list_all (\<lambda>r. o_channel r \<in> set (map dch_ID (filter (passes_gates deps inp) (di_Channels inp))))
           (drop (length (t_outbox (db w))) (t_outbox (db w'))) \<and>
         only_outbox (db w) (db w')"
proof -
  obtain subject body extra where d:
    "dispatched l deps (inp\<lparr>di_Extra := extra\<rparr>) subject body (di_Channels inp) ([], None) (db w) (enq, err) (db w')"
    by (rule Dispatch_dispatched [OF assms])
  then show ?thesis
    by (fastforce simp: dispatched_def list_all_iff dispatch_row_def list_ex_iff)
qed

definition ex_deps :: dispatch_deps where
  "ex_deps = \<lparr>dd_EmailEnabled = True, dd_Projects = None\<rparr>"

definition ex_input :: dispatch_input where
  "ex_input = \<lparr>di_ProjectID = 1, di_Kind = ''down'', di_Subject = ''s'', di_Body = ''b'', di_URL = ''u'', di_RedactedURL = '''',
     di_Extra = [(''cause'', JStr ''timeout'')], di_ChannelIDs = [7],
     di_Channels = [\<lparr>dch_ID = 7, dch_Kind = ''email'', dch_Target = ''ops'', dch_IsEmail = True, dch_Deliverable = True,
                     dch_AllowsDetails = False\<rparr>,
                    \<lparr>dch_ID = 8, dch_Kind = ''email'', dch_Target = ''ops'', dch_IsEmail = True, dch_Deliverable = True,
                     dch_AllowsDetails = True\<rparr>],
     di_IdempotencyKeyPrefix = ''k''\<rparr>"

theorem Dispatch_only_through_gates_witness:
  "fst (fst (run_state (Dispatch ex_i18n ex_deps ex_input) (calm 5 ex_db))) = [7] \<and>
   list_all (\<lambda>r. o_channel r \<in> {7}) (t_outbox (db (snd (run_state (Dispatch ex_i18n ex_deps ex_input) (calm 5 ex_db)))))"
proof -
  let ?run = "run_state (Dispatch ex_i18n ex_deps ex_input) (calm 5 ex_db)"
  have run: "?run = ((fst (fst ?run), None), snd ?run)" by code_simp
  have "map dch_ID (filter (passes_gates ex_deps ex_input) (di_Channels ex_input)) = [7]" by code_simp
  then show ?thesis using Dispatch_only_through_gates [OF run] by (simp add: ex_db_def empty_db_def)
qed

text \<open>
  Every job a dispatch queues for a channel that does not allow details carries only
  the whitelisted fields and the rewritten subject and body.
\<close>

theorem Dispatch_redacts_untrusted:
  assumes "run_state (Dispatch l deps inp) w = ((enq, err), w')"
  shows "list_all (\<lambda>r. list_ex (\<lambda>ch. dch_ID ch = o_channel r \<and> passes_gates deps inp ch \<and>
            (dch_AllowsDetails ch \<or>
             list_all (\<lambda>(k, v). k \<in> set (''subject'' # ''body'' # externalSafeKeys)) (o_payload r)))
            (di_Channels inp))
          (drop (length (t_outbox (db w))) (t_outbox (db w')))"
proof -
  obtain subject body extra where d:
    "dispatched l deps (inp\<lparr>di_Extra := extra\<rparr>) subject body (di_Channels inp) ([], None) (db w) (enq, err) (db w')"
    by (rule Dispatch_dispatched [OF assms])
  have "list_all (\<lambda>(k, v). k \<in> set (''subject'' # ''body'' # externalSafeKeys)) p"
    if "p = RedactExternalPayload l q" for p q
  proof -
    have "fst ` set p \<subseteq> set (''subject'' # ''body'' # externalSafeKeys)"
      using redact_dom [of l q] that by (simp add: dom_map_of_conv_image_fst)
    then show ?thesis by (force simp: list_all_iff)
  qed
  with d show ?thesis
    by (fastforce simp: dispatched_def list_all_iff dispatch_row_def list_ex_iff channel_payload_def Let_def)
qed

theorem Dispatch_redacts_untrusted_witness:
  "list_all (\<lambda>r. list_all (\<lambda>(k, v). k \<in> set (''subject'' # ''body'' # externalSafeKeys)) (o_payload r))
     (t_outbox (db (snd (run_state (Dispatch ex_i18n ex_deps ex_input) (calm 5 ex_db)))))"
proof -
  let ?run = "run_state (Dispatch ex_i18n ex_deps ex_input) (calm 5 ex_db)"
  have run: "?run = ((fst (fst ?run), snd (fst ?run)), snd ?run)" by simp
  have "\<not> passes_gates ex_deps ex_input (di_Channels ex_input ! 1)" by code_simp
  then show ?thesis
    using Dispatch_redacts_untrusted [OF run] by (auto simp: ex_db_def empty_db_def list_all_iff ex_input_def)
qed

text \<open>
  The routing fields of a payload cannot be overridden by the source: whatever fields the
  source supplies, kind, project, address and texts of a full payload are those of the
  dispatch, and every other field of the source is kept.
\<close>

theorem base_fields_win:
  "map_of (full_payload inp subject body ch) =
     map_of (di_Extra inp) ++
     [''kind'' \<mapsto> JStr (di_Kind inp), ''project_id'' \<mapsto> JInt (di_ProjectID inp), ''url'' \<mapsto> JStr (di_URL inp),
      ''subject'' \<mapsto> JStr subject, ''body'' \<mapsto> JStr body, ''channel_kind'' \<mapsto> JStr (dch_Kind ch),
      ''target'' \<mapsto> JStr (dch_Target ch)]"
  by (simp add: full_payload_def update_conv')

subsection \<open>What a dispatch reports\<close>

lemma wp_Dispatch:
  "wp (Dispatch l deps inp) (\<lambda>(enq, err) w'. only_outbox (db w) (db w') \<and>
      subseq enq (map dch_ID (filter (passes_gates deps inp) (di_Channels inp)))) w"
proof -
  obtain enq err w' where r: "run_state (Dispatch l deps inp) w = ((enq, err), w')" by (metis prod.collapse)
  then obtain subject body extra where
    "dispatched l deps (inp\<lparr>di_Extra := extra\<rparr>) subject body (di_Channels inp) ([], None) (db w) (enq, err) (db w')"
    by (rule Dispatch_dispatched)
  then show ?thesis using r by (auto simp: wp_def dispatched_def)
qed

lemma subseq_set: "subseq xs ys \<Longrightarrow> set xs \<subseteq> set ys"
  by (induction rule: list_emb.induct) auto

lemma subseq_distinct_mono: "subseq xs ys \<Longrightarrow> distinct ys \<Longrightarrow> distinct xs"
  by (induction rule: list_emb.induct) (auto dest: subseq_set)

abbreviation channels_wf :: "db \<Rightarrow> bool" where
  "channels_wf d \<equiv> distinct (map c_id (t_channels d))"

lemma ch_ID_open [simp]: "ch_ID (open_channel kr r) = c_id r"
  by (auto simp: open_channel_def Let_def split: option.splits)

lemma distinct_sorted_rows: "distinct (map c_id rows) \<Longrightarrow> distinct (map c_id (sort_key c_id rows))"
  by (simp add: distinct_map)

end
