(* ===== verification/Uptime_Notifier.thy ===== *)
theory Uptime_Notifier
  imports Uptime_Incident Uptime_Monitor Notify_Dispatch
begin

text \<open>
  \<open>internal/uptime/notifier.go\<close>: the notifier of the uptime source. It chooses the channels of
  a monitor, builds texts and fields of a message and hands them to \<open>escalation.Dispatch\<close>.
  Here the contract that \<open>SendStepIfDue\<close> expects of its callbacks is discharged for it and
  for \<open>BumpEscalation\<close>, so that at-most-once paging holds of the real source.
\<close>

subsection \<open>Model: notifier.go\<close>

text \<open>\<open>uptime.Event\<close>, declared in \<open>detector.go\<close>.\<close>

record event =
  ev_Kind :: string
  ev_Monitor :: monitor
  ev_Incident :: "incident option"
  ev_Regions :: "string list"
  ev_Cause :: string
  ev_DurationSeconds :: int
  ev_DaysLeft :: int

definition downEvent :: "monitor \<Rightarrow> incident \<Rightarrow> string list \<Rightarrow> string \<Rightarrow> event" where
  "downEvent m inc downRegions cause =
     \<lparr>ev_Kind = ''down'', ev_Monitor = m, ev_Incident = Some inc, ev_Regions = downRegions,
      ev_Cause = cause, ev_DurationSeconds = 0, ev_DaysLeft = 0\<rparr>"

text \<open>
  \<open>OutboxNotifier\<close>. The decision of \<open>alert.DetailPolicy\<close> and the count of declared children of
  package \<open>depsuppress\<close> (a read-only query) are parameters.
\<close>

record outbox_notifier =
  on_service :: service
  on_keyring :: keyring
  on_BaseURL :: string
  on_EmailEnabled :: bool
  on_AllowsDetails :: "channel \<Rightarrow> bool"
  on_i18n :: i18n
  on_DepCounts :: "(int \<Rightarrow> db \<Rightarrow> int) option"
  on_Projects :: "(int \<Rightarrow> db \<Rightarrow> string option) option"

definition formatDuration :: "int \<Rightarrow> string" where
  "formatDuration seconds0 =
     (let seconds = (if seconds0 < 0 then 0 else seconds0);
          d = wrap64 (seconds * second);
          h = quot d hour;
          d1 = wrap64 (d - wrap64 (h * hour));
          m = quot d1 minute;
          d2 = wrap64 (d1 - wrap64 (m * minute));
          s = quot d2 second
      in if h > 0 then itoa h @ ''h'' @ itoa m @ ''m''
         else if m > 0 then itoa m @ ''m'' @ itoa s @ ''s''
         else itoa s @ ''s'')"

definition subjectFor :: "i18n \<Rightarrow> event \<Rightarrow> string" where
  "subjectFor l ev =
     (let name = m_name (ev_Monitor ev); dur = formatDuration (ev_DurationSeconds ev) in
      if ev_Kind ev = ''down'' then i18n_Tf l ''notify.uptime.subject.down'' [(''name'', name)]
      else if ev_Kind ev = ''up'' then i18n_Tf l ''notify.uptime.subject.up'' [(''name'', name), (''duration'', dur)]
      else if ev_Kind ev = ''ssl_expiring'' then
        i18n_Tf l ''notify.uptime.subject.ssl'' [(''name'', name), (''days'', itoa (ev_DaysLeft ev))]
      else if ev_Kind ev = ''reminder'' then
        i18n_Tf l ''notify.uptime.subject.reminder'' [(''name'', name), (''duration'', dur)]
      else i18n_Tf l ''notify.uptime.subject.generic'' [(''name'', name), (''kind'', ev_Kind ev)])"

definition bodyFor :: "i18n \<Rightarrow> event \<Rightarrow> string \<Rightarrow> string \<Rightarrow> string" where
  "bodyFor l ev url depsLine =
     (let name = m_name (ev_Monitor ev); regions = join_with '', '' (ev_Regions ev);
          dur = formatDuration (ev_DurationSeconds ev) in
      if ev_Kind ev = ''down'' then
        i18n_Tf l ''notify.uptime.body.down'' [(''name'', name), (''cause'', ev_Cause ev), (''regions'', regions),
          (''deps_line'', depsLine), (''url'', url)]
      else if ev_Kind ev = ''up'' then
        i18n_Tf l ''notify.uptime.body.up'' [(''name'', name), (''duration'', dur), (''url'', url)]
      else if ev_Kind ev = ''ssl_expiring'' then
        i18n_Tf l ''notify.uptime.body.ssl'' [(''name'', name), (''days'', itoa (ev_DaysLeft ev)), (''url'', url)]
      else if ev_Kind ev = ''reminder'' then
        i18n_Tf l ''notify.uptime.body.reminder'' [(''name'', name), (''duration'', dur), (''cause'', ev_Cause ev),
          (''regions'', regions), (''url'', url)]
      else i18n_Tf l ''notify.uptime.body.generic'' [(''name'', name), (''url'', url)])"

definition depsLine :: "outbox_notifier \<Rightarrow> event \<Rightarrow> string prog" where
  "depsLine n ev =
     (case on_DepCounts n of
        None \<Rightarrow> State_Monad.return ''''
      | Some cntq \<Rightarrow>
          if ev_Kind ev \<noteq> ''down'' then State_Monad.return ''''
          else do {
            r \<leftarrow> sql_read (\<lambda>_. cntq (m_id (ev_Monitor ev)));
            State_Monad.return
              (case r of
                 Inl _ \<Rightarrow> ''''
               | Inr cnt \<Rightarrow> if cnt = 0 then ''''
                   else i18n_Tf (on_i18n n) ''notify.uptime.deps_affected'' [(''count'', itoa cnt)])
          })"

text \<open>
  \<open>resolveChannels\<close>: the channels of the project, narrowed to the monitor's own if it has
  any; never back to all when the narrowing leaves none.
\<close>

definition resolveChannels :: "outbox_notifier \<Rightarrow> int \<Rightarrow> int \<Rightarrow> channel list result prog" where
  "resolveChannels n monitorID projectID =
     do {
       r0 \<leftarrow> MonitorChannelIDs monitorID;
       (case r0 of
          Inl e \<Rightarrow> State_Monad.return (Inl e)
        | Inr own \<Rightarrow>
            do {
              r \<leftarrow> Channels (on_keyring n) projectID;
              State_Monad.return
                (case r of
                   Inl e \<Rightarrow> Inl e
                 | Inr channels \<Rightarrow>
                     Inr (if own \<noteq> [] then filter (\<lambda>ch. ch_ID ch \<in> set own) channels else channels))
            })
     }"

definition dispatch_channel_of :: "outbox_notifier \<Rightarrow> channel \<Rightarrow> dispatch_channel" where
  "dispatch_channel_of n ch =
     \<lparr>dch_ID = ch_ID ch, dch_Kind = ch_Kind ch, dch_Target = ch_Target ch,
      dch_IsEmail = (ch_Kind ch = ''email''), dch_Deliverable = Deliverable ch,
      dch_AllowsDetails = on_AllowsDetails n ch\<rparr>"

definition event_extra :: "event \<Rightarrow> payload" where
  "event_extra ev =
     [(''monitor_id'', JInt (m_id (ev_Monitor ev))), (''monitor_name'', JStr (m_name (ev_Monitor ev))),
      (''regions'', JList (ev_Regions ev)), (''cause'', JStr (ev_Cause ev)),
      (''duration_seconds'', JInt (ev_DurationSeconds ev)), (''days_left'', JInt (ev_DaysLeft ev))]"

definition dispatch ::
  "outbox_notifier \<Rightarrow> event \<Rightarrow> int list \<Rightarrow> string \<Rightarrow> (int list \<times> error option) prog" where
  "dispatch n ev channelIDs keyPrefix =
     do {
       c \<leftarrow> resolveChannels n (m_id (ev_Monitor ev)) (m_project (ev_Monitor ev));
       (case c of
          Inl e \<Rightarrow> State_Monad.return ([], Some e)
        | Inr channels \<Rightarrow>
            (let url = on_BaseURL n @ ''/monitors/'' @ itoa (m_id (ev_Monitor ev)) in
             do {
               deps \<leftarrow> depsLine n ev;
               Dispatch (on_i18n n) \<lparr>dd_EmailEnabled = on_EmailEnabled n, dd_Projects = on_Projects n\<rparr>
                 \<lparr>di_ProjectID = m_project (ev_Monitor ev), di_Kind = ev_Kind ev,
                  di_Subject = subjectFor (on_i18n n) ev, di_Body = bodyFor (on_i18n n) ev url deps,
                  di_URL = url, di_RedactedURL = '''', di_Extra = event_extra ev,
                  di_ChannelIDs = channelIDs, di_Channels = map (dispatch_channel_of n) channels,
                  di_IdempotencyKeyPrefix = keyPrefix\<rparr>
             }))
     }"

definition Notify :: "outbox_notifier \<Rightarrow> event \<Rightarrow> error option prog" where
  "Notify n ev = do { r \<leftarrow> dispatch n ev [] ''''; State_Monad.return (snd r) }"

definition OpenStep0Channels :: "outbox_notifier \<Rightarrow> event \<Rightarrow> int list result prog" where
  "OpenStep0Channels n ev =
     do {
       r \<leftarrow> resolveChannels n (m_id (ev_Monitor ev)) (m_project (ev_Monitor ev));
       State_Monad.return (case r of Inl e \<Rightarrow> Inl e | Inr channels \<Rightarrow> Inr (map ch_ID channels))
     }"

definition incident_id :: "event \<Rightarrow> int" where
  "incident_id ev = (case ev_Incident ev of None \<Rightarrow> 0 | Some i \<Rightarrow> i_id i)"

definition NotifyOpenStep0 :: "outbox_notifier \<Rightarrow> event \<Rightarrow> int list \<Rightarrow> (int list \<times> error option) prog" where
  "NotifyOpenStep0 n ev channelIDs = dispatch n ev channelIDs (''uptime:open:'' @ itoa (incident_id ev))"

text \<open>
  \<open>NotifyRecovery\<close> and \<open>NotifyStep\<close> load the incident and its monitor again. Durations come
  from timestamps of the database, whose resolution is a microsecond, so the conversion
  to seconds is exact.
\<close>

definition load_event ::
  "outbox_notifier \<Rightarrow> int \<Rightarrow> (monitor \<Rightarrow> incident \<Rightarrow> event) \<Rightarrow> event result prog" where
  "load_event n incidentID mk =
     do {
       r \<leftarrow> IncidentByID incidentID;
       (case r of
          Inl e \<Rightarrow> State_Monad.return (Inl e)
        | Inr None \<Rightarrow> State_Monad.return (Inl (ErrMsg ''incident not found''))
        | Inr (Some inc) \<Rightarrow>
            do {
              m \<leftarrow> Get (on_service n) (i_monitor inc);
              State_Monad.return (case m of Inl e \<Rightarrow> Inl e | Inr mon \<Rightarrow> Inr (mk mon inc))
            })
     }"

definition recovery_event :: "monitor \<Rightarrow> incident \<Rightarrow> event" where
  "recovery_event mon inc =
     \<lparr>ev_Kind = ''up'', ev_Monitor = mon, ev_Incident = Some inc, ev_Regions = [], ev_Cause = '''',
      ev_DurationSeconds = (case i_resolved inc of None \<Rightarrow> 0
        | Some t \<Rightarrow> quot (time_sub t (i_started inc)) second),
      ev_DaysLeft = 0\<rparr>"

definition NotifyRecovery :: "outbox_notifier \<Rightarrow> int \<Rightarrow> int list \<Rightarrow> error option prog" where
  "NotifyRecovery n incidentID channelIDs =
     do {
       r \<leftarrow> load_event n incidentID recovery_event;
       (case r of
          Inl e \<Rightarrow> State_Monad.return (Some e)
        | Inr ev \<Rightarrow> do { d \<leftarrow> dispatch n ev channelIDs ''''; State_Monad.return (snd d) })
     }"

definition NotifyStep ::
  "outbox_notifier \<Rightarrow> int \<Rightarrow> int list \<Rightarrow> int \<Rightarrow> (int list \<times> error option) prog" where
  "NotifyStep n incidentID channelIDs step =
     do {
       r \<leftarrow> load_event n incidentID (\<lambda>mon inc. downEvent mon inc (i_regions inc) (i_cause inc));
       (case r of
          Inl e \<Rightarrow> State_Monad.return ([], Some e)
        | Inr ev \<Rightarrow> dispatch n ev channelIDs '''')
     }"

text \<open>The uptime source as the scheduler binds it.\<close>

definition uptime_binding :: "outbox_notifier \<Rightarrow> binding" where
  "uptime_binding n =
     \<lparr>b_Name = ''uptime'', b_OpenUnacked = OpenUnacked, b_BumpEscalation = BumpEscalation,
      b_Suppressed = Some \<lparr>ss_OpenSuppressed = OpenSuppressed, ss_ClearSuppressed = ClearSuppressed\<rparr>,
      b_NotifyStep = NotifyStep n\<rparr>"

subsection \<open>What the notifier reports and changes\<close>

lemma wp_resolveChannels:
  "wp (resolveChannels n mid pid) (\<lambda>r w'. db w' = db w \<and>
      (\<forall>chs. r = Inr chs \<and> channels_wf (db w) \<longrightarrow> distinct (map ch_ID chs))) w"
proof -
  have "distinct (map ch_ID (map (open_channel kr) (sort_key c_id (filter p (t_channels (db w))))))"
    if "channels_wf (db w)" for kr p
    using distinct_sorted_rows [OF distinct_map_filter [OF that, of p]] by (simp add: comp_def)
  then show ?thesis
    unfolding resolveChannels_def MonitorChannelIDs_def Channels_def
    by (auto simp: wp intro!: wp_sql_readI distinct_map_filter)
qed

lemma wp_depsLine: "wp (depsLine n ev) (\<lambda>_ w'. db w' = db w) w"
  unfolding depsLine_def by (auto simp: wp intro!: wp_sql_readI split: option.splits)

lemma distinct_gated:
  assumes "distinct (map ch_ID channels)"
  shows "distinct (map dch_ID (filter p (map (dispatch_channel_of n) channels)))"
proof -
  have "distinct (map dch_ID (map (dispatch_channel_of n) channels))"
    using assms by (simp add: comp_def dispatch_channel_of_def)
  then show ?thesis by (rule distinct_map_filter)
qed

lemma wp_dispatch:
  "wp (dispatch n ev chs pre) (\<lambda>(enq, err) w'. only_outbox (db w) (db w') \<and>
      (channels_wf (db w) \<longrightarrow> distinct enq) \<and> (chs \<noteq> [] \<longrightarrow> set enq \<subseteq> set chs)) w"
  unfolding dispatch_def
proof (simp only: wp, rule wp_mono [OF wp_resolveChannels], goal_cases)
  case (1 c w1)
  show ?case
  proof (cases c)
    case (Inl e)
    then show ?thesis using 1 by (simp add: wp only_outbox_def)
  next
    case (Inr channels)
    show ?thesis
      unfolding Inr sum.case Let_def
    proof (simp only: wp, rule wp_mono [OF wp_depsLine], goal_cases)
      case (1 deps w2)
      have w2: "db w2 = db w" using 1 \<open>db w1 = db w \<and> _\<close> by simp
      have sub: "set xs \<subseteq> set chs" if "subseq xs (map dch_ID (filter (passes_gates dd inp) cs))" "di_ChannelIDs inp = chs" "chs \<noteq> []"
        for xs dd inp cs
        using subseq_set [OF that(1)] that(2,3) by (fastforce simp: passes_gates_def)
      have dist: "distinct xs" if "subseq xs (map dch_ID (filter p (map (dispatch_channel_of n) channels)))" "channels_wf (db w)" for xs p
        using that distinct_gated [of channels p n] \<open>db w1 = db w \<and> _\<close> Inr by (metis subseq_distinct_mono)
      show ?case
        by (rule wp_mono [OF wp_Dispatch]) (auto simp: w2 intro: dist dest: sub)
    qed
  qed
qed

lemma wp_load_event: "wp (load_event n i mk) (\<lambda>_ w'. db w' = db w) w"
proof -
  have get: "wp (Get s mid) (\<lambda>_ w'. db w' = db w) w" for s mid w
    unfolding Get_def regionsOf_def channelIDsOf_def
    by (auto simp: wp intro!: wp_sql_readI split: option.splits sum.splits)
  show ?thesis
    unfolding load_event_def IncidentByID_def
  proof (simp only: wp, rule wp_sql_readI, goal_cases)
    case (1 t w1)
    then show ?case
      by (auto simp: wp split: option.splits intro: wp_mono [OF get])
  qed (simp add: wp)
qed

lemma wp_NotifyStep:
  "wp (NotifyStep n i chs st) (\<lambda>(enq, err) w'. only_outbox (db w) (db w') \<and>
      (channels_wf (db w) \<longrightarrow> distinct enq) \<and> (chs \<noteq> [] \<longrightarrow> set enq \<subseteq> set chs)) w"
  unfolding NotifyStep_def
proof (simp only: wp, rule wp_mono [OF wp_load_event], goal_cases)
  case (1 r w1)
  then show ?case
    by (cases r) (auto simp: wp only_outbox_def intro: wp_mono [OF wp_dispatch])
qed

subsection \<open>The uptime source keeps the contract of a step\<close>

interpretation uptime_step: step_effects "NotifyStep n i" BumpEscalation for n i
proof
  fix chs st w enq err w'
  assume "distinct chs" "chs \<noteq> []" "channels_wf (db w)" and r: "run_state (NotifyStep n i chs st) w = ((enq, err), w')"
  then show "distinct enq \<and> set enq \<subseteq> set chs"
    using wp_NotifyStep [of n i chs st w] by (simp add: wp_def)
next
  fix chs st w
  show "t_esc (db (snd (run_state (NotifyStep n i chs st) w))) = t_esc (db w)"
    using wp_NotifyStep [of n i chs st w] only_outbox_same [of "db w" _ t_esc]
    by (auto simp: wp_def split: prod.splits)
next
  fix j lvl w
  show "t_esc (db (snd (run_state (BumpEscalation j lvl) w))) = t_esc (db w)"
    unfolding BumpEscalation_def
    by (cases rule: run_sql_cases [of "\<lambda>now. update_incidents (\<lambda>i. i_id i = j \<and> i_level i = lvl)
          (\<lambda>i. i\<lparr>i_level := lvl + 1, i_last_escalated := Some now\<rparr>)" w])
       (auto simp: update_incidents_def)
qed

text \<open>
  C2: the escalation of uptime incidents refines the machine of replicas: a run of
  \<open>SendStepIfDue\<close> with the real notifier and the real compare-and-set, started in any state
  the replicas can be in, is a sequence of its steps whatever faults its statements meet;
  so no channel reported as queued for this step was reported before, by any replica, and
  all of them are in the log.
\<close>

theorem uptime_escalation_refines_replicas:
  assumes "channels_wf (db w)" and "replica_inv ''uptime'' i level \<lparr>r_db = db w, r_pc = (\<lambda>_. PIdle), r_sent = sent\<rparr>"
    and "run_state (SendStepIfDue ladder ''uptime'' i level elapsed (NotifyStep n i) BumpEscalation) w = (res, w')"
    and "queued = reported ladder ''uptime'' i level elapsed (NotifyStep n i) w"
  shows "esc_runs ''uptime'' i level \<lparr>r_db = db w, r_pc = (\<lambda>_. PIdle), r_sent = sent\<rparr>
           \<lparr>r_db = db w', r_pc = (\<lambda>_. PIdle), r_sent = sent @ queued\<rparr> \<and>
         distinct (sent @ queued) \<and>
         list_all (\<lambda>c. is_logged (db w') ''uptime'' i c level) (sent @ queued)"
proof -
  let ?s = "\<lparr>r_db = db w, r_pc = (\<lambda>_. PIdle), r_sent = sent\<rparr>"
  have run: "esc_runs ''uptime'' i level ?s \<lparr>r_db = db w', r_pc = (\<lambda>_. PIdle), r_sent = sent @ queued\<rparr>"
    using uptime_step.send_refines [of ?s w "''uptime''" i level ladder elapsed n i] assms by simp
  from replica_inv_runs [OF this assms(2)] run show ?thesis
    by (simp add: replica_inv_def list_all_iff)
qed

definition ex_notifier :: outbox_notifier where
  "ex_notifier = \<lparr>on_service = ex_service, on_keyring = \<lparr>kr_set = False, kr_Open = Some, kr_IsEncrypted = (\<lambda>_. False)\<rparr>,
     on_BaseURL = ''u'', on_EmailEnabled = True, on_AllowsDetails = (\<lambda>_. False), on_i18n = ex_i18n,
     on_DepCounts = None, on_Projects = None\<rparr>"

definition ex_steps :: ladder where
  "ex_steps = [\<lparr>StepNo = 0, DelayMinutes = 0, ChannelIDs = [7]\<rparr>, \<lparr>StepNo = 1, DelayMinutes = 5, ChannelIDs = [7, 8]\<rparr>]"

theorem uptime_escalation_refines_replicas_witness:
  "let w' = snd (run_state (SendStepIfDue ex_steps ''uptime'' 1 1 hour (NotifyStep ex_notifier 1) BumpEscalation) (calm hour ex_db))
   in reported ex_steps ''uptime'' 1 1 hour (NotifyStep ex_notifier 1) (calm hour ex_db) = [7, 8] \<and>
      list_all (\<lambda>c. is_logged (db w') ''uptime'' 1 c 1) [7, 8]"
proof -
  let ?w = "calm hour ex_db"
  let ?run = "run_state (SendStepIfDue ex_steps ''uptime'' 1 1 hour (NotifyStep ex_notifier 1) BumpEscalation) ?w"
  have queued: "[7, 8] = reported ex_steps ''uptime'' 1 1 hour (NotifyStep ex_notifier 1) ?w" by code_simp
  have wf: "channels_wf (db ?w)" by code_simp
  have inv: "replica_inv ''uptime'' 1 1 \<lparr>r_db = db ?w, r_pc = (\<lambda>_. PIdle), r_sent = []\<rparr>" by (simp add: replica_inv_def)
  show ?thesis
    using uptime_escalation_refines_replicas [OF wf inv surjective_pairing queued] queued by (simp add: Let_def)
qed

text \<open>
  A monitor with its own channels never falls back to all channels of the project: the
  channels a notification may go to are those of the project restricted to its own, even
  when that leaves none, and all of the project only when it has none of its own; each of
  them once, and every one of them in the project.
\<close>

theorem own_channels_only:
  assumes "channels_wf (db w)" and "sched w = []" and "run_state (resolveChannels n mid pid) w = (Inr chs, w')"
  shows "map ch_ID chs = sort (filter (\<lambda>c. channel_ids_of mid (db w) = [] \<or> c \<in> set (channel_ids_of mid (db w)))
           (map c_id (filter (\<lambda>c. c_project c = pid) (t_channels (db w))))) \<and>
         distinct (map ch_ID chs) \<and> list_all (\<lambda>ch. ch_ProjectID ch = pid) chs \<and> w' = w"
proof -
  let ?own = "channel_ids_of mid (db w)" and ?rows = "filter (\<lambda>c. c_project c = pid) (t_channels (db w))"
  let ?all = "map (open_channel (on_keyring n)) (sort_key c_id ?rows)"
  have res: "chs = (if ?own \<noteq> [] then filter (\<lambda>ch. ch_ID ch \<in> set ?own) ?all else ?all)" "w' = w"
    using assms(2,3) by (auto simp: resolveChannels_def MonitorChannelIDs_def Channels_def)
  have proj: "ch_ProjectID (open_channel kr r) = c_project r" for kr r
    by (auto simp: open_channel_def Let_def split: option.splits)
  have ids: "map ch_ID ?all = sort (map c_id ?rows)"
    using map_sort_key [of c_id ?rows] by (simp add: comp_def)
  have filt: "map ch_ID (filter (\<lambda>ch. p (ch_ID ch)) xs) = filter p (map ch_ID xs)" for p xs
    by (induction xs) auto
  have "map ch_ID chs = filter (\<lambda>c. ?own = [] \<or> c \<in> set ?own) (sort (map c_id ?rows))"
    unfolding res(1) using filt [of "\<lambda>c. c \<in> set ?own" ?all] ids by auto
  then have "map ch_ID chs = sort (filter (\<lambda>c. ?own = [] \<or> c \<in> set ?own) (map c_id ?rows))"
    by (simp add: filter_sort)
  moreover have "distinct (map c_id ?rows)" using assms(1) by (rule distinct_map_filter)
  ultimately show ?thesis
    using res proj by (auto simp: list_all_iff)
qed

theorem own_channels_only_witness:
  "case fst (run_state (resolveChannels ex_notifier 1 1) (calm 5 (ex_db\<lparr>t_monitor_channels := [(1, 8)]\<rparr>))) of
     Inr chs \<Rightarrow> map ch_ID chs = [8] | Inl _ \<Rightarrow> False"
proof -
  let ?w = "calm 5 (ex_db\<lparr>t_monitor_channels := [(1, 8)]\<rparr>)"
  have wf: "channels_wf (db ?w)" by code_simp
  obtain chs where run: "run_state (resolveChannels ex_notifier 1 1) ?w = (Inr chs, ?w)"
    by (simp add: resolveChannels_def MonitorChannelIDs_def channelIDsOf_def Channels_def)
  have "channel_ids_of 1 (db ?w) = [8]" and "map c_id (filter (\<lambda>c. c_project c = 1) (t_channels (db ?w))) = [7, 8]" by code_simp+
  then show ?thesis using own_channels_only [OF wf _ run] run by simp
qed

subsection \<open>Texts\<close>

text \<open>
  A duration shorter than 292 years is shown exactly: hours and minutes from one hour
  on, minutes and seconds from one minute on, otherwise seconds; a negative one as zero.
\<close>

theorem formatDuration_shows:
  assumes "s \<le> 9223372036"
  shows "formatDuration s =
     (if 3600 \<le> s then itoa (s div 3600) @ ''h'' @ itoa (s mod 3600 div 60) @ ''m''
      else if 60 \<le> s then itoa (s div 60) @ ''m'' @ itoa (s mod 60) @ ''s''
      else itoa (max s 0) @ ''s'')"
proof -
  define t where "t = max s 0"
  have t: "0 \<le> t" "t \<le> 9223372036" using assms by (auto simp: t_def)
  define h where "h = t div 3600"
  define r where "r = t mod 3600"
  have thr: "t = h * 3600 + r" "0 \<le> r" "r < 3600" "0 \<le> h" by (simp_all add: h_def r_def t(1) pos_imp_zdiv_nonneg_iff)
  have w1: "wrap64 (t * second) = t * second" using t by (intro wrap64_id) simp_all
  have qh: "quot (t * second) hour = h" using t(1) by (simp add: quot_nonneg h_def)
  have w2: "wrap64 (h * hour) = h * hour" using thr t by (intro wrap64_id) simp_all
  have sub: "t * second - h * hour = r * second" using thr(1) by simp
  have w3: "wrap64 (r * second) = r * second" using thr by (intro wrap64_id) simp_all
  have qm: "quot (r * second) minute = r div 60" using thr(2) by (simp add: quot_nonneg)
  have w4: "wrap64 (r div 60 * minute) = r div 60 * minute" using thr by (intro wrap64_id) simp_all
  have sub2: "r * second - r div 60 * minute = r mod 60 * second"
  proof -
    define q z where "q = r div 60" and "z = r mod 60"
    have "r = q * 60 + z" by (simp add: q_def z_def)
    then show ?thesis unfolding q_def [symmetric] z_def [symmetric] by simp
  qed
  have w5: "wrap64 (r mod 60 * second) = r mod 60 * second" by (intro wrap64_id) (simp_all add: order.trans [OF less_imp_le [OF pos_mod_bound]])
  have qs: "quot (r mod 60 * second) second = r mod 60" by (simp add: quot_nonneg)
  have "formatDuration s = (if h > 0 then itoa h @ ''h'' @ itoa (r div 60) @ ''m''
      else if r div 60 > 0 then itoa (r div 60) @ ''m'' @ itoa (r mod 60) @ ''s'' else itoa (r mod 60) @ ''s'')"
  proof -
    have "(if s < 0 then 0 else s) = t" by (auto simp: t_def)
    then show ?thesis
      unfolding formatDuration_def Let_def by (simp only: w1 qh w2 sub w3 qm w4 sub2 w5 qs)
  qed
  moreover have "h > 0 \<longleftrightarrow> 3600 \<le> s" "s < 3600 \<Longrightarrow> r = t" "r div 60 > 0 \<longleftrightarrow> 60 \<le> r"
    using thr t_def by (auto simp: h_def r_def pos_imp_zdiv_pos_iff max_def)
  ultimately show ?thesis
    by (auto simp: h_def r_def t_def max_def)
qed

theorem formatDuration_shows_witness: "formatDuration 3725 = ''1h2m''"
proof -
  have "formatDuration 3725 = itoa (3725 div 3600) @ ''h'' @ itoa (3725 mod 3600 div 60) @ ''m''"
    using formatDuration_shows [of 3725] by simp
  also have "\<dots> = ''1h2m''" by code_simp
  finally show ?thesis .
qed

end
