(* ===== verification/Uptime_Maintenance.thy ===== *)
theory Uptime_Maintenance
  imports Store
begin

text \<open>
  \<open>internal/uptime/maintenance.go\<close>: maintenance windows of a project, one-off or weekly in a
  time zone, and the two readings of a window, \<open>windowActive\<close> (is an instant inside) and
  \<open>windowIntervalsOne\<close> (the occurrences in a range). The part of package \<open>time\<close> they use is
  modelled: instants in a location with offset transitions, \<open>time.Date\<close> and \<open>AddDate\<close>, and
  \<open>time.Parse\<close> with the layout \<open>15:04\<close>. The zone database is a parameter. The properties: the
  stored form round trips, writes stay inside their project, and in a zone without
  transitions both readings agree with the plain meaning of a weekly schedule.
\<close>

subsection \<open>Model: package time\<close>

text \<open>
  A location: the offset before the first transition, and the transitions in order, each
  with the Unix second from which its offset (seconds east of UTC) applies. \<open>zone_lookup\<close>
  is \<open>Location.lookup\<close>: the offset at a second and the bounds between which it applies.
\<close>

type_synonym zone = "int \<times> (int \<times> int) list"
type_synonym tzdata = "string \<Rightarrow> zone option"

fun lookup_from :: "int option \<Rightarrow> int \<Rightarrow> (int \<times> int) list \<Rightarrow> int \<Rightarrow> int \<times> int option \<times> int option" where
  "lookup_from st off [] t = (off, st, None)"
| "lookup_from st off ((s, off') # rest) t =
     (if t < s then (off, st, Some s) else lookup_from (Some s) off' rest t)"

definition zone_lookup :: "zone \<Rightarrow> int \<Rightarrow> int \<times> int option \<times> int option" where
  "zone_lookup z t = lookup_from None (fst z) (snd z) t"

definition zone_offset :: "zone \<Rightarrow> int \<Rightarrow> int" where
  "zone_offset z t = fst (zone_lookup z t)"

text \<open>
  The clock on the wall in a location: the number of the civil day (0 is 1970-01-01, a
  Thursday) and the second of that day.
\<close>

definition local_sec :: "zone \<Rightarrow> time \<Rightarrow> int" where
  "local_sec z t = t div second + zone_offset z (t div second)"

definition local_day :: "zone \<Rightarrow> time \<Rightarrow> int" where
  "local_day z t = local_sec z t div 86400"

definition sec_of_day :: "zone \<Rightarrow> time \<Rightarrow> int" where
  "sec_of_day z t = local_sec z t mod 86400"

definition day_weekday :: "int \<Rightarrow> int" where
  "day_weekday day = (day + 4) mod 7"

text \<open>
  \<open>time.Date\<close>: the offset is looked up at the wall clock read as UTC, and once more when
  the instant so found is outside the bounds of that offset.
\<close>

definition time_Date :: "zone \<Rightarrow> int \<Rightarrow> int \<Rightarrow> int \<Rightarrow> time" where
  "time_Date z day sod nsec =
     (let u = day * 86400 + sod in
      case zone_lookup z u of (off, st, en) \<Rightarrow>
        (let utc = u - off;
             out = (case st of None \<Rightarrow> False | Some s \<Rightarrow> utc < s) \<or> (case en of None \<Rightarrow> False | Some e \<Rightarrow> e \<le> utc);
             unix = (if off = 0 then u else if out then u - zone_offset z utc else utc)
         in unix * second + nsec))"

text \<open>\<open>t.In(loc).AddDate(0, 0, k)\<close>, and the zero \<open>time.Time\<close>.\<close>

definition add_days :: "zone \<Rightarrow> time \<Rightarrow> int \<Rightarrow> time" where
  "add_days z t k = time_Date z (local_day z t + k) (sec_of_day z t) (t mod second)"

abbreviation zero_time :: time where "zero_time \<equiv> - 62135596800000000000"

text \<open>\<open>getnum\<close> of package \<open>time\<close>: one or two digits, exactly two when \<open>fixed\<close>.\<close>

definition is_digit :: "char \<Rightarrow> bool" where
  "is_digit c \<longleftrightarrow> 48 \<le> (of_char c :: nat) \<and> (of_char c :: nat) \<le> 57"

definition digit_value :: "char \<Rightarrow> int" where
  "digit_value c = int (of_char c) - 48"

fun getnum :: "string \<Rightarrow> bool \<Rightarrow> (int \<times> string) option" where
  "getnum [] fixed = None"
| "getnum [c] fixed = (if is_digit c \<and> \<not> fixed then Some (digit_value c, []) else None)"
| "getnum (c # d # rest) fixed =
     (if \<not> is_digit c then None
      else if \<not> is_digit d then (if fixed then None else Some (digit_value c, d # rest))
      else Some (digit_value c * 10 + digit_value d, rest))"

subsection \<open>Model: maintenance.go\<close>

record window =
  w_ID :: int
  w_ProjectID :: int
  w_Name :: string
  w_Weekly :: bool
  w_StartsAt :: "time option"
  w_EndsAt :: "time option"
  w_Weekday :: int
  w_StartTime :: string
  w_EndTime :: string
  w_Timezone :: string

definition parseHHMM :: "string \<Rightarrow> (int \<times> int) option" where
  "parseHHMM s =
     (case getnum s False of
        None \<Rightarrow> None
      | Some (h, r) \<Rightarrow>
          if 24 \<le> h then None
          else (case r of
                  [] \<Rightarrow> None
                | c # r' \<Rightarrow>
                    if c \<noteq> CHR '':'' then None
                    else (case getnum r' True of
                            None \<Rightarrow> None
                          | Some (m, rest) \<Rightarrow> if 60 \<le> m \<or> rest \<noteq> [] then None else Some (h, m))))"

definition hhmmToPgTime :: "string \<Rightarrow> int option" where
  "hhmmToPgTime s = map_option (\<lambda>(h, m). (h * 60 + m) * 60000000) (parseHHMM s)"

text \<open>The verb \<open>%02d\<close>.\<close>

definition pad2 :: "int \<Rightarrow> string" where
  "pad2 n = (if 0 \<le> n \<and> n < 10 then CHR ''0'' # itoa n else itoa n)"

definition pgTimeToHHMM :: "int option \<Rightarrow> string" where
  "pgTimeToHHMM t =
     (case t of None \<Rightarrow> ''''
      | Some us \<Rightarrow> (let n = quot us 60000000 in pad2 (quot n 60) @ '':'' @ pad2 (n - 60 * quot n 60)))"

definition validateWindow :: "tzdata \<Rightarrow> window \<Rightarrow> error option" where
  "validateWindow tz w =
     (if w_Name w = '''' then Some (ErrInvalidWindow ''name'')
      else if tz (w_Timezone w) = None then Some (ErrInvalidWindow ''timezone'')
      else if w_Weekly w then
        (if w_Weekday w < 0 \<or> w_Weekday w > 6 then Some (ErrInvalidWindow ''weekday'')
         else if parseHHMM (w_StartTime w) = None then Some (ErrInvalidWindow ''start_time'')
         else if parseHHMM (w_EndTime w) = None then Some (ErrInvalidWindow ''end_time'')
         else if w_StartTime w = w_EndTime w then Some (ErrInvalidWindow ''same_time'')
         else None)
      else case w_StartsAt w of
             None \<Rightarrow> Some (ErrInvalidWindow ''range'')
           | Some s \<Rightarrow>
               (case w_EndsAt w of
                  None \<Rightarrow> None
                | Some e \<Rightarrow> if s < e then None else Some (ErrInvalidWindow ''range'')))"

text \<open>
  The columns a write sets: those of the other kind of schedule become NULL. Times of the
  database have a resolution of a microsecond; the model keeps them as given.
\<close>

definition set_schedule :: "window \<Rightarrow> window_row \<Rightarrow> window_row" where
  "set_schedule w r =
     r\<lparr>wr_name := w_Name w, wr_weekly := w_Weekly w,
       wr_starts := (if w_Weekly w then None else w_StartsAt w),
       wr_ends := (if w_Weekly w then None else w_EndsAt w),
       wr_weekday := (if w_Weekly w then Some (w_Weekday w) else None),
       wr_start_time := (if w_Weekly w then hhmmToPgTime (w_StartTime w) else None),
       wr_end_time := (if w_Weekly w then hhmmToPgTime (w_EndTime w) else None),
       wr_timezone := w_Timezone w\<rparr>"

definition new_window_row :: "int \<Rightarrow> int \<Rightarrow> window_row" where
  "new_window_row wid project =
     \<lparr>wr_id = wid, wr_project = project, wr_name = '''', wr_weekly = False, wr_starts = None, wr_ends = None,
      wr_weekday = None, wr_start_time = None, wr_end_time = None, wr_timezone = ''''\<rparr>"

definition CreateWindow :: "tzdata \<Rightarrow> window \<Rightarrow> window result prog" where
  "CreateWindow tz w =
     (case validateWindow tz w of
        Some e \<Rightarrow> State_Monad.return (Inl e)
      | None \<Rightarrow>
          do {
            r \<leftarrow> sql (\<lambda>_ d. (t_window_seq d,
                   d\<lparr>t_windows := t_windows d @ [set_schedule w (new_window_row (t_window_seq d) (w_ProjectID w))],
                     t_window_seq := t_window_seq d + 1\<rparr>));
            State_Monad.return (case r of Inl e \<Rightarrow> Inl e | Inr i \<Rightarrow> Inr (w\<lparr>w_ID := i\<rparr>))
          })"

definition UpdateWindow :: "tzdata \<Rightarrow> window \<Rightarrow> error option prog" where
  "UpdateWindow tz w =
     (case validateWindow tz w of
        Some e \<Rightarrow> State_Monad.return (Some e)
      | None \<Rightarrow>
          (let hit = (\<lambda>r. wr_id r = w_ID w \<and> wr_project r = w_ProjectID w) in
           do {
             r \<leftarrow> sql (\<lambda>_ d. (list_ex hit (t_windows d), d\<lparr>t_windows := sql_update hit (set_schedule w) (t_windows d)\<rparr>));
             State_Monad.return (case r of Inl e \<Rightarrow> Some e | Inr b \<Rightarrow> if b then None else Some ErrNotFound)
           }))"

definition DeleteWindow :: "int \<Rightarrow> int \<Rightarrow> error option prog" where
  "DeleteWindow wid projectID =
     (let hit = (\<lambda>r. wr_id r = wid \<and> wr_project r = projectID) in
      do {
        r \<leftarrow> sql (\<lambda>_ d. (list_ex hit (t_windows d), d\<lparr>t_windows := sql_delete hit (t_windows d)\<rparr>));
        State_Monad.return (case r of Inl e \<Rightarrow> Some e | Inr b \<Rightarrow> if b then None else Some ErrNotFound)
      })"

definition scanWindow :: "window_row \<Rightarrow> window" where
  "scanWindow r =
     \<lparr>w_ID = wr_id r, w_ProjectID = wr_project r, w_Name = wr_name r, w_Weekly = wr_weekly r,
      w_StartsAt = wr_starts r, w_EndsAt = wr_ends r,
      w_Weekday = (case wr_weekday r of None \<Rightarrow> 0 | Some d \<Rightarrow> d),
      w_StartTime = pgTimeToHHMM (wr_start_time r), w_EndTime = pgTimeToHHMM (wr_end_time r),
      w_Timezone = wr_timezone r\<rparr>"

definition windows_of :: "int \<Rightarrow> db \<Rightarrow> window list" where
  "windows_of projectID d =
     map scanWindow (sort_key wr_id (filter (\<lambda>r. wr_project r = projectID) (t_windows d)))"

definition Windows :: "int \<Rightarrow> window list result prog" where
  "Windows projectID = sql_read (\<lambda>_ d. windows_of projectID d)"

definition windowDuration :: "window \<Rightarrow> duration" where
  "windowDuration w =
     (case parseHHMM (w_StartTime w) of
        None \<Rightarrow> 0
      | Some (sh, sm) \<Rightarrow>
          (case parseHHMM (w_EndTime w) of
             None \<Rightarrow> 0
           | Some (eh, em) \<Rightarrow>
               (let d = (eh - sh) * hour + (em - sm) * minute in if d \<le> 0 then d + 24 * hour else d)))"

definition earliestOccurrence :: "time \<Rightarrow> int \<Rightarrow> int \<Rightarrow> zone \<Rightarrow> time" where
  "earliestOccurrence day h m z =
     (let t = time_Date z (local_day z day) (h * 3600 + m * 60) 0;
          prev = t - hour
      in if sec_of_day z prev div 3600 = sec_of_day z t div 3600 \<and>
            sec_of_day z prev mod 3600 div 60 = sec_of_day z t mod 3600 div 60
         then prev else t)"

definition windowOccurrence :: "window \<Rightarrow> time \<Rightarrow> zone \<Rightarrow> time \<times> time" where
  "windowOccurrence w day z =
     (case parseHHMM (w_StartTime w) of
        None \<Rightarrow> (zero_time, zero_time)
      | Some (sh, sm) \<Rightarrow>
          (let d = windowDuration w in
           if d \<le> 0 then (zero_time, zero_time)
           else let start = earliestOccurrence day sh sm z in (start, start + d)))"

text \<open>The loop of \<open>windowActive\<close> over today and yesterday.\<close>

fun active_on :: "window \<Rightarrow> time \<Rightarrow> zone \<Rightarrow> int list \<Rightarrow> bool result" where
  "active_on w moment z [] = Inr False"
| "active_on w moment z (k # ks) =
     (let day = add_days z moment k in
      if day_weekday (local_day z day) \<noteq> w_Weekday w then active_on w moment z ks
      else case windowOccurrence w day z of (start, fin) \<Rightarrow>
        if start = zero_time then Inl (ErrMsg ''cannot resolve occurrence'')
        else if start \<le> moment \<and> moment < fin then Inr True
        else active_on w moment z ks)"

definition windowActive :: "tzdata \<Rightarrow> window \<Rightarrow> time \<Rightarrow> bool result" where
  "windowActive tz w moment =
     (if \<not> w_Weekly w then
        (case w_StartsAt w of
           None \<Rightarrow> Inr False
         | Some s \<Rightarrow> (case w_EndsAt w of None \<Rightarrow> Inr (s \<le> moment) | Some e \<Rightarrow> Inr (s \<le> moment \<and> moment < e)))
      else case tz (w_Timezone w) of
             None \<Rightarrow> Inl (ErrMsg ''unknown time zone'')
           | Some z \<Rightarrow> active_on w moment z [0, - 1])"

fun any_active :: "tzdata \<Rightarrow> window list \<Rightarrow> time \<Rightarrow> bool result" where
  "any_active tz [] moment = Inr False"
| "any_active tz (w # ws) moment =
     (case windowActive tz w moment of
        Inl e \<Rightarrow> Inl e
      | Inr True \<Rightarrow> Inr True
      | Inr False \<Rightarrow> any_active tz ws moment)"

definition InMaintenance :: "tzdata \<Rightarrow> int \<Rightarrow> time \<Rightarrow> bool result prog" where
  "InMaintenance tz projectID moment =
     do {
       r \<leftarrow> Windows projectID;
       State_Monad.return (case r of Inl e \<Rightarrow> Inl e | Inr ws \<Rightarrow> any_active tz ws moment)
     }"

text \<open>\<open>Interval\<close> of \<open>query.go\<close>: from (inclusive) and to (exclusive).\<close>

type_synonym interval = "time \<times> time"

definition clipInterval :: "time \<Rightarrow> time \<Rightarrow> time \<Rightarrow> time \<Rightarrow> interval option" where
  "clipInterval start fin lo hi =
     (let s = (if start < lo then lo else start); e = (if hi < fin then hi else fin)
      in if s < e then Some (s, e) else None)"

definition floorToDay :: "time \<Rightarrow> zone \<Rightarrow> time" where
  "floorToDay t z = time_Date z (local_day z t) 0 0"

text \<open>
  The loop of \<open>windowIntervalsOne\<close> over the days; \<open>None\<close> where it would not end (a location
  whose offsets keep the day from moving on).
\<close>

definition day_interval :: "window \<Rightarrow> zone \<Rightarrow> time \<Rightarrow> time \<Rightarrow> time \<Rightarrow> interval list" where
  "day_interval w z lo hi cur =
     (if day_weekday (local_day z cur) \<noteq> w_Weekday w then []
      else case windowOccurrence w cur z of (start, fin) \<Rightarrow>
        if start = zero_time then []
        else (case clipInterval start fin lo hi of None \<Rightarrow> [] | Some iv \<Rightarrow> [iv]))"

partial_function (option) day_loop ::
  "window \<Rightarrow> zone \<Rightarrow> time \<Rightarrow> time \<Rightarrow> time \<Rightarrow> time \<Rightarrow> interval list option" where
  "day_loop w z lo hi fin cur =
     (if fin < cur then Some []
      else Option.bind (day_loop w z lo hi fin (add_days z cur 1))
             (\<lambda>rest. Some (day_interval w z lo hi cur @ rest)))"

declare day_loop.simps [code]

definition windowIntervalsOne :: "tzdata \<Rightarrow> window \<Rightarrow> time \<Rightarrow> time \<Rightarrow> interval list option" where
  "windowIntervalsOne tz w lo hi =
     (if \<not> w_Weekly w then
        (case w_StartsAt w of
           None \<Rightarrow> Some []
         | Some s \<Rightarrow>
             (let e = (case w_EndsAt w of None \<Rightarrow> hi | Some e \<Rightarrow> e) in
              case clipInterval s e lo hi of None \<Rightarrow> Some [] | Some iv \<Rightarrow> Some [iv]))
      else case tz (w_Timezone w) of
             None \<Rightarrow> Some []
           | Some z \<Rightarrow>
               day_loop w z lo hi (add_days z (floorToDay hi z) 1) (add_days z (floorToDay lo z) (- 1)))"

fun WindowIntervals :: "tzdata \<Rightarrow> window list \<Rightarrow> time \<Rightarrow> time \<Rightarrow> interval list option" where
  "WindowIntervals tz [] lo hi = Some []"
| "WindowIntervals tz (w # ws) lo hi =
     Option.bind (windowIntervalsOne tz w lo hi)
       (\<lambda>ivs. Option.bind (WindowIntervals tz ws lo hi) (\<lambda>rest. Some (ivs @ rest)))"

abbreviation day :: duration where "day \<equiv> 86400000000000"

text \<open>A window on Saturdays, for the evaluations.\<close>

definition ex_weekly :: window where
  "ex_weekly = \<lparr>w_ID = 0, w_ProjectID = 1, w_Name = ''n'', w_Weekly = True, w_StartsAt = None, w_EndsAt = None, w_Weekday = 6,
     w_StartTime = ''9:00'', w_EndTime = ''10:30'', w_Timezone = ''Z''\<rparr>"

subsection \<open>Clock times as text\<close>

lemma digit_char:
  assumes "0 \<le> k" and "k < (10::int)"
  shows "is_digit (char_of (48 + nat k))" and "digit_value (char_of (48 + nat k)) = k"
  using assms by (simp_all add: is_digit_def digit_value_def)

lemma pad2_digits:
  assumes "0 \<le> n" and "n < 100"
  shows "pad2 n = [char_of (48 + nat (n div 10)), char_of (48 + nat (n mod 10))]"
proof (cases "n < 10")
  case True
  then have "dec_digits (nat n) = [char_of (48 + nat n)]" using assms True by (subst dec_digits.simps) (simp add: nat_less_iff)
  moreover have "(CHR ''0'') = char_of (48 :: nat)" by code_simp
  ultimately show ?thesis using True assms by (simp add: pad2_def itoa_def)
next
  case False
  then have "dec_digits (nat n) = dec_digits (nat n div 10) @ [char_of (48 + nat n mod 10)]"
    using assms by (subst dec_digits.simps) (simp add: nat_less_iff)
  moreover have "dec_digits (nat n div 10) = [char_of (48 + nat n div 10)]"
    using assms by (subst dec_digits.simps) auto
  ultimately show ?thesis using False assms by (simp add: pad2_def itoa_def nat_div_distrib nat_mod_distrib)
qed

lemma getnum_pad2: "0 \<le> n \<Longrightarrow> n < 100 \<Longrightarrow> getnum (pad2 n @ r) fixed = Some (n, r)"
proof -
  assume n: "0 \<le> n" "n < 100"
  have d: "0 \<le> n div 10" "n div 10 < 10" "0 \<le> n mod 10" "n mod 10 < 10" using n by auto
  show ?thesis by (simp add: pad2_digits [OF n] digit_char [OF d(1,2)] digit_char [OF d(3,4)])
qed

lemma parseHHMM_range: "parseHHMM s = Some (h, m) \<Longrightarrow> 0 \<le> h \<and> h < 24 \<and> 0 \<le> m \<and> m < 60"
proof -
  have nonneg: "0 \<le> n" if "getnum t fixed = Some (n, r)" for t fixed n r
    using that by (induction t fixed rule: getnum.induct)
      (auto simp: is_digit_def digit_value_def split: if_splits)
  assume "parseHHMM s = Some (h, m)"
  then show ?thesis using nonneg by (auto simp: parseHHMM_def split: option.splits if_splits list.splits)
qed

lemma parse_print_hhmm: "0 \<le> h \<Longrightarrow> h < 24 \<Longrightarrow> 0 \<le> m \<Longrightarrow> m < 60 \<Longrightarrow> parseHHMM (pad2 h @ '':'' @ pad2 m) = Some (h, m)"
  using getnum_pad2 [of h "'':'' @ pad2 m" False] getnum_pad2 [of m "[]" True] by (simp add: parseHHMM_def)

text \<open>The stored time of day, read back, is the same time of day.\<close>

lemma stored_time: "parseHHMM s = Some (h, m) \<Longrightarrow> parseHHMM (pgTimeToHHMM (hhmmToPgTime s)) = Some (h, m)"
proof -
  assume p: "parseHHMM s = Some (h, m)"
  note r = parseHHMM_range [OF p]
  have "quot ((h * 60 + m) * 60000000) 60000000 = h * 60 + m" using r by (simp add: quot_nonneg)
  moreover have "quot (h * 60 + m) 60 = h" using r by (simp add: quot_nonneg)
  ultimately have "pgTimeToHHMM (hhmmToPgTime s) = pad2 h @ '':'' @ pad2 m"
    by (simp add: p hhmmToPgTime_def pgTimeToHHMM_def Let_def)
  then show ?thesis using parse_print_hhmm r by simp
qed

lemma windowActive_cong:
  assumes "w_Weekly v = w_Weekly w" and "w_Timezone v = w_Timezone w"
    and "\<not> w_Weekly w \<Longrightarrow> w_StartsAt v = w_StartsAt w \<and> w_EndsAt v = w_EndsAt w"
    and "w_Weekly w \<Longrightarrow> w_Weekday v = w_Weekday w \<and> parseHHMM (w_StartTime v) = parseHHMM (w_StartTime w) \<and>
           parseHHMM (w_EndTime v) = parseHHMM (w_EndTime w)"
  shows "windowActive tz v moment = windowActive tz w moment"
proof (cases "w_Weekly w")
  case True
  have eqs: "parseHHMM (w_StartTime v) = parseHHMM (w_StartTime w)" "parseHHMM (w_EndTime v) = parseHHMM (w_EndTime w)"
    using assms(4) [OF True] by simp_all
  have dur: "windowDuration v = windowDuration w" unfolding windowDuration_def eqs ..
  have "windowOccurrence v day z = windowOccurrence w day z" for day z unfolding windowOccurrence_def eqs dur ..
  then have "active_on v moment z ks = active_on w moment z ks" for z ks
    using assms(4) [OF True] by (induction ks) (simp_all add: Let_def split: prod.splits)
  then show ?thesis using True assms(1,2) by (simp add: windowActive_def del: active_on.simps split: option.splits)
qed (use assms(1,3) in \<open>simp add: windowActive_def split: option.splits\<close>)

definition windows_wf :: "db \<Rightarrow> bool" where
  "windows_wf d \<longleftrightarrow> distinct (map wr_id (t_windows d)) \<and> (\<forall>i \<in> set (map wr_id (t_windows d)). i < t_window_seq d)"

lemma scan_stored:
  assumes "validateWindow tz w = None"
  shows "windowActive tz (scanWindow (set_schedule w (new_window_row i p))) moment = windowActive tz w moment"
  using assms
  by (intro windowActive_cong)
     (auto simp: scanWindow_def set_schedule_def new_window_row_def validateWindow_def
       intro!: stored_time split: if_splits)

text \<open>
  A maintenance window that was created is listed for its project after the ones that
  were there, with the id that was reported and the name, kind and time zone given, and it
  covers exactly the same instants as the window that was given, although its clock times
  were stored as numbers and printed again.
\<close>

theorem CreateWindow_Windows_roundtrip:
  assumes "windows_wf (db s)" and "sched s = []" and "run_state (CreateWindow tz w) s = (Inr w1, s1)"
  shows "\<exists>w2. run_state (Windows (w_ProjectID w)) s1 = (Inr (windows_of (w_ProjectID w) (db s) @ [w2]), s1) \<and>
     w_ID w2 = w_ID w1 \<and> w_ProjectID w2 = w_ProjectID w \<and> w_Name w2 = w_Name w \<and> w_Weekly w2 = w_Weekly w \<and>
     w_Timezone w2 = w_Timezone w \<and> (\<forall>moment. windowActive tz w2 moment = windowActive tz w moment)"
proof -
  have v: "validateWindow tz w = None" using assms(3) by (auto simp: CreateWindow_def split: option.splits)
  let ?r = "set_schedule w (new_window_row (t_window_seq (db s)) (w_ProjectID w))"
  have s1: "s1 = s\<lparr>db := (db s)\<lparr>t_windows := t_windows (db s) @ [?r], t_window_seq := t_window_seq (db s) + 1\<rparr>\<rparr>"
    and w1: "w1 = w\<lparr>w_ID := t_window_seq (db s)\<rparr>"
    using assms(2,3) v by (auto simp: CreateWindow_def)
  have "sort_key wr_id (rows @ [?r]) = sort_key wr_id rows @ [?r]" if "set rows \<subseteq> set (t_windows (db s))" for rows
    using that assms(1)
    by (intro sort_key_snoc) (auto simp: windows_wf_def set_schedule_def new_window_row_def intro!: less_imp_le)
  then have "windows_of (w_ProjectID w) (db s1) = windows_of (w_ProjectID w) (db s) @ [scanWindow ?r]"
    by (simp add: s1 windows_of_def set_schedule_def new_window_row_def)
  then show ?thesis
    using assms(2) scan_stored [OF v] by (intro exI [of _ "scanWindow ?r"])
      (simp add: Windows_def s1 w1, simp add: scanWindow_def set_schedule_def new_window_row_def)
qed

theorem CreateWindow_Windows_roundtrip_witness:
  "\<exists>w2. fst (run_state (Windows 1) (snd (run_state (CreateWindow (\<lambda>_. Some (3600, [])) ex_weekly) (calm 5 ex_db)))) = Inr [w2] \<and>
     w_ID w2 = 1 \<and> windowActive (\<lambda>_. Some (3600, [])) w2 201600000000000 = Inr True"
proof -
  let ?tz = "\<lambda>_. Some (3600, [])"
  let ?run = "run_state (CreateWindow ?tz ex_weekly) (calm 5 ex_db)"
  have wf: "windows_wf (db (calm 5 ex_db))" by code_simp
  have run: "?run = (Inr (ex_weekly\<lparr>w_ID := 1\<rparr>), snd ?run)" by code_simp
  have act: "windowActive ?tz ex_weekly 201600000000000 = Inr True" and p: "w_ProjectID ex_weekly = 1"
    and none: "windows_of 1 (db (calm 5 ex_db)) = []" by code_simp+
  show ?thesis using CreateWindow_Windows_roundtrip [OF wf _ run] unfolding p none by (auto simp: act simp del: One_nat_def)
qed

text \<open>
  Writes of windows stay inside their project: updating or deleting a window under one
  project changes no window of another project and none with another id, whatever faults
  the statement meets; a window that fails the validation changes nothing at all.
\<close>

theorem window_writes_stay_in_project:
  assumes "run_state (if upd then UpdateWindow tz w else DeleteWindow (w_ID w) (w_ProjectID w)) s = (e, s')"
  shows "filter (\<lambda>r. wr_project r \<noteq> w_ProjectID w \<or> wr_id r \<noteq> w_ID w) (t_windows (db s')) =
           filter (\<lambda>r. wr_project r \<noteq> w_ProjectID w \<or> wr_id r \<noteq> w_ID w) (t_windows (db s)) \<and>
         (upd \<and> validateWindow tz w \<noteq> None \<longrightarrow> s' = s \<and> e = validateWindow tz w)"
proof -
  let ?p = "\<lambda>r. wr_project r \<noteq> w_ProjectID w \<or> wr_id r \<noteq> w_ID w"
  let ?hit = "\<lambda>r. wr_id r = w_ID w \<and> wr_project r = w_ProjectID w"
  have keep: "filter ?p (sql_update ?hit (set_schedule w) rows) = filter ?p rows" for rows
    by (induction rows) (auto simp: sql_update_def set_schedule_def)
  have kept: "filter ?p (sql_delete ?hit rows) = filter ?p rows" for rows
    by (induction rows) (auto simp: sql_delete_def)
  have "guar (on_db (same_rel (\<lambda>d. filter ?p (t_windows d))))
      (if upd then UpdateWindow tz w else DeleteWindow (w_ID w) (w_ProjectID w))"
    unfolding UpdateWindow_def DeleteWindow_def Let_def
    by (intro guar guar_case_option) (simp_all add: same_rel_def keep [simplified] kept [simplified])
  from guarD [OF this, of s] assms show ?thesis
    by (auto simp: on_db_def same_rel_def UpdateWindow_def split: if_splits)
qed

theorem window_writes_stay_in_project_witness:
  "let d = ex_db\<lparr>t_windows := [set_schedule ex_weekly (new_window_row 1 1), set_schedule ex_weekly (new_window_row 2 5)]\<rparr>;
       s' = snd (run_state (DeleteWindow 2 1) (calm 5 d))
   in filter (\<lambda>r. wr_project r \<noteq> 1 \<or> wr_id r \<noteq> 2) (t_windows (db s')) = t_windows d"
proof -
  let ?d = "ex_db\<lparr>t_windows := [set_schedule ex_weekly (new_window_row 1 1), set_schedule ex_weekly (new_window_row 2 5)]\<rparr>"
  let ?run = "run_state (DeleteWindow 2 1) (calm 5 ?d)"
  have "filter (\<lambda>r. wr_project r \<noteq> 1 \<or> wr_id r \<noteq> 2) (t_windows ?d) = t_windows ?d" by code_simp
  then show ?thesis
    using window_writes_stay_in_project [of False "\<lambda>_. None" "ex_weekly\<lparr>w_ID := 2\<rparr>" "calm 5 ?d" "fst ?run" "snd ?run"]
    by (simp add: Let_def ex_weekly_def)
qed

subsection \<open>Weekly windows in a zone without transitions\<close>

lemma fixed_zone [simp]:
  "zone_offset (off, []) t = off"
  "time_Date (off, []) d sod n = (d * 86400 + sod - off) * second + n"
  by (simp_all add: zone_offset_def zone_lookup_def time_Date_def Let_def)

lemma add_days_fixed [simp]: "add_days (off, []) t k = t + k * day"
proof -
  have "local_day (off, []) t * 86400 + sec_of_day (off, []) t = t div second + off"
    unfolding local_day_def sec_of_day_def local_sec_def fixed_zone by (rule div_mult_mod_eq)
  then have "(local_day (off, []) t + k) * 86400 + sec_of_day (off, []) t - off = t div second + k * 86400" by simp
  then have "add_days (off, []) t k = (t div second + k * 86400) * second + t mod second"
    by (simp only: add_days_def fixed_zone)
  then show ?thesis using div_mult_mod_eq [of t second] by (simp add: algebra_simps)
qed

lemma local_day_fixed: "local_day (off, []) t = (t + off * second) div day"
proof -
  have "(t + off * second) div day = (t + off * second) div second div 86400" by (simp add: zdiv_zmult2_eq)
  also have "(t + off * second) div second = t div second + off" by simp
  finally show ?thesis by (simp add: local_day_def local_sec_def)
qed

text \<open>The start of the occurrence on civil day \<open>d\<close>, and the plain meaning of a schedule.\<close>

definition occurrence_start :: "window \<Rightarrow> int \<Rightarrow> int \<Rightarrow> time" where
  "occurrence_start w off d =
     (case parseHHMM (w_StartTime w) of None \<Rightarrow> 0 | Some (h, m) \<Rightarrow> (d * 86400 + h * 3600 + m * 60 - off) * second)"

definition window_covers :: "window \<Rightarrow> int \<Rightarrow> time \<Rightarrow> bool" where
  "window_covers w off moment \<longleftrightarrow>
     (if w_Weekly w then
        (\<exists>d. day_weekday d = w_Weekday w \<and> occurrence_start w off d \<le> moment \<and>
           moment < occurrence_start w off d + windowDuration w)
      else (case w_StartsAt w of None \<Rightarrow> False
            | Some s \<Rightarrow> s \<le> moment \<and> (case w_EndsAt w of None \<Rightarrow> True | Some e \<Rightarrow> moment < e)))"

lemma earliestOccurrence_fixed:
  assumes "0 \<le> h" "h < 24" "0 \<le> m" "m < 60"
  shows "earliestOccurrence t h m (off, []) = (local_day (off, []) t * 86400 + h * 3600 + m * 60 - off) * second"
proof -
  let ?t = "(local_day (off, []) t * 86400 + (h * 3600 + m * 60) - off) * second"
  have "sec_of_day (off, []) ?t = (h * 3600 + m * 60) mod 86400"
    by (simp add: sec_of_day_def local_sec_def mult.commute)
  then have sod: "sec_of_day (off, []) ?t = h * 3600 + m * 60" using assms by simp
  have "?t - hour = (local_day (off, []) t * 86400 + (h * 3600 + m * 60 - 3600) - off) * second" by simp
  then have prev: "sec_of_day (off, []) (?t - hour) = (h * 3600 + m * 60 - 3600) mod 86400"
    by (simp only: sec_of_day_def local_sec_def fixed_zone) (simp add: mult.commute)
  have "(h * 3600 + m * 60 - 3600) mod 86400 div 3600 \<noteq> h"
  proof (cases "h = 0")
    case True
    then have "(h * 3600 + m * 60 - 3600) mod 86400 = m * 60 - 3600 + 86400"
      using assms mod_pos_pos_trivial [of "m * 60 - 3600 + 86400" 86400] mod_add_self2 [of "m * 60 - 3600" 86400] by simp
    then show ?thesis using True assms by simp
  next
    case False
    then have "(h * 3600 + m * 60 - 3600) mod 86400 = h * 3600 + m * 60 - 3600" using assms by simp
    then show ?thesis using assms by simp
  qed
  then show ?thesis
    using sod prev assms by (simp add: earliestOccurrence_def Let_def add.assoc)
qed

lemma windowDuration_range:
  assumes "parseHHMM (w_StartTime w) = Some a" and "parseHHMM (w_EndTime w) = Some b"
  shows "0 < windowDuration w \<and> windowDuration w \<le> day"
proof -
  obtain sh sm eh em where ab: "a = (sh, sm)" "b = (eh, em)" by (cases a; cases b)
  have "0 \<le> sh" "sh < 24" "0 \<le> sm" "sm < 60" "0 \<le> eh" "eh < 24" "0 \<le> em" "em < 60"
    using parseHHMM_range assms ab by blast+
  then show ?thesis by (simp add: windowDuration_def assms ab Let_def)
qed

lemma validated_weekly:
  assumes "validateWindow tz w = None" and "w_Weekly w"
  obtains a b where "parseHHMM (w_StartTime w) = Some a" and "parseHHMM (w_EndTime w) = Some b"
  using assms by (auto simp: validateWindow_def split: if_splits)

lemma occurrence_fixed:
  assumes "validateWindow tz w = None" and "w_Weekly w"
  shows "windowOccurrence w t (off, []) =
    (occurrence_start w off (local_day (off, []) t), occurrence_start w off (local_day (off, []) t) + windowDuration w)"
proof -
  obtain a b where ab: "parseHHMM (w_StartTime w) = Some a" "parseHHMM (w_EndTime w) = Some b"
    using assms by (rule validated_weekly)
  obtain h m where a: "a = (h, m)" by (cases a)
  show ?thesis
    using windowDuration_range [OF ab] parseHHMM_range [of "w_StartTime w" h m] ab(1)
    by (simp add: windowOccurrence_def occurrence_start_def a Let_def earliestOccurrence_fixed)
qed

lemma occurrence_start_bounds:
  assumes "parseHHMM (w_StartTime w) = Some a"
  shows "(d * 86400 - off) * second \<le> occurrence_start w off d" and "occurrence_start w off d < ((d + 1) * 86400 - off) * second"
proof -
  obtain h m where a: "a = (h, m)" by (cases a)
  have "0 \<le> h" "h < 24" "0 \<le> m" "m < 60" using parseHHMM_range assms a by blast+
  then show "(d * 86400 - off) * second \<le> occurrence_start w off d" "occurrence_start w off d < ((d + 1) * 86400 - off) * second"
    by (simp_all add: occurrence_start_def assms a)
qed

text \<open>An occurrence that covers an instant is of that instant's day or the day before.\<close>

lemma covering_day:
  assumes "validateWindow tz w = None" and "w_Weekly w"
    and "occurrence_start w off d \<le> moment" and "moment < occurrence_start w off d + windowDuration w"
  shows "d = local_day (off, []) moment \<or> d = local_day (off, []) moment - 1"
proof -
  obtain a b where ab: "parseHHMM (w_StartTime w) = Some a" "parseHHMM (w_EndTime w) = Some b"
    using assms(1,2) by (rule validated_weekly)
  have "d * day \<le> moment + off * second" "moment + off * second < (d + 2) * day"
    using occurrence_start_bounds [OF ab(1), where d = d and off = off] windowDuration_range [OF ab] assms(3,4)
    by (simp_all add: algebra_simps)
  then have "d \<le> (moment + off * second) div day" "(moment + off * second) div day < d + 2"
    by (simp_all add: zdiv_mono1 div_less_iff_less_mult less_eq_div_iff_mult_less_eq mult.commute)
  then show ?thesis by (auto simp: local_day_fixed)
qed
lemma active_on_fixed:
  assumes "validateWindow tz w = None" and "w_Weekly w" and "0 \<le> moment" and "abs off \<le> 86400" and "- 2 \<le> k" "k \<le> 0"
  shows "active_on w moment (off, []) (k # ks) =
    (let d = local_day (off, []) moment + k in
     if day_weekday d = w_Weekday w \<and> occurrence_start w off d \<le> moment \<and> moment < occurrence_start w off d + windowDuration w
     then Inr True else active_on w moment (off, []) ks)"
proof -
  obtain a b where ab: "parseHHMM (w_StartTime w) = Some a" "parseHHMM (w_EndTime w) = Some b"
    using assms(1,2) by (rule validated_weekly)
  have ld: "local_day (off, []) (moment + k * day) = local_day (off, []) moment + k"
    by (simp add: local_day_fixed algebra_simps)
  let ?d = "local_day (off, []) moment + k"
  have "- 1 \<le> (moment + off * second) div day"
    using assms(3,4) zdiv_mono1 [of "- day" "moment + off * second" day] by (simp add: abs_le_iff)
  then have "- 3 \<le> ?d" using assms(5) by (simp add: local_day_fixed)
  then have "occurrence_start w off ?d \<noteq> zero_time"
    using occurrence_start_bounds(1) [OF ab(1), where d = ?d and off = off] assms(4) by (simp add: abs_le_iff)
  then show ?thesis
    by (simp add: ld occurrence_fixed [OF assms(1,2)] Let_def)
qed

lemma weekly_active_fixed:
  assumes "validateWindow tz w = None" and "w_Weekly w" and "0 \<le> moment" and "abs off \<le> 86400"
    and "tz (w_Timezone w) = Some (off, [])"
  shows "windowActive tz w moment = Inr (window_covers w off moment)"
proof -
  let ?P = "\<lambda>d. day_weekday d = w_Weekday w \<and> occurrence_start w off d \<le> moment \<and> moment < occurrence_start w off d + windowDuration w"
  let ?l = "local_day (off, []) moment"
  have "(\<exists>d. ?P d) \<longleftrightarrow> ?P ?l \<or> ?P (?l - 1)" using covering_day [OF assms(1,2)] by blast
  then show ?thesis
    using assms(2,5) active_on_fixed [OF assms(1-4), of 0 "[- 1]"] active_on_fixed [OF assms(1-4), of "- 1" "[]"]
    by (simp add: windowActive_def window_covers_def Let_def)
qed

text \<open>
  In a zone without transitions a validated window means what it says: an instant (not
  before 1970) is inside a one-off window from its start up to but not including its end,
  and inside a weekly window when it lies in the occurrence that starts at the given clock
  time on some day of the given weekday and lasts until the next time the end clock time
  is reached, up to 24 hours later; looking at today and yesterday is enough.
\<close>

theorem windowActive_meaning:
  assumes "validateWindow tz w = None" and "tz (w_Timezone w) = Some (off, [])" and "abs off \<le> 86400" and "0 \<le> moment"
  shows "windowActive tz w moment = Inr (window_covers w off moment)"
proof (cases "w_Weekly w")
  case True
  then show ?thesis using weekly_active_fixed assms by simp
next
  case False
  then show ?thesis by (simp add: windowActive_def window_covers_def split: option.splits)
qed

theorem windowActive_meaning_witness:
  "window_covers ex_weekly 3600 (2 * day + 8 * hour) \<and> \<not> window_covers ex_weekly 3600 (2 * day + 10 * hour)"
proof -
  let ?tz = "\<lambda>_. Some (3600, [])"
  have v: "validateWindow ?tz ex_weekly = None" and "windowActive ?tz ex_weekly (2 * day + 8 * hour) = Inr True"
    and "windowActive ?tz ex_weekly (2 * day + 10 * hour) = Inr False" by code_simp+
  then show ?thesis
    using windowActive_meaning [OF v, of 3600 "2 * day + 8 * hour"] windowActive_meaning [OF v, of 3600 "2 * day + 10 * hour"] by simp
qed

lemma day_loop_fixed:
  "\<exists>ivs. day_loop w (off, []) lo hi fin cur = Some ivs \<and>
     (\<forall>iv. iv \<in> set ivs \<longleftrightarrow> (\<exists>k::nat. cur + int k * day \<le> fin \<and> iv \<in> set (day_interval w (off, []) lo hi (cur + int k * day))))"
proof (induction "nat (fin - cur + day)" arbitrary: cur rule: less_induct)
  case less
  show ?case
  proof (cases "fin < cur")
    case True
    then have "\<not> cur + int k * day \<le> fin" for k :: nat by (simp add: not_le add_strict_increasing)
    then show ?thesis using True by (simp add: day_loop.simps [of _ _ _ _ _ cur])
  next
    case False
    have ex: "(\<exists>k::nat. Q k) \<longleftrightarrow> Q 0 \<or> (\<exists>k. Q (Suc k))" for Q by (metis not0_implies_Suc)
    obtain ivs where ivs: "day_loop w (off, []) lo hi fin (cur + day) = Some ivs"
      "\<And>iv. iv \<in> set ivs \<longleftrightarrow> (\<exists>k::nat. cur + day + int k * day \<le> fin \<and> iv \<in> set (day_interval w (off, []) lo hi (cur + day + int k * day)))"
      using less [of "cur + day"] False by force
    have shift: "cur + day + int k * day = cur + int (Suc k) * day" for k by (simp add: algebra_simps)
    have "day_loop w (off, []) lo hi fin cur = Some (day_interval w (off, []) lo hi cur @ ivs)"
      using False ivs(1) by (simp add: day_loop.simps [of _ _ _ _ _ cur])
    moreover have "iv \<in> set (day_interval w (off, []) lo hi cur @ ivs) \<longleftrightarrow>
        (\<exists>k::nat. cur + int k * day \<le> fin \<and> iv \<in> set (day_interval w (off, []) lo hi (cur + int k * day)))" for iv
      using False by (subst ex) (auto simp: ivs(2) shift simp del: of_nat_Suc)
    ultimately show ?thesis by blast
  qed
qed

lemma clip_contains:
  assumes "lo \<le> moment" and "moment < hi"
  shows "(case clipInterval s e lo hi of None \<Rightarrow> False | Some (a, b) \<Rightarrow> a \<le> moment \<and> moment < b) \<longleftrightarrow> s \<le> moment \<and> moment < e"
  using assms by (auto simp: clipInterval_def Let_def)
lemma weekly_intervals_fixed:
  assumes "validateWindow tz w = None" and "w_Weekly w" and "tz (w_Timezone w) = Some (off, [])"
    and "abs off \<le> 86400" and "0 \<le> moment" and "lo \<le> moment" and "moment < hi"
  shows "\<exists>ivs. windowIntervalsOne tz w lo hi = Some ivs \<and>
     ((\<exists>(a, b) \<in> set ivs. a \<le> moment \<and> moment < b) \<longleftrightarrow> window_covers w off moment)"
proof -
  let ?z = "(off, [])"
  let ?cur = "floorToDay lo ?z - day" and ?fin = "floorToDay hi ?z + day"
  obtain a b where ab: "parseHHMM (w_StartTime w) = Some a" "parseHHMM (w_EndTime w) = Some b"
    using assms(1,2) by (rule validated_weekly)
  obtain ivs where ivs: "day_loop w ?z lo hi ?fin ?cur = Some ivs"
    "\<And>iv. iv \<in> set ivs \<longleftrightarrow> (\<exists>k::nat. ?cur + int k * day \<le> ?fin \<and> iv \<in> set (day_interval w ?z lo hi (?cur + int k * day)))"
    using day_loop_fixed [of w off lo hi ?fin ?cur] by blast
  have cur: "?cur + int k * day = ((local_day ?z lo - 1 + int k) * 86400 - off) * second" for k :: nat
    by (simp add: floorToDay_def algebra_simps)
  have fin: "?fin = ((local_day ?z hi + 1) * 86400 - off) * second" by (simp add: floorToDay_def algebra_simps)
  have ld: "local_day ?z ((d * 86400 - off) * second) = d" for d by (simp add: local_day_fixed algebra_simps)
  let ?P = "\<lambda>d. day_weekday d = w_Weekday w \<and> occurrence_start w off d \<le> moment \<and> moment < occurrence_start w off d + windowDuration w"
  have di: "(\<exists>(a, b) \<in> set (day_interval w ?z lo hi ((d * 86400 - off) * second)). a \<le> moment \<and> moment < b) \<longleftrightarrow>
      ?P d \<and> occurrence_start w off d \<noteq> zero_time" for d
    using clip_contains [OF assms(6,7), of "occurrence_start w off d" "occurrence_start w off d + windowDuration w"]
    unfolding day_interval_def occurrence_fixed [OF assms(1,2)] ld by (auto split: option.splits)
  have nz: "occurrence_start w off d \<noteq> zero_time" if "?P d" for d
    using that windowDuration_range [OF ab] assms(5) by auto
  have mono: "local_day ?z lo \<le> local_day ?z moment" "local_day ?z moment \<le> local_day ?z hi"
    using assms(6,7) by (simp_all add: local_day_fixed zdiv_mono1)
  have "(\<exists>(a, b) \<in> set ivs. a \<le> moment \<and> moment < b) \<longleftrightarrow> (\<exists>d. ?P d)" (is "?L \<longleftrightarrow> ?R")
  proof
    assume ?L
    then obtain k :: nat where "\<exists>(a, b) \<in> set (day_interval w ?z lo hi (?cur + int k * day)). a \<le> moment \<and> moment < b"
      using ivs(2) by blast
    then show ?R unfolding cur di by blast
  next
    assume ?R
    then obtain d where d: "?P d" by blast
    then have "d = local_day ?z moment \<or> d = local_day ?z moment - 1" using covering_day [OF assms(1,2)] by blast
    then have le: "local_day ?z lo - 1 \<le> d" "d \<le> local_day ?z hi" using mono by auto
    define k where "k = nat (d - (local_day ?z lo - 1))"
    have k: "?cur + int k * day = (d * 86400 - off) * second" unfolding cur k_def using le(1) by simp
    have "?cur + int k * day \<le> ?fin" unfolding k fin using le(2) by simp
    moreover have "\<exists>(a, b) \<in> set (day_interval w ?z lo hi (?cur + int k * day)). a \<le> moment \<and> moment < b"
      unfolding k di using d nz by blast
    ultimately show ?L using ivs(2) by blast
  qed
  then show ?thesis
    using ivs(1) assms(2,3) by (auto simp: windowIntervalsOne_def window_covers_def)
qed

text \<open>
  C22: the two readings of a window agree: in a zone without transitions the loop over the
  days ends, and an instant of the range lies in one of the listed intervals exactly when
  \<open>windowActive\<close> says that the window is active then. So the uptime shown with maintenance
  excluded and the alerts held back by maintenance speak of the same instants.
\<close>

theorem intervals_agree_with_windowActive:
  assumes "validateWindow tz w = None" and "tz (w_Timezone w) = Some (off, [])" and "abs off \<le> 86400"
    and "0 \<le> moment" and "lo \<le> moment" and "moment < hi"
  shows "\<exists>ivs. windowIntervalsOne tz w lo hi = Some ivs \<and>
     (windowActive tz w moment = Inr True \<longleftrightarrow> list_ex (\<lambda>(a, b). a \<le> moment \<and> moment < b) ivs)"
proof -
  have "\<exists>ivs. windowIntervalsOne tz w lo hi = Some ivs \<and>
     ((\<exists>(a, b) \<in> set ivs. a \<le> moment \<and> moment < b) \<longleftrightarrow> window_covers w off moment)"
  proof (cases "w_Weekly w")
    case False
    then obtain s where s: "w_StartsAt w = Some s" using assms(1) by (auto simp: validateWindow_def split: if_splits option.splits)
    let ?e = "case w_EndsAt w of None \<Rightarrow> hi | Some e \<Rightarrow> e"
    show ?thesis
      using False clip_contains [OF assms(5,6), of s ?e] assms(6)
      by (cases "clipInterval s ?e lo hi")
         (auto simp: windowIntervalsOne_def window_covers_def s split: option.splits)
  qed (use weekly_intervals_fixed assms in blast)
  then show ?thesis
    using weekly_active_fixed [of tz w moment off] windowActive_def [of tz w moment] assms
    by (cases "w_Weekly w") (auto simp: window_covers_def list_ex_iff split: option.splits)
qed

theorem intervals_agree_with_windowActive_witness:
  "windowActive (\<lambda>_. Some (3600, [])) ex_weekly (2 * day + 8 * hour) = Inr True"
proof -
  let ?tz = "\<lambda>_. Some (3600, [])"
  have v: "validateWindow ?tz ex_weekly = None" by code_simp
  have ivs: "windowIntervalsOne ?tz ex_weekly day (5 * day) = Some [(2 * day + 8 * hour, 2 * day + 9 * hour + 30 * minute)]"
    by code_simp
  show ?thesis
    using intervals_agree_with_windowActive [OF v, of 3600 "2 * day + 8 * hour" day "5 * day"] ivs by simp
qed

text \<open>
  Two consequences of the code that the comments do not intend: the test for equal clock
  times compares texts, so a window from 9:00 to 09:00 passes and lasts 24 hours; and
  where midnight is skipped west of Greenwich the loop sees the day before twice and
  lists its window twice.
\<close>

lemma same_time_is_compared_as_text:
  "validateWindow (\<lambda>_. Some (0, [])) (ex_weekly\<lparr>w_EndTime := ''09:00''\<rparr>) = None \<and>
   windowDuration (ex_weekly\<lparr>w_EndTime := ''09:00''\<rparr>) = 24 * hour"
  by code_simp

lemma skipped_midnight_lists_twice:
  "map_option length (windowIntervalsOne (\<lambda>_. Some (- 18000, [(10 * 86400 + 18000, - 14400)])) ex_weekly
     (6 * day) (13 * day)) = Some 2"
  by code_simp

end
