(* ===== verification/Uptime_Queue.thy ===== *)
theory Uptime_Queue
  imports Uptime_Monitor
begin

text \<open>
  \<open>internal/uptime/queue.go\<close>, \<open>ingest.go\<close>, \<open>checker.go\<close> and the step of \<open>scheduler.go\<close>: checks are
  put in a queue, leased to the built-in probe or to probes of the organization, and their
  results accepted through one gate, the deletion of the leased row. The properties: one
  row per monitor and region, a lease is exclusive until it expires and expired leases
  are fenced off, a result is applied at most once, probes see only their organization,
  and the exchange formats round trip.
\<close>

subsection \<open>Model: queue.go\<close>

record check_job =
  jb_QueueID :: int
  jb_MonitorID :: int
  jb_Region :: string
  jb_LeaseUntil :: time
  jb_Monitor :: monitor

text \<open>
  \<open>Schedule\<close>: the pairs of due monitors and their regions; a missing \<open>last_scheduled_at\<close> is
  minus infinity. Every candidate draws an id, also one that conflicts.
\<close>

definition schedule_due :: "time \<Rightarrow> monitor \<Rightarrow> bool" where
  "schedule_due now m \<longleftrightarrow> m_enabled m \<and> m_kind m \<noteq> ''heartbeat'' \<and>
     (case m_last_scheduled m of None \<Rightarrow> True | Some t \<Rightarrow> t + m_interval m * second \<le> now)"

definition due_pairs :: "time \<Rightarrow> db \<Rightarrow> (int \<times> string) list" where
  "due_pairs now d = concat (map (\<lambda>m. filter (\<lambda>(i, r). i = m_id m) (t_monitor_regions d))
     (filter (schedule_due now) (t_monitors d)))"

definition enqueue_check :: "time \<Rightarrow> int \<times> string \<Rightarrow> db \<times> int list \<Rightarrow> db \<times> int list" where
  "enqueue_check now p acc =
     (case (p, acc) of ((mid, region), (d, ins)) \<Rightarrow>
       (let d1 = d\<lparr>t_queue_seq := t_queue_seq d + 1\<rparr> in
        if list_ex (\<lambda>q. q_monitor q = mid \<and> q_region q = region) (t_queue d) then (d1, ins)
        else (d1\<lparr>t_queue := t_queue d @ [\<lparr>q_id = t_queue_seq d, q_monitor = mid, q_region = region,
                 q_due = now, q_leased_by = None, q_lease_until = None\<rparr>]\<rparr>, ins @ [mid])))"

definition schedule_checks :: "time \<Rightarrow> db \<Rightarrow> int \<times> db" where
  "schedule_checks now d =
     (case fold (enqueue_check now) (due_pairs now d) (d, []) of (d', ins) \<Rightarrow>
       (int (length ins),
        d'\<lparr>t_monitors := sql_update (\<lambda>m. m_id m \<in> set ins) (\<lambda>m. m\<lparr>m_last_scheduled := Some now\<rparr>) (t_monitors d')\<rparr>))"

definition Schedule :: "int result prog" where
  "Schedule = sql schedule_checks"

text \<open>
  \<open>lease\<close>: rows of the region whose lease is over, of the organization if one is given, by
  \<open>due_at\<close>, at most \<open>limit\<close>; the new lease covers two intervals and all retries.
\<close>

definition org_of_monitor :: "db \<Rightarrow> monitor \<Rightarrow> int option" where
  "org_of_monitor d m = map_of (t_projects d) (m_project m)"

definition lease_free :: "time \<Rightarrow> queue_row \<Rightarrow> bool" where
  "lease_free now q \<longleftrightarrow> (case q_lease_until q of None \<Rightarrow> True | Some t \<Rightarrow> t < now)"

definition leasable :: "string \<Rightarrow> int option \<Rightarrow> time \<Rightarrow> db \<Rightarrow> queue_row \<Rightarrow> bool" where
  "leasable region orgID now d q \<longleftrightarrow>
     q_region q = region \<and> lease_free now q \<and>
     (case orgID of None \<Rightarrow> True
      | Some org \<Rightarrow> list_ex (\<lambda>m. m_id m = q_monitor q \<and> org_of_monitor d m = Some org) (t_monitors d))"

definition lease_length :: "monitor \<Rightarrow> duration" where
  "lease_length m = (m_interval m * 2 + m_retries m * (m_timeout m + 1)) * second"

definition picked_ids :: "string \<Rightarrow> nat \<Rightarrow> int option \<Rightarrow> time \<Rightarrow> db \<Rightarrow> int list" where
  "picked_ids region limit orgID now d =
     map q_id (take limit (sort_key q_due (filter (leasable region orgID now d) (t_queue d))))"

definition monitor_of :: "db \<Rightarrow> int \<Rightarrow> monitor option" where
  "monitor_of d mid = find (\<lambda>m. m_id m = mid) (t_monitors d)"

definition lease_row :: "db \<Rightarrow> int option \<Rightarrow> time \<Rightarrow> queue_row \<Rightarrow> queue_row" where
  "lease_row d probeID now q =
     (case monitor_of d (q_monitor q) of
        None \<Rightarrow> q
      | Some m \<Rightarrow> q\<lparr>q_lease_until := Some (now + lease_length m), q_leased_by := probeID\<rparr>)"

definition job_of :: "db \<Rightarrow> queue_row \<Rightarrow> check_job option" where
  "job_of d q =
     (case (monitor_of d (q_monitor q), q_lease_until q) of
        (Some m, Some t) \<Rightarrow>
          Some \<lparr>jb_QueueID = q_id q, jb_MonitorID = q_monitor q, jb_Region = q_region q, jb_LeaseUntil = t,
                jb_Monitor = m\<lparr>m_region_count := int (length (filter (\<lambda>(i, r). i = m_id m) (t_monitor_regions d)))\<rparr>\<rparr>
      | _ \<Rightarrow> None)"

definition lease_checks ::
  "string \<Rightarrow> nat \<Rightarrow> int option \<Rightarrow> int option \<Rightarrow> time \<Rightarrow> db \<Rightarrow> check_job list \<times> db" where
  "lease_checks region limit probeID orgID now d =
     (let ids = picked_ids region limit orgID now d;
          hit = (\<lambda>q. q_id q \<in> set ids \<and> monitor_of d (q_monitor q) \<noteq> None)
      in (List.map_filter (job_of d) (sort_key q_id (map (lease_row d probeID now) (filter hit (t_queue d)))),
          d\<lparr>t_queue := sql_update hit (lease_row d probeID now) (t_queue d)\<rparr>))"

definition decryptJobs :: "service \<Rightarrow> check_job list \<Rightarrow> check_job list" where
  "decryptJobs s jobs =
     map (\<lambda>j. case decryptMonitorConfig s (jb_Monitor j) of Inl _ \<Rightarrow> j | Inr m \<Rightarrow> j\<lparr>jb_Monitor := m\<rparr>) jobs"

definition lease :: "service \<Rightarrow> string \<Rightarrow> nat \<Rightarrow> int option \<Rightarrow> int option \<Rightarrow> check_job list result prog" where
  "lease s region limit probeID orgID =
     do {
       r \<leftarrow> sql (lease_checks region limit probeID orgID);
       State_Monad.return (case r of Inl e \<Rightarrow> Inl e | Inr jobs \<Rightarrow> Inr (decryptJobs s jobs))
     }"

definition LeaseLocal :: "service \<Rightarrow> string \<Rightarrow> nat \<Rightarrow> check_job list result prog" where
  "LeaseLocal s region limit = lease s region limit None None"

definition LeaseForProbe :: "service \<Rightarrow> probe \<Rightarrow> nat \<Rightarrow> check_job list result prog" where
  "LeaseForProbe s p limit = lease s (p_region p) limit (Some (p_id p)) (Some (p_org p))"

definition leased_to :: "int \<Rightarrow> time \<Rightarrow> db \<Rightarrow> queue_row \<Rightarrow> bool" where
  "leased_to probeID now d q \<longleftrightarrow>
     q_leased_by q = Some probeID \<and> (case q_lease_until q of None \<Rightarrow> False | Some t \<Rightarrow> now < t) \<and>
     (case monitor_of d (q_monitor q) of
        None \<Rightarrow> False
      | Some m \<Rightarrow> list_ex (\<lambda>p. p_id p = probeID \<and> \<not> p_revoked p \<and> org_of_monitor d m = Some (p_org p)) (t_probes d))"

definition LeasedJobs :: "service \<Rightarrow> int list \<Rightarrow> int \<Rightarrow> (int \<rightharpoonup> check_job) result prog" where
  "LeasedJobs s queueIDs probeID =
     do {
       r \<leftarrow> sql_read (\<lambda>now d. List.map_filter (job_of d)
              (filter (\<lambda>q. q_id q \<in> set queueIDs \<and> leased_to probeID now d q) (t_queue d)));
       State_Monad.return
         (case r of Inl e \<Rightarrow> Inl e
          | Inr jobs \<Rightarrow> Inr (map_of (map (\<lambda>j. (jb_QueueID j, j)) (decryptJobs s jobs))))
     }"

definition LeasedJob :: "service \<Rightarrow> int \<Rightarrow> int \<Rightarrow> check_job result prog" where
  "LeasedJob s queueID probeID =
     do {
       r \<leftarrow> LeasedJobs s [queueID] probeID;
       State_Monad.return
         (case r of Inl e \<Rightarrow> Inl e
          | Inr jobs \<Rightarrow> (case jobs queueID of None \<Rightarrow> Inl ErrNotFound | Some j \<Rightarrow> Inr j))
     }"

definition claimed_by :: "(int \<times> time) list \<Rightarrow> queue_row \<Rightarrow> bool" where
  "claimed_by claims q \<longleftrightarrow> (case q_lease_until q of None \<Rightarrow> False | Some t \<Rightarrow> (q_id q, t) \<in> set claims)"

definition ClaimJobs :: "(int \<times> time) list \<Rightarrow> int list result prog" where
  "ClaimJobs claims =
     sql (\<lambda>_ d. (map q_id (filter (claimed_by claims) (t_queue d)),
                 d\<lparr>t_queue := sql_delete (claimed_by claims) (t_queue d)\<rparr>))"

definition ClaimJob :: "int \<Rightarrow> time \<Rightarrow> bool result prog" where
  "ClaimJob queueID leaseUntil =
     sql (\<lambda>_ d. (length (filter (claimed_by [(queueID, leaseUntil)]) (t_queue d)) = 1,
                 d\<lparr>t_queue := sql_delete (claimed_by [(queueID, leaseUntil)]) (t_queue d)\<rparr>))"

definition PendingCount :: "int result prog" where
  "PendingCount = sql_read (\<lambda>_ d. int (length (t_queue d)))"

text \<open>\<open>Scheduler.scheduleOnce\<close>; the state is the time of the last completed scheduling.\<close>

definition scheduleOnce :: "time \<Rightarrow> time prog" where
  "scheduleOnce lastTick =
     do {
       r \<leftarrow> Schedule;
       t \<leftarrow> time_now;
       State_Monad.return (case r of Inl _ \<Rightarrow> lastTick | Inr _ \<Rightarrow> t)
     }"

subsection \<open>Model: checker.go\<close>

record check_result =
  cr_OK :: bool
  cr_StatusCode :: int
  cr_Error :: string
  cr_DNSMs :: int
  cr_ConnectMs :: int
  cr_TLSMs :: int
  cr_TTFBMs :: int
  cr_TotalMs :: int
  cr_BodySize :: int
  cr_SSLExpiresAt :: "time option"

text \<open>
  \<open>checkWithRetries\<close> over any state: one check, and more while it fails, up to \<open>Retries\<close>,
  unless the context is done during the pause before a retry.
\<close>

fun retry_loop :: "nat \<Rightarrow> ('s, check_result) state \<Rightarrow> ('s, bool) state \<Rightarrow> check_result \<Rightarrow> ('s, check_result) state" where
  "retry_loop 0 chk done res = State_Monad.return res"
| "retry_loop (Suc n) chk done res =
     (if cr_OK res then State_Monad.return res
      else do {
        fin \<leftarrow> done;
        if fin then State_Monad.return res
        else do { res' \<leftarrow> chk; retry_loop n chk done res' }
      })"

definition checkWithRetries :: "int \<Rightarrow> ('s, check_result) state \<Rightarrow> ('s, bool) state \<Rightarrow> ('s, check_result) state" where
  "checkWithRetries retries chk done = do { res \<leftarrow> chk; retry_loop (nat retries) chk done res }"

definition msToUint32 :: "duration \<Rightarrow> int" where
  "msToUint32 d =
     (let ms = quot d 1000000 in if ms < 0 then 0 else if ms > 4294967295 then 4294967295 else ms)"

subsection \<open>Model: ingest.go\<close>

record ingestor =
  ig_Writer :: "(int \<Rightarrow> int \<Rightarrow> string \<Rightarrow> time \<Rightarrow> check_result \<Rightarrow> unit prog) option"
  ig_OnResult :: "(monitor \<Rightarrow> string \<Rightarrow> check_result \<Rightarrow> mstate \<Rightarrow> unit prog) option"

definition AcceptClaimed :: "ingestor \<Rightarrow> check_job \<Rightarrow> time \<Rightarrow> check_result \<Rightarrow> error option prog" where
  "AcceptClaimed i j moment r =
     do {
       _ \<leftarrow> (case ig_Writer i of None \<Rightarrow> State_Monad.return ()
             | Some add \<Rightarrow> add (m_project (jb_Monitor j)) (jb_MonitorID j) (jb_Region j) moment r);
       st \<leftarrow> ApplyResult (jb_MonitorID j) (jb_Region j) (cr_OK r) (cr_Error r) moment;
       (case st of
          Inl e \<Rightarrow> State_Monad.return (Some e)
        | Inr s \<Rightarrow>
            do {
              _ \<leftarrow> (case ig_OnResult i of None \<Rightarrow> State_Monad.return ()
                    | Some f \<Rightarrow> f (jb_Monitor j) (jb_Region j) r s);
              State_Monad.return None
            })
     }"

definition Accept :: "ingestor \<Rightarrow> check_job \<Rightarrow> time \<Rightarrow> check_result \<Rightarrow> error option prog" where
  "Accept i j moment r =
     do {
       c \<leftarrow> ClaimJob (jb_QueueID j) (jb_LeaseUntil j);
       (case c of
          Inl e \<Rightarrow> State_Monad.return (Some e)
        | Inr claimed \<Rightarrow>
            if \<not> claimed then State_Monad.return None else AcceptClaimed i j moment r)
     }"

record job_dto =
  jd_QueueID :: int
  jd_MonitorID :: int
  jd_Kind :: string
  jd_Config :: string
  jd_TimeoutSeconds :: int
  jd_Retries :: int

definition NewJobDTO :: "check_job \<Rightarrow> job_dto" where
  "NewJobDTO j = \<lparr>jd_QueueID = jb_QueueID j, jd_MonitorID = jb_MonitorID j, jd_Kind = m_kind (jb_Monitor j),
     jd_Config = m_config (jb_Monitor j), jd_TimeoutSeconds = m_timeout (jb_Monitor j),
     jd_Retries = m_retries (jb_Monitor j)\<rparr>"

definition empty_monitor :: monitor where
  "empty_monitor = \<lparr>m_id = 0, m_project = 0, m_name = '''', m_kind = '''', m_enabled = False, m_interval = 0,
     m_timeout = 0, m_config = '''', m_fail_threshold = 0, m_recovery_threshold = 0, m_retries = 0,
     m_consensus = '''', m_remind_every = 0, m_ssl_alert_days = 0, m_ssl_expires = None, m_last_beat = None,
     m_created = 0, m_region_count = 0, m_regions = [], m_channels = [], m_token_hash = None,
     m_last_scheduled = None, m_ssl_alerted = []\<rparr>"

definition dto_Monitor :: "job_dto \<Rightarrow> monitor" where
  "dto_Monitor j = empty_monitor\<lparr>m_id := jd_MonitorID j, m_kind := jd_Kind j, m_config := jd_Config j,
     m_timeout := jd_TimeoutSeconds j, m_retries := jd_Retries j\<rparr>"

record timings =
  tm_DNS :: int
  tm_Connect :: int
  tm_TLS :: int
  tm_TTFB :: int
  tm_Total :: int

record result_dto =
  rd_QueueID :: int
  rd_OK :: bool
  rd_StatusCode :: int
  rd_Error :: string
  rd_Timings :: timings
  rd_BodySize :: int
  rd_SSLExpiresAt :: "time option"

definition NewResultDTO :: "int \<Rightarrow> check_result \<Rightarrow> result_dto" where
  "NewResultDTO queueID r =
     \<lparr>rd_QueueID = queueID, rd_OK = cr_OK r, rd_StatusCode = cr_StatusCode r, rd_Error = cr_Error r,
      rd_Timings = \<lparr>tm_DNS = cr_DNSMs r, tm_Connect = cr_ConnectMs r, tm_TLS = cr_TLSMs r,
        tm_TTFB = cr_TTFBMs r, tm_Total = cr_TotalMs r\<rparr>,
      rd_BodySize = cr_BodySize r, rd_SSLExpiresAt = cr_SSLExpiresAt r\<rparr>"

definition dto_Result :: "result_dto \<Rightarrow> check_result" where
  "dto_Result r =
     \<lparr>cr_OK = rd_OK r, cr_StatusCode = rd_StatusCode r, cr_Error = rd_Error r,
      cr_DNSMs = tm_DNS (rd_Timings r), cr_ConnectMs = tm_Connect (rd_Timings r),
      cr_TLSMs = tm_TLS (rd_Timings r), cr_TTFBMs = tm_TTFB (rd_Timings r),
      cr_TotalMs = tm_Total (rd_Timings r), cr_BodySize = rd_BodySize r,
      cr_SSLExpiresAt = rd_SSLExpiresAt r\<rparr>"

subsection \<open>Rows and leases only move forward\<close>

definition queue_wf :: "db \<Rightarrow> bool" where
  "queue_wf d \<longleftrightarrow>
     distinct (map q_id (t_queue d)) \<and> (\<forall>i \<in> set (map q_id (t_queue d)). i < t_queue_seq d) \<and>
     distinct (map (\<lambda>q. (q_monitor q, q_region q)) (t_queue d)) \<and>
     (\<forall>m \<in> set (t_monitors d). 0 \<le> lease_length m)"

fun lease_le :: "time option \<Rightarrow> time option \<Rightarrow> bool" where
  "lease_le None b = True"
| "lease_le (Some a) (Some b) = (a \<le> b)"
| "lease_le (Some a) None = False"

lemma lease_le_refl [simp]: "lease_le a a"
  by (cases a) auto

lemma lease_le_trans: "lease_le a b \<Longrightarrow> lease_le b c \<Longrightarrow> lease_le a c"
  by (cases a; cases b; cases c) auto

definition queue_progress :: "db \<Rightarrow> db \<Rightarrow> bool" where
  "queue_progress d d' \<longleftrightarrow> (queue_wf d \<longrightarrow> queue_wf d' \<and> t_queue_seq d \<le> t_queue_seq d' \<and>
     (\<forall>r' \<in> set (t_queue d'). q_id r' < t_queue_seq d \<longrightarrow>
        (\<exists>r \<in> set (t_queue d). q_id r = q_id r' \<and> lease_le (q_lease_until r) (q_lease_until r'))))"

lemma queue_progress_rel [guar]: "reflp queue_progress" "transp queue_progress"
proof -
  show "reflp queue_progress" by (auto simp: reflp_def queue_progress_def)
  show "transp queue_progress"
  proof (rule transpI)
    fix a b c assume ab: "queue_progress a b" and bc: "queue_progress b c"
    show "queue_progress a c"
      unfolding queue_progress_def
    proof (intro impI conjI ballI)
      assume wf: "queue_wf a"
      then have b: "queue_wf b" "t_queue_seq a \<le> t_queue_seq b" using ab by (auto simp: queue_progress_def)
      show "queue_wf c" "t_queue_seq a \<le> t_queue_seq c" using b bc by (auto simp: queue_progress_def)
      fix r assume r: "r \<in> set (t_queue c)" "q_id r < t_queue_seq a"
      then obtain r1 where "r1 \<in> set (t_queue b)" "q_id r1 = q_id r" "lease_le (q_lease_until r1) (q_lease_until r)"
        using bc b by (fastforce simp: queue_progress_def)
      then show "\<exists>x \<in> set (t_queue a). q_id x = q_id r \<and> lease_le (q_lease_until x) (q_lease_until r)"
        using ab wf r(2) lease_le_trans by (fastforce simp: queue_progress_def)
    qed
  qed
qed

lemma progress_enqueue_check: "queue_progress d (fst (enqueue_check now p (d, ins)))"
  by (cases p) (auto simp: queue_progress_def queue_wf_def enqueue_check_def Let_def list_ex_iff)

lemma progress_enqueue_checks: "queue_progress d (fst (fold (enqueue_check now) ps (d, ins)))"
proof (induction ps arbitrary: d ins)
  case Nil
  show ?case using reflpD [OF queue_progress_rel(1)] by simp
next
  case (Cons p ps)
  obtain d1 ins1 where 1: "enqueue_check now p (d, ins) = (d1, ins1)" by fastforce
  have "queue_progress d d1" using progress_enqueue_check [of d now p ins] by (simp add: 1)
  moreover have "queue_progress d1 (fst (fold (enqueue_check now) ps (d1, ins1)))" by (rule Cons)
  ultimately show ?case using transpD [OF queue_progress_rel(2)] by (simp add: 1)
qed

lemma progress_schedule: "queue_progress d (snd (schedule_checks now d))"
proof -
  obtain d1 ins where 1: "fold (enqueue_check now) (due_pairs now d) (d, []) = (d1, ins)" by fastforce
  have "queue_progress d d1" using progress_enqueue_checks [of d now "due_pairs now d" "[]"] by (simp add: 1)
  moreover have "queue_progress d1 (d1\<lparr>t_monitors := sql_update p (\<lambda>m. m\<lparr>m_last_scheduled := Some now\<rparr>) (t_monitors d1)\<rparr>)" for p
    by (auto simp: queue_progress_def queue_wf_def set_sql_update lease_length_def)
  ultimately show ?thesis
    using transpD [OF queue_progress_rel(2)] by (simp add: schedule_checks_def 1)
qed

lemma lease_row_keys [simp]:
  "q_id (lease_row d p now q) = q_id q" "q_monitor (lease_row d p now q) = q_monitor q"
  "q_region (lease_row d p now q) = q_region q"
  by (simp_all add: lease_row_def split: option.splits)

lemma monitor_of_in: "monitor_of d mid = Some m \<Longrightarrow> m \<in> set (t_monitors d) \<and> m_id m = mid"
  by (auto simp: monitor_of_def find_Some_iff)

text \<open>A picked row was free, so its new lease ends after now and after the old one.\<close>

lemma lease_row_later:
  assumes "queue_wf d" and "lease_free now q" and "monitor_of d (q_monitor q) \<noteq> None"
  obtains t where "q_lease_until (lease_row d p now q) = Some t" and "now \<le> t"
    and "\<And>t'. q_lease_until q = Some t' \<Longrightarrow> t' < t"
proof -
  obtain m where m: "monitor_of d (q_monitor q) = Some m" using assms(3) by blast
  then have "0 \<le> lease_length m" using assms(1) monitor_of_in [OF m] by (auto simp: queue_wf_def)
  then show ?thesis
    using assms(2) m by (intro that [of "now + lease_length m"]) (auto simp: lease_row_def lease_free_def)
qed

lemma picked_is_free:
  assumes "queue_wf d" and "q \<in> set (t_queue d)" and "q_id q \<in> set (picked_ids region limit orgID now d)"
  shows "leasable region orgID now d q"
proof -
  obtain q' where q': "q' \<in> set (t_queue d)" "leasable region orgID now d q'" "q_id q' = q_id q"
    using assms(3) set_take_subset unfolding picked_ids_def by fastforce
  then have "q' = q" using distinct_key_unique [of q_id "t_queue d" q' q] assms by (simp add: queue_wf_def)
  with q' show ?thesis by simp
qed

lemma progress_lease: "queue_progress d (snd (lease_checks region limit p orgID now d))"
  unfolding queue_progress_def
proof (intro impI conjI ballI)
  let ?hit = "\<lambda>q. q_id q \<in> set (picked_ids region limit orgID now d) \<and> monitor_of d (q_monitor q) \<noteq> None"
  have d': "snd (lease_checks region limit p orgID now d) = d\<lparr>t_queue := sql_update ?hit (lease_row d p now) (t_queue d)\<rparr>"
    by (simp add: lease_checks_def Let_def)
  assume wf: "queue_wf d"
  have "map q_id (sql_update ?hit (lease_row d p now) (t_queue d)) = map q_id (t_queue d)"
    "map (\<lambda>q. (q_monitor q, q_region q)) (sql_update ?hit (lease_row d p now) (t_queue d)) = map (\<lambda>q. (q_monitor q, q_region q)) (t_queue d)"
    by (simp_all add: sql_update_key)
  then show "queue_wf (snd (lease_checks region limit p orgID now d))"
    using wf unfolding d' queue_wf_def by (simp del: set_map)
  show "t_queue_seq d \<le> t_queue_seq (snd (lease_checks region limit p orgID now d))" by (simp add: d')
  fix r' assume "r' \<in> set (t_queue (snd (lease_checks region limit p orgID now d)))"
  then obtain r where r: "r \<in> set (t_queue d)" "r' = (if ?hit r then lease_row d p now r else r)"
    by (auto simp: d' set_sql_update)
  have "lease_le (q_lease_until r) (q_lease_until r')"
  proof (cases "?hit r")
    case True
    then have "lease_free now r" using picked_is_free [OF wf r(1)] by (auto simp: leasable_def)
    then obtain t where "q_lease_until (lease_row d p now r) = Some t" "\<And>t'. q_lease_until r = Some t' \<Longrightarrow> t' < t"
      using lease_row_later [OF wf] True by metis
    then show ?thesis using r(2) True by (cases "q_lease_until r") auto
  qed (use r in auto)
  then show "\<exists>r \<in> set (t_queue d). q_id r = q_id r' \<and> lease_le (q_lease_until r) (q_lease_until r')"
    using r by (auto split: if_splits)
qed

lemma progress_delete: "queue_progress d (d\<lparr>t_queue := sql_delete p (t_queue d)\<rparr>)"
  by (auto simp: queue_progress_def queue_wf_def sql_delete_def distinct_map_filter)

text \<open>The operations on the queue, as values.\<close>

datatype queue_op =
    QSchedule
  | QLease service string nat "int option" "int option"
  | QClaim int time
  | QClaims "(int \<times> time) list"

fun run_qop :: "queue_op \<Rightarrow> unit prog" where
  "run_qop QSchedule = ignore Schedule"
| "run_qop (QLease s r n p orgID) = ignore (lease s r n p orgID)"
| "run_qop (QClaim q t) = ignore (ClaimJob q t)"
| "run_qop (QClaims cs) = ignore (ClaimJobs cs)"

definition run_qops :: "queue_op list \<Rightarrow> unit prog" where
  "run_qops ops = for_each ops run_qop"

lemma guar_qop: "guar (on_db queue_progress) (run_qop oper)"
  by (cases oper) (auto simp: Schedule_def lease_def ClaimJob_def ClaimJobs_def
      intro!: guar progress_schedule progress_lease progress_delete)

lemma guar_qops: "guar (on_db queue_progress) (run_qops ops)"
  unfolding run_qops_def by (intro guar guar_qop)

subsection \<open>One result per check\<close>

lemma run_claim:
  assumes "run_state (ClaimJob q t) w = (r, w')"
  shows "r = Inl ErrDB \<or> r = Inr (length (filter (claimed_by [(q, t)]) (t_queue (db w))) = 1) \<and>
     db w' = (db w)\<lparr>t_queue := sql_delete (claimed_by [(q, t)]) (t_queue (db w))\<rparr>"
  using assms unfolding ClaimJob_def
  by (cases rule: run_sql_cases [of "\<lambda>_ d. (length (filter (claimed_by [(q, t)]) (t_queue d)) = 1,
       d\<lparr>t_queue := sql_delete (claimed_by [(q, t)]) (t_queue d)\<rparr>)" w]) auto

lemma claimed_by_one: "claimed_by [(q, t)] r \<longleftrightarrow> q_id r = q \<and> q_lease_until r = Some t"
  by (auto simp: claimed_by_def split: option.splits)

text \<open>A claimed row never comes back, whatever scheduling, leasing and claiming follow.\<close>

lemma claimed_row_gone:
  assumes "queue_wf (db w)" and "run_state (ClaimJob q t) w = (Inr True, w1)"
    and "run_state (run_qops ops) w1 = ((), w2)"
  shows "filter (claimed_by [(q, t')]) (t_queue (db w2)) = []"
proof -
  have w1: "db w1 = (db w)\<lparr>t_queue := sql_delete (claimed_by [(q, t)]) (t_queue (db w))\<rparr>"
    and one: "length (filter (claimed_by [(q, t)]) (t_queue (db w))) = 1"
    using run_claim [OF assms(2)] by simp_all
  from one have "filter (claimed_by [(q, t)]) (t_queue (db w)) \<noteq> []" by auto
  then obtain r where r: "r \<in> set (t_queue (db w))" "q_id r = q" "q_lease_until r = Some t"
    by (auto simp: filter_empty_conv claimed_by_one)
  have seq: "q < t_queue_seq (db w1)" using assms(1) r w1 by (auto simp: queue_wf_def)
  have gone: "q_id x \<noteq> q" if "x \<in> set (t_queue (db w1))" for x
  proof
    assume "q_id x = q"
    moreover have "x \<in> set (t_queue (db w))" "\<not> claimed_by [(q, t)] x" using that by (auto simp: w1 sql_delete_def)
    ultimately show False
      using distinct_key_unique [of q_id "t_queue (db w)" x r] assms(1) r by (auto simp: queue_wf_def claimed_by_one)
  qed
  have wf1: "queue_wf (db w1)"
    using progress_delete [of "db w" "claimed_by [(q, t)]"] assms(1) by (simp add: w1 queue_progress_def)
  have "queue_progress (db w1) (db w2)"
    using guarD [OF guar_qops, of w1 ops] assms(3) by (simp add: on_db_def)
  then have "q_id x \<noteq> q" if "x \<in> set (t_queue (db w2))" for x
    using that gone seq wf1 by (fastforce simp: queue_progress_def)
  then show ?thesis by (auto simp: filter_empty_conv claimed_by_one)
qed

text \<open>
  C4: the result of a check is counted at most once: after one claim of a queue row has
  succeeded, accepting a result for that row, with any lease, changes nothing in the
  database and reports no error but a failing database, whatever scheduling, leasing and
  claiming happened in between, whatever faults they met, and for any result writer and
  any detector behind \<open>Accept\<close>.
\<close>

theorem duplicate_result_has_no_effect:
  assumes "queue_wf (db w)" and "run_state (ClaimJob (jb_QueueID j) t) w = (Inr True, w1)"
    and "run_state (run_qops ops) w1 = ((), w2)" and "run_state (Accept i j moment r) w2 = (res, w3)"
  shows "db w3 = db w2 \<and> (res = None \<or> res = Some ErrDB)"
proof -
  have none: "filter (claimed_by [(jb_QueueID j, jb_LeaseUntil j)]) (t_queue (db w2)) = []"
    by (rule claimed_row_gone [OF assms(1-3)])
  then have "db w2 = (db w2)\<lparr>t_queue := sql_delete (claimed_by [(jb_QueueID j, jb_LeaseUntil j)]) (t_queue (db w2))\<rparr>"
    by (auto simp: sql_delete_def filter_empty_conv filter_id_conv)
  obtain c w4 where c: "run_state (ClaimJob (jb_QueueID j) (jb_LeaseUntil j)) w2 = (c, w4)" by fastforce
  have "c = Inl ErrDB \<and> db w4 = db w2 \<or> c = Inr False \<and> db w4 = db w2"
    using c none \<open>db w2 = _\<close> unfolding ClaimJob_def
    by (cases rule: run_sql_cases [of "\<lambda>_ d. (length (filter (claimed_by [(jb_QueueID j, jb_LeaseUntil j)]) (t_queue d)) = 1,
       d\<lparr>t_queue := sql_delete (claimed_by [(jb_QueueID j, jb_LeaseUntil j)]) (t_queue d)\<rparr>)" w2]) auto
  then show ?thesis using assms(4) c by (auto simp: Accept_def run_state_bind)
qed

definition ex_ok :: check_result where
  "ex_ok = \<lparr>cr_OK = True, cr_StatusCode = 200, cr_Error = '''', cr_DNSMs = 1, cr_ConnectMs = 1, cr_TLSMs = 1, cr_TTFBMs = 1,
     cr_TotalMs = 4, cr_BodySize = 10, cr_SSLExpiresAt = None\<rparr>"

definition ex_job_leased :: check_job where
  "ex_job_leased = \<lparr>jb_QueueID = 1, jb_MonitorID = 1, jb_Region = ''local'', jb_LeaseUntil = 50, jb_Monitor = ex_monitor\<rparr>"

theorem duplicate_result_has_no_effect_witness:
  "let w2 = snd (run_state (run_qops [QSchedule]) (snd (run_state (ClaimJob 1 50) (calm (2 * hour) ex_db))))
   in map q_id (t_queue (db w2)) = [2] \<and>
      db (snd (run_state (Accept \<lparr>ig_Writer = None, ig_OnResult = None\<rparr> ex_job_leased 9 ex_ok) w2)) = db w2"
proof -
  let ?r1 = "run_state (ClaimJob (jb_QueueID ex_job_leased) 50) (calm (2 * hour) ex_db)"
  let ?r2 = "run_state (run_qops [QSchedule]) (snd ?r1)"
  have wf: "queue_wf (db (calm (2 * hour) ex_db))" and r1: "?r1 = (Inr True, snd ?r1)" by code_simp+
  have r2: "?r2 = ((), snd ?r2)" by (simp add: prod_eq_iff)
  have "map q_id (t_queue (db (snd ?r2))) = [2]" by code_simp
  then show ?thesis
    using duplicate_result_has_no_effect [OF wf r1 r2 surjective_pairing] by (simp add: Let_def ex_job_leased_def)
qed

lemma lease_checks_jobs:
  assumes "j \<in> set (fst (lease_checks region limit p orgID now d))" and "queue_wf d"
  obtains q m where "q \<in> set (t_queue d)" "leasable region orgID now d q" "monitor_of d (q_monitor q) = Some m"
    "q_id q = jb_QueueID j" "jb_MonitorID j = q_monitor q" "jb_Region j = region"
    "lease_row d p now q \<in> set (t_queue (snd (lease_checks region limit p orgID now d)))"
    "q_lease_until (lease_row d p now q) = Some (jb_LeaseUntil j)" "m_project (jb_Monitor j) = m_project m"
proof -
  let ?hit = "\<lambda>q. q_id q \<in> set (picked_ids region limit orgID now d) \<and> monitor_of d (q_monitor q) \<noteq> None"
  from assms(1) obtain q where q: "q \<in> set (t_queue d)" "?hit q" "job_of d (lease_row d p now q) = Some j"
    by (auto simp: lease_checks_def Let_def List.map_filter_def)
  then obtain m where m: "monitor_of d (q_monitor q) = Some m" by blast
  have "lease_row d p now q \<in> set (t_queue (snd (lease_checks region limit p orgID now d)))"
    using q by (force simp: lease_checks_def Let_def set_sql_update)
  moreover have "leasable region orgID now d q" using picked_is_free [OF assms(2) q(1)] q(2) by blast
  ultimately show ?thesis
    using q m by (intro that [of q m]) (auto simp: job_of_def lease_row_def leasable_def)
qed

text \<open>
  Leases fence: when a row is leased again, the new lease ends strictly later than the
  old one (which had expired), and a claim under the old lease never succeeds again,
  whatever happens to the queue afterwards.
\<close>

theorem expired_lease_is_fenced:
  assumes "queue_wf (db w)" and "run_state (lease s region limit p orgID) w = (Inr jobs, w1)"
    and "j \<in> set jobs" and "r \<in> set (t_queue (db w))" and "q_id r = jb_QueueID j" and "q_lease_until r = Some old"
    and "run_state (run_qops ops) w1 = ((), w2)" and "run_state (ClaimJob (jb_QueueID j) old) w2 = (res, w3)"
  shows "old < jb_LeaseUntil j \<and> res \<noteq> Inr True"
proof -
  obtain t where t: "db w1 = snd (lease_checks region limit p orgID t (db w))"
    "jobs = decryptJobs s (fst (lease_checks region limit p orgID t (db w)))"
    using assms(2) by (cases rule: run_sql_cases [of "lease_checks region limit p orgID" w]) (auto simp: lease_def)
  then obtain j0 where j0: "j0 \<in> set (fst (lease_checks region limit p orgID t (db w)))"
    "jb_QueueID j0 = jb_QueueID j" "jb_LeaseUntil j0 = jb_LeaseUntil j"
    using assms(3) by (auto simp: decryptJobs_def split: sum.splits)
  obtain q m where q: "q \<in> set (t_queue (db w))" "leasable region orgID t (db w) q" "monitor_of (db w) (q_monitor q) = Some m"
    "q_id q = jb_QueueID j0" "lease_row (db w) p t q \<in> set (t_queue (db w1))"
    "q_lease_until (lease_row (db w) p t q) = Some (jb_LeaseUntil j0)"
    using lease_checks_jobs [OF j0(1) assms(1)] unfolding t(1) by metis
  have "q = r"
    using distinct_key_unique [of q_id "t_queue (db w)" q r] assms(1,4,5) q(1,4) j0(2) by (simp add: queue_wf_def)
  then have lt: "old < jb_LeaseUntil j"
    using lease_row_later [OF assms(1), of t q p] q assms(6) j0(3)
    by (metis leasable_def option.distinct(1) option.inject)
  have wf1: "queue_wf (db w1)" using progress_lease assms(1) unfolding t(1) queue_progress_def by blast
  have prog: "queue_progress (db w1) (db w2)"
    using guarD [OF guar_qops, of w1 ops] assms(7) by (simp add: on_db_def)
  have no: "\<not> claimed_by [(jb_QueueID j, old)] x" if xin: "x \<in> set (t_queue (db w2))" for x
  proof
    assume "claimed_by [(jb_QueueID j, old)] x"
    then have x: "q_id x = jb_QueueID j" "q_lease_until x = Some old" by (simp_all add: claimed_by_one)
    have "jb_QueueID j < t_queue_seq (db w1)"
      using wf1 q(4,5) j0(2) unfolding queue_wf_def by force
    then have "q_id x < t_queue_seq (db w1)" using x by simp
    then have "\<exists>y \<in> set (t_queue (db w1)). q_id y = q_id x \<and> lease_le (q_lease_until y) (q_lease_until x)"
      using prog wf1 xin unfolding queue_progress_def by blast
    then obtain y where y: "y \<in> set (t_queue (db w1))" "q_id y = jb_QueueID j" "lease_le (q_lease_until y) (Some old)"
      using x by auto
    have "y = lease_row (db w) p t q"
      using distinct_key_unique [of q_id "t_queue (db w1)" y "lease_row (db w) p t q"] wf1 y q j0(2)
      by (simp add: queue_wf_def)
    then show False using y(3) q(6) j0(3) lt by simp
  qed
  then have "filter (claimed_by [(jb_QueueID j, old)]) (t_queue (db w2)) = []" by (auto simp: filter_empty_conv)
  then show ?thesis using lt run_claim [OF assms(8)] by auto
qed

theorem expired_lease_is_fenced_witness:
  "let r = run_state (lease ex_service ''local'' 5 None None) (calm 100 ex_db)
   in (\<exists>j. fst r = Inr [j] \<and> 50 < jb_LeaseUntil j) \<and> fst (run_state (ClaimJob 1 50) (snd r)) \<noteq> Inr True"
proof -
  let ?w = "calm 100 ex_db"
  let ?r = "run_state (lease ex_service ''local'' 5 None None) ?w"
  let ?q = "\<lparr>q_id = 1, q_monitor = 1, q_region = ''local'', q_due = 0, q_leased_by = None, q_lease_until = Some 50\<rparr>"
  have wf: "queue_wf (db ?w)" by code_simp
  obtain j where r: "?r = (Inr [j], snd ?r)" and j: "jb_QueueID j = 1"
    by (simp add: lease_def lease_checks_def decryptJobs_def picked_ids_def leasable_def lease_free_def ex_defs Let_def
        monitor_of_def job_of_def lease_row_def sql_update_def List.map_filter_def decryptMonitorConfig_def ex_service_def ex_codec_def)
  have none: "run_state (run_qops []) (snd ?r) = ((), snd ?r)" by (simp add: run_qops_def)
  have q: "?q \<in> set (t_queue (db ?w))" by (simp add: ex_db_def empty_db_def)
  have "fst ?r = Inr [j]" using r by (metis fst_conv)
  then show ?thesis
    using expired_lease_is_fenced [OF wf r _ q _ _ none surjective_pairing, of j 50] j by (simp add: Let_def)
qed

text \<open>
  Probes are confined to their organization: every check leased to a probe is of its
  region and of a monitor whose project belongs to the probe's organization.
\<close>

theorem probe_sees_own_organization:
  assumes "queue_wf (db w)" and "run_state (LeaseForProbe s p limit) w = (Inr jobs, w')" and "j \<in> set jobs"
  shows "jb_Region j = p_region p \<and>
         list_ex (\<lambda>m. m_id m = jb_MonitorID j \<and> map_of (t_projects (db w)) (m_project m) = Some (p_org p)) (t_monitors (db w))"
proof -
  obtain t where t: "jobs = decryptJobs s (fst (lease_checks (p_region p) limit (Some (p_id p)) (Some (p_org p)) t (db w)))"
    using assms(2) by (cases rule: run_sql_cases [of "lease_checks (p_region p) limit (Some (p_id p)) (Some (p_org p))" w])
       (auto simp: LeaseForProbe_def lease_def)
  then obtain j0 where j0: "j0 \<in> set (fst (lease_checks (p_region p) limit (Some (p_id p)) (Some (p_org p)) t (db w)))"
    "jb_MonitorID j0 = jb_MonitorID j" "jb_Region j0 = jb_Region j"
    using assms(3) by (auto simp: decryptJobs_def split: sum.splits)
  obtain q m where "leasable (p_region p) (Some (p_org p)) t (db w) q" "jb_MonitorID j0 = q_monitor q" "jb_Region j0 = p_region p"
    by (rule lease_checks_jobs [OF j0(1) assms(1)]) (rule that)
  then show ?thesis using j0(2,3) by (simp add: leasable_def org_of_monitor_def)
qed

definition ex_probe :: "int \<Rightarrow> probe" where
  "ex_probe org = \<lparr>p_id = 1, p_org = org, p_region = ''local'', p_name = ''p'', p_token_hash = '''', p_last_seen = None,
     p_revoked = False, p_created = 0\<rparr>"

theorem probe_sees_own_organization_witness:
  "fst (run_state (LeaseForProbe ex_service (ex_probe 2) 5) (calm 100 ex_db)) = Inr [] \<and>
   (\<exists>j. fst (run_state (LeaseForProbe ex_service (ex_probe 1) 5) (calm 100 ex_db)) = Inr [j] \<and>
     list_ex (\<lambda>m. m_id m = jb_MonitorID j \<and> map_of (t_projects ex_db) (m_project m) = Some 1) (t_monitors ex_db))"
proof -
  let ?w = "calm 100 ex_db"
  let ?r = "run_state (LeaseForProbe ex_service (ex_probe 1) 5) ?w"
  have wf: "queue_wf (db ?w)" and other: "fst (run_state (LeaseForProbe ex_service (ex_probe 2) 5) ?w) = Inr []" by code_simp+
  have "length (case fst ?r of Inl _ \<Rightarrow> [] | Inr js \<Rightarrow> js) = 1" by code_simp
  then obtain j where r: "?r = (Inr [j], snd ?r)" by (auto simp: length_Suc_conv prod_eq_iff split: sum.splits)
  have "fst ?r = Inr [j]" using r by (metis fst_conv)
  then show ?thesis
    using probe_sees_own_organization [OF wf r, of j] other by (simp add: ex_probe_def)
qed

subsection \<open>Scheduling\<close>

text \<open>What one pass over the due pairs did, from the rows present at its start.\<close>

definition pass_result :: "time \<Rightarrow> db \<Rightarrow> (int \<times> string) list \<Rightarrow> queue_row list \<Rightarrow> db \<times> int list \<Rightarrow> bool" where
  "pass_result now d ps new res \<longleftrightarrow>
     t_queue (fst res) = t_queue d @ new \<and> snd res = map q_monitor new \<and> t_monitors (fst res) = t_monitors d \<and>
     set ps \<subseteq> (\<lambda>q. (q_monitor q, q_region q)) ` set (t_queue d @ new) \<and>
     list_all (\<lambda>q. (q_monitor q, q_region q) \<in> set ps \<and> q_due q = now \<and> q_lease_until q = None) new"

lemma pass_result_Nil: "pass_result now d [] [] (d, [])"
  by (simp add: pass_result_def)

lemma pass_result_snoc:
  assumes "pass_result now d ps new (d1, ins)"
  shows "\<exists>new'. pass_result now d (ps @ [p]) new' (enqueue_check now p (d1, ins))"
proof (cases p)
  case (Pair mid region)
  let ?row = "\<lparr>q_id = t_queue_seq d1, q_monitor = mid, q_region = region, q_due = now, q_leased_by = None, q_lease_until = None\<rparr>"
  show ?thesis
  proof (cases "list_ex (\<lambda>q. q_monitor q = mid \<and> q_region q = region) (t_queue d1)")
    case True
    then have "pass_result now d (ps @ [p]) new (enqueue_check now p (d1, ins))"
      using assms Pair by (force simp: pass_result_def enqueue_check_def Let_def list_ex_iff list_all_iff)
    then show ?thesis by blast
  next
    case False
    then have "pass_result now d (ps @ [p]) (new @ [?row]) (enqueue_check now p (d1, ins))"
      using assms Pair by (auto simp: pass_result_def enqueue_check_def Let_def list_all_iff)
    then show ?thesis by blast
  qed
qed

lemma pass_over_pairs: "\<exists>new. pass_result now d ps new (fold (enqueue_check now) ps (d, []))"
proof (induction ps rule: rev_induct)
  case Nil
  show ?case using pass_result_Nil by (auto intro!: exI [of _ "[]"])
next
  case (snoc p ps)
  obtain d1 ins where 1: "fold (enqueue_check now) ps (d, []) = (d1, ins)" by fastforce
  then obtain new where "pass_result now d ps new (d1, ins)" using snoc by auto
  then show ?case using pass_result_snoc by (simp add: 1)
qed

text \<open>
  One scheduling step: the rows that were in the queue stay, in their order; every due
  monitor has a row for each of its regions afterwards; exactly the reported number of
  rows is new, each unleased, due now, and for a region of an enabled monitor whose
  interval has passed and which is not a heartbeat; and the time of the last scheduling
  moves exactly for the monitors that got a new row.
\<close>

theorem schedule_covers_due_monitors:
  "\<exists>new.
     t_queue (snd (schedule_checks now d)) = t_queue d @ new \<and>
     fst (schedule_checks now d) = int (length new) \<and>
     set (due_pairs now d) \<subseteq> (\<lambda>q. (q_monitor q, q_region q)) ` set (t_queue d @ new) \<and>
     list_all (\<lambda>q. list_ex (\<lambda>m. m_id m = q_monitor q \<and> schedule_due now m) (t_monitors d) \<and>
        (q_monitor q, q_region q) \<in> set (t_monitor_regions d) \<and> q_due q = now \<and> q_lease_until q = None) new \<and>
     t_monitors (snd (schedule_checks now d)) =
       map (\<lambda>m. if m_id m \<in> set (map q_monitor new) then m\<lparr>m_last_scheduled := Some now\<rparr> else m) (t_monitors d)"
proof -
  obtain d1 ins where 1: "fold (enqueue_check now) (due_pairs now d) (d, []) = (d1, ins)" by fastforce
  obtain new where new: "pass_result now d (due_pairs now d) new (d1, ins)"
    using pass_over_pairs [of now d "due_pairs now d"] unfolding 1 by blast
  have pairs: "list_ex (\<lambda>m. m_id m = i \<and> schedule_due now m) (t_monitors d) \<and> (i, r) \<in> set (t_monitor_regions d)"
    if "(i, r) \<in> set (due_pairs now d)" for i r
    using that by (auto simp: due_pairs_def list_ex_iff)
  show ?thesis
    using new pairs
    by (intro exI [of _ new]) (auto simp: schedule_checks_def 1 pass_result_def list_all_iff sql_update_def)
qed

subsection \<open>Retries\<close>

text \<open>A scripted check: the state counts the checks made, the script gives their results.\<close>

definition scripted :: "(nat \<Rightarrow> check_result) \<Rightarrow> (nat, check_result) state" where
  "scripted s = State (\<lambda>n. (s n, Suc n))"

definition stopped :: "(nat \<Rightarrow> bool) \<Rightarrow> (nat, bool) state" where
  "stopped p = State (\<lambda>n. (p n, n))"

lemma run_scripted [simp]:
  "run_state (scripted s) n = (s n, Suc n)" "run_state (stopped p) n = (p n, n)"
  by (simp_all add: scripted_def stopped_def)

lemma retry_loop_scripted:
  assumes "run_state (retry_loop k (scripted s) (stopped p) (s n)) (Suc n) = (res, n')"
  shows "Suc n \<le> n' \<and> n' \<le> Suc n + k \<and> res = s (n' - 1) \<and> list_all (\<lambda>i. \<not> cr_OK (s i)) [n..<n' - 1] \<and>
    (cr_OK res \<or> n' = Suc n + k \<or> p n')"
  using assms
proof (induction k arbitrary: n)
  case (Suc k)
  show ?case
  proof (cases "cr_OK (s n) \<or> p (Suc n)")
    case False
    then have "run_state (retry_loop k (scripted s) (stopped p) (s (Suc n))) (Suc (Suc n)) = (res, n')"
      using Suc.prems by (simp add: run_state_bind)
    from Suc.IH [OF this] have IH: "Suc (Suc n) \<le> n'" "n' \<le> Suc (Suc n) + k" "res = s (n' - 1)"
      "list_all (\<lambda>i. \<not> cr_OK (s i)) [Suc n..<n' - 1]" "cr_OK res \<or> n' = Suc (Suc n) + k \<or> p n'" by auto
    moreover have "[n..<n' - 1] = n # [Suc n..<n' - 1]" using IH(1) by (simp add: upt_conv_Cons)
    ultimately show ?thesis using False by auto
  qed (use Suc.prems in \<open>auto simp: run_state_bind split: if_splits\<close>)
qed auto

text \<open>
  \<open>checkWithRetries\<close> makes at least one and at most \<open>1 + Retries\<close> checks, reports the
  result of the last one made, makes a further check only after a failed one, and gives
  up early only when a check succeeds or the context is done.
\<close>

theorem retries_bound_and_result:
  "case run_state (checkWithRetries retries (scripted s) (stopped p)) 0 of
     (res, n) \<Rightarrow> 1 \<le> n \<and> n \<le> 1 + nat retries \<and> res = s (n - 1) \<and>
       list_all (\<lambda>i. \<not> cr_OK (s i)) [0..<n - 1] \<and> (cr_OK res \<or> n = 1 + nat retries \<or> p n)"
proof -
  obtain res n where rn: "run_state (retry_loop (nat retries) (scripted s) (stopped p) (s 0)) (Suc 0) = (res, n)"
    by fastforce
  then show ?thesis
    using retry_loop_scripted [OF rn] by (auto simp: checkWithRetries_def run_state_bind)
qed

subsection \<open>Formats\<close>

text \<open>
  Timings are stored in 32 bits: \<open>msToUint32\<close> never leaves the range of the column, is
  the whole milliseconds of every duration that fits, and keeps the order of durations.
\<close>

theorem msToUint32_saturates:
  "0 \<le> msToUint32 d \<and> msToUint32 d < 2 ^ 32 \<and>
   msToUint32 d = max 0 (min (2 ^ 32 - 1) (quot d 1000000)) \<and> msToUint32 (min d e) = min (msToUint32 d) (msToUint32 e)"
proof -
  have mono: "quot a 1000000 \<le> quot b 1000000" if "a \<le> b" for a b :: int
  proof -
    have pos: "0 \<le> \<bar>c\<bar> div 1000000" for c :: int by simp
    consider "0 \<le> a" | "a < 0" "0 \<le> b" | "b < 0" using that by linarith
    then show ?thesis
    proof cases
      case 1
      then show ?thesis using that by (simp add: quot_nonneg zdiv_mono1)
    next
      case 2
      then show ?thesis using pos [of a] pos [of b] by (simp add: quot_def sgn_if)
    next
      case 3
      then show ?thesis using that zdiv_mono1 [of "- b" "- a" 1000000] by (simp add: quot_def)
    qed
  qed
  have "msToUint32 a \<le> msToUint32 b" if "a \<le> b" for a b
    using mono [OF that] by (auto simp: msToUint32_def Let_def)
  then have "msToUint32 (min d e) = min (msToUint32 d) (msToUint32 e)"
    by (cases "d \<le> e") (auto simp: min_def intro: antisym)
  then show ?thesis by (auto simp: msToUint32_def Let_def)
qed

text \<open>
  The formats exchanged with probes lose nothing that is used: a result sent back by
  a probe is the result of the check, under the id of its queue row, and the monitor a probe
  rebuilds from a job has the id, kind, configuration, timeout and retries of the original.
\<close>

theorem probe_exchange_roundtrip:
  "dto_Result (NewResultDTO q r) = r \<and> rd_QueueID (NewResultDTO q r) = q \<and>
   jd_QueueID (NewJobDTO j) = jb_QueueID j \<and> jd_MonitorID (NewJobDTO j) = jb_MonitorID j \<and>
   (let m = dto_Monitor (NewJobDTO j) in
      m_id m = jb_MonitorID j \<and> m_kind m = m_kind (jb_Monitor j) \<and> m_config m = m_config (jb_Monitor j) \<and>
      m_timeout m = m_timeout (jb_Monitor j) \<and> m_retries m = m_retries (jb_Monitor j))"
  by (simp add: NewResultDTO_def dto_Result_def NewJobDTO_def dto_Monitor_def Let_def)

end
