(* ===== verification/Uptime_Detector.thy ===== *)
theory Uptime_Detector
  imports Uptime_Notifier Uptime_Maintenance Uptime_Queue
begin

text \<open>
  \<open>internal/uptime/detector.go\<close>: what happens after a result was applied. The detector
  aggregates the states of the regions, opens or resolves the incident of the monitor,
  holds the first page back while a parent may be down, claims the channels of the first
  page before it sends it, retries failed first pages a bounded number of times, and
  addresses the recovery notice. The properties: the open incident follows the
  aggregate, the invariants of incidents and of the queue of notifications hold through
  every run, first pages are queued once per channel, recovery notices go only to paged
  channels, and nothing is sent while a parent is down.
\<close>

subsection \<open>Model\<close>

text \<open>
  The interfaces \<open>Notifier\<close>, \<open>depChecker\<close> and \<open>groupHook\<close>. Packages \<open>depsuppress\<close> and
  \<open>incidentgroup\<close> implement the last two; a call returning \<open>(x, err)\<close> is a pair, since the
  code goes on with \<open>x\<close> after some errors.
\<close>

record notifier =
  nt_Notify :: "event \<Rightarrow> error option prog"
  nt_OpenStep0Channels :: "event \<Rightarrow> int list result prog"
  nt_NotifyOpenStep0 :: "event \<Rightarrow> int list \<Rightarrow> (int list \<times> error option) prog"
  nt_NotifyRecovery :: "int \<Rightarrow> int list \<Rightarrow> error option prog"

record parent_checker =
  pk_HasParent :: "string \<Rightarrow> int \<Rightarrow> (bool \<times> error option) prog"
  pk_ParentDown :: "string \<Rightarrow> int \<Rightarrow> (bool \<times> error option) prog"
  pk_DownRoot :: "string \<Rightarrow> int \<Rightarrow> ((string \<times> int \<times> bool) \<times> error option) prog"

record group_hook =
  gh_Attach :: "string \<Rightarrow> int \<Rightarrow> string \<Rightarrow> int \<Rightarrow> ((bool \<times> bool) \<times> error option) prog"
  gh_OnRootOpened :: "string \<Rightarrow> int \<Rightarrow> string \<Rightarrow> int \<Rightarrow> int \<Rightarrow> error option prog"
  gh_OnRootClosed :: "string \<Rightarrow> int \<Rightarrow> error option prog"
  gh_RootIncident :: "string \<Rightarrow> int \<Rightarrow> ((string \<times> int \<times> int \<times> bool \<times> bool) \<times> error option) prog"

text \<open>\<open>dt_Pool\<close> says that \<open>Pool\<close> is set; \<open>dt_tz\<close> is the zone database behind \<open>InMaintenance\<close>.\<close>

record detector =
  dt_tz :: tzdata
  dt_Notifier :: "notifier option"
  dt_Dep :: "parent_checker option"
  dt_IncidentGroups :: "group_hook option"
  dt_SettleGrace :: duration
  dt_Pool :: bool

definition outbox_as_notifier :: "outbox_notifier \<Rightarrow> notifier" where
  "outbox_as_notifier n =
     \<lparr>nt_Notify = Notify n, nt_OpenStep0Channels = OpenStep0Channels n, nt_NotifyOpenStep0 = NotifyOpenStep0 n,
      nt_NotifyRecovery = NotifyRecovery n\<rparr>"

definition notifyOpenLease :: duration where "notifyOpenLease = minute"

definition retryStepZeroLog :: "detector \<Rightarrow> incident \<Rightarrow> unit prog" where
  "retryStepZeroLog d inc =
     (if \<not> dt_Pool d \<or> i_notify_channels inc = [] then State_Monad.return ()
      else do {
        (fin, _) \<leftarrow> LogStepChannels ''uptime'' (i_id inc) 0 (i_notify_channels inc);
        if fin then ignore (ClearNotifyOpenChannels (i_id inc)) else State_Monad.return ()
      })"

text \<open>The second half of \<open>notifyOpen\<close>: send to the channels won, release the rest, mark.\<close>

definition send_open :: "detector \<Rightarrow> notifier \<Rightarrow> int \<Rightarrow> event \<Rightarrow> int list \<Rightarrow> unit prog" where
  "send_open d nt incidentID ev won =
     do {
       (enqueued, err) \<leftarrow> nt_NotifyOpenStep0 nt ev won;
       _ \<leftarrow> (if dt_Pool d then
               (let unsent = filter (\<lambda>ch. \<not> ContainsID enqueued ch) won in
                do {
                  _ \<leftarrow> (if unsent \<noteq> [] then ignore (ReleaseStepChannels ''uptime'' incidentID 0 unsent)
                        else State_Monad.return ());
                  (if enqueued \<noteq> [] then ignore (SetNotifyOpenChannels incidentID enqueued)
                   else State_Monad.return ())
                })
             else State_Monad.return ());
       (if err \<noteq> None then ignore (MarkNotifyOpenFailed incidentID)
        else do {
          e \<leftarrow> MarkNotified incidentID True;
          if e \<noteq> None then ignore (MarkNotifyOpenFailed incidentID) else State_Monad.return ()
        })
     }"

definition notifyOpen :: "detector \<Rightarrow> notifier \<Rightarrow> int \<Rightarrow> event \<Rightarrow> unit prog" where
  "notifyOpen d nt incidentID ev =
     do {
       r \<leftarrow> nt_OpenStep0Channels nt ev;
       (case r of
          Inl _ \<Rightarrow> ignore (MarkNotifyOpenFailed incidentID)
        | Inr chs \<Rightarrow>
            if dt_Pool d \<and> chs \<noteq> [] then do {
              c \<leftarrow> ClaimStepChannelsWithLease ''uptime'' incidentID 0 chs notifyOpenLease;
              (case c of
                 Inl _ \<Rightarrow> ignore (MarkNotifyOpenFailed incidentID)
               | Inr won \<Rightarrow>
                   if won = [] then State_Monad.return () else send_open d nt incidentID ev won)
            }
            else send_open d nt incidentID ev chs)
     }"

text \<open>\<open>notifyOpen\<close> where the code first returns if \<open>Notifier\<close> is nil.\<close>

definition page_open :: "detector \<Rightarrow> monitor \<Rightarrow> incident \<Rightarrow> mstate list \<Rightarrow> mstate \<Rightarrow> unit prog" where
  "page_open d m inc states st =
     (case dt_Notifier d of
        None \<Rightarrow> State_Monad.return ()
      | Some nt \<Rightarrow>
          notifyOpen d nt (i_id inc) (downEvent m inc (regionsWithStatus states ''down'') (causeFrom st states)))"

text \<open>The end of \<open>settleHeldIncident\<close>: suppress, or page once the grace has passed.\<close>

definition settle_parent ::
  "detector \<Rightarrow> parent_checker \<Rightarrow> monitor \<Rightarrow> incident \<Rightarrow> mstate list \<Rightarrow> mstate \<Rightarrow> time \<Rightarrow> unit prog" where
  "settle_parent d dep m inc states st now =
     do {
       (down, _) \<leftarrow> pk_ParentDown dep ''monitor'' (m_id m);
       (if down then do {
          e \<leftarrow> MarkSuppressedByDep (i_id inc);
          (if e \<noteq> None then State_Monad.return ()
           else case dt_IncidentGroups d of
             None \<Rightarrow> State_Monad.return ()
           | Some g \<Rightarrow> ignore (gh_Attach g ''uptime'' (i_id inc) ''monitor'' (m_id m)))
        }
        else if dt_SettleGrace d \<le> time_sub now (i_started inc) then page_open d m inc states st
        else State_Monad.return ())
     }"

definition settleHeldIncident ::
  "detector \<Rightarrow> monitor \<Rightarrow> incident \<Rightarrow> mstate list \<Rightarrow> mstate \<Rightarrow> time \<Rightarrow> unit prog" where
  "settleHeldIncident d m inc states st now =
     (if i_notified_open inc then retryStepZeroLog d inc
      else if i_notify_failed inc then
        (if maxNotifyOpenAttempts \<le> i_notify_attempts inc then State_Monad.return ()
         else page_open d m inc states st)
      else if i_in_maintenance inc then State_Monad.return ()
      else case dt_Dep d of
        None \<Rightarrow> page_open d m inc states st
      | Some dep \<Rightarrow>
          if i_suppressed inc then do {
            (down, e) \<leftarrow> pk_ParentDown dep ''monitor'' (m_id m);
            (if e \<noteq> None \<or> down then State_Monad.return ()
             else do {
               ce \<leftarrow> ClearSuppressedByDep (i_id inc);
               if ce \<noteq> None then State_Monad.return () else settle_parent d dep m inc states st now
             })
          }
          else settle_parent d dep m inc states st now)"

text \<open>The group of a new incident: its actual root, or the incident itself.\<close>

definition open_group :: "detector \<Rightarrow> monitor \<Rightarrow> incident \<Rightarrow> unit prog" where
  "open_group d m inc =
     (case dt_IncidentGroups d of
        None \<Rightarrow> State_Monad.return ()
      | Some g \<Rightarrow>
          do {
            (rootSource, rootIncidentID, rootKind, rootID) \<leftarrow>
              (case dt_Dep d of
                 None \<Rightarrow> State_Monad.return (''uptime'', i_id inc, ''monitor'', m_id m)
               | Some dep \<Rightarrow>
                   do {
                     ((rk, rid, found), e) \<leftarrow> pk_DownRoot dep ''monitor'' (m_id m);
                     (if e = None \<and> found \<and> (rk \<noteq> ''monitor'' \<or> rid \<noteq> m_id m) then do {
                        ((src, incID, _, _, ok), e2) \<leftarrow> gh_RootIncident g rk rid;
                        State_Monad.return
                          (if e2 = None \<and> ok then (src, incID, rk, rid)
                           else (''uptime'', i_id inc, ''monitor'', m_id m))
                      }
                      else State_Monad.return (''uptime'', i_id inc, ''monitor'', m_id m))
                   });
            ignore (gh_OnRootOpened g rootSource rootIncidentID rootKind rootID (m_project m))
          })"

text \<open>\<open>openIncident\<close>, in two parts: what follows the insert comes first.\<close>

definition after_open ::
  "detector \<Rightarrow> monitor \<Rightarrow> mstate list \<Rightarrow> mstate \<Rightarrow> bool \<Rightarrow> incident \<Rightarrow> bool \<Rightarrow> unit prog" where
  "after_open d m states st inMaintenance inc created =
     do {
       _ \<leftarrow> (if created then open_group d m inc else State_Monad.return ());
       (if \<not> created \<or> inMaintenance \<or> dt_Notifier d = None then State_Monad.return ()
        else do {
          hasParent \<leftarrow>
            (case dt_Dep d of
               None \<Rightarrow> State_Monad.return False
             | Some dep \<Rightarrow>
                 do {
                   (hp, e) \<leftarrow> pk_HasParent dep ''monitor'' (m_id m);
                   State_Monad.return (e = None \<and> hp)
                 });
          if hasParent then State_Monad.return () else page_open d m inc states st
        })
     }"

definition openIncident :: "detector \<Rightarrow> monitor \<Rightarrow> mstate list \<Rightarrow> mstate \<Rightarrow> time \<Rightarrow> unit prog" where
  "openIncident d m states st now =
     do {
       im \<leftarrow> InMaintenance (dt_tz d) (m_project m) now;
       (let inMaintenance = (case im of Inl _ \<Rightarrow> False | Inr b \<Rightarrow> b) in
        do {
          r \<leftarrow> OpenIncident (m_id m) (causeFrom st states) (regionsWithStatus states ''down'') inMaintenance;
          (case r of
             Inl _ \<Rightarrow> State_Monad.return ()
           | Inr (inc, created) \<Rightarrow> after_open d m states st inMaintenance inc created)
        })
     }"

text \<open>\<open>resolveIncident\<close>: the recovery notice, what follows the update, and the whole.\<close>

definition send_recovery :: "detector \<Rightarrow> notifier \<Rightarrow> incident \<Rightarrow> unit prog" where
  "send_recovery d nt inc =
     do {
       c \<leftarrow> RecoveryChannels ''uptime'' (i_id inc);
       (case c of
          Inl _ \<Rightarrow> State_Monad.return ()
        | Inr chs \<Rightarrow>
            if chs = [] then State_Monad.return ()
            else do {
              e \<leftarrow> nt_NotifyRecovery nt (i_id inc) chs;
              if e \<noteq> None then State_Monad.return () else ignore (MarkNotified (i_id inc) False)
            })
     }"

definition after_resolve :: "detector \<Rightarrow> incident \<Rightarrow> unit prog" where
  "after_resolve d inc =
     do {
       _ \<leftarrow> (case dt_IncidentGroups d of
               None \<Rightarrow> State_Monad.return ()
             | Some g \<Rightarrow> ignore (gh_OnRootClosed g ''uptime'' (i_id inc)));
       (case dt_Notifier d of
          None \<Rightarrow> State_Monad.return ()
        | Some nt \<Rightarrow>
            if i_in_maintenance inc \<or> \<not> i_notified_open inc \<or> \<not> dt_Pool d then State_Monad.return ()
            else do {
              _ \<leftarrow> retryStepZeroLog d inc;
              send_recovery d nt inc
            })
     }"

definition resolveIncident :: "detector \<Rightarrow> monitor \<Rightarrow> time \<Rightarrow> unit prog" where
  "resolveIncident d m now =
     do {
       r \<leftarrow> ResolveIncident (m_id m) now;
       (case r of
          Inl _ \<Rightarrow> State_Monad.return ()
        | Inr None \<Rightarrow> State_Monad.return ()
        | Inr (Some inc) \<Rightarrow> after_resolve d inc)
     }"

definition detectIncident :: "detector \<Rightarrow> monitor \<Rightarrow> mstate \<Rightarrow> unit prog" where
  "detectIncident d m st =
     do {
       s \<leftarrow> States (m_id m);
       (case s of
          Inl _ \<Rightarrow> State_Monad.return ()
        | Inr states \<Rightarrow>
            (let agg = aggregate (m_consensus m) states (m_region_count m) in
             if agg = aggNone then State_Monad.return ()
             else do {
               o1 \<leftarrow> OpenIncidentFor (m_id m);
               (case o1 of
                  Inl _ \<Rightarrow> State_Monad.return ()
                | Inr opn \<Rightarrow>
                    do {
                      now \<leftarrow> time_now;
                      (case (agg, opn) of
                         (aggDown, None) \<Rightarrow> openIncident d m states st now
                       | (aggDown, Some inc) \<Rightarrow> settleHeldIncident d m inc states st now
                       | (aggUp, Some inc) \<Rightarrow> resolveIncident d m now
                       | _ \<Rightarrow> State_Monad.return ())
                    })
             }))
     }"

definition updateSSL :: "monitor \<Rightarrow> check_result \<Rightarrow> unit prog" where
  "updateSSL m r =
     (case cr_SSLExpiresAt r of
        None \<Rightarrow> State_Monad.return ()
      | Some t \<Rightarrow> ignore (SetSSLExpiry (m_id m) t))"

definition OnResult :: "detector \<Rightarrow> monitor \<Rightarrow> string \<Rightarrow> check_result \<Rightarrow> mstate \<Rightarrow> unit prog" where
  "OnResult d m region r st =
     do {
       _ \<leftarrow> detectIncident d m st;
       updateSSL m r
     }"

text \<open>The detector behind \<open>Ingestor.OnResult\<close>, as the server wires it.\<close>

definition detecting_ingestor ::
  "(int \<Rightarrow> int \<Rightarrow> string \<Rightarrow> time \<Rightarrow> check_result \<Rightarrow> unit prog) option \<Rightarrow> detector \<Rightarrow> ingestor" where
  "detecting_ingestor wr d = \<lparr>ig_Writer = wr, ig_OnResult = Some (OnResult d)\<rparr>"

subsection \<open>What every run of the detector keeps\<close>

text \<open>The collaborators of a detector keep a relation between states of the world.\<close>

definition hooks_guar :: "(world \<Rightarrow> world \<Rightarrow> bool) \<Rightarrow> detector \<Rightarrow> bool" where
  "hooks_guar R d \<longleftrightarrow>
     (\<forall>nt. dt_Notifier d = Some nt \<longrightarrow>
        (\<forall>ev. guar R (nt_OpenStep0Channels nt ev)) \<and> (\<forall>ev chs. guar R (nt_NotifyOpenStep0 nt ev chs)) \<and>
        (\<forall>i chs. guar R (nt_NotifyRecovery nt i chs))) \<and>
     (\<forall>dep. dt_Dep d = Some dep \<longrightarrow>
        (\<forall>k n. guar R (pk_HasParent dep k n)) \<and> (\<forall>k n. guar R (pk_ParentDown dep k n)) \<and>
        (\<forall>k n. guar R (pk_DownRoot dep k n))) \<and>
     (\<forall>g. dt_IncidentGroups d = Some g \<longrightarrow>
        (\<forall>s i k n. guar R (gh_Attach g s i k n)) \<and> (\<forall>s i k n p. guar R (gh_OnRootOpened g s i k n p)) \<and>
        (\<forall>s i. guar R (gh_OnRootClosed g s i)) \<and> (\<forall>k n. guar R (gh_RootIncident g k n)))"

lemma guar_ignore_iff: "guar R (ignore p) \<longleftrightarrow> guar R p"
  by (simp add: guar_def run_state_bind case_prod_beta)

text \<open>
  The contract of a relation that the first page, its retries and the hold keep: the marks
  of an incident, the log of pages and the collaborators respect it.
\<close>

locale settle_relation =
  fixes R :: "world \<Rightarrow> world \<Rightarrow> bool" and d :: detector
  assumes rel: "reflp R" "transp R"
    and logs: "guar R (LogStepChannels s i stp chs)" "guar R (ReleaseStepChannels s i stp chs)"
      "guar R (ClaimStepChannelsWithLease s i stp chs l)" "guar R (RecoveryChannels s i)"
    and marks: "guar R (MarkNotified i b)" "guar R (MarkNotifyOpenFailed i)" "guar R (SetNotifyOpenChannels i cs)"
      "guar R (ClearNotifyOpenChannels i)" "guar R (MarkSuppressedByDep i)" "guar R (ClearSuppressedByDep i)"
    and hooks: "hooks_guar R d"
begin

lemmas rules = guar guar_case_prod_app rel marks logs

lemma notifier_guar:
  assumes "dt_Notifier d = Some nt"
  shows "guar R (nt_OpenStep0Channels nt ev)" "guar R (nt_NotifyOpenStep0 nt ev chs)" "guar R (nt_NotifyRecovery nt i chs)"
  using hooks assms by (simp_all add: hooks_guar_def)

lemma dep_guar:
  assumes "dt_Dep d = Some dep"
  shows "guar R (pk_HasParent dep k n)" "guar R (pk_ParentDown dep k n)" "guar R (pk_DownRoot dep k n)"
  using hooks assms by (simp_all add: hooks_guar_def)

lemma group_guar:
  assumes "dt_IncidentGroups d = Some g"
  shows "guar R (gh_Attach g s i k n)" "guar R (gh_OnRootOpened g s i k n p)"
    "guar R (gh_OnRootClosed g s i)" "guar R (gh_RootIncident g k n)"
  using hooks assms by (simp_all add: hooks_guar_def)

lemma guar_retryStepZeroLog: "guar R (retryStepZeroLog d inc)"
  unfolding retryStepZeroLog_def by (intro rules)

lemma guar_page_open: "guar R (page_open d m inc states st)"
proof (cases "dt_Notifier d")
  case (Some nt)
  show ?thesis
    unfolding page_open_def Some option.case notifyOpen_def send_open_def Let_def
    by (intro rules notifier_guar [OF Some])
qed (simp add: page_open_def rules)

lemma guar_settle_parent:
  assumes "dt_Dep d = Some dep"
  shows "guar R (settle_parent d dep m inc states st now)"
proof (cases "dt_IncidentGroups d")
  case None
  show ?thesis unfolding settle_parent_def None option.case by (intro rules guar_page_open dep_guar [OF assms])
next
  case (Some g)
  show ?thesis
    unfolding settle_parent_def Some option.case by (intro rules guar_page_open dep_guar [OF assms] group_guar [OF Some])
qed

lemma guar_settle: "guar R (settleHeldIncident d m inc states st now)"
proof (cases "dt_Dep d")
  case None
  then show ?thesis unfolding settleHeldIncident_def None option.case by (intro rules guar_retryStepZeroLog guar_page_open)
next
  case (Some dep)
  show ?thesis
    unfolding settleHeldIncident_def Some option.case
    by (intro rules guar_retryStepZeroLog guar_page_open guar_settle_parent [OF Some] dep_guar [OF Some])
qed

lemma guar_open_group: "guar R (open_group d m inc)"
proof (cases "dt_IncidentGroups d")
  case (Some g)
  show ?thesis
  proof (cases "dt_Dep d")
    case None
    show ?thesis unfolding open_group_def Some None option.case by (intro rules group_guar [OF Some])
  next
    case (Some dep)
    show ?thesis
      unfolding open_group_def Some \<open>dt_IncidentGroups d = Some g\<close> option.case
      by (intro rules group_guar [OF \<open>dt_IncidentGroups d = Some g\<close>] dep_guar [OF Some])
  qed
qed (simp add: open_group_def rules)

lemma guar_after_open: "guar R (after_open d m states st b inc created)"
proof (cases "dt_Dep d")
  case None
  show ?thesis unfolding after_open_def None option.case by (intro rules guar_open_group guar_page_open)
next
  case (Some dep)
  show ?thesis
    unfolding after_open_def Some option.case by (intro rules guar_open_group guar_page_open dep_guar [OF Some])
qed

lemma guar_after_resolve: "guar R (after_resolve d inc)"
proof -
  have g: "guar R (case dt_IncidentGroups d of None \<Rightarrow> State_Monad.return ()
      | Some g \<Rightarrow> ignore (gh_OnRootClosed g ''uptime'' (i_id inc)))"
    by (cases "dt_IncidentGroups d") (auto intro!: rules group_guar)
  show ?thesis
  proof (cases "dt_Notifier d")
    case None
    show ?thesis unfolding after_resolve_def None option.case by (intro guar_bind rel g guar_return)
  next
    case (Some nt)
    have "guar R (send_recovery d nt inc)"
      unfolding send_recovery_def by (intro rules notifier_guar [OF Some])
    then show ?thesis
      unfolding after_resolve_def Some option.case
      by (intro guar_bind rel g guar_if guar_return guar_retryStepZeroLog)
  qed
qed

end

text \<open>The same with the reads and the statements that open and resolve an incident and touch a monitor.\<close>

locale detector_relation = settle_relation +
  assumes reads: "guar R (States mid)" "guar R (OpenIncidentFor mid)" "guar R (Windows p)" "guar R time_now"
    and opens: "guar R (OpenIncident mid c rs b)" and resolves: "guar R (ResolveIncident mid t)"
    and ssl: "guar R (SetSSLExpiry mid t)"
begin

lemma guar_openIncident: "guar R (openIncident d m states st now)"
  unfolding openIncident_def InMaintenance_def Let_def by (intro rules reads opens guar_after_open)

lemma guar_resolveIncident: "guar R (resolveIncident d m now)"
  unfolding resolveIncident_def by (intro rules resolves guar_after_resolve)

lemma guar_detectIncident: "guar R (detectIncident d m st)"
proof -
  have agg: "guar R (case agg of aggNone \<Rightarrow> State_Monad.return ()
      | aggUp \<Rightarrow> (case opn of None \<Rightarrow> State_Monad.return () | Some inc \<Rightarrow> resolveIncident d m now)
      | aggDown \<Rightarrow> (case opn of None \<Rightarrow> openIncident d m states st now
                     | Some inc \<Rightarrow> settleHeldIncident d m inc states st now))" for agg and opn :: "incident option" and states now
    by (cases agg; cases opn) (simp_all add: guar_openIncident guar_settle guar_resolveIncident rules)
  show ?thesis
    unfolding detectIncident_def Let_def prod.case by (intro rules reads agg)
qed

lemma guar_OnResult: "guar R (OnResult d m region r st)"
  unfolding OnResult_def updateSSL_def by (intro rules guar_detectIncident ssl)

end

text \<open>Relations between tables: the log of pages, the incidents and a monitor's expiry.\<close>

lemma guar_LogStepChannels:
  assumes "reflp S" "transp S" "\<And>d e f. S d (d\<lparr>t_esc := e, t_logfail := f\<rparr>)"
  shows "guar (on_db S) (LogStepChannels s i st chs)"
proof -
  have e: "S d (d\<lparr>t_esc := e\<rparr>)" for d e using assms(3) [where d = d and e = e and f = "t_logfail d"] by simp
  have f: "S d (d\<lparr>t_logfail := f\<rparr>)" for d f using assms(3) [where d = d and e = "t_esc d" and f = f] by simp
  have rr: "reflp (on_db S)" "transp (on_db S)" using assms(1,2) by (auto intro: guar)
  have ins: "S d (snd (insert_esc s i c st now d))" for c now d
    using e reflpD [OF assms(1)] by (auto simp: insert_esc_def)
  have rec: "S d (snd (record_fail_row s i st now d))" for now d
    using f by (auto simp: record_fail_row_def)
  show ?thesis
    unfolding LogStepChannels_def log_one_def LogStep_def recordLogFailure_def clearLogFailure_def clear_fail_row_def
    by (intro guar rr assms(1,2)) (simp_all add: ins rec f)
qed

lemma guar_release_claim:
  assumes "reflp S" "transp S" "\<And>d e f. S d (d\<lparr>t_esc := e, t_logfail := f\<rparr>)"
  shows "guar (on_db S) (ReleaseStepChannels s i st chs)" and "guar (on_db S) (ClaimStepChannelsWithLease s i st chs l)"
proof -
  have e: "S d (d\<lparr>t_esc := e\<rparr>)" for d e using assms(3) [where d = d and e = e and f = "t_logfail d"] by simp
  have rr: "reflp (on_db S)" "transp (on_db S)" using assms(1,2) by (auto intro: guar)
  show "guar (on_db S) (ReleaseStepChannels s i st chs)"
    unfolding ReleaseStepChannels_def release_rows_def by (intro guar rr assms(1,2)) (simp add: e)
  have "\<exists>e. d' = d\<lparr>t_esc := e\<rparr>" if "claim_lease_rows s i st l won cs now d = Some (won', d')" for won cs now d won' d'
    using that
  proof (induction cs arbitrary: won d)
    case Nil
    then show ?case by (auto intro: exI [of _ "t_esc d"])
  next
    case (Cons c cs)
    have "\<exists>e. snd (insert_esc s i c st now d) = d\<lparr>t_esc := e\<rparr>"
      by (auto simp: insert_esc_def intro: exI [of _ "t_esc d"])
    moreover have "\<exists>e. renew_row s i c st now d = d\<lparr>t_esc := e\<rparr>" by (auto simp: renew_row_def)
    ultimately show ?case using Cons by (fastforce split: if_splits)
  qed
  then have "S d (snd (case claim_lease_rows s i st l [] chs now d of None \<Rightarrow> (Inl ErrDB, d) | Some (won, d') \<Rightarrow> (Inr won, d')))" for now d
    using e reflpD [OF assms(1)] by (fastforce split: option.splits)
  then show "guar (on_db S) (ClaimStepChannelsWithLease s i st chs l)"
    unfolding ClaimStepChannelsWithLease_def by (intro guar rr assms(1,2))
qed

lemma settle_relation_on_db:
  assumes S: "reflp S" "transp S" and logs: "\<And>d e f. S d (d\<lparr>t_esc := e, t_logfail := f\<rparr>)"
    and upd: "\<And>p d. S d (snd (update_incidents p (\<lambda>i. i\<lparr>i_notified_open := True, i_notify_failed := False, i_level := max (i_level i) 1\<rparr>) d))"
      "\<And>p d. S d (snd (update_incidents p (\<lambda>i. i\<lparr>i_notified_close := True\<rparr>) d))"
      "\<And>p d. S d (snd (update_incidents p (\<lambda>i. i\<lparr>i_notify_failed := True, i_notify_attempts := i_notify_attempts i + 1\<rparr>) d))"
      "\<And>p cs d. S d (snd (update_incidents p (\<lambda>i. i\<lparr>i_notify_channels := cs\<rparr>) d))"
      "\<And>p d. S d (snd (update_incidents p (\<lambda>i. i\<lparr>i_suppressed := True\<rparr>) d))"
      "\<And>p t d. S d (snd (update_incidents p (\<lambda>i. i\<lparr>i_suppressed := False, i_dep_released := t\<rparr>) d))"
    and "hooks_guar (on_db S) d"
  shows "settle_relation (on_db S) d"
proof
  show rr: "reflp (on_db S)" "transp (on_db S)" using S by (auto intro: guar)
  note g = guar S rr guar_update_by_id upd
  show "guar (on_db S) (MarkNotified i b)" for i b
    unfolding MarkNotified_def by (cases b) (auto intro!: g)
  show "guar (on_db S) (MarkNotifyOpenFailed i)" for i unfolding MarkNotifyOpenFailed_def by (intro g)
  show "guar (on_db S) (SetNotifyOpenChannels i cs)" for i cs unfolding SetNotifyOpenChannels_def by (intro g)
  show "guar (on_db S) (ClearNotifyOpenChannels i)" for i unfolding ClearNotifyOpenChannels_def by (intro g)
  show "guar (on_db S) (MarkSuppressedByDep i)" for i unfolding MarkSuppressedByDep_def by (intro g)
  show "guar (on_db S) (ClearSuppressedByDep i)" for i unfolding ClearSuppressedByDep_def by (intro g)
  show "guar (on_db S) (RecoveryChannels s i)" for s i unfolding RecoveryChannels_def by (intro g)
qed (use assms in \<open>auto intro: guar_LogStepChannels guar_release_claim\<close>)

text \<open>What the notifier behind the interface keeps.\<close>

lemma guar_outbox_notifier:
  "guar (on_db only_outbox) (OpenStep0Channels n ev)" "guar (on_db only_outbox) (NotifyOpenStep0 n ev chs)"
  "guar (on_db only_outbox) (NotifyRecovery n i chs)"
proof -
  have disp: "wp (dispatch n ev chs pre) (\<lambda>_ w'. only_outbox (db w) (db w')) w" for ev chs pre w
    by (rule wp_mono [OF wp_dispatch]) auto
  show "guar (on_db only_outbox) (OpenStep0Channels n ev)"
    unfolding guar_wp OpenStep0Channels_def
    by (auto simp: wp on_db_def only_outbox_def intro: wp_mono [OF wp_resolveChannels])
  show "guar (on_db only_outbox) (NotifyOpenStep0 n ev chs)"
    unfolding guar_wp NotifyOpenStep0_def on_db_def using disp by blast
  show "guar (on_db only_outbox) (NotifyRecovery n i chs)"
    unfolding guar_wp NotifyRecovery_def on_db_def
  proof (intro allI, simp only: wp, rule wp_mono [OF wp_load_event], goal_cases)
    case (1 w r w1)
    then show ?case
      by (cases r) (auto simp: wp only_outbox_def intro: wp_mono [OF disp])
  qed
qed

text \<open>The detector as it runs without dependencies and groups.\<close>

definition plain_detector :: "tzdata \<Rightarrow> outbox_notifier \<Rightarrow> duration \<Rightarrow> detector" where
  "plain_detector tz n grace =
     \<lparr>dt_tz = tz, dt_Notifier = Some (outbox_as_notifier n), dt_Dep = None, dt_IncidentGroups = None,
      dt_SettleGrace = grace, dt_Pool = True\<rparr>"

lemma plain_hooks:
  assumes "\<And>x y. only_outbox x y \<Longrightarrow> S x y"
  shows "hooks_guar (on_db S) (plain_detector tz n grace)"
proof -
  have "on_db only_outbox \<le> on_db S" using assms by (auto simp: on_db_def)
  then show ?thesis
    using guar_outbox_notifier [THEN guar_mono]
    by (simp add: hooks_guar_def plain_detector_def outbox_as_notifier_def)
qed
subsection \<open>The invariants\<close>

definition tables_rel :: "db \<Rightarrow> db \<Rightarrow> bool" where
  "tables_rel d d' \<longleftrightarrow> inv_rel incident_wf d d' \<and> inv_rel outbox_wf d d' \<and> incidents_progress d d'"

lemma tables_rel_rel: "reflp tables_rel" "transp tables_rel"
  using progress_rel unfolding tables_rel_def reflp_def transp_def inv_rel_def by blast+

lemma tables_rel_same_incidents:
  "t_incidents d' = t_incidents d \<Longrightarrow> t_incident_seq d' = t_incident_seq d \<Longrightarrow> inv_rel outbox_wf d d' \<Longrightarrow> tables_rel d d'"
  using reflpD [OF progress_rel(1), of d] by (simp add: tables_rel_def inv_rel_def incident_wf_def incidents_progress_def)

lemma guar_outbox_wf_dispatch: "guar (on_db (inv_rel outbox_wf)) (dispatch n ev chs pre)"
proof -
  note rr = reflp_on_db [OF reflp_inv_rel] transp_on_db [OF transp_inv_rel]
  have e: "guar (on_db (inv_rel outbox_wf)) (enqueue_channel inp p ch)" for inp p ch
    unfolding enqueue_channel_def EnqueueIdempotent_def Enqueue_def
    by (intro guar rr) (auto simp: inv_rel_def outbox_wf_insert outbox_wf_insert_idempotent)
  have one: "guar (on_db (inv_rel outbox_wf)) (dispatch_one l deps inp s b acc ch)" for l deps inp s b acc ch
    unfolding dispatch_one_def by (intro guar rr e)
  show ?thesis
    unfolding dispatch_def Dispatch_def resolveProjectName_def resolveChannels_def MonitorChannelIDs_def Channels_def
      depsLine_def Let_def
    by (intro guar rr one)
qed
lemma tables_rel_update:
  assumes "forward_update f" and "\<And>i. p i \<Longrightarrow> incident_le i (f i)"
  shows "tables_rel d (snd (update_incidents p f d))"
proof -
  have "outbox_wf (snd (update_incidents p f d)) = outbox_wf d" by (simp add: outbox_wf_def update_incidents_def)
  then show ?thesis
    using incident_wf_update [OF assms(1)] uptime_progress_update [of p f, OF assms(2)] by (simp add: tables_rel_def inv_rel_def)
qed

lemma tables_rel_insert: "tables_rel d (snd (insert_incident m c rs b now d))"
proof -
  have "outbox_wf (snd (insert_incident m c rs b now d)) = outbox_wf d"
    by (simp add: outbox_wf_def insert_incident_def Let_def)
  then show ?thesis
    using incident_wf_insert uptime_progress_insert by (simp add: tables_rel_def inv_rel_def)
qed

lemma detector_tables:
  assumes "hooks_guar (on_db tables_rel) d"
  shows "detector_relation (on_db tables_rel) d"
proof -
  have other: "tables_rel d (d\<lparr>t_esc := e, t_logfail := f\<rparr>)" "tables_rel d (d\<lparr>t_monitors := ms\<rparr>)" for d e f ms
    by (rule tables_rel_same_incidents; simp add: inv_rel_def outbox_wf_def)+
  have rr: "reflp (on_db tables_rel)" "transp (on_db tables_rel)" using tables_rel_rel by (auto intro: guar)
  have "settle_relation (on_db tables_rel) d"
    by (rule settle_relation_on_db [OF tables_rel_rel other(1)]; (rule assms)?; rule tables_rel_update;
        simp add: incident_le_def)
  note g = guar tables_rel_rel rr
  have "guar (on_db tables_rel) (OpenIncident m c rs b)" for m c rs b
    unfolding OpenIncident_def OpenIncidentFor_def by (intro g tables_rel_insert)
  moreover have "guar (on_db tables_rel) (ResolveIncident m t)" for m t
    unfolding ResolveIncident_def by (intro g tables_rel_update) (simp_all add: incident_le_def)
  moreover have "guar (on_db tables_rel) (SetSSLExpiry m t)" for m t
    unfolding SetSSLExpiry_def update_monitor_def by (intro g) (simp add: other)
  moreover have "guar (on_db tables_rel) (States m)" "guar (on_db tables_rel) (OpenIncidentFor m)"
    "guar (on_db tables_rel) (Windows m)" "guar (on_db tables_rel) time_now" for m
    unfolding States_def OpenIncidentFor_def Windows_def by (intro g)+
  ultimately show ?thesis
    using \<open>settle_relation (on_db tables_rel) d\<close> by (simp add: detector_relation_def detector_relation_axioms_def)
qed

lemma guar_tables_relI:
  assumes "guar (on_db only_outbox) p" and "guar (on_db (inv_rel outbox_wf)) p"
  shows "guar (on_db tables_rel) p"
  using assms only_outbox_same [of _ _ t_incidents] only_outbox_same [of _ _ t_incident_seq]
  by (auto simp: guar_def on_db_def intro!: tables_rel_same_incidents)

lemma plain_hooks_tables: "hooks_guar (on_db tables_rel) (plain_detector tz n grace)"
proof -
  note rr = reflp_on_db [OF reflp_inv_rel] transp_on_db [OF transp_inv_rel]
  have "guar (on_db (inv_rel outbox_wf)) (OpenStep0Channels n ev)" for ev
    unfolding OpenStep0Channels_def resolveChannels_def MonitorChannelIDs_def Channels_def by (intro guar rr)
  moreover have "guar (on_db (inv_rel outbox_wf)) (NotifyOpenStep0 n ev chs)" for ev chs
    unfolding NotifyOpenStep0_def by (rule guar_outbox_wf_dispatch)
  moreover have "guar (on_db (inv_rel outbox_wf)) (load_event n i mk)" for i mk
    unfolding load_event_def IncidentByID_def Get_def regionsOf_def channelIDsOf_def by (intro guar rr)
  then have "guar (on_db (inv_rel outbox_wf)) (NotifyRecovery n i chs)" for i chs
    unfolding NotifyRecovery_def by (intro guar rr guar_outbox_wf_dispatch)
  ultimately show ?thesis
    using guar_outbox_notifier by (simp add: hooks_guar_def plain_detector_def outbox_as_notifier_def guar_tables_relI)
qed

interpretation plain: detector_relation "on_db tables_rel" "plain_detector tz n grace" for tz n grace
  by (rule detector_tables [OF plain_hooks_tables])


definition ex_detector :: detector where
  "ex_detector = plain_detector (\<lambda>_. Some (0, [])) ex_notifier hour"

definition ex_state :: "string \<Rightarrow> mstate" where
  "ex_state st = \<lparr>s_monitor = 1, s_region = ''local'', s_status = st, s_fails = 2, s_oks = 0, s_checked = Some 4, s_error = ''timeout''\<rparr>"

definition ex_down :: db where
  "ex_down = ex_db\<lparr>t_incidents := [], t_monitor_state := [ex_state ''down'']\<rparr>"

definition ex_watched :: monitor where
  "ex_watched = ex_monitor\<lparr>m_region_count := 1\<rparr>"


subsection \<open>The open incident follows the aggregate\<close>

definition calm_rel :: "world \<Rightarrow> world \<Rightarrow> bool" where
  "calm_rel w w' \<longleftrightarrow> (sched w = [] \<longrightarrow> sched w' = [])"

lemma calm_rel_rel [guar]: "reflp calm_rel" "transp calm_rel"
  by (auto simp: reflp_def transp_def calm_rel_def)

lemma calm_sql [guar]: "guar calm_rel (sql q)" "guar calm_rel (sql_read rq)" "guar calm_rel time_now"
  by (simp_all add: guar_def calm_rel_def)

text \<open>What says which incidents are open.\<close>

definition open_view :: "db \<Rightarrow> (int \<times> int \<times> time option) list" where
  "open_view d = map (\<lambda>i. (i_id i, i_monitor i, i_resolved i)) (t_incidents d)"

definition open_count :: "int \<Rightarrow> db \<Rightarrow> nat" where
  "open_count mid d = length (filter (\<lambda>i. i_monitor i = mid \<and> is_open i) (t_incidents d))"

lemma open_count_view: "open_count mid d = length (filter (\<lambda>(_, m, r). m = mid \<and> r = None) (open_view d))"
  by (simp add: open_count_def open_view_def filter_map o_def case_prod_beta)

definition quiet_rel :: "world \<Rightarrow> world \<Rightarrow> bool" where
  "quiet_rel w w' \<longleftrightarrow> calm_rel w w' \<and> open_view (db w') = open_view (db w)"

lemma guar_quietI: "guar calm_rel p \<Longrightarrow> guar (on_db (same_rel open_view)) p \<Longrightarrow> guar quiet_rel p"
  by (simp add: guar_def quiet_rel_def on_db_def same_rel_def)

lemma settle_quiet:
  assumes "hooks_guar quiet_rel d"
  shows "settle_relation quiet_rel d"
proof
  show "reflp quiet_rel" "transp quiet_rel" by (auto simp: reflp_def transp_def quiet_rel_def calm_rel_def)
  have upd: "same_rel open_view x (snd (update_incidents p f x))"
    if "\<And>i. i_id (f i) = i_id i \<and> i_monitor (f i) = i_monitor i \<and> i_resolved (f i) = i_resolved i" for x p f
    using that by (simp add: same_rel_def open_view_def update_incidents_def sql_update_def)
  have "hooks_guar (on_db (same_rel open_view)) d"
  proof -
    have "quiet_rel \<le> on_db (same_rel open_view)" by (auto simp: quiet_rel_def on_db_def same_rel_def)
    then show ?thesis using assms unfolding hooks_guar_def by (meson guar_mono)
  qed
  then have view: "settle_relation (on_db (same_rel open_view)) d"
    by (intro settle_relation_on_db guar upd) (simp_all add: same_rel_def open_view_def)
  note v = settle_relation.logs [OF view] settle_relation.marks [OF view]
  note defs = MarkNotified_def MarkNotifyOpenFailed_def SetNotifyOpenChannels_def ClearNotifyOpenChannels_def
    MarkSuppressedByDep_def ClearSuppressedByDep_def update_by_id_def
  show "guar quiet_rel (LogStepChannels s i stp chs)" for s i stp chs
    by (rule guar_quietI [OF _ v(1)])
       (unfold LogStepChannels_def log_one_def LogStep_def recordLogFailure_def clearLogFailure_def, intro guar)
  show "guar quiet_rel (ReleaseStepChannels s i stp chs)" for s i stp chs
    by (rule guar_quietI [OF _ v(2)]) (unfold ReleaseStepChannels_def, intro guar)
  show "guar quiet_rel (ClaimStepChannelsWithLease s i stp chs l)" for s i stp chs l
    by (rule guar_quietI [OF _ v(3)]) (unfold ClaimStepChannelsWithLease_def, intro guar)
  show "guar quiet_rel (RecoveryChannels s i)" for s i
    by (rule guar_quietI [OF _ v(4)]) (unfold RecoveryChannels_def, intro guar)
  show "guar quiet_rel (MarkNotified i b)" for i b by (rule guar_quietI [OF _ v(5)]) (unfold defs, intro guar)
  show "guar quiet_rel (MarkNotifyOpenFailed i)" for i by (rule guar_quietI [OF _ v(6)]) (unfold defs, intro guar)
  show "guar quiet_rel (SetNotifyOpenChannels i cs)" for i cs by (rule guar_quietI [OF _ v(7)]) (unfold defs, intro guar)
  show "guar quiet_rel (ClearNotifyOpenChannels i)" for i by (rule guar_quietI [OF _ v(8)]) (unfold defs, intro guar)
  show "guar quiet_rel (MarkSuppressedByDep i)" for i by (rule guar_quietI [OF _ v(9)]) (unfold defs, intro guar)
  show "guar quiet_rel (ClearSuppressedByDep i)" for i by (rule guar_quietI [OF _ v(10)]) (unfold defs, intro guar)
qed (fact assms)

lemma plain_hooks_quiet: "hooks_guar quiet_rel (plain_detector tz n grace)"
proof -
  have disp: "guar calm_rel (dispatch n ev chs pre)" for ev chs pre
    unfolding dispatch_def Dispatch_def dispatch_one_def resolveProjectName_def resolveChannels_def MonitorChannelIDs_def
      Channels_def depsLine_def enqueue_channel_def EnqueueIdempotent_def Enqueue_def Let_def
    by (intro guar)
  have load: "guar calm_rel (load_event n i mk)" for i mk
    unfolding load_event_def IncidentByID_def Get_def regionsOf_def channelIDsOf_def by (intro guar)
  have "guar calm_rel (OpenStep0Channels n ev)" "guar calm_rel (NotifyOpenStep0 n ev chs)" "guar calm_rel (NotifyRecovery n i chs)" for ev chs i
    unfolding OpenStep0Channels_def resolveChannels_def MonitorChannelIDs_def Channels_def NotifyOpenStep0_def NotifyRecovery_def
    by (intro guar disp load)+
  then show ?thesis
    using guar_outbox_notifier only_outbox_same [of _ _ open_view]
    by (auto simp: hooks_guar_def plain_detector_def outbox_as_notifier_def guar_def on_db_def quiet_rel_def open_view_def)
qed

interpretation quiet: settle_relation quiet_rel "plain_detector tz n grace" for tz n grace
  by (rule settle_quiet [OF plain_hooks_quiet])

lemma open_count_one:
  assumes "incident_wf d" and "i \<in> set (t_incidents d)" and "i_monitor i = mid" and "is_open i"
  shows "open_count mid d = 1"
proof -
  have "distinct (map i_monitor (filter is_open (t_incidents d)))" using assms(1) by (simp add: incident_wf_def)
  then have "filter (\<lambda>x. i_monitor x = mid) (filter is_open (t_incidents d)) = [i]"
    using assms(2-4) by (intro filter_one_by_key [where k = i_monitor]) auto
  then show ?thesis by (simp add: open_count_def conj_commute)
qed

lemma resolve_closes:
  assumes "sched w = []"
  shows "\<exists>u. open_count (m_id m) (db u) = 0 \<and>
    (run_state (resolveIncident d m now) w = ((), u) \<or>
     (\<exists>inc. run_state (resolveIncident d m now) w = run_state (after_resolve d inc) u))"
proof -
  let ?p = "\<lambda>i. i_monitor i = m_id m \<and> is_open i"
  let ?r = "update_incidents ?p (\<lambda>i. i\<lparr>i_resolved := Some now\<rparr>) (db w)"
  let ?u = "w\<lparr>db := snd ?r\<rparr>"
  have "open_count (m_id m) (db ?u) = 0"
    by (auto simp: open_count_def update_incidents_def sql_update_def filter_empty_conv)
  moreover have "run_state (ResolveIncident (m_id m) now) w =
      (case fst ?r of [] \<Rightarrow> Inr None | inc # _ \<Rightarrow> Inr (Some inc), ?u)"
    using assms by (simp add: ResolveIncident_def split: list.splits)
  ultimately show ?thesis
    by (intro exI [of _ ?u]) (auto simp: resolveIncident_def run_state_bind split: list.splits)
qed

lemma open_opens:
  assumes "sched w = []" and "list_ex (\<lambda>x. m_id x = m_id m) (t_monitors (db w))" and "open_count (m_id m) (db w) = 0"
  shows "\<exists>u b inc created. open_count (m_id m) (db u) = 1 \<and>
     run_state (openIncident d m states st now) w = run_state (after_open d m states st b inc created) u"
proof -
  let ?b = "case any_active (dt_tz d) (windows_of (m_project m) (db w)) now of Inl _ \<Rightarrow> False | Inr b \<Rightarrow> b"
  let ?ins = "insert_incident (m_id m) (causeFrom st states) (regionsWithStatus states ''down'') ?b (pg_now w) (db w)"
  let ?inc = "new_incident (t_incident_seq (db w)) (m_id m) (causeFrom st states) (regionsWithStatus states ''down'') ?b (pg_now w)"
  let ?u = "w\<lparr>db := snd ?ins\<rparr>"
  have no: "\<not> list_ex (\<lambda>i. i_monitor i = m_id m \<and> is_open i) (t_incidents (db w))"
    using assms(3) by (auto simp: open_count_def list_ex_iff filter_empty_conv)
  then have ins: "?ins = (Inr (Some ?inc), (db w)\<lparr>t_incident_seq := t_incident_seq (db w) + 1, t_incidents := t_incidents (db w) @ [?inc]\<rparr>)"
    using assms(2) by (simp add: insert_incident_def Let_def)
  have "open_count (m_id m) (db ?u) = 1"
    using assms(3) by (simp add: ins open_count_def new_incident_def)
  moreover have "run_state (openIncident d m states st now) w = run_state (after_open d m states st ?b ?inc True) ?u"
    using assms(1) by (simp add: openIncident_def InMaintenance_def Windows_def OpenIncident_def run_state_bind Let_def ins)
  ultimately show ?thesis by blast
qed

text \<open>
  C3: without faults of the database the detector makes the open incident of a monitor
  follow the aggregate of its regions: when the regions say down there is exactly one open
  incident afterwards, when they say up there is none, and as long as no region has
  decided nothing changes; whatever pages and holds happen on the way, and for all
  collaborators that leave the incidents' opening and resolution alone.
\<close>

theorem open_incident_follows_aggregate:
  assumes "incident_wf (db w)" and "sched w = []" and "list_ex (\<lambda>x. m_id x = m_id m) (t_monitors (db w))"
    and "hooks_guar quiet_rel d" and "run_state (detectIncident d m st) w = ((), w')"
  shows "open_count (m_id m) (db w') =
     (case aggregate (m_consensus m) (states_of (m_id m) (db w)) (m_region_count m) of
        aggDown \<Rightarrow> 1 | aggUp \<Rightarrow> 0 | aggNone \<Rightarrow> open_count (m_id m) (db w))"
proof -
  note settle = settle_relation.guar_settle [OF settle_quiet [OF assms(4)]]
    and after_open = settle_relation.guar_after_open [OF settle_quiet [OF assms(4)]]
    and after_resolve = settle_relation.guar_after_resolve [OF settle_quiet [OF assms(4)]]
  have keep: "open_count (m_id m) (db (snd (run_state p u))) = open_count (m_id m) (db u)" if "guar quiet_rel p" for p :: "unit prog" and u
    using guarD [OF that, of u] by (simp add: open_count_view quiet_rel_def)
  let ?agg = "aggregate (m_consensus m) (states_of (m_id m) (db w)) (m_region_count m)"
  let ?open = "find (\<lambda>i. i_monitor i = m_id m \<and> is_open i) (t_incidents (db w))"
  have none: "open_count (m_id m) (db w) = 0" if "?open = None"
    using that by (auto simp: open_count_def find_None_iff filter_empty_conv)
  have one: "open_count (m_id m) (db w) = 1" if "?open = Some inc" for inc
  proof -
    have "inc \<in> set (t_incidents (db w))" "i_monitor inc = m_id m" "is_open inc" using that by (auto simp: find_Some_iff)
    then show ?thesis by (rule open_count_one [OF assms(1)])
  qed
  show ?thesis
  proof (cases ?agg)
    case aggNone
    then show ?thesis using assms(2,5) by (simp add: detectIncident_def States_def Let_def)
  next
    case aggUp
    show ?thesis
    proof (cases ?open)
      case None
      then show ?thesis
        using assms(2,5) aggUp none by (simp add: detectIncident_def States_def OpenIncidentFor_def Let_def)
    next
      case (Some inc)
      then have "run_state (resolveIncident d m (go_now w)) w = ((), w')"
        using assms(2,5) aggUp by (simp add: detectIncident_def States_def OpenIncidentFor_def Let_def)
      then show ?thesis using aggUp resolve_closes [OF assms(2), where m = m and d = d and now = "go_now w"] keep [OF after_resolve] by (auto simp: prod_eq_iff)
    qed
  next
    case aggDown
    show ?thesis
    proof (cases ?open)
      case None
      then have "run_state (openIncident d m (states_of (m_id m) (db w)) st (go_now w)) w = ((), w')"
        using assms(2,5) aggDown by (simp add: detectIncident_def States_def OpenIncidentFor_def Let_def)
      then show ?thesis
        using aggDown open_opens [OF assms(2,3) none [OF None], where d = d and states = "states_of (m_id m) (db w)" and st = st and now = "go_now w"] keep [OF after_open] by (auto simp: prod_eq_iff)
    next
      case (Some inc)
      then have "run_state (settleHeldIncident d m inc (states_of (m_id m) (db w)) st (go_now w)) w = ((), w')"
        using assms(2,5) aggDown by (simp add: detectIncident_def States_def OpenIncidentFor_def Let_def)
      moreover have "open_count (m_id m) (db (snd (run_state (settleHeldIncident d m inc (states_of (m_id m) (db w)) st (go_now w)) w))) = 1"
        using keep [OF settle] one [OF Some] by simp
      ultimately show ?thesis using aggDown by simp
    qed
  qed
qed

theorem open_incident_follows_aggregate_witness:
  "open_count 1 (db (snd (run_state (detectIncident ex_detector ex_watched (ex_state ''down'')) (calm 5 ex_down)))) = 1"
proof -
  let ?run = "run_state (detectIncident ex_detector ex_watched (ex_state ''down'')) (calm 5 ex_down)"
  have wf: "incident_wf (db (calm 5 ex_down))" and fk: "list_ex (\<lambda>x. m_id x = m_id ex_watched) (t_monitors (db (calm 5 ex_down)))"
    and agg: "aggregate (m_consensus ex_watched) (states_of 1 ex_down) (m_region_count ex_watched) = aggDown"
    and mid: "m_id ex_watched = 1" by code_simp+
  have hooks: "hooks_guar quiet_rel ex_detector" unfolding ex_detector_def by (rule plain_hooks_quiet)
  have run: "?run = ((), snd ?run)" by (simp add: prod_eq_iff)
  show ?thesis using open_incident_follows_aggregate [OF wf _ fk hooks run] by (simp add: agg mid)
qed

subsection \<open>Who is told, and when nobody is\<close>

text \<open>The rows that a dispatch to given channels adds.\<close>

definition adds_rows_for :: "int list \<Rightarrow> db \<Rightarrow> db \<Rightarrow> bool" where
  "adds_rows_for chs d d' \<longleftrightarrow>
     only_outbox d d' \<and>
     (\<exists>rows. t_outbox d' = t_outbox d @ rows \<and> list_all (\<lambda>r. o_channel r \<in> set chs) rows)"

lemma adds_nothing: "adds_rows_for chs d d"
  by (auto simp: adds_rows_for_def only_outbox_def)

lemma dispatch_adds:
  assumes "chs \<noteq> []"
  shows "wp (dispatch n ev chs pre) (\<lambda>_ w'. adds_rows_for chs (db w) (db w')) w"
  unfolding dispatch_def
proof (simp only: wp, rule wp_mono [OF wp_resolveChannels], goal_cases)
  case (1 c w1)
  show ?case
  proof (cases c)
    case (Inl e)
    then show ?thesis using 1 by (simp add: wp adds_nothing)
  next
    case (Inr channels)
    show ?thesis
      unfolding Inr sum.case Let_def
    proof (simp only: wp, rule wp_mono [OF wp_depsLine], goal_cases)
      case (1 deps w2)
      let ?deps = "\<lparr>dd_EmailEnabled = on_EmailEnabled n, dd_Projects = on_Projects n\<rparr>"
      have w2: "db w2 = db w" using 1 \<open>db w1 = db w \<and> _\<close> by simp
      have "wp (Dispatch l ?deps inp) (\<lambda>_ w'. adds_rows_for chs (db w2) (db w')) w2" if "di_ChannelIDs inp = chs" for l inp
      proof -
        obtain enq err w' where r: "run_state (Dispatch l ?deps inp) w2 = ((enq, err), w')" by (metis prod.collapse)
        then obtain subject body extra where
          "dispatched l ?deps (inp\<lparr>di_Extra := extra\<rparr>) subject body (di_Channels inp) ([], None) (db w2) (enq, err) (db w')"
          by (rule Dispatch_dispatched)
        then have "adds_rows_for chs (db w2) (db w')"
          using assms that unfolding dispatched_def adds_rows_for_def
          by (fastforce simp: list_all_iff dispatch_row_def list_ex_iff passes_gates_def)
        then show ?thesis using r by (simp add: wp_def)
      qed
      then show ?case by (simp add: w2)
    qed
  qed
qed

lemma recovery_adds:
  assumes "chs \<noteq> []"
  shows "wp (NotifyRecovery n i chs) (\<lambda>_ w'. adds_rows_for chs (db w) (db w')) w"
  unfolding NotifyRecovery_def
proof (simp only: wp, rule wp_mono [OF wp_load_event], goal_cases)
  case (1 r w1)
  then show ?case
    by (cases r) (auto simp: wp adds_nothing intro: wp_mono [OF dispatch_adds [OF assms]])
qed
text \<open>The queue and the log of pages, which the collaborators other than the notifier leave alone.\<close>

abbreviation pages :: "db \<Rightarrow> outbox_row list \<times> esc_row list" where
  "pages d \<equiv> (t_outbox d, t_esc d)"

lemma wp_of_guar: "guar (on_db (same_rel v)) p \<Longrightarrow> wp p (\<lambda>_ w'. v (db w') = v (db w)) w"
  by (simp add: guar_def on_db_def same_rel_def wp_def case_prod_beta)

lemma resolve_returns:
  "wp (ResolveIncident mid now) (\<lambda>r w'. pages (db w') = pages (db w) \<and>
     (\<forall>inc. r = Inr (Some inc) \<longrightarrow> list_ex (\<lambda>i. i_id i = i_id inc \<and> i_monitor i = mid \<and> is_open i \<and>
        i_notified_open i = i_notified_open inc) (t_incidents (db w)))) w"
proof -
  have inc: "list_ex (\<lambda>i. i_id i = i_id inc \<and> i_monitor i = mid \<and> is_open i \<and> i_notified_open i = i_notified_open inc) (t_incidents d)"
    if "map (\<lambda>i. i\<lparr>i_resolved := Some now\<rparr>) (filter (\<lambda>i. i_monitor i = mid \<and> is_open i) (t_incidents d)) = inc # rest" for d inc rest
    using that by (fastforce simp: list_ex_iff filter_eq_Cons_iff)
  show ?thesis
    unfolding ResolveIncident_def update_incidents_def
    by (auto simp: wp intro!: wp_sqlI dest!: inc split: list.splits)
qed

lemma retry_keeps_outbox: "wp (retryStepZeroLog d inc) (\<lambda>_ w'. t_outbox (db w') = t_outbox (db w)) w"
proof (rule wp_of_guar)
  have rr: "reflp (on_db (same_rel t_outbox))" "transp (on_db (same_rel t_outbox))" by (auto intro: guar)
  have log: "guar (on_db (same_rel t_outbox)) (LogStepChannels s i stp chs)" for s i stp chs
    by (rule guar_LogStepChannels) (auto intro: guar simp: same_rel_def)
  show "guar (on_db (same_rel t_outbox)) (retryStepZeroLog d inc)"
    unfolding retryStepZeroLog_def ClearNotifyOpenChannels_def update_by_id_def
    by (intro guar rr log) (simp add: same_rel_def update_incidents_def)
qed

lemma mark_keeps_pages: "wp (MarkNotified i b) (\<lambda>_ w'. pages (db w') = pages (db w)) w"
  "wp (MarkSuppressedByDep i) (\<lambda>_ w'. pages (db w') = pages (db w)) w"
  unfolding MarkNotified_def MarkSuppressedByDep_def update_by_id_def
  by (auto simp: wp update_incidents_def intro!: wp_sqlI)

text \<open>The recovery notice reaches channels that are in the log of the incident's pages.\<close>

definition told_only_paged :: "int \<Rightarrow> outbox_row list \<Rightarrow> db \<Rightarrow> bool" where
  "told_only_paged i q d \<longleftrightarrow>
     (\<exists>rows. t_outbox d = q @ rows \<and>
       list_all (\<lambda>r. list_ex (\<lambda>e. e_source e = ''uptime'' \<and> e_incident e = i \<and> e_channel e = o_channel r) (t_esc d)) rows)"

lemma send_recovery_told:
  "wp (send_recovery d (outbox_as_notifier n) inc) (\<lambda>_ w'. told_only_paged (i_id inc) (t_outbox (db w)) (db w')) w"
  unfolding send_recovery_def RecoveryChannels_def
proof (simp only: wp, rule wp_sql_readI, goal_cases)
  case (1 t w1)
  let ?chs = "recovery_channels (db w) ''uptime'' (i_id inc)"
  have nt: "nt_NotifyRecovery (outbox_as_notifier n) = NotifyRecovery n" by (simp add: outbox_as_notifier_def)
  have told: "told_only_paged (i_id inc) (t_outbox (db w)) d'" if "adds_rows_for ?chs (db w) d2" "pages d' = pages d2" for d2 d'
  proof -
    have "t_esc d2 = t_esc (db w)" using that(1) only_outbox_same [of "db w" d2 t_esc] by (simp add: adds_rows_for_def)
    then show ?thesis
      using that by (fastforce simp: told_only_paged_def adds_rows_for_def recovery_channels_def list_all_iff list_ex_iff)
  qed
  show ?case
  proof (cases "?chs = []")
    case True
    then show ?thesis using 1 by (simp add: wp told_only_paged_def)
  next
    case False
    show ?thesis
      unfolding sum.case nt using False 1
      by (auto simp: wp told intro!: wp_mono [OF recovery_adds [OF False]] wp_mono [OF mark_keeps_pages(1)])
  qed
next
  case (2 w1)
  then show ?case by (simp add: wp told_only_paged_def)
qed

text \<open>
  C12: a recovery notice goes only to those who were paged: whatever faults occur, resolving
  the incident of a monitor adds to the queue only notifications to channels that the log
  of pages holds for an incident of that monitor which was open and announced before; an
  incident nobody was told of is resolved in silence.
\<close>

theorem recovery_only_to_paged:
  assumes "dt_Notifier d = Some (outbox_as_notifier n)"
    and "hooks_guar (on_db (same_rel pages)) (d\<lparr>dt_Notifier := None\<rparr>)"
    and "run_state (resolveIncident d m now) w = ((), w')"
  shows "t_outbox (db w') = t_outbox (db w) \<or>
    list_ex (\<lambda>i. i_monitor i = m_id m \<and> is_open i \<and> i_notified_open i \<and>
       told_only_paged (i_id i) (t_outbox (db w)) (db w')) (t_incidents (db w))"
proof -
  let ?Q = "\<lambda>w'. t_outbox (db w') = t_outbox (db w) \<or>
    list_ex (\<lambda>i. i_monitor i = m_id m \<and> is_open i \<and> i_notified_open i \<and>
       told_only_paged (i_id i) (t_outbox (db w)) (db w')) (t_incidents (db w))"
  have group: "wp (case dt_IncidentGroups d of None \<Rightarrow> State_Monad.return ()
      | Some g \<Rightarrow> ignore (gh_OnRootClosed g ''uptime'' i)) (\<lambda>_ u'. t_outbox (db u') = t_outbox (db u)) u" for i u
  proof (cases "dt_IncidentGroups d")
    case (Some g)
    then have "wp (gh_OnRootClosed g ''uptime'' i) (\<lambda>_ u'. pages (db u') = pages (db u)) u"
      using assms(2) by (intro wp_of_guar) (simp add: hooks_guar_def)
    then show ?thesis unfolding Some option.case wp by (rule wp_mono) simp
  qed (simp add: wp)
  have "wp (resolveIncident d m now) (\<lambda>_. ?Q) w"
    unfolding resolveIncident_def
  proof (simp only: wp, rule wp_mono [OF resolve_returns], goal_cases)
    case (1 r w1)
    then have q: "t_outbox (db w1) = t_outbox (db w)" by simp
    show ?case
    proof (cases "\<exists>inc. r = Inr (Some inc)")
      case False
      then show ?thesis using q by (auto simp: wp split: sum.splits option.splits)
    next
      case True
      then obtain inc where r: "r = Inr (Some inc)" by blast
      show ?thesis
        unfolding r sum.case option.case after_resolve_def assms(1)
      proof (subst wp_bind, rule wp_mono [OF group], goal_cases)
        case (1 x w2)
        show ?case
        proof (cases "i_in_maintenance inc \<or> \<not> i_notified_open inc \<or> \<not> dt_Pool d")
          case False
          then have "list_ex (\<lambda>i. i_id i = i_id inc \<and> i_monitor i = m_id m \<and> is_open i \<and> i_notified_open i) (t_incidents (db w))"
            using \<open>pages (db w1) = pages (db w) \<and> _\<close> r by (auto simp: list_ex_iff)
          then have told: "?Q u" if "told_only_paged (i_id inc) (t_outbox (db w)) (db u)" for u
            using that by (auto simp: list_ex_iff)
          have "wp (retryStepZeroLog d inc) (\<lambda>_. wp (send_recovery d (outbox_as_notifier n) inc) (\<lambda>_. ?Q)) w2"
          proof (rule wp_mono [OF retry_keeps_outbox], goal_cases)
            case (1 y w3)
            then have "t_outbox (db w3) = t_outbox (db w)" using \<open>t_outbox (db w2) = t_outbox (db w1)\<close> q by simp
            then show ?case using told by (intro wp_mono [OF send_recovery_told]) simp
          qed
          then show ?thesis using False by (simp add: wp)
        qed (use 1 q in \<open>simp add: wp\<close>)
      qed
    qed
  qed
  then show ?thesis using assms(3) by (simp add: wp_def)
qed

theorem recovery_only_to_paged_witness:
  "let w = calm 9 (ex_db\<lparr>t_esc := [\<lparr>e_source = ''uptime'', e_incident = 1, e_channel = 7, e_step = 0, e_sent_at = 1\<rparr>]\<rparr>);
       w' = snd (run_state (resolveIncident ex_detector ex_watched 9) w)
   in map o_channel (t_outbox (db w')) = [7] \<and> told_only_paged 1 [] (db w')"
proof -
  let ?w = "calm 9 (ex_db\<lparr>t_esc := [\<lparr>e_source = ''uptime'', e_incident = 1, e_channel = 7, e_step = 0, e_sent_at = 1\<rparr>]\<rparr>)"
  let ?run = "run_state (resolveIncident ex_detector ex_watched 9) ?w"
  have nt: "dt_Notifier ex_detector = Some (outbox_as_notifier ex_notifier)" by (simp add: ex_detector_def plain_detector_def)
  have hooks: "hooks_guar (on_db (same_rel pages)) (ex_detector\<lparr>dt_Notifier := None\<rparr>)"
    by (simp add: hooks_guar_def ex_detector_def plain_detector_def)
  have run: "?run = ((), snd ?run)" by (simp add: prod_eq_iff)
  have rows: "map o_channel (t_outbox (db (snd ?run))) = [7]" by code_simp
  then have "t_outbox (db (snd ?run)) \<noteq> []" by auto
  then show ?thesis using recovery_only_to_paged [OF nt hooks run] rows by (auto simp: Let_def ex_defs)
qed

text \<open>One question to the dependency checker decides; a held incident then stays silent.\<close>

lemma held_while_parent_down:
  assumes dep: "dt_Dep d = Some dep" and held: "\<not> i_notified_open inc" "\<not> i_notify_failed inc"
    and down: "fst (fst (run_state (pk_ParentDown dep ''monitor'' (m_id m)) w))"
    and hooks: "hooks_guar (on_db (same_rel pages)) (d\<lparr>dt_Notifier := None\<rparr>)"
  shows "wp (settleHeldIncident d m inc states st now) (\<lambda>_ w'. pages (db w') = pages (db w)) w"
proof -
  have "guar (on_db (same_rel pages)) (pk_ParentDown dep ''monitor'' (m_id m))"
    using hooks dep by (simp add: hooks_guar_def)
  then have pd: "wp (pk_ParentDown dep ''monitor'' (m_id m)) (\<lambda>r u. fst r \<and> pages (db u) = pages (db w)) w"
    using down by (simp add: guar_def on_db_def same_rel_def wp_def case_prod_beta)
  have attach: "wp (gh_Attach g ''uptime'' i ''monitor'' (m_id m)) (\<lambda>_ u'. pages (db u') = pages (db w)) u"
    if "dt_IncidentGroups d = Some g" "pages (db u) = pages (db w)" for g i u
    using that hooks wp_of_guar [of pages "gh_Attach g ''uptime'' i ''monitor'' (m_id m)" u]
    by (simp add: hooks_guar_def)
  have parent: "wp (settle_parent d dep m inc states st now) (\<lambda>_ u'. pages (db u') = pages (db w)) w"
    unfolding settle_parent_def wp
    by (rule wp_mono [OF pd])
       (auto simp: wp intro!: wp_mono [OF mark_keeps_pages(2)] wp_mono [OF attach] split: option.splits prod.splits)
  have early: "wp (pk_ParentDown dep ''monitor'' (m_id m))
      (\<lambda>r. wp (case r of (dn, e) \<Rightarrow> if e \<noteq> None \<or> dn then State_Monad.return () else p dn e) (\<lambda>_ w'. pages (db w') = pages (db w))) w" for p
    by (rule wp_mono [OF pd]) (auto simp: wp split: prod.splits)
  show ?thesis
    unfolding settleHeldIncident_def dep option.case
    using held parent early by (auto simp: wp)
qed

text \<open>
  While a parent is down nothing is sent: an incident whose first page is held (not sent,
  not failed) stays silent when the dependency checker reports its parent down, with or
  without an error; neither the queue of notifications nor the log of pages changes,
  whatever faults occur.
\<close>

theorem no_page_while_parent_down:
  assumes "dt_Dep d = Some dep" and "\<not> i_notified_open inc" and "\<not> i_notify_failed inc"
    and "fst (fst (run_state (pk_ParentDown dep ''monitor'' (m_id m)) w))"
    and "hooks_guar (on_db (same_rel pages)) (d\<lparr>dt_Notifier := None\<rparr>)"
    and "run_state (settleHeldIncident d m inc states st now) w = ((), w')"
  shows "t_outbox (db w') = t_outbox (db w) \<and> t_esc (db w') = t_esc (db w)"
  using held_while_parent_down [OF assms(1-5), of states st now] assms(6) by (simp add: wp_def)

theorem no_page_while_parent_down_witness:
  "let d = ex_detector\<lparr>dt_Dep := Some \<lparr>pk_HasParent = \<lambda>_ _. State_Monad.return (True, None),
             pk_ParentDown = \<lambda>_ _. State_Monad.return (True, None),
             pk_DownRoot = \<lambda>_ _. State_Monad.return (('''', 0, False), None)\<rparr>\<rparr>;
       w' = snd (run_state (settleHeldIncident d ex_watched (ex_incident\<lparr>i_notified_open := False\<rparr>) [] (ex_state ''down'') (9 * hour))
         (calm (9 * hour) ex_db))
   in t_outbox (db w') = [] \<and> map i_suppressed (t_incidents (db w')) = [True]"
proof -
  let ?dep = "\<lparr>pk_HasParent = \<lambda>_ _. State_Monad.return (True, None), pk_ParentDown = \<lambda>_ _. State_Monad.return (True, None),
             pk_DownRoot = \<lambda>_ _. State_Monad.return (('''', 0, False), None)\<rparr>"
  let ?d = "ex_detector\<lparr>dt_Dep := Some ?dep\<rparr>" and ?inc = "ex_incident\<lparr>i_notified_open := False\<rparr>"
  let ?run = "run_state (settleHeldIncident ?d ex_watched ?inc [] (ex_state ''down'') (9 * hour)) (calm (9 * hour) ex_db)"
  have hooks: "hooks_guar (on_db (same_rel pages)) (?d\<lparr>dt_Notifier := None\<rparr>)"
    by (simp add: hooks_guar_def ex_detector_def plain_detector_def guar)
  have run: "?run = ((), snd ?run)" by (simp add: prod_eq_iff)
  have "map i_suppressed (t_incidents (db (snd ?run))) = [True]" by code_simp
  then show ?thesis
    using no_page_while_parent_down [of ?d ?dep ?inc ex_watched "calm (9 * hour) ex_db" "[]" "ex_state ''down''" "9 * hour" "snd ?run",
        OF _ _ _ _ hooks run]
    by (simp add: Let_def ex_defs)
qed

end
