(* ===== verification/Uptime_Watchdog.thy ===== *)
theory Uptime_Watchdog
  imports Uptime_Detector
begin

text \<open>
  \<open>internal/uptime/watchdog.go\<close>: the periodic passes over silent heartbeat monitors, over
  certificates that expire soon and over open incidents that are due for a reminder. Each
  pass reads candidates and claims every one of them with a single conditional statement
  before it acts, so that of several replicas only one does. The properties: misses,
  certificate thresholds and reminders are claimed at most once per debounce, certificate
  and interval; a silent monitor is counted as failing and its incident follows; and what
  happens to a heartbeat monitor that is not assigned to the region of the watchdog.
\<close>

subsection \<open>Model: claims and candidates\<close>

text \<open>
  \<open>ClaimHeartbeatMiss\<close>: an insert whose conflict branch updates only a row that is old
  enough; a monitor that is gone violates the foreign key. Returns whether a row came back.
\<close>

definition miss_row :: "int \<Rightarrow> string \<Rightarrow> time \<Rightarrow> mstate" where
  "miss_row monitorID region moment =
     \<lparr>s_monitor = monitorID, s_region = region, s_status = ''unknown'', s_fails = 0, s_oks = 0,
      s_checked = Some moment, s_error = ''''\<rparr>"

definition miss_due :: "duration \<Rightarrow> time \<Rightarrow> mstate \<Rightarrow> bool" where
  "miss_due debounce moment s \<longleftrightarrow> (case s_checked s of None \<Rightarrow> True | Some c \<Rightarrow> c + debounce \<le> moment)"

definition claim_miss :: "int \<Rightarrow> string \<Rightarrow> duration \<Rightarrow> time \<Rightarrow> db \<Rightarrow> bool result \<times> db" where
  "claim_miss monitorID region debounce moment d =
     (let hit = (\<lambda>s. s_monitor s = monitorID \<and> s_region s = region) in
      case filter hit (t_monitor_state d) of
        [] \<Rightarrow>
          (if list_ex (\<lambda>m. m_id m = monitorID) (t_monitors d)
           then (Inr True, d\<lparr>t_monitor_state := t_monitor_state d @ [miss_row monitorID region moment]\<rparr>)
           else (Inl ErrDB, d))
      | s # _ \<Rightarrow>
          (Inr (miss_due debounce moment s),
           d\<lparr>t_monitor_state := sql_update (\<lambda>s. hit s \<and> miss_due debounce moment s)
               (\<lambda>s. s\<lparr>s_checked := Some moment\<rparr>) (t_monitor_state d)\<rparr>))"

definition ClaimHeartbeatMiss :: "int \<Rightarrow> string \<Rightarrow> duration \<Rightarrow> time \<Rightarrow> bool result prog" where
  "ClaimHeartbeatMiss monitorID region debounce moment =
     do {
       r \<leftarrow> sql (\<lambda>_. claim_miss monitorID region debounce moment);
       State_Monad.return (case r of Inl e \<Rightarrow> Inl e | Inr won \<Rightarrow> won)
     }"

text \<open>\<open>ClaimSSLAlert\<close>: \<open>array_agg(DISTINCT x)\<close> of the stored and the given thresholds, in order.\<close>

definition ssl_claimable :: "int \<Rightarrow> int list \<Rightarrow> monitor \<Rightarrow> bool" where
  "ssl_claimable monitorID thresholds m \<longleftrightarrow> m_id m = monitorID \<and> \<not> set thresholds \<subseteq> set (m_ssl_alerted m)"

definition ssl_claim_row :: "int list \<Rightarrow> monitor \<Rightarrow> monitor" where
  "ssl_claim_row thresholds m = m\<lparr>m_ssl_alerted := sort (remdups (m_ssl_alerted m @ thresholds))\<rparr>"

definition ClaimSSLAlert :: "int \<Rightarrow> int list \<Rightarrow> bool result prog" where
  "ClaimSSLAlert monitorID thresholds =
     sql (\<lambda>_ d. (list_ex (ssl_claimable monitorID thresholds) (t_monitors d),
        d\<lparr>t_monitors := sql_update (ssl_claimable monitorID thresholds) (ssl_claim_row thresholds) (t_monitors d)\<rparr>))"

text \<open>\<open>ClaimReminder\<close>: the cutoff is taken from the clock of the database.\<close>

definition reminder_base :: "incident \<Rightarrow> time" where
  "reminder_base i = (case i_last_reminded i of Some t \<Rightarrow> t | None \<Rightarrow> i_started i)"

definition remindable :: "int \<Rightarrow> int \<Rightarrow> time \<Rightarrow> incident \<Rightarrow> bool" where
  "remindable incidentID mins now i \<longleftrightarrow>
     i_id i = incidentID \<and> is_open i \<and> reminder_base i + mins * minute \<le> now"

definition ClaimReminder :: "int \<Rightarrow> int \<Rightarrow> bool result prog" where
  "ClaimReminder incidentID remindEveryMinutes =
     do {
       r \<leftarrow> sql (\<lambda>now. update_incidents (remindable incidentID remindEveryMinutes now)
              (\<lambda>i. i\<lparr>i_last_reminded := Some now\<rparr>));
       State_Monad.return (case r of Inl e \<Rightarrow> Inl e | Inr rows \<Rightarrow> Inr (rows \<noteq> []))
     }"

text \<open>
  The candidates. \<open>grace\<close> stands for \<open>(config->>'grace_seconds')::int\<close>, which PostgreSQL reads
  from the stored JSON; a missing key counts as 60 seconds.
\<close>

definition stale_heartbeat :: "(string \<Rightarrow> int option) \<Rightarrow> time \<Rightarrow> monitor \<Rightarrow> bool" where
  "stale_heartbeat grace now m \<longleftrightarrow>
     m_kind m = ''heartbeat'' \<and> m_enabled m \<and>
     (case m_last_beat m of Some t \<Rightarrow> t | None \<Rightarrow> m_created m) +
       (case grace (m_config m) of Some g \<Rightarrow> g | None \<Rightarrow> 60) * second < now"

definition StaleHeartbeats :: "(string \<Rightarrow> int option) \<Rightarrow> monitor list result prog" where
  "StaleHeartbeats grace =
     do {
       r \<leftarrow> sql_read (\<lambda>now d. sort_key m_id (filter (stale_heartbeat grace now) (t_monitors d)));
       (case r of
          Inl e \<Rightarrow> State_Monad.return (Inl e)
        | Inr out \<Rightarrow>
            do {
              rb \<leftarrow> regionsOfBatch (map m_id out);
              State_Monad.return
                (case rb of
                   Inl e \<Rightarrow> Inl e
                 | Inr regionsByMon \<Rightarrow> Inr (map (\<lambda>m. with_regions (regionsByMon (m_id m)) m) out))
            })
     }"

definition SSLCandidates :: "monitor list result prog" where
  "SSLCandidates = sql_read (\<lambda>_ d. sort_key m_id (filter (\<lambda>m. m_ssl_expires m \<noteq> None) (t_monitors d)))"

text \<open>
  \<open>IncidentsDueForReminder\<close> reads eleven columns of the incident; the rest stay zero.
\<close>

definition reminder_view :: "incident \<Rightarrow> incident" where
  "reminder_view i =
     i\<lparr>i_acked_at := None, i_acked_by := None, i_severity := '''', i_level := 0, i_last_escalated := None,
       i_notify_failed := False, i_notify_attempts := 0, i_notify_channels := [], i_group := None,
       i_dep_released := None\<rparr>"

definition reminder_due :: "time \<Rightarrow> incident \<Rightarrow> monitor \<Rightarrow> bool" where
  "reminder_due now i m \<longleftrightarrow>
     m_id m = i_monitor i \<and> is_open i \<and> \<not> i_in_maintenance i \<and> \<not> i_suppressed i \<and> i_notified_open i \<and>
     m_enabled m \<and> 0 < m_remind_every m \<and> reminder_base i + m_remind_every m * minute < now"

definition IncidentsDueForReminder :: "(incident \<times> monitor) list result prog" where
  "IncidentsDueForReminder =
     sql_read (\<lambda>now d. sort_key (\<lambda>(i, m). i_id i)
       (concat (map (\<lambda>i. map (\<lambda>m. (reminder_view i, m)) (filter (reminder_due now i) (t_monitors d))) (t_incidents d))))"

subsection \<open>Model: the passes\<close>

text \<open>
  \<open>Watchdog\<close>. The budget of a tick is not a part of it: an expired context makes the
  statements that follow fail, which the schedule of faults covers.
\<close>

record watchdog =
  wd_Detector :: "detector option"
  wd_Notifier :: "notifier option"
  wd_Maint :: "(int \<Rightarrow> time \<Rightarrow> bool result prog) option"
  wd_Writer :: "(int \<Rightarrow> int \<Rightarrow> string \<Rightarrow> time \<Rightarrow> check_result \<Rightarrow> unit prog) option"
  wd_Region :: string
  wd_Interval :: duration
  wd_grace :: "string \<Rightarrow> int option"

definition wd_region :: "watchdog \<Rightarrow> string" where
  "wd_region w = (if wd_Region w = '''' then ''local'' else wd_Region w)"

definition heartbeatMissedError :: string where
  "heartbeatMissedError = ''no heartbeat within grace period''"

definition miss_result :: check_result where
  "miss_result =
     \<lparr>cr_OK = False, cr_StatusCode = 0, cr_Error = heartbeatMissedError, cr_DNSMs = 0, cr_ConnectMs = 0, cr_TLSMs = 0,
      cr_TTFBMs = 0, cr_TotalMs = 0, cr_BodySize = 0, cr_SSLExpiresAt = None\<rparr>"

definition wd_debounce :: "watchdog \<Rightarrow> duration" where
  "wd_debounce w = (if wd_Interval w \<le> 0 then minute else wd_Interval w)"

text \<open>One iteration of the loop of \<open>checkHeartbeats\<close>, and the pass.\<close>

definition report_miss :: "watchdog \<Rightarrow> time \<Rightarrow> monitor \<Rightarrow> mstate \<Rightarrow> unit prog" where
  "report_miss w moment m st =
     do {
       _ \<leftarrow> (case wd_Writer w of None \<Rightarrow> State_Monad.return ()
             | Some add \<Rightarrow> add (m_project m) (m_id m) (wd_region w) moment miss_result);
       (case wd_Detector w of None \<Rightarrow> State_Monad.return ()
        | Some d \<Rightarrow> OnResult d m (wd_region w) miss_result st)
     }"

definition heartbeat_miss :: "watchdog \<Rightarrow> time \<Rightarrow> monitor \<Rightarrow> unit prog" where
  "heartbeat_miss w moment m =
     do {
       r \<leftarrow> ClaimHeartbeatMiss (m_id m) (wd_region w) (wd_debounce w) moment;
       (if r \<noteq> Inr True then State_Monad.return ()
        else do {
          st \<leftarrow> ApplyResult (m_id m) (wd_region w) False heartbeatMissedError moment;
          (case st of Inl _ \<Rightarrow> State_Monad.return () | Inr s \<Rightarrow> report_miss w moment m s)
        })
     }"

definition checkHeartbeats :: "watchdog \<Rightarrow> unit prog" where
  "checkHeartbeats w =
     do {
       r \<leftarrow> StaleHeartbeats (wd_grace w);
       (case r of
          Inl _ \<Rightarrow> State_Monad.return ()
        | Inr monitors \<Rightarrow> do { moment \<leftarrow> time_now; for_each monitors (heartbeat_miss w moment) })
     }"

text \<open>
  \<open>sslThresholds\<close> collects the keys of a map and sorts them downwards. \<open>daysLeftUntil\<close> divides
  hours by 24 in floating point and rounds up; the quotient is taken exactly here (the two
  differ only when less than a microsecond is missing to a whole number of days).
\<close>

definition sslThresholds :: "int \<Rightarrow> int list" where
  "sslThresholds alertDays = rev (sort (remdups ([7, 3, 1] @ (if alertDays > 0 then [alertDays] else []))))"

definition daysLeftUntil :: "time \<Rightarrow> time \<Rightarrow> int" where
  "daysLeftUntil expires now = - ((- time_sub expires now) div (24 * hour))"

definition ssl_due :: "monitor \<Rightarrow> int \<Rightarrow> int list" where
  "ssl_due m daysLeft =
     filter (\<lambda>t. daysLeft \<le> t \<and> t \<notin> set (m_ssl_alerted m)) (sslThresholds (m_ssl_alert_days m))"

definition ssl_event :: "monitor \<Rightarrow> int \<Rightarrow> event" where
  "ssl_event m daysLeft =
     \<lparr>ev_Kind = ''ssl_expiring'', ev_Monitor = m, ev_Incident = None, ev_Regions = [], ev_Cause = '''',
      ev_DurationSeconds = 0, ev_DaysLeft = daysLeft\<rparr>"

definition ssl_alert :: "notifier \<Rightarrow> time \<Rightarrow> monitor \<Rightarrow> unit prog" where
  "ssl_alert nt now m =
     (case m_ssl_expires m of
        None \<Rightarrow> State_Monad.return ()
      | Some expires \<Rightarrow>
          (let daysLeft = daysLeftUntil expires now; due = ssl_due m daysLeft in
           if due = [] then State_Monad.return ()
           else do {
             r \<leftarrow> ClaimSSLAlert (m_id m) due;
             (if r \<noteq> Inr True then State_Monad.return ()
              else ignore (nt_Notify nt (ssl_event m daysLeft)))
           }))"

definition checkSSL :: "watchdog \<Rightarrow> unit prog" where
  "checkSSL w =
     (case wd_Notifier w of
        None \<Rightarrow> State_Monad.return ()
      | Some nt \<Rightarrow>
          do {
            r \<leftarrow> SSLCandidates;
            (case r of
               Inl _ \<Rightarrow> State_Monad.return ()
             | Inr monitors \<Rightarrow> do { now \<leftarrow> time_now; for_each monitors (ssl_alert nt now) })
          })"

text \<open>
  The loop of \<open>checkReminders\<close> with its cache of projects in maintenance; a failing check of
  maintenance counts as no maintenance.
\<close>

definition reminder_event :: "time \<Rightarrow> incident \<Rightarrow> monitor \<Rightarrow> event" where
  "reminder_event now i m =
     \<lparr>ev_Kind = ''reminder'', ev_Monitor = m, ev_Incident = Some i, ev_Regions = i_regions i, ev_Cause = i_cause i,
      ev_DurationSeconds = quot (time_sub now (i_started i)) second, ev_DaysLeft = 0\<rparr>"

definition reminder_skip ::
  "watchdog \<Rightarrow> time \<Rightarrow> int \<Rightarrow> (int \<rightharpoonup> bool) \<Rightarrow> (bool \<times> (int \<rightharpoonup> bool)) prog" where
  "reminder_skip w now project cache =
     (case wd_Maint w of
        None \<Rightarrow> State_Monad.return (False, cache)
      | Some inMaintenance \<Rightarrow>
          (case cache project of
             Some skip \<Rightarrow> State_Monad.return (skip, cache)
           | None \<Rightarrow>
               do {
                 r \<leftarrow> inMaintenance project now;
                 (let skip = (case r of Inl _ \<Rightarrow> False | Inr b \<Rightarrow> b)
                  in State_Monad.return (skip, cache(project \<mapsto> skip)))
               }))"

definition remind_one ::
  "watchdog \<Rightarrow> notifier \<Rightarrow> time \<Rightarrow> (int \<rightharpoonup> bool) \<Rightarrow> incident \<times> monitor \<Rightarrow> (int \<rightharpoonup> bool) prog" where
  "remind_one w nt now cache it =
     (case it of (i, m) \<Rightarrow>
       do {
         (skip, cache') \<leftarrow> reminder_skip w now (m_project m) cache;
         (if skip then State_Monad.return cache'
          else do {
            r \<leftarrow> ClaimReminder (i_id i) (m_remind_every m);
            (if r \<noteq> Inr True then State_Monad.return cache'
             else do {
               _ \<leftarrow> nt_Notify nt (reminder_event now i m);
               State_Monad.return cache'
             })
          })
       })"

definition checkReminders :: "watchdog \<Rightarrow> unit prog" where
  "checkReminders w =
     (case wd_Notifier w of
        None \<Rightarrow> State_Monad.return ()
      | Some nt \<Rightarrow>
          do {
            r \<leftarrow> IncidentsDueForReminder;
            (case r of
               Inl _ \<Rightarrow> State_Monad.return ()
             | Inr items \<Rightarrow>
                 do {
                   now \<leftarrow> time_now;
                   _ \<leftarrow> for_acc Map.empty items (remind_one w nt now);
                   State_Monad.return ()
                 })
          })"

text \<open>
  \<open>tick\<close>; the state is the Unix time of the last pass that stayed within \<open>budget\<close>, the value
  of \<open>tickBudget\<close> (a share of the interval computed in floating point).
\<close>

definition watchdog_tick :: "watchdog \<Rightarrow> duration \<Rightarrow> int \<Rightarrow> int prog" where
  "watchdog_tick w budget lastTick =
     do {
       started \<leftarrow> time_now;
       _ \<leftarrow> checkHeartbeats w;
       _ \<leftarrow> checkReminders w;
       now \<leftarrow> time_now;
       State_Monad.return (if budget \<le> time_sub now started then lastTick else now div second)
     }"

subsection \<open>Reminders\<close>

text \<open>A statement that succeeded ran at the time the clock of the database shows after it.\<close>

lemma sql_okD: "run_state (sql q) w = (Inr a, w') \<Longrightarrow> q (pg_now w') (db w) = (a, db w')"
  by (cases "advance w") (auto simp: sql_def case_prod_beta split: fault.splits)

text \<open>What operations on incidents and claims of reminders do to the time of the last reminder.\<close>

definition remind_le :: "incident \<Rightarrow> incident \<Rightarrow> bool" where
  "remind_le i j \<longleftrightarrow> i_id j = i_id i \<and>
     (\<forall>t. i_last_reminded i = Some t \<longrightarrow> (\<exists>t'. i_last_reminded j = Some t' \<and> t \<le> t'))"

definition reminders_grow :: "db \<Rightarrow> db \<Rightarrow> bool" where
  "reminders_grow d d' \<longleftrightarrow>
     list_all (\<lambda>i. \<exists>j \<in> set (t_incidents d'). remind_le i j) (t_incidents d)"

lemma remind_le_refl: "remind_le i i"
  by (simp add: remind_le_def)

lemma remind_le_trans: "remind_le i j \<Longrightarrow> remind_le j k \<Longrightarrow> remind_le i k"
  unfolding remind_le_def by (metis order_trans)

lemma reminders_grow_rel: "reflp reminders_grow" "transp reminders_grow"
proof -
  show "reflp reminders_grow"
    using remind_le_refl by (auto simp: reflp_def reminders_grow_def list_all_iff)
  show "transp reminders_grow"
    unfolding transp_def reminders_grow_def list_all_iff by (meson remind_le_trans)
qed

lemma grow_update:
  assumes "\<And>i. p i \<Longrightarrow> remind_le i (f i)"
  shows "reminders_grow d (snd (update_incidents p f d))"
proof -
  have "remind_le i (if p i then f i else i)" for i using assms remind_le_refl by simp
  then show ?thesis
    by (simp add: reminders_grow_def list_all_iff update_incidents_def set_sql_update image_Un Bex_def image_iff) metis
qed

lemma grow_insert: "reminders_grow d (snd (insert_incident m c rs mt now d))"
  using remind_le_refl by (auto simp: reminders_grow_def list_all_iff insert_incident_def Let_def)

lemma guar_op_grow: "guar (on_db reminders_grow) (run_op oper)"
  by (rule guar_incident_ops; (rule reminders_grow_rel grow_insert)?; (rule grow_update)?; simp add: remind_le_def)

lemma guar_ClaimReminder:
  assumes "reflp R" and "transp R"
    and "\<And>now d. R d (snd (update_incidents (remindable i k now) (\<lambda>i. i\<lparr>i_last_reminded := Some now\<rparr>) d))"
  shows "guar (on_db R) (ClaimReminder i k)"
  unfolding ClaimReminder_def by (intro guar assms)

text \<open>Operations on incidents and claims of reminders (incident, minutes) in any order.\<close>

definition run_reminder_ops :: "(incident_op + int \<times> int) list \<Rightarrow> unit prog" where
  "run_reminder_ops ops =
     for_each ops (\<lambda>x. case x of Inl oper \<Rightarrow> run_op oper | Inr (i, k) \<Rightarrow> ignore (ClaimReminder i k))"

lemma remindable_le:
  "0 \<le> k \<Longrightarrow> remindable i k now x \<Longrightarrow> remind_le x (x\<lparr>i_last_reminded := Some now\<rparr>)"
  by (auto simp: remindable_def remind_le_def reminder_base_def)

lemma guar_reminder_ops:
  assumes "\<And>i k. Inr (i, k) \<in> set ops \<Longrightarrow> 0 \<le> k"
  shows "guar (on_db reminders_grow) (run_reminder_ops ops)" "guar (on_db (inv_rel incident_wf)) (run_reminder_ops ops)"
proof -
  have wf: "guar (on_db (inv_rel incident_wf)) (ClaimReminder i k)" for i k
    by (rule guar_ClaimReminder) (simp_all add: guar inv_rel_def incident_wf_update forward_update_def)
  have grow: "guar (on_db reminders_grow) (ClaimReminder i k)" if "0 \<le> k" for i k
    using that by (intro guar_ClaimReminder reminders_grow_rel grow_update) (rule remindable_le)
  have one: "guar (on_db reminders_grow) (case x of Inl oper \<Rightarrow> run_op oper | Inr (i, k) \<Rightarrow> ignore (ClaimReminder i k))"
    if "x \<in> set ops" for x
  proof (cases x)
    case (Inr ik)
    then have "0 \<le> snd ik" using assms [of "fst ik" "snd ik"] that by simp
    then show ?thesis using Inr by (cases ik) (simp, intro guar reminders_grow_rel grow)
  qed (simp add: guar_op_grow)
  show "guar (on_db reminders_grow) (run_reminder_ops ops)"
    unfolding run_reminder_ops_def by (intro guar reminders_grow_rel one)
  show "guar (on_db (inv_rel incident_wf)) (run_reminder_ops ops)"
    unfolding run_reminder_ops_def by (intro guar guar_op_wf wf)
qed

lemma claimed_reminder:
  assumes "run_state (ClaimReminder i k) w = (Inr True, w')"
  obtains x where "x \<in> set (t_incidents (db w))" and "remindable i k (pg_now w') x"
    and "db w' = snd (update_incidents (remindable i k (pg_now w')) (\<lambda>i. i\<lparr>i_last_reminded := Some (pg_now w')\<rparr>) (db w))"
proof -
  let ?q = "\<lambda>now. update_incidents (remindable i k now) (\<lambda>i. i\<lparr>i_last_reminded := Some now\<rparr>)"
  obtain rows where rows: "run_state (sql ?q) w = (Inr rows, w')" "rows \<noteq> []"
    using assms by (auto simp: ClaimReminder_def run_state_bind split: prod.splits sum.splits)
  have "?q (pg_now w') (db w) = (rows, db w')" by (rule sql_okD [OF rows(1)])
  then show ?thesis
    using rows(2) that by (auto simp: update_incidents_def filter_empty_conv)
qed

text \<open>
  Reminders of an incident are at least its interval apart: after a claim of a reminder
  succeeded, whatever happens to incidents and whichever replicas claim reminders in
  between, and whatever faults their statements meet, a later claim succeeds only when the
  interval has passed on the clock of the database since the first one.
\<close>

theorem reminders_are_spaced:
  assumes "incident_wf (db w)" and "run_state (ClaimReminder i k) w = (Inr True, w1)"
    and "list_all (\<lambda>x. case x of Inl _ \<Rightarrow> True | Inr (_, n) \<Rightarrow> 0 \<le> n) ops"
    and "run_state (run_reminder_ops ops) w1 = ((), w2)" and "run_state (ClaimReminder i k') w2 = (Inr True, w3)"
  shows "pg_now w1 + k' * minute \<le> pg_now w3"
proof -
  obtain x where x: "x \<in> set (t_incidents (db w))" "remindable i k (pg_now w1) x"
    and d1: "db w1 = snd (update_incidents (remindable i k (pg_now w1)) (\<lambda>i. i\<lparr>i_last_reminded := Some (pg_now w1)\<rparr>) (db w))"
    by (rule claimed_reminder [OF assms(2)])
  obtain y where y: "y \<in> set (t_incidents (db w2))" "remindable i k' (pg_now w3) y"
    by (rule claimed_reminder [OF assms(5)])
  have wf1: "incident_wf (db w1)" unfolding d1 by (rule incident_wf_update [OF _ assms(1)]) (simp add: forward_update_def)
  have nonneg: "0 \<le> n" if "Inr (j, n) \<in> set ops" for j n using assms(3) that by (force simp: list_all_iff)
  note g = guarD [OF guar_reminder_ops(1), of ops w1] guarD [OF guar_reminder_ops(2), of ops w1]
  have grow: "reminders_grow (db w1) (db w2)" and wf2: "incident_wf (db w2)"
    using g nonneg wf1 assms(4) by (simp_all add: on_db_def inv_rel_def)
  have "x\<lparr>i_last_reminded := Some (pg_now w1)\<rparr> \<in> set (t_incidents (db w1))"
    using x by (force simp: d1 update_incidents_def set_sql_update)
  then obtain z t where z: "z \<in> set (t_incidents (db w2))" "i_id z = i" "i_last_reminded z = Some t" "pg_now w1 \<le> t"
    using grow x(2) by (fastforce simp: reminders_grow_def list_all_iff remind_le_def remindable_def)
  moreover have "z = y"
    using distinct_key_unique [of i_id "t_incidents (db w2)" z y] wf2 y z(1,2) by (simp add: incident_wf_def remindable_def)
  ultimately show ?thesis using y(2) by (simp add: remindable_def reminder_base_def)
qed

definition ex_reminded :: world where
  "ex_reminded = (calm (10 * minute) ex_db)\<lparr>sched := [(NoFault, 0), (NoFault, 7), (FailClean, 0), (NoFault, 300000000000)]\<rparr>"

theorem reminders_are_spaced_witness:
  "let w1 = snd (run_state (ClaimReminder 1 5) ex_reminded);
       w2 = snd (run_state (run_reminder_ops [Inr (1, 5), Inl (OpAcknowledge 1 1 3)]) w1);
       w3 = snd (run_state (ClaimReminder 1 5) w2)
   in pg_now w1 + 5 * minute \<le> pg_now w3"
proof -
  let ?r1 = "run_state (ClaimReminder 1 5) ex_reminded"
  let ?r2 = "run_state (run_reminder_ops [Inr (1, 5), Inl (OpAcknowledge 1 1 3)]) (snd ?r1)"
  let ?r3 = "run_state (ClaimReminder 1 5) (snd ?r2)"
  note defs = ex_reminded_def ClaimReminder_def Acknowledge_def run_reminder_ops_def run_state_bind sql_def advance_def
    update_incidents_def sql_update_def remindable_def reminder_base_def calm_def ex_defs
  have wf: "incident_wf (db ex_reminded)" by (simp add: defs incident_wf_def)
  have won: "fst ?r1 = Inr True" "fst ?r3 = Inr True" by (simp_all add: defs)
  have r1: "?r1 = (Inr True, snd ?r1)" and r2: "?r2 = ((), snd ?r2)" and r3: "?r3 = (Inr True, snd ?r3)"
    using won by (simp_all add: prod_eq_iff)
  have ops: "list_all (\<lambda>x. case x of Inl _ \<Rightarrow> True | Inr (_, n) \<Rightarrow> 0 \<le> n) [Inr (1, 5 :: int), Inl (OpAcknowledge 1 1 3)]"
    by simp
  show ?thesis unfolding Let_def by (rule reminders_are_spaced [OF wf r1 ops r2 r3])
qed

subsection \<open>Heartbeats: what a pass counts\<close>

text \<open>The collaborators of a watchdog (its detector's and its writer) keep a relation.\<close>

definition wd_hooks :: "(world \<Rightarrow> world \<Rightarrow> bool) \<Rightarrow> watchdog \<Rightarrow> bool" where
  "wd_hooks R w \<longleftrightarrow>
     (\<forall>d. wd_Detector w = Some d \<longrightarrow> hooks_guar R d) \<and>
     (\<forall>add. wd_Writer w = Some add \<longrightarrow> (\<forall>p m r t res. guar R (add p m r t res)))"

lemma hooks_guar_mono: "hooks_guar R d \<Longrightarrow> R \<le> S \<Longrightarrow> hooks_guar S d"
  unfolding hooks_guar_def by (meson guar_mono)

lemma detector_calm:
  assumes "hooks_guar calm_rel d"
  shows "detector_relation calm_rel d"
proof
  note defs = MarkNotified_def MarkNotifyOpenFailed_def SetNotifyOpenChannels_def ClearNotifyOpenChannels_def
    MarkSuppressedByDep_def ClearSuppressedByDep_def update_by_id_def LogStepChannels_def log_one_def LogStep_def
    recordLogFailure_def clearLogFailure_def ReleaseStepChannels_def ClaimStepChannelsWithLease_def RecoveryChannels_def
    States_def OpenIncidentFor_def Windows_def OpenIncident_def ResolveIncident_def SetSSLExpiry_def update_monitor_def
  show "guar calm_rel (LogStepChannels s i stp chs)" "guar calm_rel (ReleaseStepChannels s i stp chs)"
    "guar calm_rel (ClaimStepChannelsWithLease s i stp chs l)" "guar calm_rel (RecoveryChannels s i)"
    "guar calm_rel (MarkNotified i b)" "guar calm_rel (MarkNotifyOpenFailed i)" "guar calm_rel (SetNotifyOpenChannels i cs)"
    "guar calm_rel (ClearNotifyOpenChannels i)" "guar calm_rel (MarkSuppressedByDep i)" "guar calm_rel (ClearSuppressedByDep i)"
    "guar calm_rel (States i)" "guar calm_rel (OpenIncidentFor i)" "guar calm_rel (Windows i)" "guar calm_rel time_now"
    "guar calm_rel (OpenIncident i c rs b)" "guar calm_rel (ResolveIncident i t)" "guar calm_rel (SetSSLExpiry i t)"
    for s i stp chs l b cs c rs t
    unfolding defs by (intro guar)+
qed (use assms calm_rel_rel in auto)

text \<open>The part of the tables a miss depends on: states, and ids and thresholds of monitors.\<close>

definition beat_view :: "db \<Rightarrow> mstate list \<times> (int \<times> int \<times> int) list" where
  "beat_view d = (t_monitor_state d, map (\<lambda>m. (m_id m, m_fail_threshold m, m_recovery_threshold m)) (t_monitors d))"

definition beat_rel :: "world \<Rightarrow> world \<Rightarrow> bool" where
  "beat_rel w w' \<longleftrightarrow> calm_rel w w' \<and> beat_view (db w') = beat_view (db w)"

lemma beat_rel_le: "beat_rel \<le> calm_rel" "beat_rel \<le> on_db (same_rel beat_view)"
  by (auto simp: beat_rel_def on_db_def same_rel_def)

lemma detector_beat:
  assumes "hooks_guar (on_db (same_rel beat_view)) d"
  shows "detector_relation (on_db (same_rel beat_view)) d"
proof -
  let ?S = "same_rel beat_view"
  have upd: "?S x (snd (update_incidents p f x))" for x p f by (simp add: same_rel_def beat_view_def update_incidents_def)
  have ins: "?S x (snd (insert_incident m c rs b now x))" for x m c rs b now
    by (simp add: same_rel_def beat_view_def insert_incident_def Let_def)
  have ssl: "?S x (x\<lparr>t_monitors := sql_update p (ssl_row t) (t_monitors x)\<rparr>)" for x p t
    by (simp add: same_rel_def beat_view_def sql_update_def ssl_row_def)
  note g = guar reflp_on_db [OF reflp_same_rel] transp_on_db [OF transp_same_rel]
  have "settle_relation (on_db ?S) d"
    by (rule settle_relation_on_db; (rule guar upd assms)?) (simp add: same_rel_def beat_view_def)
  moreover have "guar (on_db ?S) (OpenIncident m c rs b)" for m c rs b
    unfolding OpenIncident_def OpenIncidentFor_def by (intro g ins)
  moreover have "guar (on_db ?S) (ResolveIncident m t)" for m t
    unfolding ResolveIncident_def by (intro g upd)
  moreover have "guar (on_db ?S) (SetSSLExpiry m t)" for m t
    unfolding SetSSLExpiry_def update_monitor_def by (intro g) (simp add: ssl)
  moreover have "guar (on_db ?S) (States m)" "guar (on_db ?S) (OpenIncidentFor m)" "guar (on_db ?S) (Windows m)"
    "guar (on_db ?S) time_now" for m
    unfolding States_def OpenIncidentFor_def Windows_def by (intro g)+
  ultimately show ?thesis by (simp add: detector_relation_def detector_relation_axioms_def)
qed

lemma guar_beat_OnResult:
  assumes "hooks_guar beat_rel d"
  shows "guar beat_rel (OnResult d m region r st)"
  using detector_relation.guar_OnResult [OF detector_calm [OF hooks_guar_mono [OF assms beat_rel_le(1)]], of m region r st]
    detector_relation.guar_OnResult [OF detector_beat [OF hooks_guar_mono [OF assms beat_rel_le(2)]], of m region r st]
  by (simp add: guar_def beat_rel_def on_db_def same_rel_def)

text \<open>What one miss makes of a state, and when a row (or its absence) admits one.\<close>

definition missed_state :: "int \<Rightarrow> time \<Rightarrow> mstate \<Rightarrow> mstate" where
  "missed_state ft moment s =
     s\<lparr>s_fails := s_fails s + 1, s_oks := 0, s_checked := Some moment, s_error := heartbeatMissedError,
       s_status := (if ft \<le> s_fails s + 1 then ''down'' else s_status s)\<rparr>"

definition admits_miss :: "duration \<Rightarrow> time \<Rightarrow> mstate option \<Rightarrow> bool" where
  "admits_miss debounce moment row \<longleftrightarrow> (case row of None \<Rightarrow> True | Some s \<Rightarrow> miss_due debounce moment s)"

lemma claim_miss_row:
  assumes "state_wf d" and "state_row d m r = None \<longrightarrow> m \<in> m_id ` set (t_monitors d)"
    and "claim_miss m r deb moment d = (won, d')"
  shows "won = Inr (admits_miss deb moment (state_row d m r))"
    and "t_monitors d' = t_monitors d" and "state_wf d'" and "\<not> admits_miss deb moment (state_row d m r) \<Longrightarrow> d' = d"
    and "state_row d' m' r' =
       (if m' = m \<and> r' = r \<and> admits_miss deb moment (state_row d m r)
        then Some (case state_row d m r of None \<Rightarrow> miss_row m r moment | Some s \<Rightarrow> s\<lparr>s_checked := Some moment\<rparr>)
        else state_row d m' r')"
proof -
  let ?key = "\<lambda>s. (s_monitor s, s_region s)" and ?hit = "\<lambda>s. s_monitor s = m \<and> s_region s = r"
  have append: "find p (rows @ [x]) = (case find p rows of Some y \<Rightarrow> Some y | None \<Rightarrow> if p x then Some x else None)"
    for p rows and x :: mstate by (induction rows) auto
  have "won = Inr (admits_miss deb moment (state_row d m r)) \<and> t_monitors d' = t_monitors d \<and> state_wf d' \<and>
    (\<not> admits_miss deb moment (state_row d m r) \<longrightarrow> d' = d) \<and>
    (\<forall>m' r'. state_row d' m' r' =
       (if m' = m \<and> r' = r \<and> admits_miss deb moment (state_row d m r)
        then Some (case state_row d m r of None \<Rightarrow> miss_row m r moment | Some s \<Rightarrow> s\<lparr>s_checked := Some moment\<rparr>)
        else state_row d m' r'))"
  proof (cases "filter ?hit (t_monitor_state d)")
    case Nil
    then have none: "state_row d m r = None" by (simp add: state_row_def find_filter)
    then have "(m, r) \<notin> ?key ` set (t_monitor_state d)" by (auto simp: state_row_def find_None_iff)
    moreover have "list_ex (\<lambda>x. m_id x = m) (t_monitors d)" using assms(2) none by (auto simp: list_ex_iff)
    then have "(won, d') = (Inr True, d\<lparr>t_monitor_state := t_monitor_state d @ [miss_row m r moment]\<rparr>)"
      using assms(3) Nil by (simp add: claim_miss_def Let_def)
    ultimately show ?thesis
      using assms(1) none by (auto simp: admits_miss_def state_wf_def state_row_def append miss_row_def split: option.splits)
  next
    case (Cons s rest)
    then have some: "state_row d m r = Some s" by (simp add: state_row_def find_filter)
    have s: "s \<in> set (t_monitor_state d)" "?hit s" using Cons by (auto simp: filter_eq_Cons_iff)
    have only: "x = s" if "x \<in> set (t_monitor_state d)" "?hit x" for x
      using distinct_key_unique [of ?key "t_monitor_state d" x s] that s assms(1) by (simp add: state_wf_def)
    have upd: "sql_update (\<lambda>x. ?hit x \<and> miss_due deb moment x) f (t_monitor_state d) =
        (if miss_due deb moment s then sql_update ?hit f (t_monitor_state d) else t_monitor_state d)" for f
      using only by (auto simp: sql_update_def intro!: map_idI)
    have eq: "won = Inr (miss_due deb moment s)"
      "d' = (if miss_due deb moment s then d\<lparr>t_monitor_state := sql_update ?hit (\<lambda>s. s\<lparr>s_checked := Some moment\<rparr>) (t_monitor_state d)\<rparr> else d)"
      using assms(3) Cons upd by (auto simp: claim_miss_def Let_def)
    have row: "find (\<lambda>s. s_monitor s = m' \<and> s_region s = r') (sql_update ?hit (\<lambda>s. s\<lparr>s_checked := Some moment\<rparr>) rows) =
        map_option (if (m', r') = (m, r) then (\<lambda>s. s\<lparr>s_checked := Some moment\<rparr>) else id)
          (find (\<lambda>s. s_monitor s = m' \<and> s_region s = r') rows)" for m' r' rows
      using find_sql_update [of ?key "\<lambda>s. s\<lparr>s_checked := Some moment\<rparr>" ?hit "(m, r)" "(m', r')" rows] by simp
    have keys: "map ?key (sql_update ?hit (\<lambda>s. s\<lparr>s_checked := Some moment\<rparr>) (t_monitor_state d)) = map ?key (t_monitor_state d)"
      by (rule sql_update_key) simp
    show ?thesis
      using assms(1) some keys
      by (auto simp: eq admits_miss_def state_wf_def state_row_def row option.map_id)
  qed
  then show "won = Inr (admits_miss deb moment (state_row d m r))"
    and "t_monitors d' = t_monitors d" and "state_wf d'" and "\<not> admits_miss deb moment (state_row d m r) \<Longrightarrow> d' = d"
    and "state_row d' m' r' =
       (if m' = m \<and> r' = r \<and> admits_miss deb moment (state_row d m r)
        then Some (case state_row d m r of None \<Rightarrow> miss_row m r moment | Some s \<Rightarrow> s\<lparr>s_checked := Some moment\<rparr>)
        else state_row d m' r')"
    by simp_all
qed

lemma next_state_missed: "next_state ft rt False heartbeatMissedError moment (s\<lparr>s_checked := Some moment\<rparr>) = missed_state ft moment s"
  by (simp add: next_state_def missed_state_def is_late_def)

lemma next_state_miss_row: "next_state ft rt False heartbeatMissedError moment (miss_row m r moment) = missed_state ft moment (miss_row m r moment)"
  using next_state_missed [of ft rt moment "miss_row m r moment"] by (simp add: miss_row_def)

text \<open>The row of a region after a miss of its monitor, and the loop over the silent monitors.\<close>

definition miss_on :: "duration \<Rightarrow> time \<Rightarrow> int \<Rightarrow> int \<Rightarrow> string \<Rightarrow> mstate option \<Rightarrow> mstate option" where
  "miss_on deb moment ft m r row =
     (if admits_miss deb moment row
      then Some (missed_state ft moment (case row of None \<Rightarrow> miss_row m r moment | Some s \<Rightarrow> s)) else row)"

definition thresholds :: "db \<Rightarrow> (int \<times> int \<times> int) list" where
  "thresholds d = map (\<lambda>m. (m_id m, m_fail_threshold m, m_recovery_threshold m)) (t_monitors d)"

lemma beat_view_iff: "beat_view d' = beat_view d \<longleftrightarrow> t_monitor_state d' = t_monitor_state d \<and> thresholds d' = thresholds d"
  by (simp add: beat_view_def thresholds_def)

lemma state_wf_view:
  assumes "beat_view d' = beat_view d" shows "state_wf d' \<longleftrightarrow> state_wf d"
proof -
  have "map m_id (t_monitors x) = map fst (thresholds x)" for x by (simp add: thresholds_def)
  then show ?thesis using assms by (simp add: beat_view_iff state_wf_def)
qed

definition miss_outcome :: "watchdog \<Rightarrow> time \<Rightarrow> monitor list \<Rightarrow> world \<Rightarrow> world \<Rightarrow> bool" where
  "miss_outcome wd moment ms w w' \<longleftrightarrow>
     sched w' = [] \<and> state_wf (db w') \<and> thresholds (db w') = thresholds (db w) \<and>
     (\<forall>mid r. state_row (db w') mid r =
        (case find (\<lambda>m. m_id m = mid) ms of
           Some m \<Rightarrow> if r = wd_region wd then miss_on (wd_debounce wd) moment (m_fail_threshold m) mid r (state_row (db w) mid r)
                     else state_row (db w) mid r
         | None \<Rightarrow> state_row (db w) mid r))"

lemma beat_rel_rel: "reflp beat_rel" "transp beat_rel"
  by (auto simp: reflp_def transp_def beat_rel_def calm_rel_def)

lemma guar_report_miss:
  assumes "wd_hooks R wd" and "reflp R" "transp R"
    and "\<And>d r res st. wd_Detector wd = Some d \<Longrightarrow> guar R (OnResult d m r res st)"
  shows "guar R (report_miss wd moment m s)"
  using assms unfolding report_miss_def wd_hooks_def
  by (cases "wd_Writer wd"; cases "wd_Detector wd") (simp_all, (intro guar; simp)+)

lemma heartbeat_miss_outcome:
  assumes "sched w = []" and "state_wf (db w)" and "wd_hooks beat_rel wd"
    and m: "(m_id m, m_fail_threshold m, m_recovery_threshold m) \<in> set (thresholds (db w))"
    and run: "run_state (heartbeat_miss wd moment m) w = ((), w')"
  shows "miss_outcome wd moment [m] w w'"
proof -
  let ?r = "wd_region wd" and ?deb = "wd_debounce wd" and ?row = "state_row (db w) (m_id m) (wd_region wd)"
  obtain won d1 where c: "claim_miss (m_id m) ?r ?deb moment (db w) = (won, d1)" by (cases "claim_miss (m_id m) ?r ?deb moment (db w)")
  obtain mon where mon: "mon \<in> set (t_monitors (db w))" "m_id mon = m_id m" "m_fail_threshold mon = m_fail_threshold m"
    using m by (auto simp: thresholds_def)
  have "?row = None \<longrightarrow> m_id m \<in> m_id ` set (t_monitors (db w))" using mon by (metis imageI)
  note claim = claim_miss_row [OF assms(2) this c]
  have r1: "run_state (ClaimHeartbeatMiss (m_id m) ?r ?deb moment) w = (won, w\<lparr>db := d1\<rparr>)"
    using assms(1) by (simp add: ClaimHeartbeatMiss_def run_state_bind c)
  show ?thesis
  proof (cases "admits_miss ?deb moment ?row")
    case False
    then have "w' = w" using run claim(1,4) by (simp add: heartbeat_miss_def run_state_bind r1)
    then show ?thesis using assms(1,2) False by (auto simp: miss_outcome_def miss_on_def)
  next
    case True
    let ?a = "apply_result (m_id m) ?r False heartbeatMissedError moment d1" and ?w2 = "w\<lparr>db := snd (apply_result (m_id m) (wd_region wd) False heartbeatMissedError moment d1)\<rparr>"
    have mon1: "mon \<in> set (t_monitors d1)" using mon claim(2) by simp
    note app = apply_result_row [OF mon1 mon(2) claim(3) refl refl, where r = ?r and ok = False and e = heartbeatMissedError and t = moment]
    have row1: "state_row d1 (m_id m) ?r = Some (case ?row of None \<Rightarrow> miss_row (m_id m) ?r moment | Some s \<Rightarrow> s\<lparr>s_checked := Some moment\<rparr>)"
      using claim(5) True by simp
    have rows: "state_row (snd ?a) mid r = (if mid = m_id m \<and> r = ?r
        then miss_on ?deb moment (m_fail_threshold m) mid r ?row else state_row (db w) mid r)" for mid r
      using True mon(3) claim(5) [of mid r]
      by (simp add: app(3) row1 miss_on_def next_state_missed next_state_miss_row split: option.splits)
    obtain s where s: "fst ?a = Some s" using rows [of "m_id m" ?r] True by (auto simp: app(4) miss_on_def)
    have w': "w' = snd (run_state (report_miss wd moment m s) ?w2)"
      using run True claim(1) s assms(1) by (simp add: heartbeat_miss_def run_state_bind r1 ApplyResult_def prod_eq_iff)
    have "guar beat_rel (report_miss wd moment m s)"
      using assms(3) by (intro guar_report_miss beat_rel_rel) (auto simp: wd_hooks_def guar_beat_OnResult)
    then have "beat_rel ?w2 w'" unfolding w' by (rule guarD)
    then have view: "sched w' = []" "beat_view (db w') = beat_view (snd ?a)" using assms(1) by (simp_all add: beat_rel_def calm_rel_def)
    then have "thresholds (db w') = thresholds (db w)" "state_row (db w') mid r = state_row (snd ?a) mid r" for mid r
      using app(1) claim(2) by (simp_all add: beat_view_iff state_row_def thresholds_def)
    then show ?thesis
      using view state_wf_view [OF view(2)] app(2) rows by (auto simp: miss_outcome_def)
  qed
qed

lemma heartbeat_misses_outcome:
  assumes "sched w = []" and "state_wf (db w)" and "wd_hooks beat_rel wd" and "distinct (map m_id ms)"
    and "\<And>m. m \<in> set ms \<Longrightarrow> (m_id m, m_fail_threshold m, m_recovery_threshold m) \<in> set (thresholds (db w))"
  shows "miss_outcome wd moment ms w (snd (run_state (for_each ms (heartbeat_miss wd moment)) w))"
  using assms
proof (induction ms arbitrary: w)
  case (Cons m ms)
  obtain w1 where w1: "run_state (heartbeat_miss wd moment m) w = ((), w1)" by (cases "run_state (heartbeat_miss wd moment m) w") auto
  have one: "miss_outcome wd moment [m] w w1"
    by (rule heartbeat_miss_outcome [OF Cons.prems(1-3) _ w1]) (simp add: Cons.prems(5))
  then have "miss_outcome wd moment ms w1 (snd (run_state (for_each ms (heartbeat_miss wd moment)) w1))"
    using Cons.prems by (intro Cons.IH) (auto simp: miss_outcome_def)
  moreover have "find (\<lambda>x. m_id x = m_id m) ms = None"
    using Cons.prems(4) by (simp add: find_None_iff) (metis imageI)
  ultimately show ?case
    using one by (auto simp: miss_outcome_def run_state_bind w1 split: option.splits if_splits)
qed (simp add: miss_outcome_def)

text \<open>
  C20: a pass of the watchdog without faults of the database counts exactly the silent monitors:
  for a monitor that is an enabled heartbeat monitor whose last beat is longer ago than its
  grace period, and whose state in the region of the watchdog is at least one interval old,
  the state gets one more failure, loses its run of successes and turns down when the
  failures reach the monitor's threshold; every other state of every monitor stays as it
  was, whatever incidents and pages the detector makes of it.
\<close>

theorem pass_counts_silent_monitors:
  assumes "monitor_wf (db w)" and "sched w = []" and "wd_hooks beat_rel wd" and "mon \<in> set (t_monitors (db w))"
    and "run_state (checkHeartbeats wd) w = ((), w')"
  shows "state_row (db w') (m_id mon) r =
     (if stale_heartbeat (wd_grace wd) (pg_now w) mon \<and> r = wd_region wd \<and>
         admits_miss (wd_debounce wd) (go_now w) (state_row (db w) (m_id mon) r)
      then Some (missed_state (m_fail_threshold mon) (go_now w)
        (case state_row (db w) (m_id mon) r of None \<Rightarrow> miss_row (m_id mon) r (go_now w) | Some s \<Rightarrow> s))
      else state_row (db w) (m_id mon) r)"
proof -
  let ?stale = "sort_key m_id (filter (stale_heartbeat (wd_grace wd) (pg_now w)) (t_monitors (db w)))"
  obtain f where "run_state (regionsOfBatch (map m_id ?stale)) w = (Inr f, w)"
    using assms(2) by (cases "?stale = []") (simp_all add: regionsOfBatch_def)
  then have ms: "run_state (StaleHeartbeats (wd_grace wd)) w = (Inr (map (\<lambda>m. with_regions (f (m_id m)) m) ?stale), w)"
    using assms(2) by (simp add: StaleHeartbeats_def run_state_bind)
  let ?ms = "map (\<lambda>m. with_regions (f (m_id m)) m) ?stale"
  have wf: "state_wf (db w)" and ids: "distinct (map m_id (t_monitors (db w)))"
    using assms(1) by (simp_all add: monitor_wf_def state_wf_def)
  have "distinct (map m_id ?stale)"
    using distinct_map_filter [OF ids] by (simp add: distinct_map inj_on_def)
  then have dist: "distinct (map m_id ?ms)" by (simp add: with_regions_def o_def)
  have "miss_outcome wd (go_now w) ?ms w (snd (run_state (for_each ?ms (heartbeat_miss wd (go_now w))) w))"
    by (rule heartbeat_misses_outcome [OF assms(2) wf assms(3) dist]) (auto simp: with_regions_def thresholds_def)
  moreover have "w' = snd (run_state (for_each ?ms (heartbeat_miss wd (go_now w))) w)"
    using assms(5) by (simp add: checkHeartbeats_def run_state_bind ms)
  ultimately have row: "state_row (db w') (m_id mon) r =
      (case find (\<lambda>m. m_id m = m_id mon) ?ms of
         Some m \<Rightarrow> if r = wd_region wd then miss_on (wd_debounce wd) (go_now w) (m_fail_threshold m) (m_id mon) r (state_row (db w) (m_id mon) r)
                   else state_row (db w) (m_id mon) r
       | None \<Rightarrow> state_row (db w) (m_id mon) r)"
    by (simp add: miss_outcome_def)
  have only: "m = mon" if "m \<in> set (t_monitors (db w))" "m_id m = m_id mon" for m
    using distinct_key_unique [OF ids that(1) assms(4) that(2)] .
  show ?thesis
  proof (cases "find (\<lambda>m. m_id m = m_id mon) ?ms")
    case None
    then have "\<not> stale_heartbeat (wd_grace wd) (pg_now w) mon"
      using assms(4) by (auto simp: find_None_iff with_regions_def)
    then show ?thesis using row None by simp
  next
    case (Some m)
    then have "m \<in> set ?ms" "m_id m = m_id mon" by (auto dest: find_SomeD)
    then obtain x where x: "x \<in> set (t_monitors (db w))" "stale_heartbeat (wd_grace wd) (pg_now w) x" "m_id x = m_id mon"
      "m_fail_threshold m = m_fail_threshold x"
      by (auto simp: with_regions_def)
    then have "x = mon" using only by simp
    then show ?thesis using row Some x by (auto simp: miss_on_def)
  qed
qed

text \<open>A heartbeat monitor that is silent since the start, in the region of the watchdog.\<close>

definition ex_silent_db :: "string \<Rightarrow> db" where
  "ex_silent_db region = ex_db\<lparr>t_monitors := [ex_monitor\<lparr>m_kind := ''heartbeat''\<rparr>], t_monitor_regions := [(1, region)],
     t_incidents := [], t_monitor_state := [(ex_state ''up'')\<lparr>s_region := ''local'', s_fails := 1\<rparr>]\<rparr>"

definition ex_watchdog :: watchdog where
  "ex_watchdog = \<lparr>wd_Detector = Some ex_detector, wd_Notifier = Some (outbox_as_notifier ex_notifier), wd_Maint = None,
     wd_Writer = None, wd_Region = '''', wd_Interval = 0, wd_grace = (\<lambda>_. None)\<rparr>"

lemma plain_hooks_beat: "hooks_guar beat_rel (plain_detector tz n grace)"
proof -
  have only: "hooks_guar (on_db (same_rel beat_view)) (plain_detector tz n grace)"
    by (rule plain_hooks) (simp add: same_rel_def beat_view_def only_outbox_same [of _ _ t_monitors] only_outbox_same [of _ _ t_monitor_state])
  have calm: "hooks_guar calm_rel (plain_detector tz n grace)"
    by (rule hooks_guar_mono [OF plain_hooks_quiet]) (auto simp: quiet_rel_def)
  show ?thesis
    using only calm by (simp add: hooks_guar_def plain_detector_def outbox_as_notifier_def guar_def beat_rel_def on_db_def same_rel_def)
qed

interpretation beat: detector_relation "on_db (same_rel beat_view)" "plain_detector tz n grace" for tz n grace
  by (rule detector_beat [OF hooks_guar_mono [OF plain_hooks_beat beat_rel_le(2)]])

theorem pass_counts_silent_monitors_witness:
  "state_row (db (snd (run_state (checkHeartbeats ex_watchdog) (calm (61 * minute) (ex_silent_db ''local''))))) 1 ''local'' =
     Some \<lparr>s_monitor = 1, s_region = ''local'', s_status = ''down'', s_fails = 2, s_oks = 0, s_checked = Some (61 * minute),
       s_error = heartbeatMissedError\<rparr>"
proof -
  let ?w = "calm (61 * minute) (ex_silent_db ''local'')" and ?m = "ex_monitor\<lparr>m_kind := ''heartbeat''\<rparr>"
  let ?run = "run_state (checkHeartbeats ex_watchdog) ?w"
  have wf: "monitor_wf (db ?w)" and sch: "sched ?w = []" by code_simp+
  have hooks: "wd_hooks beat_rel ex_watchdog"
    using plain_hooks_beat by (simp add: wd_hooks_def ex_watchdog_def ex_detector_def)
  have mem: "?m \<in> set (t_monitors (db ?w))" by (simp add: ex_silent_db_def)
  have run: "?run = ((), snd ?run)" by (simp add: prod_eq_iff)
  have mid: "m_id ?m = 1" by (simp add: ex_monitor_def)
  have cond: "stale_heartbeat (wd_grace ex_watchdog) (pg_now ?w) ?m \<and> ''local'' = wd_region ex_watchdog \<and>
      admits_miss (wd_debounce ex_watchdog) (go_now ?w) (state_row (db ?w) 1 ''local'')" by code_simp
  have val: "Some (missed_state (m_fail_threshold ?m) (go_now ?w)
      (case state_row (db ?w) 1 ''local'' of None \<Rightarrow> miss_row 1 ''local'' (go_now ?w) | Some s \<Rightarrow> s)) =
      Some \<lparr>s_monitor = 1, s_region = ''local'', s_status = ''down'', s_fails = 2, s_oks = 0, s_checked = Some (61 * minute),
       s_error = heartbeatMissedError\<rparr>" by code_simp
  show ?thesis
    by (rule pass_counts_silent_monitors [OF wf sch hooks mem run, of "''local''", unfolded mid if_P [OF cond] val])
qed

subsection \<open>Heartbeats: one miss per interval, and only in the monitor's regions\<close>

text \<open>Times of the last check never go back, whatever results and misses are applied.\<close>

definition checked_at :: "db \<Rightarrow> int \<Rightarrow> string \<Rightarrow> time option" where
  "checked_at d m r = Option.bind (state_row d m r) s_checked"

definition checks_advance :: "db \<Rightarrow> db \<Rightarrow> bool" where
  "checks_advance d d' \<longleftrightarrow> (state_wf d \<longrightarrow> state_wf d' \<and>
     (\<forall>m r c. checked_at d m r = Some c \<longrightarrow> (\<exists>c'. checked_at d' m r = Some c' \<and> c \<le> c')))"

lemma checks_advance_rel: "reflp checks_advance" "transp checks_advance"
proof -
  show "reflp checks_advance" by (simp add: reflp_def checks_advance_def)
  show "transp checks_advance" unfolding transp_def checks_advance_def by (metis order_trans)
qed

lemma advance_apply: "checks_advance d (snd (apply_result m r ok e t d))"
proof (cases "filter (\<lambda>x. m_id x = m) (t_monitors d)")
  case Nil
  then show ?thesis using reflpD [OF checks_advance_rel(1)] by (simp add: apply_result_def)
next
  case (Cons mon rest)
  then have mon: "mon \<in> set (t_monitors d)" "m_id mon = m" by (auto simp: filter_eq_Cons_iff)
  have "\<exists>c'. s_checked (next_state ft rt ok e t s) = Some c' \<and> c \<le> c'" if "s_checked s = Some c" for ft rt s c
    using that by (simp add: next_state_def)
  then show ?thesis
    using apply_result_row(2,3) [OF mon _ refl refl]
    by (auto simp: checks_advance_def checked_at_def split: option.splits bind_splits)
qed

lemma advance_claim:
  assumes "0 \<le> deb"
  shows "checks_advance d (snd (claim_miss m r deb moment d))"
proof (cases "state_row d m r = None \<and> m \<notin> m_id ` set (t_monitors d)")
  case True
  then have "\<not> list_ex (\<lambda>x. m_id x = m) (t_monitors d)" "filter (\<lambda>s. s_monitor s = m \<and> s_region s = r) (t_monitor_state d) = []"
    by (auto simp: list_ex_iff state_row_def find_None_iff filter_empty_conv)
  then show ?thesis using reflpD [OF checks_advance_rel(1)] by (simp add: claim_miss_def Let_def)
next
  case False
  then have m: "state_row d m r = None \<longrightarrow> m \<in> m_id ` set (t_monitors d)" by blast
  have late: "c \<le> moment" if "miss_due deb moment s" "s_checked s = Some c" for s c
    using that assms by (simp add: miss_due_def)
  show ?thesis
    using claim_miss_row(3,5) [OF _ m surjective_pairing] late
    by (auto simp: checks_advance_def checked_at_def admits_miss_def split: option.splits bind_splits)
qed

text \<open>Results (with region, outcome, text and time) and claims of misses, in any order.\<close>

datatype state_op =
    SResult int string bool string time
  | SMiss int string duration time

fun run_state_op :: "state_op \<Rightarrow> unit prog" where
  "run_state_op (SResult m r ok e t) = ignore (ApplyResult m r ok e t)"
| "run_state_op (SMiss m r deb moment) = ignore (ClaimHeartbeatMiss m r deb moment)"

definition debounced :: "state_op \<Rightarrow> bool" where
  "debounced x \<longleftrightarrow> (case x of SMiss _ _ deb _ \<Rightarrow> 0 \<le> deb | _ \<Rightarrow> True)"

lemma guar_state_ops:
  assumes "list_all debounced ops"
  shows "guar (on_db checks_advance) (for_each ops run_state_op)"
proof -
  note g = guar checks_advance_rel
  have "guar (on_db checks_advance) (run_state_op x)" if "debounced x" for x
    using that by (cases x) (simp_all only: run_state_op.simps ApplyResult_def ClaimHeartbeatMiss_def debounced_def state_op.case;
      intro g advance_apply advance_claim; simp)+
  then show ?thesis using assms by (intro g) (auto simp: list_all_iff)
qed

lemma won_miss:
  assumes "run_state (ClaimHeartbeatMiss m r deb moment) w = (Inr True, w')"
  shows "claim_miss m r deb moment (db w) = (Inr True, db w')"
proof -
  have "run_state (sql (\<lambda>_. claim_miss m r deb moment)) w = (Inr (Inr True), w')"
    using assms by (auto simp: ClaimHeartbeatMiss_def run_state_bind split: prod.splits sum.splits)
  then show ?thesis using sql_okD by fastforce
qed

text \<open>
  Of the replicas that find a heartbeat monitor silent only one counts the miss: when a
  claim succeeded for the time \<open>at\<close>, then however many results and claims, by whichever
  replicas, follow for any monitors, and whatever faults they meet, another claim succeeds
  only for a time at least the debounce interval after \<open>at\<close>.
\<close>

theorem misses_are_spaced:
  assumes "state_wf (db w)" and "run_state (ClaimHeartbeatMiss m r deb moment) w = (Inr True, w1)"
    and "list_all debounced ops" and "run_state (for_each ops run_state_op) w1 = ((), w2)"
    and "run_state (ClaimHeartbeatMiss m r deb' at') w2 = (Inr True, w3)"
  shows "moment + deb' \<le> at'"
proof -
  have c1: "claim_miss m r deb moment (db w) = (Inr True, db w1)" and c2: "claim_miss m r deb' at' (db w2) = (Inr True, db w3)"
    using assms(2,5) by (simp_all add: won_miss)
  have "state_row d m r = None \<longrightarrow> m \<in> m_id ` set (t_monitors d)" if "claim_miss m r x t d = (Inr True, d')" for d x t d'
    using that by (auto simp: claim_miss_def Let_def state_row_def find_filter list_ex_iff split: list.splits if_splits)
  note row1 = claim_miss_row [OF assms(1) this [OF c1] c1] and m2 = this [OF c2]
  have adv: "checks_advance (db w1) (db w2)"
    using guarD [OF guar_state_ops [OF assms(3)], of w1] assms(4) by (simp add: on_db_def)
  have "checked_at (db w1) m r = Some moment"
    using row1(1,5) by (auto simp: checked_at_def miss_row_def split: option.splits)
  then obtain c where c: "checked_at (db w2) m r = Some c" "moment \<le> c" and wf2: "state_wf (db w2)"
    using adv row1(3) unfolding checks_advance_def by blast
  have "admits_miss deb' at' (state_row (db w2) m r)" using claim_miss_row(1) [OF wf2 m2 c2] by simp
  then show ?thesis
    using c by (auto simp: checked_at_def admits_miss_def miss_due_def split: option.splits bind_splits)
qed

theorem misses_are_spaced_witness:
  "let w1 = snd (run_state (ClaimHeartbeatMiss 1 ''local'' minute (10 * minute)) (calm 0 (ex_silent_db ''local'')));
       w2 = snd (run_state (for_each [SMiss 1 ''local'' minute (10 * minute), SResult 1 ''local'' False ''x'' (10 * minute)]
              run_state_op) w1)
   in fst (run_state (ClaimHeartbeatMiss 1 ''local'' minute (11 * minute)) w2) = Inr True \<and>
      10 * minute + minute \<le> 11 * minute"
proof -
  let ?r1 = "run_state (ClaimHeartbeatMiss 1 ''local'' minute (10 * minute)) (calm 0 (ex_silent_db ''local''))"
  let ?ops = "[SMiss 1 ''local'' minute (10 * minute), SResult 1 ''local'' False ''x'' (10 * minute)]"
  let ?r2 = "run_state (for_each ?ops run_state_op) (snd ?r1)"
  let ?r3 = "run_state (ClaimHeartbeatMiss 1 ''local'' minute (11 * minute)) (snd ?r2)"
  have wf: "state_wf (db (calm 0 (ex_silent_db ''local'')))" and won: "fst ?r1 = Inr True" "fst ?r3 = Inr True" by code_simp+
  have r1: "?r1 = (Inr True, snd ?r1)" and r2: "?r2 = ((), snd ?r2)" and r3: "?r3 = (Inr True, snd ?r3)"
    using won by (simp_all add: prod_eq_iff)
  have ops: "list_all debounced ?ops" by (simp add: debounced_def)
  show ?thesis unfolding Let_def using won(2) misses_are_spaced [OF wf r1 ops r2 r3] by blast
qed

text \<open>A monitor none of whose own regions has a state, and which lacks the region of the watchdog.\<close>

definition outside :: "int \<Rightarrow> string \<Rightarrow> db \<Rightarrow> bool" where
  "outside mid region d \<longleftrightarrow> (mid, region) \<notin> set (t_monitor_regions d) \<and> states_of mid d = []"

definition unnoticed :: "int \<Rightarrow> string \<Rightarrow> db \<Rightarrow> db \<Rightarrow> bool" where
  "unnoticed mid region d d' \<longleftrightarrow> (outside mid region d \<longrightarrow>
     outside mid region d' \<and> t_incidents d' = t_incidents d \<and> t_outbox d' = t_outbox d)"

lemma unnoticed_rel: "reflp (unnoticed mid region)" "transp (unnoticed mid region)"
  by (auto simp: reflp_def transp_def unnoticed_def)

abbreviation state_keys :: "db \<Rightarrow> (int \<times> string) list" where
  "state_keys d \<equiv> map (\<lambda>s. (s_monitor s, s_region s)) (t_monitor_state d)"

lemma outside_keys:
  "outside mid region d \<longleftrightarrow> (mid, region) \<notin> set (t_monitor_regions d) \<and>
     (\<forall>r. (mid, r) \<in> set (state_keys d) \<longrightarrow> (mid, r) \<notin> set (t_monitor_regions d))"
  by (fastforce simp: outside_def states_of_def filter_empty_conv)

lemma unnoticed_states:
  "set (map (\<lambda>s. (s_monitor s, s_region s)) rows) \<subseteq> insert (mid, region) (set (state_keys d)) \<Longrightarrow>
     unnoticed mid region d (d\<lparr>t_monitor_state := rows\<rparr>)"
  unfolding unnoticed_def outside_keys by simp blast

lemma unnoticed_update:
  "(\<And>s. s_monitor (f s) = s_monitor s \<and> s_region (f s) = s_region s) \<Longrightarrow>
     unnoticed mid region d (d\<lparr>t_monitor_state := sql_update p f (t_monitor_state d)\<rparr>)"
  by (rule unnoticed_states) (subst sql_update_key; auto)

lemma unnoticed_insert:
  "s_monitor s = mid \<Longrightarrow> s_region s = region \<Longrightarrow>
     unnoticed mid region d (d\<lparr>t_monitor_state := t_monitor_state d @ [s]\<rparr>)"
  by (rule unnoticed_states) auto

lemma unnoticed_claim: "unnoticed mid region d (snd (claim_miss mid region deb moment d))"
  using reflpD [OF unnoticed_rel(1), of mid region d]
  by (simp add: claim_miss_def Let_def miss_row_def unnoticed_update unnoticed_insert split: list.splits)

lemma unnoticed_apply: "unnoticed mid region d (snd (apply_result mid region ok e t d))"
  using reflpD [OF unnoticed_rel(1), of mid region d]
  by (simp add: apply_result_def Let_def first_state_def unnoticed_update unnoticed_insert split: list.splits)

lemma unnoticed_detect: "guar (on_db (unnoticed (m_id m) region)) (OnResult d m r miss_result st)"
proof -
  have "wp (detectIncident d m st) (\<lambda>_ w'. on_db (unnoticed (m_id m) region) w w') w" for w
  proof (cases "outside (m_id m) region (db w)")
    case True
    then have none: "states_of (m_id m) (db w) = []" by (simp add: outside_def)
    show ?thesis
      unfolding detectIncident_def wp States_def
      by (rule wp_sql_readI) (simp_all add: none aggregate_def wp on_db_def unnoticed_def)
  next
    case False
    then show ?thesis by (simp add: wp_def on_db_def unnoticed_def case_prod_beta)
  qed
  then have "guar (on_db (unnoticed (m_id m) region)) (detectIncident d m st)" by (simp add: guar_wp)
  moreover have "updateSSL m miss_result = State_Monad.return ()" by (simp add: updateSSL_def miss_result_def)
  ultimately show ?thesis unfolding OnResult_def by (simp only:) (intro guar unnoticed_rel)
qed



subsection \<open>Certificates\<close>

text \<open>
  Which certificate alerts are due: a threshold of 7, 3 or 1 days, or the monitor's own
  when it is positive, exactly when no more than that many days are left and the threshold
  was not alerted before; they are listed once each, the largest first. So a certificate
  with 5 days and 1 hour left counts as 6 days left.
\<close>

theorem ssl_due_meaning:
  assumes "m_ssl_alert_days m \<le> 106751"
  shows "(t \<in> set (ssl_due m (daysLeftUntil expires now)) \<longleftrightarrow>
            (t \<in> {7, 3, 1} \<or> 0 < t \<and> t = m_ssl_alert_days m) \<and> expires - now \<le> t * (24 * hour) \<and> t \<notin> set (m_ssl_alerted m)) \<and>
         sorted_wrt (>) (ssl_due m (daysLeftUntil expires now)) \<and>
         daysLeftUntil (now + 5 * (24 * hour) + hour) now = 6"
proof -
  have days: "daysLeftUntil expires now \<le> t \<longleftrightarrow> expires - now \<le> t * (24 * hour)" if "0 < t" "t \<le> 106751" for t
    using that by (auto simp: daysLeftUntil_def time_sub_def min_def max_def)
  have set: "set (sslThresholds a) = {7, 3, 1} \<union> (if 0 < a then {a} else {})" for a
    by (auto simp: sslThresholds_def)
  have "t \<in> set (ssl_due m (daysLeftUntil expires now)) \<longleftrightarrow>
     (t \<in> {7, 3, 1} \<or> 0 < t \<and> t = m_ssl_alert_days m) \<and> expires - now \<le> t * (24 * hour) \<and> t \<notin> set (m_ssl_alerted m)"
    using days [of t] assms by (auto simp: ssl_due_def set split: if_splits)
  moreover have "sorted_wrt (>) (sslThresholds a)" for a
    unfolding sslThresholds_def sorted_wrt_rev by (simp add: strict_sorted_iff [symmetric])
  then have "sorted_wrt (>) (ssl_due m (daysLeftUntil expires now))"
    by (simp add: ssl_due_def sorted_wrt_filter)
  moreover have "daysLeftUntil (now + 5 * (24 * hour) + hour) now = 6"
    by (simp add: daysLeftUntil_def time_sub_def)
  ultimately show ?thesis by blast
qed

text \<open>What a pass makes of a monitor, and what the notifier must leave alone.\<close>

definition ssl_pass_row :: "time \<Rightarrow> monitor \<Rightarrow> monitor" where
  "ssl_pass_row now m =
     (case m_ssl_expires m of
        None \<Rightarrow> m
      | Some expires \<Rightarrow>
          (let due = ssl_due m (daysLeftUntil expires now) in if due = [] then m else ssl_claim_row due m))"

definition still_rel :: "world \<Rightarrow> world \<Rightarrow> bool" where
  "still_rel w w' \<longleftrightarrow> (sched w = [] \<longrightarrow>
     sched w' = [] \<and> go_now w' = go_now w \<and> t_monitors (db w') = t_monitors (db w))"

lemma ssl_pass_row_keeps [simp]: "m_id (ssl_pass_row now m) = m_id m" "m_ssl_expires (ssl_pass_row now m) = m_ssl_expires m"
  by (simp_all add: ssl_pass_row_def ssl_claim_row_def Let_def split: option.splits)

lemma ssl_due_after_pass:
  "m_ssl_expires m = Some e \<Longrightarrow> ssl_due (ssl_pass_row now m) (daysLeftUntil e now) = []"
  by (auto simp: ssl_pass_row_def ssl_claim_row_def Let_def ssl_due_def filter_empty_conv)

lemma ssl_alert_row:
  assumes "sched w = []" and "distinct (map m_id (t_monitors (db w)))" and "c \<in> set (t_monitors (db w))"
    and "\<And>ev. guar still_rel (nt_Notify nt ev)" and "run_state (ssl_alert nt now c) w = ((), w')"
  shows "sched w' = [] \<and> go_now w' = go_now w \<and>
     t_monitors (db w') = map (\<lambda>m. if m_id m = m_id c then ssl_pass_row now m else m) (t_monitors (db w))"
proof -
  have only: "m = c" if "m \<in> set (t_monitors (db w))" "m_id m = m_id c" for m
    using distinct_key_unique [OF assms(2) that(1) assms(3) that(2)] .
  have idle: "map (\<lambda>m. if m_id m = m_id c then ssl_pass_row now m else m) (t_monitors (db w)) = t_monitors (db w)"
    if "ssl_pass_row now c = c"
    using only that by (intro map_idI) auto
  show ?thesis
  proof (cases "\<exists>e. m_ssl_expires c = Some e \<and> ssl_due c (daysLeftUntil e now) \<noteq> []")
    case False
    then have "ssl_pass_row now c = c" and "ssl_alert nt now c = State_Monad.return ()"
      by (auto simp: ssl_pass_row_def ssl_alert_def Let_def split: option.splits)
    then show ?thesis using assms(1,5) idle by simp
  next
    case True
    then obtain e where e: "m_ssl_expires c = Some e" "ssl_due c (daysLeftUntil e now) \<noteq> []" by blast
    let ?due = "ssl_due c (daysLeftUntil e now)"
    have claim: "ssl_claimable (m_id c) ?due m \<longleftrightarrow> m = c" if "m \<in> set (t_monitors (db w))" for m
      using that only e(2) by (auto simp: ssl_claimable_def ssl_due_def filter_empty_conv)
    let ?ms = "sql_update (ssl_claimable (m_id c) ?due) (ssl_claim_row ?due) (t_monitors (db w))"
    have ms: "?ms = map (\<lambda>m. if m_id m = m_id c then ssl_pass_row now m else m) (t_monitors (db w))"
      using claim only e by (auto simp: sql_update_def ssl_pass_row_def Let_def)
    have won: "list_ex (ssl_claimable (m_id c) ?due) (t_monitors (db w))"
      using claim assms(3) by (auto simp: list_ex_iff)
    let ?w1 = "w\<lparr>db := (db w)\<lparr>t_monitors := ?ms\<rparr>\<rparr>"
    have "w' = snd (run_state (nt_Notify nt (ssl_event c (daysLeftUntil e now))) ?w1)"
      using assms(1,5) e won by (simp add: ssl_alert_def ClaimSSLAlert_def run_state_bind Let_def prod_eq_iff split: prod.splits)
    then have "still_rel ?w1 w'" using guarD [OF assms(4)] by simp
    then show ?thesis using assms(1) ms by (simp add: still_rel_def)
  qed
qed

lemma ssl_alerts_rows:
  assumes "sched w = []" and "distinct (map m_id (t_monitors (db w)))" and "set cs \<subseteq> set (t_monitors (db w))"
    and "distinct (map m_id cs)" and "\<And>ev. guar still_rel (nt_Notify nt ev)"
    and "run_state (for_each cs (ssl_alert nt now)) w = ((), w')"
  shows "sched w' = [] \<and> go_now w' = go_now w \<and>
     t_monitors (db w') = map (\<lambda>m. if m_id m \<in> m_id ` set cs then ssl_pass_row now m else m) (t_monitors (db w))"
  using assms
proof (induction cs arbitrary: w)
  case (Cons c cs)
  obtain w1 where w1: "run_state (ssl_alert nt now c) w = ((), w1)" by (cases "run_state (ssl_alert nt now c) w") auto
  note one = ssl_alert_row [OF Cons.prems(1,2) _ Cons.prems(5) w1]
  have rows: "t_monitors (db w1) = map (\<lambda>m. if m_id m = m_id c then ssl_pass_row now m else m) (t_monitors (db w))"
    and calm: "sched w1 = []" "go_now w1 = go_now w"
    using one Cons.prems(3) by simp_all
  have "distinct (map m_id (t_monitors (db w1)))"
    using Cons.prems(2) unfolding rows by (simp add: o_def if_distrib cong: if_cong)
  moreover have "set cs \<subseteq> set (t_monitors (db w1))"
  proof
    fix x assume x: "x \<in> set cs"
    then have "m_id x \<noteq> m_id c" using Cons.prems(4) by (metis distinct.simps(2) image_eqI list.set_map list.simps(9))
    then show "x \<in> set (t_monitors (db w1))" using x Cons.prems(3) by (force simp: rows)
  qed
  moreover have "run_state (for_each cs (ssl_alert nt now)) w1 = ((), w')"
    using Cons.prems(6) by (simp add: run_state_bind w1)
  ultimately have "sched w' = [] \<and> go_now w' = go_now w1 \<and>
     t_monitors (db w') = map (\<lambda>m. if m_id m \<in> m_id ` set cs then ssl_pass_row now m else m) (t_monitors (db w1))"
    using Cons.prems(4,5) calm(1) by (intro Cons.IH) simp_all
  then show ?case
    using calm Cons.prems(4) by (auto simp: rows)
qed simp

lemma for_each_idle: "(\<And>x. x \<in> set xs \<Longrightarrow> f x = State_Monad.return ()) \<Longrightarrow> for_each xs f = State_Monad.return ()"
  by (induction xs) simp_all

text \<open>
  A certificate threshold is announced once: a pass without faults of the database marks,
  for every monitor with a known expiry, exactly the thresholds that are due and changes
  nothing else about monitors, and a second pass at the same time does nothing at all: it
  writes nothing and sends nothing. The notifier is assumed to leave the monitors alone.
\<close>

theorem ssl_pass_announces_once:
  assumes "distinct (map m_id (t_monitors (db w)))" and "sched w = []" and "wd_Notifier wd = Some nt"
    and "\<And>ev. guar still_rel (nt_Notify nt ev)" and "run_state (checkSSL wd) w = ((), w')"
  shows "t_monitors (db w') = map (ssl_pass_row (go_now w)) (t_monitors (db w)) \<and> run_state (checkSSL wd) w' = ((), w')"
proof -
  let ?known = "\<lambda>d. sort_key m_id (filter (\<lambda>m. m_ssl_expires m \<noteq> None) (t_monitors d))"
  have run: "run_state (checkSSL wd) u = run_state (for_each (?known (db u)) (ssl_alert nt (go_now u))) u" if "sched u = []" for u
    using that assms(3) by (simp add: checkSSL_def SSLCandidates_def run_state_bind)
  have "distinct (map m_id (?known (db w)))"
    using distinct_map_filter [OF assms(1)] by (simp add: distinct_map inj_on_def)
  then have after: "sched w' = [] \<and> go_now w' = go_now w \<and>
     t_monitors (db w') = map (\<lambda>m. if m_id m \<in> m_id ` set (?known (db w)) then ssl_pass_row (go_now w) m else m) (t_monitors (db w))"
    using assms(5) run [OF assms(2)] by (intro ssl_alerts_rows [OF assms(2,1) _ _ assms(4)]) auto
  have same: "ssl_pass_row (go_now w) m = m" if "m \<in> set (t_monitors (db w))" "m_id m \<notin> m_id ` set (?known (db w))" for m
    using that by (cases "m_ssl_expires m") (auto simp: ssl_pass_row_def)
  then have rows: "t_monitors (db w') = map (ssl_pass_row (go_now w)) (t_monitors (db w))"
    using after by auto
  have "ssl_alert nt (go_now w) x = State_Monad.return ()" if x: "x \<in> set (?known (db w'))" for x
  proof -
    obtain m e where "x = ssl_pass_row (go_now w) m" "m_ssl_expires m = Some e" using x rows by auto
    then show ?thesis using ssl_due_after_pass by (simp add: ssl_alert_def)
  qed
  then have idle: "for_each (?known (db w')) (ssl_alert nt (go_now w)) = State_Monad.return ()" by (rule for_each_idle)
  have "sched w' = []" and now: "go_now w' = go_now w" using after by simp_all
  then have "run_state (checkSSL wd) w' = ((), w')" unfolding run [OF \<open>sched w' = []\<close>] now idle by simp
  with rows show ?thesis by simp
qed

theorem ssl_due_meaning_witness:
  "set (ssl_due (ex_monitor\<lparr>m_ssl_alerted := [14]\<rparr>) (daysLeftUntil (5 * (24 * hour)) 0)) = {7} \<and>
   (7 \<in> set (ssl_due (ex_monitor\<lparr>m_ssl_alerted := [14]\<rparr>) (daysLeftUntil (5 * (24 * hour)) 0)) \<longleftrightarrow>
     5 * (24 * hour) - 0 \<le> 7 * (24 * hour))"
proof -
  let ?m = "ex_monitor\<lparr>m_ssl_alerted := [14]\<rparr>"
  have "m_ssl_alert_days ?m \<le> 106751" by (simp add: ex_monitor_def)
  note meaning = ssl_due_meaning [OF this, of _ "5 * (24 * hour)" 0]
  have "set (ssl_due ?m (daysLeftUntil (5 * (24 * hour)) 0)) = {7}" by code_simp
  then show ?thesis using meaning [of 7] by simp
qed

text \<open>The notifier of this package leaves monitors and the clock alone.\<close>

definition clock_rel :: "world \<Rightarrow> world \<Rightarrow> bool" where
  "clock_rel w w' \<longleftrightarrow> (sched w = [] \<longrightarrow> sched w' = [] \<and> go_now w' = go_now w)"

lemma clock_rel_rel [guar]: "reflp clock_rel" "transp clock_rel"
  by (auto simp: reflp_def transp_def clock_rel_def)

lemma clock_sql [guar]: "guar clock_rel (sql q)" "guar clock_rel (sql_read rq)" "guar clock_rel time_now"
  by (simp_all add: guar_def clock_rel_def)

lemma still_Notify: "guar still_rel (Notify n ev)"
proof -
  have "guar clock_rel (Notify n ev)"
    unfolding Notify_def dispatch_def Dispatch_def dispatch_one_def resolveProjectName_def resolveChannels_def
      MonitorChannelIDs_def Channels_def depsLine_def enqueue_channel_def EnqueueIdempotent_def Enqueue_def Let_def
    by (intro guar)
  moreover have "guar (on_db only_outbox) (Notify n ev)"
    unfolding guar_wp Notify_def on_db_def by (auto simp: wp intro: wp_mono [OF wp_dispatch])
  ultimately show ?thesis
    using only_outbox_same [of _ _ t_monitors] by (simp add: guar_def clock_rel_def still_rel_def on_db_def)
qed

definition ex_expiring :: db where
  "ex_expiring = ex_db\<lparr>t_monitors := [ex_monitor\<lparr>m_ssl_expires := Some (5 * (24 * hour))\<rparr>]\<rparr>"

theorem ssl_pass_announces_once_witness:
  "let w' = snd (run_state (checkSSL ex_watchdog) (calm 0 ex_expiring))
   in map m_ssl_alerted (t_monitors (db w')) = [[7, 14]] \<and> length (t_outbox (db w')) = 2 \<and>
      run_state (checkSSL ex_watchdog) w' = ((), w')"
proof -
  let ?run = "run_state (checkSSL ex_watchdog) (calm 0 ex_expiring)"
  have ids: "distinct (map m_id (t_monitors (db (calm 0 ex_expiring))))" and sch: "sched (calm 0 ex_expiring) = []" by code_simp+
  have nt: "wd_Notifier ex_watchdog = Some (outbox_as_notifier ex_notifier)" by (simp add: ex_watchdog_def)
  have still: "guar still_rel (nt_Notify (outbox_as_notifier ex_notifier) ev)" for ev
    using still_Notify by (simp add: outbox_as_notifier_def)
  have run: "?run = ((), snd ?run)" by (simp add: prod_eq_iff)
  have "map m_ssl_alerted (t_monitors (db (snd ?run))) = [[7, 14]]" "length (t_outbox (db (snd ?run))) = 2" by code_simp+
  then show ?thesis using ssl_pass_announces_once [OF ids sch nt still run] by (simp add: Let_def)
qed

end
