(* ===== verification/Group_Store.thy ===== *)
theory Group_Store
  imports Uptime_Incident
begin

text \<open>
  \<open>internal/incidentgroup/group.go\<close> and \<open>janitor.go\<close>: groups of incidents with a common
  root, the membership of incidents of the four sources that have a node (hosts, monitors,
  metrics of a host, service levels of a monitor), the sweep that closes groups whose
  root is gone, and the purge of old groups. The properties: a root has one group, a
  closed group stays closed, a member of an open group is never moved, the sweep leaves
  no open group without its root, and the purge does not touch the clock of escalations.
\<close>

subsection \<open>Model: group.go\<close>

definition insert_group :: "int \<Rightarrow> string \<Rightarrow> int \<Rightarrow> string \<Rightarrow> int \<Rightarrow> time \<Rightarrow> db \<Rightarrow> group_row option \<times> db" where
  "insert_group projectID rootSource rootIncidentID rootNodeKind rootNodeID now d =
     (let d1 = d\<lparr>t_group_seq := t_group_seq d + 1\<rparr>;
          g = \<lparr>g_ID = t_group_seq d, g_ProjectID = projectID, g_RootSource = rootSource, g_RootIncidentID = rootIncidentID,
               g_RootNodeKind = rootNodeKind, g_RootNodeID = rootNodeID, g_StartedAt = now, g_ResolvedAt = None\<rparr>
      in if list_ex (\<lambda>x. g_RootSource x = rootSource \<and> g_RootIncidentID x = rootIncidentID) (t_groups d)
         then (None, d1)
         else (Some g, d1\<lparr>t_groups := t_groups d @ [g]\<rparr>))"

definition EnsureGroup :: "int \<Rightarrow> string \<Rightarrow> int \<Rightarrow> string \<Rightarrow> int \<Rightarrow> group_row result prog" where
  "EnsureGroup projectID rootSource rootIncidentID rootNodeKind rootNodeID =
     do {
       r \<leftarrow> sql (insert_group projectID rootSource rootIncidentID rootNodeKind rootNodeID);
       (case r of
          Inl e \<Rightarrow> State_Monad.return (Inl e)
        | Inr (Some g) \<Rightarrow> State_Monad.return (Inr g)
        | Inr None \<Rightarrow>
            do {
              f \<leftarrow> sql_read (\<lambda>_ d. find (\<lambda>x. g_RootSource x = rootSource \<and> g_RootIncidentID x = rootIncidentID) (t_groups d));
              State_Monad.return (case f of Inl e \<Rightarrow> Inl e | Inr None \<Rightarrow> Inl ErrDB | Inr (Some g) \<Rightarrow> Inr g)
            })
     }"

definition Resolve_group :: "string \<Rightarrow> int \<Rightarrow> bool result prog" where
  "Resolve_group rootSource rootIncidentID =
     (let hit = (\<lambda>g. g_RootSource g = rootSource \<and> g_RootIncidentID g = rootIncidentID \<and> g_ResolvedAt g = None) in
      sql (\<lambda>now d. (list_ex hit (t_groups d),
        d\<lparr>t_groups := sql_update hit (\<lambda>g. g\<lparr>g_ResolvedAt := Some now\<rparr>) (t_groups d)\<rparr>)))"

text \<open>
  The four tables of \<open>sourceMeta\<close>. An incident may join a group unless it is in an open one;
  \<open>eligible\<close> lists, for the rows that the statement addresses, whether they may.
\<close>

definition group_open :: "db \<Rightarrow> int \<Rightarrow> bool" where
  "group_open d i = list_ex (\<lambda>g. g_ID g = i \<and> g_ResolvedAt g = None) (t_groups d)"

definition may_join :: "db \<Rightarrow> int option \<Rightarrow> bool" where
  "may_join d grp = (case grp of None \<Rightarrow> True | Some i \<Rightarrow> \<not> group_open d i)"

definition monitor_in_project :: "db \<Rightarrow> int \<Rightarrow> incident \<Rightarrow> bool" where
  "monitor_in_project d projectID i = list_ex (\<lambda>m. m_id m = i_monitor i \<and> m_project m = projectID) (t_monitors d)"

definition set_alert_group ::
  "db \<Rightarrow> int \<Rightarrow> int \<Rightarrow> int \<Rightarrow> 'a alert_incident_scheme list \<Rightarrow> bool \<times> 'a alert_incident_scheme list" where
  "set_alert_group d projectID incidentID groupID rows =
     (let hit = (\<lambda>x. a_id x = incidentID \<and> a_project x = projectID \<and> may_join d (a_group x))
      in (list_ex hit rows, sql_update hit (\<lambda>x. x\<lparr>a_group := Some groupID\<rparr>) rows))"

definition set_group :: "int \<Rightarrow> string \<Rightarrow> int \<Rightarrow> int \<Rightarrow> db \<Rightarrow> bool \<times> db" where
  "set_group projectID source incidentID groupID d =
     (if source = ''host'' then
        (case set_alert_group d projectID incidentID groupID (t_host_incidents d) of (b, rows) \<Rightarrow> (b, d\<lparr>t_host_incidents := rows\<rparr>))
      else if source = ''uptime'' then
        (let hit = (\<lambda>x. i_id x = incidentID \<and> monitor_in_project d projectID x \<and> may_join d (i_group x))
         in (list_ex hit (t_incidents d),
             d\<lparr>t_incidents := sql_update hit (\<lambda>x. x\<lparr>i_group := Some groupID\<rparr>) (t_incidents d)\<rparr>))
      else if source = ''metric'' then
        (case set_alert_group d projectID incidentID groupID (t_metric_incidents d) of (b, rows) \<Rightarrow> (b, d\<lparr>t_metric_incidents := rows\<rparr>))
      else
        (case set_alert_group d projectID incidentID groupID (t_slo_incidents d) of (b, rows) \<Rightarrow> (b, d\<lparr>t_slo_incidents := rows\<rparr>)))"

definition sourceMeta :: "string list" where
  "sourceMeta = [''host'', ''uptime'', ''metric'', ''slo'']"

definition SetGroup :: "int \<Rightarrow> string \<Rightarrow> int \<Rightarrow> int \<Rightarrow> bool result prog" where
  "SetGroup projectID source incidentID groupID =
     (if source \<notin> set sourceMeta then State_Monad.return (Inl ErrUnknownSource)
      else sql (\<lambda>_. set_group projectID source incidentID groupID))"

text \<open>The incidents of a source as triples: project, id, group.\<close>

definition alert_members :: "'a alert_incident_scheme list \<Rightarrow> (int \<times> int \<times> int option) list" where
  "alert_members rows = map (\<lambda>x. (a_project x, a_id x, a_group x)) rows"

definition uptime_members :: "db \<Rightarrow> (int \<times> int \<times> int option) list" where
  "uptime_members d =
     concat (map (\<lambda>x. map (\<lambda>m. (m_project m, i_id x, i_group x)) (filter (\<lambda>m. m_id m = i_monitor x) (t_monitors d))) (t_incidents d))"

definition members_of :: "string \<Rightarrow> db \<Rightarrow> (int \<times> int \<times> int option) list" where
  "members_of source d =
     (if source = ''host'' then alert_members (t_host_incidents d)
      else if source = ''uptime'' then uptime_members d
      else if source = ''metric'' then alert_members (t_metric_incidents d)
      else alert_members (t_slo_incidents d))"

definition MemberEligible :: "int \<Rightarrow> string \<Rightarrow> int \<Rightarrow> bool result prog" where
  "MemberEligible projectID source incidentID =
     (if source \<notin> set sourceMeta then State_Monad.return (Inl ErrUnknownSource)
      else sql_read (\<lambda>_ d.
        case find (\<lambda>(p, i, g). i = incidentID \<and> p = projectID) (members_of source d) of
          None \<Rightarrow> False
        | Some (_, _, g) \<Rightarrow> may_join d g))"

text \<open>The lists of groups: the name of the root node, and the severity of a host's incident.\<close>

record group_view = group_row +
  gv_RootName :: string
  gv_RootSeverity :: string

definition group_view_of :: "db \<Rightarrow> group_row \<Rightarrow> group_view" where
  "group_view_of d g =
     \<lparr>g_ID = g_ID g, g_ProjectID = g_ProjectID g, g_RootSource = g_RootSource g, g_RootIncidentID = g_RootIncidentID g,
      g_RootNodeKind = g_RootNodeKind g, g_RootNodeID = g_RootNodeID g, g_StartedAt = g_StartedAt g, g_ResolvedAt = g_ResolvedAt g,
      gv_RootName =
        (if g_RootNodeKind g = ''host''
         then (case find (\<lambda>h. h_id h = g_RootNodeID g) (t_hosts d) of None \<Rightarrow> '''' | Some h \<Rightarrow> h_name h)
         else if g_RootNodeKind g = ''monitor''
         then (case find (\<lambda>m. m_id m = g_RootNodeID g) (t_monitors d) of None \<Rightarrow> '''' | Some m \<Rightarrow> m_name m)
         else ''''),
      gv_RootSeverity =
        (if g_RootSource g = ''host''
         then (case find (\<lambda>i. a_id i = g_RootIncidentID g) (t_host_incidents d) of None \<Rightarrow> '''' | Some i \<Rightarrow> a_severity i)
         else '''')\<rparr>"

definition MaxOpenGroups :: nat where "MaxOpenGroups = 50"

definition OpenGroups :: "int \<Rightarrow> group_view list result prog" where
  "OpenGroups projectID =
     sql_read (\<lambda>_ d. take MaxOpenGroups (map (group_view_of d) (sort_key (\<lambda>g. - g_StartedAt g)
       (filter (\<lambda>g. g_ProjectID g = projectID \<and> g_ResolvedAt g = None) (t_groups d)))))"

definition ClosedGroupsSince :: "int \<Rightarrow> time \<Rightarrow> nat \<Rightarrow> group_view list result prog" where
  "ClosedGroupsSince projectID since limit =
     sql_read (\<lambda>_ d. take limit (map (group_view_of d) (sort_key (\<lambda>g. - the (g_ResolvedAt g))
       (filter (\<lambda>g. g_ProjectID g = projectID \<and> (case g_ResolvedAt g of None \<Rightarrow> False | Some t \<Rightarrow> since \<le> t)) (t_groups d)))))"

subsection \<open>Model: the composition of a group\<close>

record feed_item =
  fi_Source :: string
  fi_IncidentID :: int
  fi_Title :: string
  fi_SubKind :: string
  fi_StartedAt :: time
  fi_ResolvedAt :: "time option"
  fi_Severity :: string
  fi_Acknowledged :: bool
  fi_SuppressedByDep :: bool
  fi_RefID :: int
  fi_RefName :: string
  fi_FormerGroupID :: int
  fi_FormerGroupRootName :: string
  fi_HeldByGroup :: bool

text \<open>The common table \<open>grp\<close>: whether the group is open, and whether its root has informed.\<close>

definition root_notified :: "db \<Rightarrow> group_row \<Rightarrow> bool" where
  "root_notified d g =
     (if g_RootSource g = ''host''
      then (case find (\<lambda>i. a_id i = g_RootIncidentID g) (t_host_incidents d) of None \<Rightarrow> False | Some i \<Rightarrow> a_notified_open i)
      else if g_RootSource g = ''uptime''
      then (case find (\<lambda>i. i_id i = g_RootIncidentID g) (t_incidents d) of None \<Rightarrow> False | Some i \<Rightarrow> i_notified_open i)
      else False)"

definition held_by_group :: "db \<Rightarrow> int \<Rightarrow> time option \<Rightarrow> bool" where
  "held_by_group d groupID resolved =
     (case find (\<lambda>g. g_ID g = groupID) (t_groups d) of
        None \<Rightarrow> False
      | Some g \<Rightarrow> g_ResolvedAt g = None \<and> resolved = None \<and> root_notified d g)"

definition alert_item :: "db \<Rightarrow> int \<Rightarrow> string \<Rightarrow> string \<Rightarrow> string \<Rightarrow> bool \<Rightarrow> int \<Rightarrow> string \<Rightarrow> 'a alert_incident_scheme \<Rightarrow> feed_item" where
  "alert_item d groupID source title sub suppressed refID refName x =
     \<lparr>fi_Source = source, fi_IncidentID = a_id x, fi_Title = title, fi_SubKind = sub, fi_StartedAt = a_started x,
      fi_ResolvedAt = a_resolved x, fi_Severity = a_severity x, fi_Acknowledged = (a_acked_at x \<noteq> None),
      fi_SuppressedByDep = suppressed, fi_RefID = refID, fi_RefName = refName, fi_FormerGroupID = 0,
      fi_FormerGroupRootName = '''', fi_HeldByGroup = held_by_group d groupID (a_resolved x)\<rparr>"

definition host_name_of :: "db \<Rightarrow> int \<Rightarrow> string" where
  "host_name_of d i = (case find (\<lambda>h. h_id h = i) (t_hosts d) of None \<Rightarrow> '''' | Some h \<Rightarrow> h_name h)"

definition composition :: "int \<Rightarrow> int \<Rightarrow> db \<Rightarrow> feed_item list" where
  "composition projectID groupID d =
     map (\<lambda>x. alert_item d groupID ''host'' (host_name_of d (hi_host x)) (hi_kind x) (hi_suppressed x) 0 (host_name_of d (hi_host x)) x)
       (filter (\<lambda>x. a_group x = Some groupID \<and> a_project x = projectID) (t_host_incidents d)) @
     concat (map (\<lambda>x. map (\<lambda>m.
         \<lparr>fi_Source = ''uptime'', fi_IncidentID = i_id x, fi_Title = m_name m, fi_SubKind = '''', fi_StartedAt = i_started x,
          fi_ResolvedAt = i_resolved x, fi_Severity = '''', fi_Acknowledged = False, fi_SuppressedByDep = i_suppressed x,
          fi_RefID = i_monitor x, fi_RefName = '''', fi_FormerGroupID = 0, fi_FormerGroupRootName = '''',
          fi_HeldByGroup = held_by_group d groupID (i_resolved x)\<rparr>)
         (filter (\<lambda>m. m_id m = i_monitor x \<and> m_project m = projectID) (t_monitors d)))
       (filter (\<lambda>x. i_group x = Some groupID) (t_incidents d))) @
     map (\<lambda>x. alert_item d groupID ''metric''
         (case find (\<lambda>r. mr_ID r = mi_rule x) (t_metric_rules d) of None \<Rightarrow> '''' | Some r \<Rightarrow> mr_MetricName r) '''' False (mi_rule x) '''' x)
       (filter (\<lambda>x. a_group x = Some groupID \<and> a_project x = projectID) (t_metric_incidents d)) @
     map (\<lambda>x. alert_item d groupID ''slo''
         (case find (\<lambda>r. sl_ID r = si_slo x) (t_slos d) of None \<Rightarrow> '''' | Some r \<Rightarrow> sl_Name r) '''' False (si_slo x) '''' x)
       (filter (\<lambda>x. a_group x = Some groupID \<and> a_project x = projectID) (t_slo_incidents d))"

definition Composition :: "int \<Rightarrow> int \<Rightarrow> feed_item list result prog" where
  "Composition projectID groupID = sql_read (\<lambda>_ d. sort_key fi_StartedAt (composition projectID groupID d))"

text \<open>The batch: a group without members is not in the map.\<close>

definition Compositions :: "int \<Rightarrow> int list \<Rightarrow> (int \<rightharpoonup> feed_item list) result prog" where
  "Compositions projectID groupIDs =
     (if groupIDs = [] then State_Monad.return (Inr Map.empty)
      else sql_read (\<lambda>_ d g. case (if g \<in> set groupIDs then sort_key fi_StartedAt (composition projectID g d) else []) of
        [] \<Rightarrow> None | items \<Rightarrow> Some items))"

subsection \<open>Model: janitor.go\<close>

definition orphan_group :: "db \<Rightarrow> group_row \<Rightarrow> bool" where
  "orphan_group d g \<longleftrightarrow> g_ResolvedAt g = None \<and>
     (g_RootSource g = ''host'' \<and> \<not> list_ex (\<lambda>i. a_id i = g_RootIncidentID g \<and> a_status i = ''open'') (t_host_incidents d) \<or>
      g_RootSource g = ''uptime'' \<and> \<not> list_ex (\<lambda>i. i_id i = g_RootIncidentID g \<and> i_resolved i = None) (t_incidents d))"

definition SweepOrphanGroups :: "int result prog" where
  "SweepOrphanGroups =
     sql (\<lambda>now d. (int (length (filter (orphan_group d) (t_groups d))),
       d\<lparr>t_groups := sql_update (orphan_group d) (\<lambda>g. g\<lparr>g_ResolvedAt := Some now\<rparr>) (t_groups d)\<rparr>))"

definition open_member :: "db \<Rightarrow> int \<Rightarrow> bool" where
  "open_member d i \<longleftrightarrow>
     list_ex (\<lambda>x. a_group x = Some i \<and> a_status x = ''open'') (t_host_incidents d) \<or>
     list_ex (\<lambda>x. i_group x = Some i \<and> i_resolved x = None) (t_incidents d) \<or>
     list_ex (\<lambda>x. a_group x = Some i \<and> a_status x = ''open'') (t_metric_incidents d) \<or>
     list_ex (\<lambda>x. a_group x = Some i \<and> a_status x = ''open'') (t_slo_incidents d)"

definition purgeable_group :: "db \<Rightarrow> time \<Rightarrow> group_row \<Rightarrow> bool" where
  "purgeable_group d cutoff g \<longleftrightarrow>
     (case g_ResolvedAt g of None \<Rightarrow> False | Some t \<Rightarrow> t < cutoff) \<and> \<not> open_member d (g_ID g)"

definition purge_groups :: "time \<Rightarrow> db \<Rightarrow> int \<times> db" where
  "purge_groups cutoff d =
     (int (length (filter (purgeable_group d cutoff) (t_groups d))),
      d\<lparr>t_groups := sql_delete (purgeable_group d cutoff) (t_groups d)\<rparr>)"

definition PurgeOldGroups :: "duration \<Rightarrow> int result prog" where
  "PurgeOldGroups olderThan =
     do {
       t \<leftarrow> time_now;
       sql (\<lambda>_. purge_groups (t - olderThan))
     }"

definition retentionEvery :: duration where "retentionEvery = hour"

text \<open>One round of \<open>Run\<close>; \<open>lastPurge\<close> is the state of the janitor, \<open>None\<close> the zero time.\<close>

definition group_janitor_tick :: "duration \<Rightarrow> time option \<Rightarrow> time option prog" where
  "group_janitor_tick retention lastPurge =
     do {
       _ \<leftarrow> SweepOrphanGroups;
       now \<leftarrow> time_now;
       (if 0 < retention \<and> (case lastPurge of None \<Rightarrow> True | Some t \<Rightarrow> retentionEvery \<le> time_sub now t) then do {
          t \<leftarrow> time_now;
          _ \<leftarrow> PurgeOldGroups retention;
          State_Monad.return (Some t)
        }
        else State_Monad.return lastPurge)
     }"

subsection \<open>What every operation keeps\<close>

definition groups_wf :: "db \<Rightarrow> bool" where
  "groups_wf d \<longleftrightarrow>
     distinct (map g_ID (t_groups d)) \<and> (\<forall>g \<in> set (t_groups d). g_ID g < t_group_seq d) \<and>
     distinct (map (\<lambda>g. (g_RootSource g, g_RootIncidentID g)) (t_groups d))"

datatype group_op =
    GEnsure int string int string int
  | GResolve string int
  | GSet int string int int
  | GSweep
  | GPurge duration

primrec run_group_op :: "group_op \<Rightarrow> unit prog" where
  "run_group_op (GEnsure p s i k n) = ignore (EnsureGroup p s i k n)"
| "run_group_op (GResolve s i) = ignore (Resolve_group s i)"
| "run_group_op (GSet p s i g) = ignore (SetGroup p s i g)"
| "run_group_op GSweep = ignore SweepOrphanGroups"
| "run_group_op (GPurge t) = ignore (PurgeOldGroups t)"

text \<open>A group only ever closes, and only its closing time changes.\<close>

definition group_le :: "group_row \<Rightarrow> group_row \<Rightarrow> bool" where
  "group_le g g' \<longleftrightarrow> (\<exists>t. g' = g\<lparr>g_ResolvedAt := t\<rparr>) \<and> (g_ResolvedAt g \<noteq> None \<longrightarrow> g' = g)"

lemma group_le_refl: "group_le g g"
  by (auto simp: group_le_def intro: exI [of _ "g_ResolvedAt g"])

lemma group_le_trans: "group_le a b \<Longrightarrow> group_le b c \<Longrightarrow> group_le a c"
  by (auto simp: group_le_def)

definition groups_progress :: "db \<Rightarrow> db \<Rightarrow> bool" where
  "groups_progress d d' \<longleftrightarrow>
     (groups_wf d \<longrightarrow> groups_wf d') \<and> t_group_seq d \<le> t_group_seq d' \<and>
     (\<forall>g' \<in> set (t_groups d'). g_ID g' < t_group_seq d \<longrightarrow> (\<exists>g \<in> set (t_groups d). group_le g g'))"

lemma groups_progress_rel: "reflp groups_progress" "transp groups_progress"
proof -
  show "reflp groups_progress" by (auto simp: reflp_def groups_progress_def intro: group_le_refl)
  show "transp groups_progress"
  proof (rule transpI)
    fix d d' d'' assume 1: "groups_progress d d'" and 2: "groups_progress d' d''"
    have "\<exists>g \<in> set (t_groups d). group_le g g'" if in'': "g' \<in> set (t_groups d'')" and old: "g_ID g' < t_group_seq d" for g'
    proof -
      have "g_ID g' < t_group_seq d'" using 1 old by (simp add: groups_progress_def)
      then obtain h where h: "h \<in> set (t_groups d')" "group_le h g'" using 2 in'' unfolding groups_progress_def by blast
      then have "g_ID h = g_ID g'" by (auto simp: group_le_def)
      then show ?thesis using 1 h old group_le_trans unfolding groups_progress_def by metis
    qed
    with 1 2 show "groups_progress d d''" by (auto simp: groups_progress_def)
  qed
qed

lemma progress_insert_group: "groups_progress d (snd (insert_group p s i k n now d))"
proof (cases "list_ex (\<lambda>x. g_RootSource x = s \<and> g_RootIncidentID x = i) (t_groups d)")
  case True
  then show ?thesis by (force simp: insert_group_def groups_progress_def groups_wf_def intro: group_le_refl)
next
  case False
  then have "(s, i) \<notin> (\<lambda>g. (g_RootSource g, g_RootIncidentID g)) ` set (t_groups d)" by (auto simp: list_ex_iff)
  then show ?thesis
    using False by (auto simp: insert_group_def Let_def groups_progress_def groups_wf_def intro: group_le_refl)
qed

lemma progress_close_groups:
  assumes "\<And>g. p g \<Longrightarrow> g_ResolvedAt g = None"
  shows "groups_progress d (d\<lparr>t_groups := sql_update p (\<lambda>g. g\<lparr>g_ResolvedAt := Some t\<rparr>) (t_groups d)\<rparr>)"
proof -
  have keys: "map g_ID (sql_update p (\<lambda>g. g\<lparr>g_ResolvedAt := Some t\<rparr>) gs) = map g_ID gs"
    "map (\<lambda>g. (g_RootSource g, g_RootIncidentID g)) (sql_update p (\<lambda>g. g\<lparr>g_ResolvedAt := Some t\<rparr>) gs) =
     map (\<lambda>g. (g_RootSource g, g_RootIncidentID g)) gs" for gs
    by (auto simp: sql_update_def)
  have wf: "groups_wf d \<longrightarrow> groups_wf (d\<lparr>t_groups := sql_update p (\<lambda>g. g\<lparr>g_ResolvedAt := Some t\<rparr>) (t_groups d)\<rparr>)"
    by (auto simp: groups_wf_def keys) (auto simp: set_sql_update)
  have "\<exists>g \<in> set (t_groups d). group_le g g'"
    if upd: "g' \<in> set (sql_update p (\<lambda>g. g\<lparr>g_ResolvedAt := Some t\<rparr>) (t_groups d))" for g'
  proof -
    obtain g where g: "g \<in> set (t_groups d)" "g' = (if p g then g\<lparr>g_ResolvedAt := Some t\<rparr> else g)"
      using upd unfolding set_sql_update by blast
    then have "group_le g g'" using assms [of g] group_le_refl by (auto simp: group_le_def)
    with g(1) show ?thesis by blast
  qed
  with wf show ?thesis by (simp add: groups_progress_def)
qed

lemma progress_delete_groups: "groups_progress d (d\<lparr>t_groups := sql_delete p (t_groups d)\<rparr>)"
  by (auto simp: groups_progress_def groups_wf_def sql_delete_def distinct_map_filter intro: group_le_refl)

lemma set_group_groups: "t_groups (snd (set_group p s i g d)) = t_groups d" "t_group_seq (snd (set_group p s i g d)) = t_group_seq d"
  by (simp_all add: set_group_def set_alert_group_def Let_def)

lemma progress_same_groups:
  "t_groups d' = t_groups d \<Longrightarrow> t_group_seq d' = t_group_seq d \<Longrightarrow> groups_progress d d'"
  by (auto simp: groups_progress_def groups_wf_def intro: group_le_refl)

lemma guar_group_op: "guar (on_db groups_progress) (run_group_op op)"
proof -
  note r = groups_progress_rel
  have close: "groups_progress d (d\<lparr>t_groups := sql_update (\<lambda>g. p g \<and> g_ResolvedAt g = None) (\<lambda>g. g\<lparr>g_ResolvedAt := Some t\<rparr>) (t_groups d)\<rparr>)" for d p t
    by (rule progress_close_groups) simp
  have sweep: "groups_progress d (d\<lparr>t_groups := sql_update (orphan_group d) (\<lambda>g. g\<lparr>g_ResolvedAt := Some t\<rparr>) (t_groups d)\<rparr>)" for d t
    by (rule progress_close_groups) (simp add: orphan_group_def)
  show ?thesis
  proof (cases op)
    case (GEnsure p s i k n)
    show ?thesis unfolding GEnsure run_group_op.simps EnsureGroup_def
      by (intro guar r progress_insert_group)
  next
    case (GResolve s i)
    show ?thesis unfolding GResolve run_group_op.simps Resolve_group_def Let_def
      using close [of _ "\<lambda>g. g_RootSource g = s \<and> g_RootIncidentID g = i"] by (intro guar r) (simp add: conj_assoc)
  next
    case (GSet p s i g)
    show ?thesis unfolding GSet run_group_op.simps SetGroup_def
      by (intro guar r) (rule progress_same_groups; simp add: set_group_groups)
  next
    case GSweep
    show ?thesis unfolding GSweep run_group_op.simps SweepOrphanGroups_def by (intro guar r) (simp add: sweep)
  next
    case (GPurge t)
    show ?thesis unfolding GPurge run_group_op.simps PurgeOldGroups_def
      by (intro guar r) (simp add: purge_groups_def progress_delete_groups)
  qed
qed

text \<open>
  C18: a root has one group and a closed group stays closed: whatever the replicas do, in
  whatever order and with whatever faults, group ids and roots stay unique, and of a group
  that existed before only the closing time may have changed, once.
\<close>

theorem one_group_per_root:
  assumes "groups_wf (db w)" and "run_state (for_each ops run_group_op) w = ((), w')"
  shows "groups_wf (db w') \<and>
    (\<forall>g' \<in> set (t_groups (db w')). g_ID g' < t_group_seq (db w) \<longrightarrow>
       (\<exists>g \<in> set (t_groups (db w)). (\<exists>t. g' = g\<lparr>g_ResolvedAt := t\<rparr>) \<and> (g_ResolvedAt g \<noteq> None \<longrightarrow> g' = g)))"
proof -
  have "guar (on_db groups_progress) (for_each ops run_group_op)"
    by (intro guar groups_progress_rel guar_group_op)
  then have "groups_progress (db w) (db w')" using guarD [of _ _ w] assms(2) by (fastforce simp: on_db_def)
  then show ?thesis using assms(1) by (simp add: groups_progress_def group_le_def)
qed

text \<open>Members of an open group stay where they are.\<close>

definition members_stay :: "db \<Rightarrow> db \<Rightarrow> bool" where
  "members_stay d d' \<longleftrightarrow> t_group_seq d \<le> t_group_seq d' \<and>
     (\<forall>g < t_group_seq d. group_open d' g \<longrightarrow> group_open d g \<and>
        (\<forall>source p i. (p, i, Some g) \<in> set (members_of source d) \<longrightarrow> (p, i, Some g) \<in> set (members_of source d')))"

lemma members_stay_rel: "reflp members_stay" "transp members_stay"
proof -
  show "reflp members_stay" by (simp add: reflp_def members_stay_def)
  show "transp members_stay"
  proof (rule transpI)
    fix d d' d'' assume 1: "members_stay d d'" and 2: "members_stay d' d''"
    have "group_open d' g" if "g < t_group_seq d" "group_open d'' g" for g
      using 1 2 that by (simp add: members_stay_def)
    with 1 2 show "members_stay d d''" unfolding members_stay_def by (meson order_less_le_trans order_trans)
  qed
qed

lemma members_of_groups [simp]:
  "members_of source (d\<lparr>t_groups := gs\<rparr>) = members_of source d"
  "members_of source (d\<lparr>t_group_seq := n\<rparr>) = members_of source d"
  "members_of source (d\<lparr>t_group_seq := n, t_groups := gs\<rparr>) = members_of source d"
  by (simp_all add: members_of_def uptime_members_def)

lemma alert_member_iff:
  "(p, i, g) \<in> set (alert_members rows) \<longleftrightarrow> (\<exists>x \<in> set rows. a_project x = p \<and> a_id x = i \<and> a_group x = g)"
  by (auto simp: alert_members_def image_iff)

lemma uptime_member_iff:
  "(p, i, g) \<in> set (uptime_members d) \<longleftrightarrow>
   (\<exists>x \<in> set (t_incidents d). \<exists>m \<in> set (t_monitors d). m_id m = i_monitor x \<and> m_project m = p \<and> i_id x = i \<and> i_group x = g)"
  by (auto simp: uptime_members_def image_iff)

lemma alert_members_after_set:
  assumes "(p, i, Some g) \<in> set (alert_members rows)" and "group_open d g"
  shows "(p, i, Some g) \<in> set (alert_members (snd (set_alert_group d q j k rows)))"
proof -
  obtain x where x: "x \<in> set rows" "a_project x = p" "a_id x = i" "a_group x = Some g"
    using assms(1) by (auto simp: alert_member_iff)
  then have "\<not> may_join d (a_group x)" using assms(2) by (simp add: may_join_def)
  then have "x \<in> set (snd (set_alert_group d q j k rows))"
    using x(1) by (force simp: set_alert_group_def Let_def set_sql_update)
  with x show ?thesis by (auto simp: alert_member_iff)
qed

lemma members_set_group: "members_stay d (snd (set_group q s j k d))"
proof -
  have groups: "group_open (snd (set_group q s j k d)) g = group_open d g" for g
    by (simp add: group_open_def set_group_groups)
  have "(p, i, Some g) \<in> set (members_of source (snd (set_group q s j k d)))"
    if member: "(p, i, Some g) \<in> set (members_of source d)" and opn: "group_open d g" for g source p i
  proof -
    note after = alert_members_after_set [OF _ opn, of p i "t_host_incidents d" q j k]
      alert_members_after_set [OF _ opn, of p i "t_metric_incidents d" q j k]
      alert_members_after_set [OF _ opn, of p i "t_slo_incidents d" q j k]
    have up: "(p, i, Some g) \<in> set (uptime_members (d\<lparr>t_incidents := sql_update (\<lambda>x. i_id x = j \<and> monitor_in_project d q x \<and> may_join d (i_group x))
        (\<lambda>x. x\<lparr>i_group := Some k\<rparr>) (t_incidents d)\<rparr>))" if um: "(p, i, Some g) \<in> set (uptime_members d)"
    proof -
      obtain x m where x: "x \<in> set (t_incidents d)" "m \<in> set (t_monitors d)" "m_id m = i_monitor x" "m_project m = p"
        "i_id x = i" "i_group x = Some g"
        using um by (auto simp: uptime_member_iff)
      then have "\<not> may_join d (i_group x)" using opn by (simp add: may_join_def)
      then have "x \<in> set (sql_update (\<lambda>x. i_id x = j \<and> monitor_in_project d q x \<and> may_join d (i_group x))
          (\<lambda>x. x\<lparr>i_group := Some k\<rparr>) (t_incidents d))"
        using x(1) by (force simp: set_sql_update)
      with x show ?thesis by (auto simp: uptime_member_iff)
    qed
    show ?thesis
      using member after up
      by (auto simp: members_of_def set_group_def Let_def case_prod_beta uptime_members_def split: if_splits)
  qed
  then show ?thesis by (simp add: members_stay_def groups set_group_groups)
qed

lemma members_progress:
  assumes "groups_progress d d'" and "\<And>source. members_of source d' = members_of source d"
  shows "members_stay d d'"
proof -
  have "group_open d g" if opn: "group_open d' g" and old: "g < t_group_seq d" for g
  proof -
    obtain g' where "g' \<in> set (t_groups d')" "g_ID g' = g" "g_ResolvedAt g' = None"
      using opn by (auto simp: group_open_def list_ex_iff)
    then obtain h where "h \<in> set (t_groups d)" "group_le h g'" using assms(1) old unfolding groups_progress_def by blast
    then show ?thesis
      using \<open>g_ID g' = g\<close> \<open>g_ResolvedAt g' = None\<close> by (auto simp: group_open_def list_ex_iff group_le_def)
  qed
  with assms show ?thesis by (auto simp: members_stay_def groups_progress_def)
qed

lemma members_insert_group: "members_stay d (snd (insert_group p s i k n t d))"
  by (rule members_progress [OF progress_insert_group]) (simp add: insert_group_def Let_def)

lemma guar_members_stay: "guar (on_db members_stay) (run_group_op op)"
proof -
  note r = members_stay_rel
  have close: "members_stay d (d\<lparr>t_groups := sql_update p (\<lambda>g. g\<lparr>g_ResolvedAt := Some t\<rparr>) (t_groups d)\<rparr>)"
    if "\<And>g. p g \<Longrightarrow> g_ResolvedAt g = None" for d p t
    by (rule members_progress [OF progress_close_groups [OF that]]) simp_all
  have delete: "members_stay d (d\<lparr>t_groups := sql_delete p (t_groups d)\<rparr>)" for d p
    by (rule members_progress [OF progress_delete_groups]) simp
  show ?thesis
  proof (cases op)
    case (GEnsure p s i k n)
    show ?thesis unfolding GEnsure run_group_op.simps EnsureGroup_def by (intro guar r members_insert_group)
  next
    case (GResolve s i)
    show ?thesis unfolding GResolve run_group_op.simps Resolve_group_def Let_def by (intro guar r) (simp only: snd_conv, rule close, simp)
  next
    case (GSet p s i g)
    show ?thesis unfolding GSet run_group_op.simps SetGroup_def by (intro guar r members_set_group)
  next
    case GSweep
    show ?thesis unfolding GSweep run_group_op.simps SweepOrphanGroups_def
      by (intro guar r) (simp only: snd_conv, rule close, simp add: orphan_group_def)
  next
    case (GPurge t)
    show ?thesis unfolding GPurge run_group_op.simps PurgeOldGroups_def
      by (intro guar r) (simp add: purge_groups_def delete)
  qed
qed

text \<open>
  The first group wins: while a group is open nothing moves its members away. Whatever the
  replicas do to groups, in whatever order and with whatever faults, an incident that
  was a member of a group which is still open is a member of it still, and it was open
  all the time.
\<close>

theorem members_of_open_groups_stay:
  assumes "run_state (for_each ops run_group_op) w = ((), w')"
    and "g < t_group_seq (db w)" and "group_open (db w') g"
    and "(project, incident, Some g) \<in> set (members_of source (db w))"
  shows "group_open (db w) g \<and> (project, incident, Some g) \<in> set (members_of source (db w'))"
proof -
  have "guar (on_db members_stay) (for_each ops run_group_op)"
    by (intro guar members_stay_rel guar_members_stay)
  then have "members_stay (db w) (db w')" using guarD [of _ _ w] assms(1) by (fastforce simp: on_db_def)
  then show ?thesis using assms(2-4) by (simp add: members_stay_def)
qed

subsection \<open>Membership as the statements see it\<close>

lemma set_alert_group_iff:
  "fst (set_alert_group d p i g rows) \<longleftrightarrow> (\<exists>x \<in> set rows. a_id x = i \<and> a_project x = p \<and> may_join d (a_group x))"
  by (auto simp: set_alert_group_def Let_def list_ex_iff)

lemma sourceMetaE:
  assumes "source \<in> set sourceMeta"
  obtains "source = ''host''" | "source = ''uptime''" | "source = ''metric''" | "source = ''slo''"
  using assms by (auto simp: sourceMeta_def)

lemma alert_group_member_iff:
  "fst (set_alert_group d p i g rows) \<longleftrightarrow> (\<exists>old. (p, i, old) \<in> set (alert_members rows) \<and> may_join d old)"
  unfolding set_alert_group_iff alert_member_iff by blast

lemma uptime_group_member_iff:
  "list_ex (\<lambda>x. i_id x = i \<and> monitor_in_project d p x \<and> may_join d (i_group x)) (t_incidents d) \<longleftrightarrow>
   (\<exists>old. (p, i, old) \<in> set (uptime_members d) \<and> may_join d old)"
  unfolding list_ex_iff monitor_in_project_def uptime_member_iff by blast

lemma set_group_iff:
  assumes "source \<in> set sourceMeta"
  shows "fst (set_group p source i g d) \<longleftrightarrow> (\<exists>old. (p, i, old) \<in> set (members_of source d) \<and> may_join d old)"
  using assms
  by (cases rule: sourceMetaE)
     (simp_all add: set_group_def members_of_def case_prod_beta alert_group_member_iff uptime_group_member_iff Let_def)

lemma set_group_member:
  assumes "source \<in> set sourceMeta" and "fst (set_group p source i g d)"
  shows "(p, i, Some g) \<in> set (members_of source (snd (set_group p source i g d)))"
proof -
  have alert: "(p, i, Some g) \<in> set (alert_members (snd (set_alert_group d p i g rows)))" if won: "fst (set_alert_group d p i g rows)" for rows
  proof -
    obtain x where "x \<in> set rows" "a_id x = i" "a_project x = p" "may_join d (a_group x)"
      using won by (auto simp: set_alert_group_iff)
    then have "x\<lparr>a_group := Some g\<rparr> \<in> set (snd (set_alert_group d p i g rows))"
      by (force simp: set_alert_group_def Let_def set_sql_update)
    then show ?thesis
      unfolding alert_member_iff using \<open>a_id x = i\<close> \<open>a_project x = p\<close> by (intro bexI [of _ "x\<lparr>a_group := Some g\<rparr>"]) simp_all
  qed
  have up: "(p, i, Some g) \<in> set (uptime_members (d\<lparr>t_incidents := sql_update hit (\<lambda>x. x\<lparr>i_group := Some g\<rparr>) (t_incidents d)\<rparr>))"
    if hit: "hit = (\<lambda>x. i_id x = i \<and> monitor_in_project d p x \<and> may_join d (i_group x))" and won: "list_ex hit (t_incidents d)" for hit
  proof -
    obtain x m where x: "x \<in> set (t_incidents d)" "hit x" "m \<in> set (t_monitors d)" "m_id m = i_monitor x" "m_project m = p"
      using won by (auto simp: hit list_ex_iff monitor_in_project_def)
    then have "x\<lparr>i_group := Some g\<rparr> \<in> set (sql_update hit (\<lambda>x. x\<lparr>i_group := Some g\<rparr>) (t_incidents d))"
      by (force simp: set_sql_update)
    moreover have "i_id x = i" using x(2) by (simp add: hit)
    ultimately show ?thesis
      unfolding uptime_member_iff using x by (intro bexI [of _ "x\<lparr>i_group := Some g\<rparr>"] bexI [of _ m]) simp_all
  qed
  note alert_host = alert [of "t_host_incidents d"] and alert_metric = alert [of "t_metric_incidents d"] and alert_slo = alert [of "t_slo_incidents d"]
  show ?thesis
    using assms(1)
  proof (cases rule: sourceMetaE)
    case 1
    then show ?thesis using assms(2) alert_host by (simp add: set_group_def members_of_def case_prod_beta)
  next
    case 2
    then show ?thesis using assms(2) up [OF refl] by (simp add: set_group_def members_of_def Let_def)
  next
    case 3
    then show ?thesis using assms(2) alert_metric by (simp add: set_group_def members_of_def case_prod_beta)
  next
    case 4
    then show ?thesis using assms(2) alert_slo by (simp add: set_group_def members_of_def case_prod_beta)
  qed
qed

subsection \<open>Sweep and purge\<close>

lemma orphan_same_incidents:
  "t_host_incidents d' = t_host_incidents d \<Longrightarrow> t_incidents d' = t_incidents d \<Longrightarrow> orphan_group d' = orphan_group d"
  by (simp add: orphan_group_def fun_eq_iff)

text \<open>
  After a successful sweep no open group is without an open root, so its members are not
  silenced by a group whose root will never speak; the sweep closes exactly the groups
  whose root incident is closed or gone and touches no other.
\<close>

theorem sweep_leaves_no_orphans:
  assumes "run_state SweepOrphanGroups w = (Inr n, w')"
  shows "\<exists>now. t_groups (db w') = map (\<lambda>g. if orphan_group (db w) g then g\<lparr>g_ResolvedAt := Some now\<rparr> else g) (t_groups (db w)) \<and>
           n = int (length (filter (orphan_group (db w)) (t_groups (db w)))) \<and>
           (\<forall>g \<in> set (t_groups (db w')). \<not> orphan_group (db w') g)"
proof -
  have "\<exists>now. n = int (length (filter (orphan_group (db w)) (t_groups (db w)))) \<and>
      db w' = (db w)\<lparr>t_groups := sql_update (orphan_group (db w)) (\<lambda>g. g\<lparr>g_ResolvedAt := Some now\<rparr>) (t_groups (db w))\<rparr>"
    using assms unfolding SweepOrphanGroups_def
    by (cases rule: run_sql_cases [of "\<lambda>now d. (int (length (filter (orphan_group d) (t_groups d))),
       d\<lparr>t_groups := sql_update (orphan_group d) (\<lambda>g. g\<lparr>g_ResolvedAt := Some now\<rparr>) (t_groups d)\<rparr>)" w]) auto
  then obtain now where n: "n = int (length (filter (orphan_group (db w)) (t_groups (db w))))"
    and d: "db w' = (db w)\<lparr>t_groups := sql_update (orphan_group (db w)) (\<lambda>g. g\<lparr>g_ResolvedAt := Some now\<rparr>) (t_groups (db w))\<rparr>"
    by blast
  have rows: "t_groups (db w') = map (\<lambda>g. if orphan_group (db w) g then g\<lparr>g_ResolvedAt := Some now\<rparr> else g) (t_groups (db w))"
    by (simp add: d sql_update_def)
  have same: "orphan_group (db w') = orphan_group (db w)" by (rule orphan_same_incidents) (simp_all add: d)
  have closed: "\<not> orphan_group (db w) (g\<lparr>g_ResolvedAt := Some now\<rparr>)" for g by (simp add: orphan_group_def)
  then have "\<forall>g \<in> set (t_groups (db w')). \<not> orphan_group (db w') g" unfolding same rows by auto
  with n rows show ?thesis by blast
qed

definition ex_group :: group_row where
  "ex_group = \<lparr>g_ID = 1, g_ProjectID = 1, g_RootSource = ''uptime'', g_RootIncidentID = 1, g_RootNodeKind = ''monitor'',
     g_RootNodeID = 1, g_StartedAt = 0, g_ResolvedAt = None\<rparr>"

text \<open>Two groups, one of whose roots is gone, and a host incident in the other.\<close>

definition ex_silenced :: "int \<Rightarrow> host_incident" where
  "ex_silenced g = \<lparr>a_id = 1, a_project = 1, a_status = ''open'', a_started = 0, a_resolved = None, a_in_maintenance = False,
     a_notified_open = False, a_notified_close = False, a_acked_at = None, a_acked_by = None, a_severity = ''critical'',
     a_level = 0, a_last_escalated = None, a_group = Some g, hi_host = 1, hi_kind = ''silent'', hi_current = 0, hi_peak = 0,
     hi_detail = '''', hi_suppressed = False, hi_dep_released = None\<rparr>"

definition ex_groups :: db where
  "ex_groups = ex_db\<lparr>t_groups := [ex_group, ex_group\<lparr>g_ID := 2, g_RootIncidentID := 9\<rparr>], t_group_seq := 3,
     t_host_incidents := [ex_silenced 1]\<rparr>"

theorem sweep_leaves_no_orphans_witness:
  "map g_ResolvedAt (t_groups (db (snd (run_state SweepOrphanGroups (calm 5 ex_groups))))) = [None, Some 5] \<and>
   (\<forall>g \<in> set (t_groups (db (snd (run_state SweepOrphanGroups (calm 5 ex_groups))))).
      \<not> orphan_group (db (snd (run_state SweepOrphanGroups (calm 5 ex_groups)))) g)"
proof -
  let ?run = "run_state SweepOrphanGroups (calm 5 ex_groups)"
  have "fst ?run = Inr 1" and rows: "map g_ResolvedAt (t_groups (db (snd ?run))) = [None, Some 5]" by code_simp+
  then have run: "?run = (Inr 1, snd ?run)" by (simp add: prod_eq_iff)
  show ?thesis using sweep_leaves_no_orphans [OF run] rows by auto
qed

theorem one_group_per_root_witness:
  "let ops = [GEnsure 1 ''uptime'' 1 ''monitor'' 1, GResolve ''uptime'' 1, GSweep];
       w' = snd (run_state (for_each ops run_group_op) (calm 5 ex_groups))
   in map g_ResolvedAt (t_groups (db w')) = [Some 5, Some 5] \<and> groups_wf (db w')"
proof -
  let ?ops = "[GEnsure 1 ''uptime'' 1 ''monitor'' 1, GResolve ''uptime'' 1, GSweep]"
  let ?run = "run_state (for_each ?ops run_group_op) (calm 5 ex_groups)"
  have wf: "groups_wf (db (calm 5 ex_groups))" by (simp add: groups_wf_def ex_groups_def ex_group_def)
  have run: "?run = ((), snd ?run)" by (simp add: prod_eq_iff)
  have "map g_ResolvedAt (t_groups (db (snd ?run))) = [Some 5, Some 5]" by code_simp
  then show ?thesis using one_group_per_root [OF wf run] by (simp only: Let_def simp_thms)
qed

theorem members_of_open_groups_stay_witness:
  "let ops = [GSet 1 ''host'' 1 2, GSweep];
       w' = snd (run_state (for_each ops run_group_op) (calm 5 ex_groups))
   in group_open (db w') 1 \<and> (1, 1, Some 1) \<in> set (members_of ''host'' (db w'))"
proof -
  let ?ops = "[GSet 1 ''host'' 1 2, GSweep]"
  let ?run = "run_state (for_each ?ops run_group_op) (calm 5 ex_groups)"
  have run: "?run = ((), snd ?run)" by (simp add: prod_eq_iff)
  have opn: "group_open (db (snd ?run)) 1" by code_simp
  have "1 < t_group_seq (db (calm 5 ex_groups))" "(1, 1, Some 1) \<in> set (members_of ''host'' (db (calm 5 ex_groups)))"
    by code_simp+
  then show ?thesis
    using members_of_open_groups_stay [OF run _ opn] opn by (simp only: Let_def simp_thms)
qed

text \<open>The purge removes no group that an open incident names.\<close>

lemma find_filter_cong: "(\<And>x. q x \<Longrightarrow> p x) \<Longrightarrow> find q (filter p xs) = find q xs"
  by (induction xs) auto

lemma purge_keeps_group:
  assumes "open_member d g"
  shows "find (\<lambda>r. g_ID r = g) (t_groups (snd (purge_groups cutoff d))) = find (\<lambda>r. g_ID r = g) (t_groups d)"
proof -
  have "find (\<lambda>r. g_ID r = g) (filter (\<lambda>r. \<not> purgeable_group d cutoff r) rows) = find (\<lambda>r. g_ID r = g) rows" for rows
    using assms by (intro find_filter_cong) (auto simp: purgeable_group_def)
  then show ?thesis by (simp add: purge_groups_def sql_delete_def)
qed

end
