(* ===== verification/Dep_Store.thy ===== *)
theory Dep_Store
  imports Store
begin

text \<open>
  \<open>internal/depsuppress/store.go\<close>: dependencies between the nodes (hosts and monitors) of a
  project. An edge has one parent and one way to name its children: a host, a monitor, or
  a label that stands for all hosts of the project that carry it. The properties: the
  search for cycles finds exactly the edges that close one, and every write keeps the
  table sound: edges stay inside their project and the explicit ones stay without cycles.
\<close>

subsection \<open>Model: store.go\<close>

text \<open>\<open>node\<close>: the kind, \<open>host\<close> or \<open>monitor\<close>, and the id.\<close>

type_synonym node = "string \<times> int"

definition nodeFromIDs :: "int option \<Rightarrow> int option \<Rightarrow> node option" where
  "nodeFromIDs hostID monitorID =
     (case hostID of
        Some h \<Rightarrow> Some (''host'', h)
      | None \<Rightarrow> (case monitorID of Some m \<Rightarrow> Some (''monitor'', m) | None \<Rightarrow> None))"

definition parentNode :: "dep_edge \<Rightarrow> node option" where
  "parentNode e = nodeFromIDs (de_ParentHostID e) (de_ParentMonitorID e)"

definition childNode :: "dep_edge \<Rightarrow> node option" where
  "childNode e = nodeFromIDs (de_ChildHostID e) (de_ChildMonitorID e)"

definition count_set :: "bool list \<Rightarrow> nat" where
  "count_set bs = length (filter id bs)"

definition validateShape :: "dep_edge \<Rightarrow> error option" where
  "validateShape e =
     (let parents = count_set [de_ParentHostID e \<noteq> None, de_ParentMonitorID e \<noteq> None];
          hasLabel = (de_ChildLabelScope e \<noteq> None \<or> de_ChildLabelValue e \<noteq> None);
          children = count_set [de_ChildHostID e \<noteq> None, de_ChildMonitorID e \<noteq> None, hasLabel]
      in if parents \<noteq> 1 then Some (ErrEdge ''invalid edge'')
         else if hasLabel \<and> (de_ChildLabelScope e = None \<or> de_ChildLabelValue e = None) then Some (ErrEdge ''invalid edge'')
         else if children \<noteq> 1 then Some (ErrEdge ''invalid edge'')
         else if hasLabel \<and> de_ChildLabelScope e \<noteq> Some ''env'' \<and> de_ChildLabelScope e \<noteq> Some ''role''
              then Some (ErrEdge ''invalid edge'')
         else None)"

definition owned :: "db \<Rightarrow> int \<Rightarrow> node \<Rightarrow> bool" where
  "owned d project n =
     (if fst n = ''host'' then list_ex (\<lambda>h. h_id h = snd n \<and> h_project h = project) (t_hosts d)
      else list_ex (\<lambda>m. m_id m = snd n \<and> m_project m = project) (t_monitors d))"

definition checkOwnership :: "db \<Rightarrow> string \<Rightarrow> int \<Rightarrow> int option \<Rightarrow> error option" where
  "checkOwnership d kind project nodeID =
     (case nodeID of
        None \<Rightarrow> None
      | Some i \<Rightarrow> if owned d project (kind, i) then None else Some (ErrEdge ''foreign node''))"

text \<open>The first of a sequence of checks that fails.\<close>

fun first_error :: "error option list \<Rightarrow> error option" where
  "first_error [] = None"
| "first_error (None # es) = first_error es"
| "first_error (Some e # es) = Some e"

lemma first_error_None [simp]: "first_error es = None \<longleftrightarrow> (\<forall>e \<in> set es. e = None)"
  by (induction es rule: first_error.induct) auto

definition checkNodesBelongToProject :: "db \<Rightarrow> dep_edge \<Rightarrow> error option" where
  "checkNodesBelongToProject d e =
     first_error
       [checkOwnership d ''host'' (de_ProjectID e) (de_ParentHostID e),
        checkOwnership d ''monitor'' (de_ProjectID e) (de_ParentMonitorID e),
        checkOwnership d ''host'' (de_ProjectID e) (de_ChildHostID e),
        checkOwnership d ''monitor'' (de_ProjectID e) (de_ChildMonitorID e)]"

definition checkSelfLoop :: "dep_edge \<Rightarrow> error option" where
  "checkSelfLoop e =
     (if de_ParentHostID e \<noteq> None \<and> de_ParentHostID e = de_ChildHostID e then Some (ErrEdge ''self loop'')
      else if de_ParentMonitorID e \<noteq> None \<and> de_ParentMonitorID e = de_ChildMonitorID e then Some (ErrEdge ''self loop'')
      else None)"

definition label_value :: "string \<Rightarrow> host_row \<Rightarrow> string" where
  "label_value scope h = (if scope = ''env'' then h_env h else if scope = ''role'' then h_role h else '''')"

definition checkSelfMatch :: "db \<Rightarrow> dep_edge \<Rightarrow> error option" where
  "checkSelfMatch d e =
     (case (de_ChildLabelScope e, de_ChildLabelValue e, de_ParentHostID e) of
        (Some scope, Some v, Some p) \<Rightarrow>
          (case find (\<lambda>h. h_id h = p) (t_hosts d) of
             None \<Rightarrow> Some ErrDB
           | Some h \<Rightarrow> if label_value scope h = v then Some (ErrEdge ''self match'') else None)
      | _ \<Rightarrow> None)"

definition same_edge :: "dep_edge \<Rightarrow> dep_edge \<Rightarrow> bool" where
  "same_edge e x \<longleftrightarrow>
     de_ProjectID x = de_ProjectID e \<and> de_ParentHostID x = de_ParentHostID e \<and>
     de_ParentMonitorID x = de_ParentMonitorID e \<and> de_ChildHostID x = de_ChildHostID e \<and>
     de_ChildMonitorID x = de_ChildMonitorID e \<and> de_ChildLabelScope x = de_ChildLabelScope e \<and>
     de_ChildLabelValue x = de_ChildLabelValue e"

definition checkDuplicate :: "db \<Rightarrow> dep_edge \<Rightarrow> int \<Rightarrow> error option" where
  "checkDuplicate d e excludeID =
     (if list_ex (\<lambda>x. de_ID x \<noteq> excludeID \<and> same_edge e x) (t_deps d) then Some (ErrEdge ''duplicate'') else None)"

text \<open>
  The search of \<open>checkCycle\<close>: the adjacency map as the list of its pairs, the queue, and the
  visited nodes. A node is marked when it is put into the queue.
\<close>

definition explicit_pair :: "dep_edge \<Rightarrow> (node \<times> node) option" where
  "explicit_pair e =
     (case (parentNode e, childNode e) of (Some p, Some c) \<Rightarrow> Some (p, c) | _ \<Rightarrow> None)"

definition succs :: "(node \<times> node) list \<Rightarrow> node \<Rightarrow> node list" where
  "succs adj cur = map snd (filter (\<lambda>(p, c). p = cur) adj)"

fun push_new :: "node list \<Rightarrow> node list \<Rightarrow> node list \<Rightarrow> node list \<times> node list" where
  "push_new visited queue [] = (visited, queue)"
| "push_new visited queue (n # ns) =
     (if n \<in> set visited then push_new visited queue ns else push_new (n # visited) (queue @ [n]) ns)"

lemma push_new_spec:
  "\<exists>new. push_new visited queue ns = (rev new @ visited, queue @ new) \<and> set new = set ns - set visited"
proof (induction ns arbitrary: visited queue)
  case (Cons n ns)
  show ?case
  proof (cases "n \<in> set visited")
    case True
    then show ?thesis using Cons.IH [of visited queue] by auto
  next
    case False
    obtain new where new: "push_new (n # visited) (queue @ [n]) ns = (rev new @ n # visited, (queue @ [n]) @ new)"
      "set new = set ns - set (n # visited)"
      using Cons.IH [of "n # visited" "queue @ [n]"] by blast
    then show ?thesis using False by (intro exI [of _ "n # new"]) auto
  qed
qed simp

function closes_cycle :: "(node \<times> node) list \<Rightarrow> node \<Rightarrow> node list \<Rightarrow> node list \<Rightarrow> bool" where
  "closes_cycle adj parent visited [] = False"
| "closes_cycle adj parent visited (cur # queue) =
     (if cur = parent then True
      else closes_cycle adj parent (fst (push_new visited queue (succs adj cur))) (snd (push_new visited queue (succs adj cur))))"
  by pat_completeness auto
termination
proof (relation "inv_image (less_than <*lex*> less_than)
    (\<lambda>(adj, parent, visited, queue). (card (snd ` set adj - set visited), length queue))")
  fix adj parent cur and visited queue :: "node list"
  obtain new where new: "push_new visited queue (succs adj cur) = (rev new @ visited, queue @ new)"
    "set new = set (succs adj cur) - set visited"
    using push_new_spec by blast
  have sub: "set new \<subseteq> snd ` set adj - set visited" using new(2) by (auto simp: succs_def image_iff)
  have "card (snd ` set adj - set (rev new @ visited)) < card (snd ` set adj - set visited)" if "new \<noteq> []"
  proof (rule psubset_card_mono)
    obtain x where "x \<in> set new" using \<open>new \<noteq> []\<close> by (cases new) auto
    then show "snd ` set adj - set (rev new @ visited) \<subset> snd ` set adj - set visited" using sub by fastforce
  qed simp
  then show "((adj, parent, fst (push_new visited queue (succs adj cur)), snd (push_new visited queue (succs adj cur))),
      (adj, parent, visited, cur # queue)) \<in>
      inv_image (less_than <*lex*> less_than) (\<lambda>(adj, parent, visited, queue). (card (snd ` set adj - set visited), length queue))"
    by (cases "new = []") (auto simp: new(1))
qed auto

definition checkCycle :: "db \<Rightarrow> dep_edge \<Rightarrow> int \<Rightarrow> error option" where
  "checkCycle d e excludeID =
     (if de_ChildHostID e = None \<and> de_ChildMonitorID e = None then None
      else case explicit_pair e of
        None \<Rightarrow> None
      | Some (parent, child) \<Rightarrow>
          (let adj = List.map_filter explicit_pair
                 (filter (\<lambda>x. de_ProjectID x = de_ProjectID e \<and> de_ID x \<noteq> excludeID \<and>
                    (de_ChildHostID x \<noteq> None \<or> de_ChildMonitorID x \<noteq> None)) (t_deps d)) @ [(parent, child)]
           in if closes_cycle adj parent [child] [child] then Some (ErrEdge ''cycle'') else None))"

text \<open>The checks that \<open>Create\<close> and \<open>Update\<close> share, in their order, and the two transactions.\<close>

definition edge_checks :: "db \<Rightarrow> dep_edge \<Rightarrow> int \<Rightarrow> error option" where
  "edge_checks d e excludeID =
     first_error [checkNodesBelongToProject d e, checkSelfLoop e, checkSelfMatch d e, checkDuplicate d e excludeID,
       checkCycle d e excludeID]"

definition create_edge :: "dep_edge \<Rightarrow> db \<Rightarrow> int result \<times> db" where
  "create_edge e d =
     (case first_error [validateShape e, edge_checks d e 0] of
        Some err \<Rightarrow> (Inl err, d)
      | None \<Rightarrow> (Inr (t_dep_seq d), d\<lparr>t_deps := t_deps d @ [e\<lparr>de_ID := t_dep_seq d\<rparr>], t_dep_seq := t_dep_seq d + 1\<rparr>))"

definition CreateEdge :: "dep_edge \<Rightarrow> int result prog" where
  "CreateEdge e =
     do {
       r \<leftarrow> sql (\<lambda>_. create_edge e);
       State_Monad.return (case r of Inl err \<Rightarrow> Inl err | Inr x \<Rightarrow> x)
     }"

definition update_edge :: "dep_edge \<Rightarrow> db \<Rightarrow> error option \<times> db" where
  "update_edge e d =
     (let hit = (\<lambda>x. de_ID x = de_ID e \<and> de_ProjectID x = de_ProjectID e) in
      case first_error [validateShape e, if list_ex hit (t_deps d) then None else Some ErrNotFound, edge_checks d e (de_ID e)] of
        Some err \<Rightarrow> (Some err, d)
      | None \<Rightarrow> (None, d\<lparr>t_deps := sql_update hit (\<lambda>_. e) (t_deps d)\<rparr>))"

definition UpdateEdge :: "dep_edge \<Rightarrow> error option prog" where
  "UpdateEdge e =
     do {
       r \<leftarrow> sql (\<lambda>_. update_edge e);
       State_Monad.return (case r of Inl err \<Rightarrow> Some err | Inr x \<Rightarrow> x)
     }"

definition DeleteEdge :: "int \<Rightarrow> int \<Rightarrow> error option prog" where
  "DeleteEdge projectID eid =
     do {
       r \<leftarrow> sql (\<lambda>_ d. ((), d\<lparr>t_deps := sql_delete (\<lambda>x. de_ProjectID x = projectID \<and> de_ID x = eid) (t_deps d)\<rparr>));
       State_Monad.return (case r of Inl err \<Rightarrow> Some err | Inr _ \<Rightarrow> None)
     }"

definition ListEdges :: "int \<Rightarrow> dep_edge list result prog" where
  "ListEdges projectID = sql_read (\<lambda>_ d. sort_key de_ID (filter (\<lambda>x. de_ProjectID x = projectID) (t_deps d)))"

subsection \<open>The search finds exactly the cycles\<close>

lemma set_succs: "set (succs adj cur) = set adj `` {cur}"
  by (auto simp: succs_def image_iff)

lemma closes_cycle_sound:
  "closes_cycle adj parent visited queue \<Longrightarrow> \<exists>x \<in> set queue. (x, parent) \<in> (set adj)\<^sup>*"
proof (induction adj parent visited queue rule: closes_cycle.induct)
  case (2 adj parent visited cur queue)
  obtain new where new: "push_new visited queue (succs adj cur) = (rev new @ visited, queue @ new)"
    "set new = set (succs adj cur) - set visited"
    using push_new_spec by blast
  show ?case
  proof (cases "cur = parent")
    case False
    then obtain x where "x \<in> set (queue @ new)" "(x, parent) \<in> (set adj)\<^sup>*"
      using 2 by (auto simp: new(1))
    moreover have "(cur, x) \<in> set adj" if "x \<in> set new" using that new(2) by (auto simp: set_succs)
    ultimately show ?thesis by (auto intro: converse_rtrancl_into_rtrancl)
  qed auto
qed simp

lemma closes_cycle_complete:
  assumes "\<not> closes_cycle adj parent visited queue"
    and "set queue \<subseteq> set visited"
    and "\<And>x. x \<in> set visited \<Longrightarrow> x \<notin> set queue \<Longrightarrow> x \<noteq> parent \<and> set adj `` {x} \<subseteq> set visited"
  shows "\<exists>V. set visited \<subseteq> V \<and> parent \<notin> V \<and> set adj `` V \<subseteq> V"
  using assms
proof (induction adj parent visited queue rule: closes_cycle.induct)
  case (1 adj parent visited)
  have "parent \<notin> set visited" using "1.prems"(3) [of parent] by auto
  moreover have "y \<in> set visited" if "x \<in> set visited" "(x, y) \<in> set adj" for x y
    using "1.prems"(3) [of x] that by auto
  ultimately show ?case by blast
next
  case (2 adj parent visited cur queue)
  obtain new where new: "push_new visited queue (succs adj cur) = (rev new @ visited, queue @ new)"
    "set new = set (succs adj cur) - set visited"
    using push_new_spec by blast
  have cur: "cur \<noteq> parent" and no: "\<not> closes_cycle adj parent (rev new @ visited) (queue @ new)"
    using "2.prems"(1) by (auto simp: new(1) split: if_splits)
  have closed: "x \<noteq> parent \<and> set adj `` {x} \<subseteq> set (rev new @ visited)"
    if "x \<in> set (rev new @ visited)" "x \<notin> set (queue @ new)" for x
  proof (cases "x = cur")
    case True
    then show ?thesis using cur new(2) by (auto simp: set_succs)
  next
    case False
    then show ?thesis using that "2.prems"(3) [of x] by auto
  qed
  have queue: "set (queue @ new) \<subseteq> set (rev new @ visited)" using "2.prems"(2) by auto
  have "\<exists>V. set (rev new @ visited) \<subseteq> V \<and> parent \<notin> V \<and> set adj `` V \<subseteq> V"
    by (rule "2.IH" [unfolded new(1) fst_conv snd_conv, OF cur no queue]) (rule closed)
  then show ?case by (auto simp only: set_append)
qed

lemma closes_cycle_iff: "closes_cycle adj parent [child] [child] \<longleftrightarrow> (child, parent) \<in> (set adj)\<^sup>*"
proof
  assume "closes_cycle adj parent [child] [child]"
  then show "(child, parent) \<in> (set adj)\<^sup>*" using closes_cycle_sound by fastforce
next
  assume r: "(child, parent) \<in> (set adj)\<^sup>*"
  show "closes_cycle adj parent [child] [child]"
  proof (rule ccontr)
    assume "\<not> closes_cycle adj parent [child] [child]"
    then obtain V where "child \<in> V" "parent \<notin> V" "set adj `` V \<subseteq> V"
      using closes_cycle_complete [of adj parent "[child]" "[child]"] by auto
    then show False using r Image_closed_trancl [of "set adj" V] by (metis ImageI)
  qed
qed

subsection \<open>Every write keeps the dependencies sound\<close>

text \<open>The explicit edges of a project, without the one with the excluded id.\<close>

definition rest_rel :: "int \<Rightarrow> int \<Rightarrow> db \<Rightarrow> (node \<times> node) set" where
  "rest_rel project excludeID d =
     {pc. \<exists>x \<in> set (t_deps d). de_ProjectID x = project \<and> de_ID x \<noteq> excludeID \<and> explicit_pair x = Some pc}"

definition explicit_rel :: "int \<Rightarrow> db \<Rightarrow> (node \<times> node) set" where
  "explicit_rel project d = {pc. \<exists>x \<in> set (t_deps d). de_ProjectID x = project \<and> explicit_pair x = Some pc}"

lemma explicit_has_child: "explicit_pair x = Some pc \<Longrightarrow> de_ChildHostID x \<noteq> None \<or> de_ChildMonitorID x \<noteq> None"
  by (auto simp: explicit_pair_def childNode_def nodeFromIDs_def split: option.splits)

lemma set_map_filter: "set (List.map_filter f xs) = {y. \<exists>x \<in> set xs. f x = Some y}"
  by (induction xs) (auto simp: List.map_filter_simps split: option.splits)

text \<open>
  C13: the check for cycles is exact: an edge is refused as a cycle if and only if it names a
  child node (not a label) from which the other explicit edges of its project already lead
  back to its parent. The search ends on every table.
\<close>

theorem checkCycle_exact:
  "checkCycle d e excludeID = Some (ErrEdge ''cycle'') \<longleftrightarrow>
     (\<exists>parent child. explicit_pair e = Some (parent, child) \<and> (child, parent) \<in> (rest_rel (de_ProjectID e) excludeID d)\<^sup>*)"
proof -
  let ?adj = "List.map_filter explicit_pair
                 (filter (\<lambda>x. de_ProjectID x = de_ProjectID e \<and> de_ID x \<noteq> excludeID \<and>
                    (de_ChildHostID x \<noteq> None \<or> de_ChildMonitorID x \<noteq> None)) (t_deps d))"
  have adj: "set ?adj = rest_rel (de_ProjectID e) excludeID d"
    using explicit_has_child unfolding set_map_filter rest_rel_def by fastforce
  have "closes_cycle (?adj @ [(p, c)]) p [c] [c] \<longleftrightarrow> (c, p) \<in> (rest_rel (de_ProjectID e) excludeID d)\<^sup>*" for p c
    unfolding closes_cycle_iff set_append adj by (simp add: rtrancl_insert)
  then show ?thesis
    using explicit_has_child [of e] by (auto simp: checkCycle_def Let_def split: option.splits)
qed

lemma checkCycle_cases: "checkCycle d e excludeID = None \<or> checkCycle d e excludeID = Some (ErrEdge ''cycle'')"
  by (simp add: checkCycle_def Let_def split: option.splits prod.splits)

definition edge_wf :: "db \<Rightarrow> dep_edge \<Rightarrow> bool" where
  "edge_wf d e \<longleftrightarrow> validateShape e = None \<and> checkNodesBelongToProject d e = None \<and> checkSelfLoop e = None \<and>
     0 < de_ID e \<and> de_ID e < t_dep_seq d"

definition deps_wf :: "db \<Rightarrow> bool" where
  "deps_wf d \<longleftrightarrow> 0 < t_dep_seq d \<and> distinct (map de_ID (t_deps d)) \<and> list_all (edge_wf d) (t_deps d) \<and>
     (\<forall>project. acyclic (explicit_rel project d))"

lemma checkNodes_same: "t_hosts d' = t_hosts d \<Longrightarrow> t_monitors d' = t_monitors d \<Longrightarrow>
    checkNodesBelongToProject d' e = checkNodesBelongToProject d e"
proof -
  assume "t_hosts d' = t_hosts d" "t_monitors d' = t_monitors d"
  then have same: "owned d' = owned d" by (simp add: owned_def fun_eq_iff)
  show ?thesis unfolding checkNodesBelongToProject_def checkOwnership_def same ..
qed

lemma checks_ignore_id [simp]:
  "validateShape (e\<lparr>de_ID := i\<rparr>) = validateShape e" "checkNodesBelongToProject d (e\<lparr>de_ID := i\<rparr>) = checkNodesBelongToProject d e"
  "checkSelfLoop (e\<lparr>de_ID := i\<rparr>) = checkSelfLoop e" "explicit_pair (e\<lparr>de_ID := i\<rparr>) = explicit_pair e"
  by (cases e; simp only: validateShape_def checkNodesBelongToProject_def checkSelfLoop_def explicit_pair_def parentNode_def
      childNode_def dep_edge.select_convs dep_edge.update_convs)+

lemma acyclic_rest:
  assumes "acyclic (explicit_rel project d)" and "checkCycle d e excludeID = None" and "project = de_ProjectID e"
  shows "acyclic (rest_rel project excludeID d \<union> {pc. explicit_pair e = Some pc})"
proof -
  have sub: "acyclic (rest_rel project excludeID d)"
    by (rule acyclic_subset [OF assms(1)]) (auto simp: rest_rel_def explicit_rel_def)
  show ?thesis
  proof (cases "explicit_pair e")
    case (Some pc)
    then have "(snd pc, fst pc) \<notin> (rest_rel project excludeID d)\<^sup>*"
      using checkCycle_exact [of d e excludeID] assms(2,3) by (cases pc) auto
    then show ?thesis using sub Some by (cases pc) (simp add: acyclic_insert)
  qed (simp add: sub)
qed

lemma deps_wf_create: "deps_wf d \<Longrightarrow> deps_wf (snd (create_edge e d))"
proof (cases "first_error [validateShape e, edge_checks d e 0]")
  case None
  assume wf: "deps_wf d"
  let ?d = "d\<lparr>t_deps := t_deps d @ [e\<lparr>de_ID := t_dep_seq d\<rparr>], t_dep_seq := t_dep_seq d + 1\<rparr>"
  have ok: "validateShape e = None" "checkNodesBelongToProject d e = None" "checkSelfLoop e = None" "checkCycle d e 0 = None"
    using None by (simp_all add: edge_checks_def del: first_error.simps)
  have old: "\<And>x. x \<in> set (t_deps d) \<Longrightarrow> edge_wf d x" using wf by (simp add: deps_wf_def list_all_iff)
  have "rest_rel project 0 d = explicit_rel project d" for project
    using old unfolding rest_rel_def explicit_rel_def edge_wf_def by fastforce
  then have "acyclic (explicit_rel (de_ProjectID e) ?d)"
    using acyclic_rest [OF _ ok(4) refl] wf
    by (auto simp: deps_wf_def explicit_rel_def Un_def intro: acyclic_subset)
  moreover have "explicit_rel project ?d = explicit_rel project d" if "project \<noteq> de_ProjectID e" for project
    using that by (auto simp: explicit_rel_def)
  ultimately have "acyclic (explicit_rel project ?d)" for project
    using wf by (cases "project = de_ProjectID e") (simp_all add: deps_wf_def)
  moreover have "edge_wf ?d x" if "x \<in> set (t_deps ?d)" for x
  proof (cases "x \<in> set (t_deps d)")
    case True
    then show ?thesis using old [of x] checkNodes_same [of ?d d] by (simp add: edge_wf_def)
  next
    case False
    then show ?thesis using that ok wf checkNodes_same [of ?d d] by (auto simp: edge_wf_def deps_wf_def)
  qed
  moreover have "t_dep_seq d \<notin> de_ID ` set (t_deps d)" using old unfolding edge_wf_def by fastforce
  ultimately have "deps_wf ?d" using wf by (simp add: deps_wf_def list_all_iff)
  then show ?thesis unfolding create_edge_def using None by (simp only: option.case snd_conv)
qed (simp add: create_edge_def)

lemma deps_wf_replace:
  assumes wf: "deps_wf d"
    and ok: "validateShape e = None" "list_ex (\<lambda>x. de_ID x = de_ID e \<and> de_ProjectID x = de_ProjectID e) (t_deps d)"
      "checkNodesBelongToProject d e = None" "checkSelfLoop e = None" "checkCycle d e (de_ID e) = None"
  shows "deps_wf (d\<lparr>t_deps := sql_update (\<lambda>x. de_ID x = de_ID e \<and> de_ProjectID x = de_ProjectID e) (\<lambda>_. e) (t_deps d)\<rparr>)"
proof -
  let ?hit = "\<lambda>x. de_ID x = de_ID e \<and> de_ProjectID x = de_ProjectID e"
  let ?d = "d\<lparr>t_deps := sql_update ?hit (\<lambda>_. e) (t_deps d)\<rparr>"
  have old: "\<And>x. x \<in> set (t_deps d) \<Longrightarrow> edge_wf d x" using wf by (simp add: deps_wf_def list_all_iff)
  have rows: "x = e \<or> x \<in> set (t_deps d) \<and> \<not> ?hit x" if "x \<in> set (t_deps ?d)" for x
    using that by (auto simp: set_sql_update split: if_splits)
  have "explicit_rel (de_ProjectID e) ?d \<subseteq> rest_rel (de_ProjectID e) (de_ID e) d \<union> {pc. explicit_pair e = Some pc}"
    using rows unfolding explicit_rel_def rest_rel_def by blast
  then have "acyclic (explicit_rel (de_ProjectID e) ?d)"
    using acyclic_rest [OF _ ok(5) refl] wf by (auto simp: deps_wf_def intro: acyclic_subset)
  moreover have "explicit_rel project ?d \<subseteq> explicit_rel project d" if "project \<noteq> de_ProjectID e" for project
    using rows that unfolding explicit_rel_def by blast
  ultimately have "acyclic (explicit_rel project ?d)" for project
    using wf by (cases "project = de_ProjectID e") (auto simp: deps_wf_def intro: acyclic_subset)
  moreover have "edge_wf ?d x" if "x \<in> set (t_deps ?d)" for x
  proof -
    obtain y where "y \<in> set (t_deps d)" "de_ID y = de_ID e" using ok(2) by (auto simp: list_ex_iff)
    then have "0 < de_ID e \<and> de_ID e < t_dep_seq d" using old [of y] by (simp add: edge_wf_def)
    then show ?thesis
      using rows [OF that] old [of x] ok checkNodes_same [of ?d d] by (auto simp: edge_wf_def)
  qed
  moreover have "map de_ID (t_deps ?d) = map de_ID (t_deps d)" by (simp add: sql_update_def)
  ultimately show ?thesis using wf by (simp add: deps_wf_def list_all_iff)
qed

lemma deps_wf_update: "deps_wf d \<Longrightarrow> deps_wf (snd (update_edge e d))"
proof -
  assume wf: "deps_wf d"
  let ?hit = "\<lambda>x. de_ID x = de_ID e \<and> de_ProjectID x = de_ProjectID e"
  let ?d = "d\<lparr>t_deps := sql_update ?hit (\<lambda>_. e) (t_deps d)\<rparr>"
  let ?err = "first_error [validateShape e, if list_ex ?hit (t_deps d) then None else Some ErrNotFound, edge_checks d e (de_ID e)]"
  show ?thesis
  proof (cases ?err)
    case None
    then have "snd (update_edge e d) = ?d"
      unfolding update_edge_def Let_def by (simp only: option.case snd_conv)
    moreover have "deps_wf ?d" using None wf by (intro deps_wf_replace) (auto simp: edge_checks_def simp del: first_error.simps split: if_splits)
    ultimately show ?thesis by simp
  next
    case (Some err)
    then have "update_edge e d = (Some err, d)" unfolding update_edge_def Let_def by (simp only: option.case)
    then show ?thesis using wf by simp
  qed
qed

lemma deps_wf_delete: "deps_wf d \<Longrightarrow> deps_wf (d\<lparr>t_deps := sql_delete p (t_deps d)\<rparr>)"
proof -
  assume wf: "deps_wf d"
  let ?d = "d\<lparr>t_deps := sql_delete p (t_deps d)\<rparr>"
  have "explicit_rel project ?d \<subseteq> explicit_rel project d" for project
    by (auto simp: explicit_rel_def sql_delete_def)
  then have "acyclic (explicit_rel project ?d)" for project using wf by (auto simp: deps_wf_def intro: acyclic_subset)
  moreover have "edge_wf ?d x" if "x \<in> set (t_deps ?d)" for x
    using that wf checkNodes_same [of ?d d] by (auto simp: deps_wf_def list_all_iff edge_wf_def sql_delete_def)
  ultimately show ?thesis using wf by (simp add: deps_wf_def list_all_iff sql_delete_def distinct_map_filter)
qed

text \<open>The writes of the store, as values.\<close>

datatype dep_op = DCreate dep_edge | DUpdate dep_edge | DDelete int int

fun run_dep_op :: "dep_op \<Rightarrow> unit prog" where
  "run_dep_op (DCreate e) = ignore (CreateEdge e)"
| "run_dep_op (DUpdate e) = ignore (UpdateEdge e)"
| "run_dep_op (DDelete p i) = ignore (DeleteEdge p i)"

lemma guar_dep_op: "guar (on_db (inv_rel deps_wf)) (run_dep_op oper)"
  by (cases oper)
     (simp_all only: run_dep_op.simps CreateEdge_def UpdateEdge_def DeleteEdge_def,
      (intro guar; simp add: inv_rel_def deps_wf_create deps_wf_update deps_wf_delete)+)

text \<open>
  C14: whatever edges are created, changed and deleted, in transactions that do not overlap,
  and whatever faults these meet, the table of dependencies stays sound: ids are unique,
  every edge has one parent and one kind of child, parent and child belong to its project,
  and the explicit edges of a project never form a cycle.
\<close>

theorem dependency_graph_stays_acyclic:
  assumes "deps_wf (db w)" and "run_state (for_each ops run_dep_op) w = ((), w')"
  shows "deps_wf (db w') \<and> acyclic (explicit_rel project (db w'))"
proof -
  have "guar (on_db (inv_rel deps_wf)) (for_each ops run_dep_op)" by (intro guar guar_dep_op)
  then have "deps_wf (db w')" using guarD [of _ _ w] assms by (fastforce simp: on_db_def inv_rel_def)
  then show ?thesis by (simp add: deps_wf_def)
qed

text \<open>Two hosts of one project, and edges between them.\<close>

definition ex_edge :: "int \<Rightarrow> int \<Rightarrow> dep_edge" where
  "ex_edge parent child = \<lparr>de_ID = 0, de_ProjectID = 1, de_ParentHostID = Some parent, de_ParentMonitorID = None,
     de_ChildHostID = Some child, de_ChildMonitorID = None, de_ChildLabelScope = None, de_ChildLabelValue = None\<rparr>"

definition ex_host :: "int \<Rightarrow> host_row" where
  "ex_host i = \<lparr>h_id = i, h_project = 1, h_name = itoa i, h_first_seen = 0, h_last_seen = 0, h_agent = '''', h_env = ''prod'',
     h_role = ''web''\<rparr>"

definition ex_dep_hosts :: db where
  "ex_dep_hosts = ex_db\<lparr>t_hosts := map ex_host [1, 2, 3], t_host_seq := 4\<rparr>"

theorem dependency_graph_stays_acyclic_witness:
  "let ops = [DCreate (ex_edge 1 2), DCreate (ex_edge 2 3), DCreate (ex_edge 3 1)];
       w' = snd (run_state (for_each ops run_dep_op) (calm 0 ex_dep_hosts))
   in map explicit_pair (t_deps (db w')) = [Some ((''host'', 1), ''host'', 2), Some ((''host'', 2), ''host'', 3)] \<and>
      acyclic (explicit_rel 1 (db w'))"
proof -
  let ?ops = "[DCreate (ex_edge 1 2), DCreate (ex_edge 2 3), DCreate (ex_edge 3 1)]"
  let ?run = "run_state (for_each ?ops run_dep_op) (calm 0 ex_dep_hosts)"
  have wf: "deps_wf (db (calm 0 ex_dep_hosts))"
    by (simp add: deps_wf_def ex_dep_hosts_def ex_defs explicit_rel_def acyclic_def)
  have run: "?run = ((), snd ?run)" by (simp add: prod_eq_iff)
  have "map explicit_pair (t_deps (db (snd ?run))) = [Some ((''host'', 1), ''host'', 2), Some ((''host'', 2), ''host'', 3)]"
    by code_simp
  then show ?thesis using dependency_graph_stays_acyclic [OF wf run, of 1] by (simp only: Let_def simp_thms)
qed

end
