(* ===== verification/Dep_Suppressor.thy ===== *)
theory Dep_Suppressor
  imports Dep_Store "HOL-Library.List_Lexorder" "HOL-Library.Char_ord" "HOL-Library.Product_Lexorder"
begin

text \<open>
  \<open>internal/depsuppress/suppressor.go\<close> and \<open>preview.go\<close>: whether the incident of a node is a
  consequence of an incident of one of its ancestors. The resolver reads the edges, the
  nodes that are down and the labels of hosts into a snapshot that it keeps for a short
  time, and walks up the parents that are down. The properties: the walk ends, it reports a
  parent down exactly when some ancestor that is down has no parent that is down (so a
  cycle of nodes that are down silences nobody), the root it names is the least of these
  ancestors, suppression never crosses projects, and the preview shows what is suppressed.
\<close>

subsection \<open>Model: suppressor.go\<close>

record hostLabels =
  hl_projectID :: int
  hl_env :: string
  hl_role :: string

record snapshot =
  sn_edges :: "dep_edge list"
  sn_downHosts :: "int list"
  sn_downMonitors :: "int list"
  sn_hostLabels :: "(int \<times> hostLabels) list"
  sn_loadedAt :: time

definition isSelfMatchParent :: "dep_edge \<Rightarrow> node \<Rightarrow> bool" where
  "isSelfMatchParent e n =
     (if fst n = ''host'' then de_ParentHostID e = Some (snd n)
      else if fst n = ''monitor'' then de_ParentMonitorID e = Some (snd n)
      else False)"

definition label_matches :: "string \<Rightarrow> string \<Rightarrow> hostLabels \<Rightarrow> bool" where
  "label_matches scope v lbl =
     (if scope = ''env'' then hl_env lbl = v else if scope = ''role'' then hl_role lbl = v else False)"

definition edgeMatchesChild :: "dep_edge \<Rightarrow> snapshot \<Rightarrow> node \<Rightarrow> bool" where
  "edgeMatchesChild e snap n =
     (if fst n = ''host'' then
        (case de_ChildHostID e of
           Some c \<Rightarrow> c = snd n
         | None \<Rightarrow>
             (case (de_ChildLabelScope e, de_ChildLabelValue e) of
                (Some scope, Some v) \<Rightarrow>
                  (case map_of (sn_hostLabels snap) (snd n) of
                     None \<Rightarrow> False
                   | Some lbl \<Rightarrow> hl_projectID lbl = de_ProjectID e \<and> label_matches scope v lbl)
              | _ \<Rightarrow> False))
      else if fst n = ''monitor'' then de_ChildMonitorID e = Some (snd n)
      else False)"

definition matchingParents :: "snapshot \<Rightarrow> node \<Rightarrow> dep_edge list" where
  "matchingParents snap n = filter (\<lambda>e. \<not> isSelfMatchParent e n \<and> edgeMatchesChild e snap n) (sn_edges snap)"

definition parentIsDown :: "dep_edge \<Rightarrow> snapshot \<Rightarrow> bool" where
  "parentIsDown e snap =
     (case de_ParentHostID e of
        Some h \<Rightarrow> h \<in> set (sn_downHosts snap)
      | None \<Rightarrow> (case de_ParentMonitorID e of Some m \<Rightarrow> m \<in> set (sn_downMonitors snap) | None \<Rightarrow> False))"

definition nodeIsDown :: "snapshot \<Rightarrow> node \<Rightarrow> bool" where
  "nodeIsDown snap n =
     (if fst n = ''host'' then snd n \<in> set (sn_downHosts snap)
      else if fst n = ''monitor'' then snd n \<in> set (sn_downMonitors snap)
      else False)"

definition downParents :: "snapshot \<Rightarrow> node \<Rightarrow> node list" where
  "downParents snap start =
     List.map_filter (\<lambda>e. if parentIsDown e snap then parentNode e else None) (matchingParents snap start)"

text \<open>
  The two walks. The stack has its top at the head; the source appends to a slice and takes
  from its end.
\<close>

definition all_parents :: "snapshot \<Rightarrow> node set" where
  "all_parents snap = {p. \<exists>e \<in> set (sn_edges snap). parentNode e = Some p}"

lemma finite_all_parents: "finite (all_parents snap)"
proof -
  have "all_parents snap \<subseteq> set (List.map_filter parentNode (sn_edges snap))"
    by (auto simp: all_parents_def set_map_filter)
  then show ?thesis by (rule finite_subset) simp
qed

lemma downParents_all: "set (downParents snap n) \<subseteq> all_parents snap"
  by (auto simp: downParents_def set_map_filter matchingParents_def all_parents_def split: if_splits)

text \<open>Walking on from an unvisited node leaves fewer nodes to visit.\<close>

lemma visit_decreases:
  assumes "p \<notin> set visited"
  shows "card ((all_parents snap \<union> set (rev (downParents snap p) @ stack)) - set (p # visited)) <
         card ((all_parents snap \<union> set (p # stack)) - set visited)"
proof (rule psubset_card_mono)
  show "finite ((all_parents snap \<union> set (p # stack)) - set visited)" by (simp add: finite_all_parents)
  show "(all_parents snap \<union> set (rev (downParents snap p) @ stack)) - set (p # visited) \<subset>
        (all_parents snap \<union> set (p # stack)) - set visited"
    using assms downParents_all [of snap p] by auto
qed

lemma skip_le: "card ((all_parents snap \<union> set stack) - set visited) \<le> card ((all_parents snap \<union> set (p # stack)) - set visited)"
  by (rule card_mono) (auto simp: finite_all_parents)

function parent_down_loop :: "snapshot \<Rightarrow> node list \<Rightarrow> node list \<Rightarrow> bool" where
  "parent_down_loop snap visited [] = False"
| "parent_down_loop snap visited (p # stack) =
     (if p \<in> set visited then parent_down_loop snap visited stack
      else if downParents snap p = [] then True
      else parent_down_loop snap (p # visited) (rev (downParents snap p) @ stack))"
  by pat_completeness auto
termination
  by (relation "inv_image (less_than <*lex*> less_than)
        (\<lambda>(snap, visited, stack). (card ((all_parents snap \<union> set stack) - set visited), length stack))")
     (use visit_decreases skip_le le_neq_implies_less in \<open>auto simp: le_less\<close>)

definition parentDownFromSnapshot :: "snapshot \<Rightarrow> node \<Rightarrow> bool" where
  "parentDownFromSnapshot snap start = parent_down_loop snap [start] (rev (downParents snap start))"

function down_roots_loop :: "snapshot \<Rightarrow> node list \<Rightarrow> node list \<Rightarrow> node list \<Rightarrow> node list" where
  "down_roots_loop snap visited roots [] = roots"
| "down_roots_loop snap visited roots (p # stack) =
     (if p \<in> set visited then down_roots_loop snap visited roots stack
      else if downParents snap p = [] then down_roots_loop snap (p # visited) (roots @ [p]) stack
      else down_roots_loop snap (p # visited) roots (rev (downParents snap p) @ stack))"
  by pat_completeness auto

termination
proof (relation "inv_image (less_than <*lex*> less_than)
    (\<lambda>(snap, visited, roots, stack). (card ((all_parents snap \<union> set stack) - set visited), length stack))")
  fix snap p and visited roots stack :: "node list"
  assume "p \<notin> set visited"
  note less = visit_decreases [OF this]
  show "((snap, p # visited, roots, rev (downParents snap p) @ stack), snap, visited, roots, p # stack) \<in>
      inv_image (less_than <*lex*> less_than)
        (\<lambda>(snap, visited, roots, stack). (card ((all_parents snap \<union> set stack) - set visited), length stack))"
    using less [of snap stack] by simp
  assume "downParents snap p = []"
  then show "((snap, p # visited, roots @ [p], stack), snap, visited, roots, p # stack) \<in>
      inv_image (less_than <*lex*> less_than)
        (\<lambda>(snap, visited, roots, stack). (card ((all_parents snap \<union> set stack) - set visited), length stack))"
    using less [of snap stack] by simp
qed (use skip_le le_neq_implies_less in \<open>auto simp: le_less\<close>)

text \<open>The nodes in their order, by kind and then by id; the sort of the source is by that order.\<close>

definition downRootFromSnapshot :: "snapshot \<Rightarrow> node \<Rightarrow> node option" where
  "downRootFromSnapshot snap start =
     (case sort (down_roots_loop snap [start] [] (rev (downParents snap start))) of
        [] \<Rightarrow> if nodeIsDown snap start then Some start else None
      | rt # _ \<Rightarrow> Some rt)"

definition edge_children :: "snapshot \<Rightarrow> dep_edge \<Rightarrow> node list" where
  "edge_children snap e =
     (case (de_ChildHostID e, de_ChildMonitorID e, de_ChildLabelScope e, de_ChildLabelValue e) of
        (Some h, _, _, _) \<Rightarrow> [(''host'', h)]
      | (None, Some m, _, _) \<Rightarrow> [(''monitor'', m)]
      | (None, None, Some scope, Some v) \<Rightarrow>
          map (\<lambda>(hid, _). (''host'', hid))
            (filter (\<lambda>(_, lbl). hl_projectID lbl = de_ProjectID e \<and>
               (if scope = ''env'' then hl_env lbl else if scope = ''role'' then hl_role lbl else '''') = v) (sn_hostLabels snap))
      | _ \<Rightarrow> [])"

definition declaredChildrenFromSnapshot :: "snapshot \<Rightarrow> node \<Rightarrow> int" where
  "declaredChildrenFromSnapshot snap self =
     int (length (remdups (filter (\<lambda>c. c \<noteq> self)
       (concat (map (edge_children snap) (filter (\<lambda>e. parentNode e = Some self) (sn_edges snap)))))))"

text \<open>
  Loading and caching. A suppressor is its time to live and the snapshot it holds, which
  every call takes and gives back; \<open>Invalidate\<close> forgets it.
\<close>

definition cacheTTL :: duration where "cacheTTL = 5 * second"

definition loadSnapshot :: "snapshot result prog" where
  "loadSnapshot =
     do {
       r1 \<leftarrow> sql_read (\<lambda>_ d. t_deps d);
       (case r1 of Inl e \<Rightarrow> State_Monad.return (Inl e) | Inr edges \<Rightarrow> do {
         r2 \<leftarrow> sql_read (\<lambda>_ d. remdups (map hi_host (filter (\<lambda>i. a_status i = ''open'' \<and> hi_kind i = ''silent'') (t_host_incidents d))));
         (case r2 of Inl e \<Rightarrow> State_Monad.return (Inl e) | Inr downHosts \<Rightarrow> do {
           r3 \<leftarrow> sql_read (\<lambda>_ d. remdups (map i_monitor (filter (\<lambda>i. i_resolved i = None) (t_incidents d))));
           (case r3 of Inl e \<Rightarrow> State_Monad.return (Inl e) | Inr downMonitors \<Rightarrow> do {
             r4 \<leftarrow> sql_read (\<lambda>_ d. map (\<lambda>h. (h_id h, \<lparr>hl_projectID = h_project h, hl_env = h_env h, hl_role = h_role h\<rparr>)) (t_hosts d));
             (case r4 of Inl e \<Rightarrow> State_Monad.return (Inl e) | Inr labels \<Rightarrow> do {
               t \<leftarrow> time_now;
               State_Monad.return (Inr \<lparr>sn_edges = edges, sn_downHosts = downHosts, sn_downMonitors = downMonitors,
                 sn_hostLabels = labels, sn_loadedAt = t\<rparr>)
             })
           })
         })
       })
     }"

definition getSnapshot :: "duration \<Rightarrow> snapshot option \<Rightarrow> (snapshot result \<times> snapshot option) prog" where
  "getSnapshot ttl cache =
     do {
       now \<leftarrow> time_now;
       (case cache of
          Some c \<Rightarrow>
            if time_sub now (sn_loadedAt c) < ttl then State_Monad.return (Inr c, cache)
            else do {
              r \<leftarrow> loadSnapshot;
              State_Monad.return
                (case r of
                   Inl e \<Rightarrow> (Inl e, cache)
                 | Inr snap \<Rightarrow> (Inr snap, if sn_loadedAt c < sn_loadedAt snap then Some snap else cache))
            }
        | None \<Rightarrow>
            do {
              r \<leftarrow> loadSnapshot;
              State_Monad.return (case r of Inl e \<Rightarrow> (Inl e, None) | Inr snap \<Rightarrow> (Inr snap, Some snap))
            })
     }"

definition Invalidate :: "snapshot option \<Rightarrow> snapshot option" where
  "Invalidate cache = None"

text \<open>A question to the snapshot; the answer to an error is \<open>none\<close>.\<close>

definition ask :: "duration \<Rightarrow> (snapshot \<Rightarrow> 'a) \<Rightarrow> 'a \<Rightarrow> snapshot option \<Rightarrow> (('a \<times> error option) \<times> snapshot option) prog" where
  "ask ttl q none cache =
     do {
       (r, cache') \<leftarrow> getSnapshot ttl cache;
       State_Monad.return (case r of Inl e \<Rightarrow> (none, Some e) | Inr snap \<Rightarrow> (q snap, None), cache')
     }"

definition HasParent :: "duration \<Rightarrow> string \<Rightarrow> int \<Rightarrow> snapshot option \<Rightarrow> ((bool \<times> error option) \<times> snapshot option) prog" where
  "HasParent ttl kind nodeID = ask ttl (\<lambda>snap. matchingParents snap (kind, nodeID) \<noteq> []) False"

definition ParentDown :: "duration \<Rightarrow> string \<Rightarrow> int \<Rightarrow> snapshot option \<Rightarrow> ((bool \<times> error option) \<times> snapshot option) prog" where
  "ParentDown ttl kind nodeID = ask ttl (\<lambda>snap. parentDownFromSnapshot snap (kind, nodeID)) False"

definition DownRoot ::
  "duration \<Rightarrow> string \<Rightarrow> int \<Rightarrow> snapshot option \<Rightarrow> (((string \<times> int \<times> bool) \<times> error option) \<times> snapshot option) prog" where
  "DownRoot ttl kind nodeID =
     ask ttl (\<lambda>snap. case downRootFromSnapshot snap (kind, nodeID) of
        None \<Rightarrow> ('''', 0, False) | Some (k, i) \<Rightarrow> (k, i, True)) ('''', 0, False)"

definition DeclaredChildrenCount :: "duration \<Rightarrow> string \<Rightarrow> int \<Rightarrow> snapshot option \<Rightarrow> ((int \<times> error option) \<times> snapshot option) prog" where
  "DeclaredChildrenCount ttl kind nodeID = ask ttl (\<lambda>snap. declaredChildrenFromSnapshot snap (kind, nodeID)) 0"

definition incident_node :: "string \<Rightarrow> int \<Rightarrow> node option result prog" where
  "incident_node source incidentID =
     (if source = ''host'' then
        sql_read (\<lambda>_ d. map_option (\<lambda>i. (''host'', hi_host i)) (find (\<lambda>i. a_id i = incidentID) (t_host_incidents d)))
      else if source = ''uptime'' then
        sql_read (\<lambda>_ d. map_option (\<lambda>i. (''monitor'', i_monitor i)) (find (\<lambda>i. i_id i = incidentID) (t_incidents d)))
      else State_Monad.return (Inl ErrUnknownSource))"

definition CheckIncident ::
  "duration \<Rightarrow> string \<Rightarrow> int \<Rightarrow> snapshot option \<Rightarrow> ((bool \<times> bool) result \<times> snapshot option) prog" where
  "CheckIncident ttl source incidentID cache =
     do {
       n \<leftarrow> incident_node source incidentID;
       (case n of
          Inl e \<Rightarrow> State_Monad.return (Inl e, cache)
        | Inr None \<Rightarrow> State_Monad.return (Inr (False, False), cache)
        | Inr (Some (kind, nodeID)) \<Rightarrow>
            do {
              ((hasParent, e1), c1) \<leftarrow> HasParent ttl kind nodeID cache;
              (case e1 of
                 Some e \<Rightarrow> State_Monad.return (Inl e, c1)
               | None \<Rightarrow>
                   do {
                     ((parentDown, e2), c2) \<leftarrow> ParentDown ttl kind nodeID c1;
                     State_Monad.return (case e2 of Some e \<Rightarrow> Inl e | None \<Rightarrow> Inr (hasParent, parentDown), c2)
                   })
            })
     }"

definition MarkSuppressed :: "string \<Rightarrow> int \<Rightarrow> error option prog" where
  "MarkSuppressed source incidentID =
     (if source \<noteq> ''host'' then State_Monad.return None
      else do {
        r \<leftarrow> sql (\<lambda>_ d. ((), d\<lparr>t_host_incidents :=
               sql_update (\<lambda>i. a_id i = incidentID) (\<lambda>i. i\<lparr>hi_suppressed := True\<rparr>) (t_host_incidents d)\<rparr>));
        State_Monad.return (case r of Inl e \<Rightarrow> Some e | Inr _ \<Rightarrow> None)
      })"

subsection \<open>What the walks find\<close>

definition down_rel :: "snapshot \<Rightarrow> (node \<times> node) set" where
  "down_rel snap = {(n, p). p \<in> set (downParents snap n)}"

text \<open>Ancestors that are down and have no parent that is down.\<close>

definition down_roots :: "snapshot \<Rightarrow> node \<Rightarrow> node set" where
  "down_roots snap n = {r. (n, r) \<in> (down_rel snap)\<^sup>+ \<and> downParents snap r = []}"

lemma down_roots_append: "down_roots_loop snap visited (pre @ roots) stack = pre @ down_roots_loop snap visited roots stack"
  by (induction snap visited roots stack rule: down_roots_loop.induct) simp_all

lemma down_roots_sound:
  "r \<in> set (down_roots_loop snap visited roots stack) \<Longrightarrow>
     r \<in> set roots \<or> (\<exists>x \<in> set stack. (x, r) \<in> (down_rel snap)\<^sup>* \<and> downParents snap r = [])"
proof (induction snap visited roots stack rule: down_roots_loop.induct)
  case (2 snap visited roots p stack)
  consider (seen) "p \<in> set visited" | (rt) "p \<notin> set visited" "downParents snap p = []"
    | (inner) "p \<notin> set visited" "downParents snap p \<noteq> []" by blast
  then show ?case
  proof cases
    case inner
    then have "r \<in> set roots \<or> (\<exists>x \<in> set (rev (downParents snap p) @ stack). (x, r) \<in> (down_rel snap)\<^sup>* \<and> downParents snap r = [])"
      using 2 by simp
    moreover have "(p, r) \<in> (down_rel snap)\<^sup>*" if "x \<in> set (downParents snap p)" "(x, r) \<in> (down_rel snap)\<^sup>*" for x
      using that by (auto simp: down_rel_def intro: converse_rtrancl_into_rtrancl)
    ultimately show ?thesis by auto
  qed (use 2 in auto)
qed simp

lemma down_roots_complete:
  assumes "\<And>x. x \<in> set visited \<Longrightarrow> set (downParents snap x) \<subseteq> set visited \<union> set stack"
  shows "\<exists>V. set visited \<union> set stack \<subseteq> V \<and> down_rel snap `` V \<subseteq> V \<and>
     (\<forall>x \<in> V - set visited. downParents snap x = [] \<longrightarrow> x \<in> set (down_roots_loop snap visited roots stack))"
  using assms
proof (induction snap visited roots stack rule: down_roots_loop.induct)
  case (1 snap visited roots)
  then have "down_rel snap `` set visited \<subseteq> set visited" by (auto simp: down_rel_def)
  then show ?case by (intro exI [of _ "set visited"]) simp
next
  case (2 snap visited roots p stack)
  consider (seen) "p \<in> set visited" | (rt) "p \<notin> set visited" "downParents snap p = []"
    | (inner) "p \<notin> set visited" "downParents snap p \<noteq> []" by blast
  then show ?case
  proof cases
    case seen
    have "set (downParents snap x) \<subseteq> set visited \<union> set stack" if "x \<in> set visited" for x
      using "2.prems" [OF that] seen by auto
    then obtain V where V: "set visited \<union> set stack \<subseteq> V" "down_rel snap `` V \<subseteq> V"
      "\<forall>x \<in> V - set visited. downParents snap x = [] \<longrightarrow> x \<in> set (down_roots_loop snap visited roots stack)"
      using "2.IH"(1) [OF seen] by blast
    then show ?thesis using seen by (intro exI [of _ V]) auto
  next
    case rt
    have closed: "set (downParents snap x) \<subseteq> set (p # visited) \<union> set stack" if "x \<in> set (p # visited)" for x
      using that "2.prems" [of x] rt by auto
    obtain V where V: "set (p # visited) \<union> set stack \<subseteq> V" "down_rel snap `` V \<subseteq> V"
      "\<forall>x \<in> V - set (p # visited). downParents snap x = [] \<longrightarrow> x \<in> set (down_roots_loop snap (p # visited) (roots @ [p]) stack)"
      using "2.IH"(2) [OF rt closed] by blast
    have "p \<in> set (down_roots_loop snap (p # visited) (roots @ [p]) stack)"
      using down_roots_append [of snap "p # visited" "roots @ [p]" "[]" stack] by simp
    then show ?thesis using V rt by (intro exI [of _ V]) auto
  next
    case inner
    have closed: "set (downParents snap x) \<subseteq> set (p # visited) \<union> set (rev (downParents snap p) @ stack)" if "x \<in> set (p # visited)" for x
      using that "2.prems" [of x] by auto
    obtain V where V: "set (p # visited) \<union> set (rev (downParents snap p) @ stack) \<subseteq> V" "down_rel snap `` V \<subseteq> V"
      "\<forall>x \<in> V - set (p # visited). downParents snap x = [] \<longrightarrow>
          x \<in> set (down_roots_loop snap (p # visited) roots (rev (downParents snap p) @ stack))"
      using "2.IH"(3) [OF inner closed] by blast
    then show ?thesis using inner by (intro exI [of _ V]) auto
  qed
qed

lemma set_down_roots_loop: "set (down_roots_loop snap [start] [] (rev (downParents snap start))) = down_roots snap start"
proof (intro equalityI subsetI)
  fix r assume "r \<in> set (down_roots_loop snap [start] [] (rev (downParents snap start)))"
  then show "r \<in> down_roots snap start"
    using down_roots_sound [of r snap "[start]" "[]" "rev (downParents snap start)"]
    by (auto simp: down_roots_def down_rel_def intro: rtrancl_into_trancl2)
next
  fix r assume r: "r \<in> down_roots snap start"
  have "set (downParents snap x) \<subseteq> set [start] \<union> set (rev (downParents snap start))" if "x \<in> set [start]" for x
    using that by auto
  from down_roots_complete [OF this, of "[]"]
  obtain V where V: "start \<in> V" "down_rel snap `` V \<subseteq> V"
    "\<forall>x \<in> V - {start}. downParents snap x = [] \<longrightarrow> x \<in> set (down_roots_loop snap [start] [] (rev (downParents snap start)))"
    by auto
  have "(start, r) \<in> (down_rel snap)\<^sup>+" "downParents snap r = []" using r by (simp_all add: down_roots_def)
  moreover from this have "downParents snap start \<noteq> []" by (auto simp: down_rel_def dest: tranclD)
  moreover have "r \<in> V" using \<open>(start, r) \<in> (down_rel snap)\<^sup>+\<close> V(1,2) Image_closed_trancl [of "down_rel snap" V]
    by (metis ImageI trancl_into_rtrancl)
  ultimately show "r \<in> set (down_roots_loop snap [start] [] (rev (downParents snap start)))" using V(3) by auto
qed

lemma parent_down_roots: "parent_down_loop snap visited stack \<longleftrightarrow> down_roots_loop snap visited [] stack \<noteq> []"
proof (induction snap visited stack rule: parent_down_loop.induct)
  case (2 snap visited p stack)
  then show ?case using down_roots_append [of snap "p # visited" "[p]" "[]" stack] by simp
qed simp

lemma parentIsDown_node: "parentIsDown e snap \<Longrightarrow> parentNode e = Some p \<Longrightarrow> nodeIsDown snap p"
  by (cases "de_ParentHostID e"; cases "de_ParentMonitorID e")
     (auto simp: parentIsDown_def parentNode_def nodeFromIDs_def nodeIsDown_def)

lemma downParents_down: "p \<in> set (downParents snap n) \<Longrightarrow> nodeIsDown snap p"
  by (auto simp: downParents_def set_map_filter intro: parentIsDown_node split: if_splits)

lemma down_roots_down: "r \<in> down_roots snap n \<Longrightarrow> nodeIsDown snap r"
  by (auto simp: down_roots_def down_rel_def intro: downParents_down dest: tranclD2)

lemma hd_sort_Min: "sort xs = y # ys \<Longrightarrow> y = Min (set xs)" for xs :: "node list"
  by (metis Min_eqI List.finite_set list.set_intros(1) set_ConsD set_sort sorted_simps(2) sorted_sort order_refl)

lemma parentDown_roots: "parentDownFromSnapshot snap n \<longleftrightarrow> down_roots snap n \<noteq> {}"
  using set_down_roots_loop [of snap n] by (auto simp: parentDownFromSnapshot_def parent_down_roots simp flip: set_empty)

text \<open>
  A node is suppressed exactly when the outage has a root: the walk, which ends on every
  graph, reports a parent down if and only if going up through parents that are down one
  reaches a node that is down and has no parent that is down. Nodes that are down only in
  a cycle have no such root and are reported, never silenced together.
\<close>

theorem ParentDown_means_root:
  "parentDownFromSnapshot snap n \<longleftrightarrow>
     (\<exists>r. (n, r) \<in> (down_rel snap)\<^sup>+ \<and> nodeIsDown snap r \<and> downParents snap r = [])"
proof -
  have "parentDownFromSnapshot snap n \<longleftrightarrow> down_roots snap n \<noteq> {}" by (rule parentDown_roots)
  also have "\<dots> \<longleftrightarrow> (\<exists>r. (n, r) \<in> (down_rel snap)\<^sup>+ \<and> nodeIsDown snap r \<and> downParents snap r = [])"
    using down_roots_down [of _ snap n] by (auto simp: down_roots_def)
  finally show ?thesis .
qed

text \<open>
  C15: the root that an incident is attributed to is determined by the graph alone: the least
  (hosts before monitors, then by id) of the ancestors that are down without a parent that
  is down; the node itself when there is none and it is down; otherwise none. It agrees
  with the answer whether a parent is down.
\<close>

theorem DownRoot_is_least:
  "downRootFromSnapshot snap n =
     (if down_roots snap n \<noteq> {} then Some (Min (down_roots snap n))
      else if nodeIsDown snap n then Some n else None) \<and>
   (parentDownFromSnapshot snap n \<longleftrightarrow> down_roots snap n \<noteq> {}) \<and>
   finite (down_roots snap n)"
proof -
  let ?roots = "down_roots_loop snap [n] [] (rev (downParents snap n))"
  have set: "set ?roots = down_roots snap n" by (rule set_down_roots_loop)
  have "downRootFromSnapshot snap n = (if down_roots snap n \<noteq> {} then Some (Min (down_roots snap n))
      else if nodeIsDown snap n then Some n else None)"
  proof (cases "sort ?roots")
    case Nil
    then show ?thesis using set by (simp add: downRootFromSnapshot_def)
  next
    case (Cons y ys)
    then have "?roots \<noteq> []" by auto
    then have "y = Min (down_roots snap n)" "down_roots snap n \<noteq> {}"
      using hd_sort_Min [OF Cons] set by (simp, metis set_empty)
    then show ?thesis using Cons by (simp add: downRootFromSnapshot_def)
  qed
  moreover have "parentDownFromSnapshot snap n \<longleftrightarrow> down_roots snap n \<noteq> {}" by (rule parentDown_roots)
  moreover have "finite (down_roots snap n)" unfolding set [symmetric] by simp
  ultimately show ?thesis by blast
qed

lemma downRoot_cases:
  assumes "downRootFromSnapshot snap n = Some r"
  shows "r = n \<or> r \<in> down_roots snap n"
proof (cases "sort (down_roots_loop snap [n] [] (rev (downParents snap n)))")
  case Nil
  then show ?thesis using assms by (simp add: downRootFromSnapshot_def split: if_splits)
next
  case (Cons y ys)
  then have "y \<in> set (down_roots_loop snap [n] [] (rev (downParents snap n)))" by (metis list.set_intros(1) set_sort)
  then show ?thesis using assms Cons set_down_roots_loop [of snap n] by (simp add: downRootFromSnapshot_def)
qed

subsection \<open>The snapshot of the tables\<close>

definition snapshot_of :: "time \<Rightarrow> db \<Rightarrow> snapshot" where
  "snapshot_of t d =
     \<lparr>sn_edges = t_deps d,
      sn_downHosts = remdups (map hi_host (filter (\<lambda>i. a_status i = ''open'' \<and> hi_kind i = ''silent'') (t_host_incidents d))),
      sn_downMonitors = remdups (map i_monitor (filter (\<lambda>i. i_resolved i = None) (t_incidents d))),
      sn_hostLabels = map (\<lambda>h. (h_id h, \<lparr>hl_projectID = h_project h, hl_env = h_env h, hl_role = h_role h\<rparr>)) (t_hosts d),
      sn_loadedAt = t\<rparr>"

lemma run_loadSnapshot: "sched w = [] \<Longrightarrow> run_state loadSnapshot w = (Inr (snapshot_of (go_now w) (db w)), w)"
  by (simp add: loadSnapshot_def snapshot_of_def run_state_bind)

lemma owned_unique:
  assumes "distinct (map h_id (t_hosts d))" and "distinct (map m_id (t_monitors d))" and "owned d a n" and "owned d b n"
  shows "a = b"
proof (cases "fst n = ''host''")
  case True
  then obtain x y where "x \<in> set (t_hosts d)" "y \<in> set (t_hosts d)" "h_id x = h_id y" "h_project x = a" "h_project y = b"
    using assms(3,4) by (auto simp: owned_def list_ex_iff)
  then show ?thesis using distinct_key_unique [OF assms(1)] by blast
next
  case False
  then obtain x y where "x \<in> set (t_monitors d)" "y \<in> set (t_monitors d)" "m_id x = m_id y" "m_project x = a" "m_project y = b"
    using assms(3,4) by (auto simp: owned_def list_ex_iff)
  then show ?thesis using distinct_key_unique [OF assms(2)] by blast
qed

lemma edge_nodes_owned:
  assumes "checkNodesBelongToProject d e = None"
  shows "parentNode e = Some p \<Longrightarrow> owned d (de_ProjectID e) p"
    and "de_ChildHostID e = Some h \<Longrightarrow> owned d (de_ProjectID e) (''host'', h)"
    and "de_ChildMonitorID e = Some m \<Longrightarrow> owned d (de_ProjectID e) (''monitor'', m)"
  using assms
  by (auto simp: checkNodesBelongToProject_def checkOwnership_def parentNode_def nodeFromIDs_def simp del: first_error.simps
      split: option.splits if_splits)

lemma child_owned:
  assumes "checkNodesBelongToProject d e = None" and "edgeMatchesChild e (snapshot_of t d) n"
  shows "owned d (de_ProjectID e) n"
proof (cases "fst n = ''host''")
  case True
  show ?thesis
  proof (cases "de_ChildHostID e")
    case None
    then obtain lbl where "map_of (sn_hostLabels (snapshot_of t d)) (snd n) = Some lbl" "hl_projectID lbl = de_ProjectID e"
      using assms(2) True by (auto simp: edgeMatchesChild_def split: option.splits)
    then obtain h where "h \<in> set (t_hosts d)" "h_id h = snd n" "h_project h = de_ProjectID e"
      by (auto simp: snapshot_of_def dest!: map_of_SomeD)
    then show ?thesis using True unfolding owned_def list_ex_iff by auto
  next
    case (Some h)
    then show ?thesis using edge_nodes_owned(2) [OF assms(1) Some] assms(2) True
      by (cases n) (simp add: edgeMatchesChild_def)
  qed
next
  case False
  then have "fst n = ''monitor''" "de_ChildMonitorID e = Some (snd n)"
    using assms(2) by (auto simp: edgeMatchesChild_def split: if_splits)
  then show ?thesis using edge_nodes_owned(3) [OF assms(1)] by (cases n) simp
qed

lemma downParents_owned:
  assumes "deps_wf d" and "distinct (map h_id (t_hosts d))" and "distinct (map m_id (t_monitors d))"
    and "owned d project n" and "q \<in> set (downParents (snapshot_of t d) n)"
  shows "owned d project q"
proof -
  obtain e where e: "e \<in> set (t_deps d)" "edgeMatchesChild e (snapshot_of t d) n" "parentNode e = Some q"
    using assms(5) by (auto simp: downParents_def set_map_filter matchingParents_def snapshot_of_def split: if_splits)
  then have ok: "checkNodesBelongToProject d e = None" using assms(1) by (auto simp: deps_wf_def list_all_iff edge_wf_def)
  have "de_ProjectID e = project"
    by (rule owned_unique [OF assms(2,3) child_owned [OF ok e(2)] assms(4)])
  then show ?thesis using edge_nodes_owned(1) [OF ok e(3)] by simp
qed

text \<open>
  Suppression does not cross projects: with the edges that the store accepts, every node
  that the walk from a node of a project meets, and so the root an incident is attributed
  to, belongs to the same project; in particular a label edge never reaches the hosts of
  another tenant that carry the same label.
\<close>

theorem suppression_stays_in_project:
  assumes "deps_wf d" and "distinct (map h_id (t_hosts d))" and "distinct (map m_id (t_monitors d))"
    and "owned d project n" and "downRootFromSnapshot (snapshot_of t d) n = Some r"
  shows "owned d project r"
proof -
  have "owned d project q" if "(n, q) \<in> (down_rel (snapshot_of t d))\<^sup>+" for q
    using that
  proof (induction rule: trancl_induct)
    case (base q)
    then show ?case using downParents_owned [OF assms(1-4)] by (simp add: down_rel_def)
  next
    case (step q q')
    then show ?case using downParents_owned [OF assms(1-3) step.IH] by (simp add: down_rel_def)
  qed
  moreover have "r = n \<or> r \<in> down_roots (snapshot_of t d) n"
    using assms(5) by (rule downRoot_cases)
  ultimately show ?thesis using assms(4) unfolding down_roots_def by blast
qed

text \<open>Hosts 1, 2 and 3 are silent; 2 depends on 1 and 3 on 2.\<close>

definition ex_silent :: "int \<Rightarrow> host_incident" where
  "ex_silent i = \<lparr>a_id = i, a_project = 1, a_status = ''open'', a_started = 0, a_resolved = None, a_in_maintenance = False,
     a_notified_open = True, a_notified_close = False, a_acked_at = None, a_acked_by = None, a_severity = ''critical'',
     a_level = 1, a_last_escalated = None, a_group = None, hi_host = i, hi_kind = ''silent'', hi_current = 0, hi_peak = 0,
     hi_detail = '''', hi_suppressed = False, hi_dep_released = None\<rparr>"

definition ex_outage :: db where
  "ex_outage = db (snd (run_state (for_each [DCreate (ex_edge 1 2), DCreate (ex_edge 2 3)] run_dep_op) (calm 0 (ex_dep_hosts\<lparr>
     t_host_incidents := map ex_silent [1, 2, 3]\<rparr>))))"

lemma ex_outage_wf: "deps_wf ex_outage"
proof -
  let ?d = "ex_dep_hosts\<lparr>t_host_incidents := map ex_silent [1, 2, 3]\<rparr>"
  have "deps_wf ?d" by (simp add: deps_wf_def ex_dep_hosts_def ex_defs explicit_rel_def acyclic_def)
  moreover have "guar (on_db (inv_rel deps_wf)) (for_each [DCreate (ex_edge 1 2), DCreate (ex_edge 2 3)] run_dep_op)"
    by (intro guar guar_dep_op)
  ultimately show ?thesis using guarD [of _ _ "calm 0 ?d"] unfolding ex_outage_def by (fastforce simp: on_db_def inv_rel_def)
qed

theorem suppression_stays_in_project_witness:
  "downRootFromSnapshot (snapshot_of 0 ex_outage) (''host'', 3) = Some (''host'', 1) \<and> owned ex_outage 1 (''host'', 1)"
proof -
  have ids: "distinct (map h_id (t_hosts ex_outage))" "distinct (map m_id (t_monitors ex_outage))" by code_simp+
  have own: "owned ex_outage 1 (''host'', 3)" by code_simp
  have rt: "downRootFromSnapshot (snapshot_of 0 ex_outage) (''host'', 3) = Some (''host'', 1)" by code_simp
  show ?thesis using rt suppression_stays_in_project [OF ex_outage_wf ids own rt] by simp
qed

subsection \<open>Model: preview.go\<close>

record node_ref =
  nr_Kind :: string
  nr_ID :: int
  nr_Name :: string

record host_lite =
  ho_ID :: int
  ho_Name :: string
  ho_Environment :: string
  ho_Role :: string

text \<open>The maps by id: of entries with the same id the last one counts.\<close>

definition hostByID :: "host_lite list \<Rightarrow> int \<rightharpoonup> host_lite" where
  "hostByID hosts = map_of (rev (map (\<lambda>h. (ho_ID h, h)) hosts))"

definition monitorByID :: "node_ref list \<Rightarrow> int \<rightharpoonup> node_ref" where
  "monitorByID monitors = map_of (rev (map (\<lambda>m. (nr_ID m, m)) monitors))"

definition host_ref :: "host_lite \<Rightarrow> node_ref" where
  "host_ref h = \<lparr>nr_Kind = ''host'', nr_ID = ho_ID h, nr_Name = ho_Name h\<rparr>"

definition previewResolveParent :: "dep_edge \<Rightarrow> (int \<rightharpoonup> host_lite) \<Rightarrow> (int \<rightharpoonup> node_ref) \<Rightarrow> node_ref option" where
  "previewResolveParent e hs ms =
     (case de_ParentHostID e of
        Some p \<Rightarrow> map_option host_ref (hs p)
      | None \<Rightarrow> (case de_ParentMonitorID e of Some p \<Rightarrow> ms p | None \<Rightarrow> None))"

definition previewExpandLabel :: "string \<Rightarrow> string \<Rightarrow> host_lite list \<Rightarrow> node_ref \<Rightarrow> node_ref list" where
  "previewExpandLabel scope v hosts parent =
     map host_ref (filter (\<lambda>h. hostByID hosts (ho_ID h) = Some h \<and> \<not> (nr_Kind parent = ''host'' \<and> ho_ID h = nr_ID parent) \<and>
        (if scope = ''env'' then ho_Environment h = v else if scope = ''role'' then ho_Role h = v else False)) hosts)"

definition previewResolveChildren :: "dep_edge \<Rightarrow> host_lite list \<Rightarrow> node_ref list \<Rightarrow> node_ref \<Rightarrow> node_ref list" where
  "previewResolveChildren e hosts monitors parent =
     (case (de_ChildHostID e, de_ChildMonitorID e, de_ChildLabelScope e, de_ChildLabelValue e) of
        (Some c, _, _, _) \<Rightarrow> (case hostByID hosts c of None \<Rightarrow> [] | Some h \<Rightarrow> [host_ref h])
      | (None, Some c, _, _) \<Rightarrow> (case monitorByID monitors c of None \<Rightarrow> [] | Some m \<Rightarrow> [m])
      | (None, None, Some scope, Some v) \<Rightarrow> previewExpandLabel scope v hosts parent
      | _ \<Rightarrow> [])"

text \<open>The map of the source as the list of each parent; a parent without children is not in it.\<close>

definition PreviewSuppression :: "dep_edge list \<Rightarrow> host_lite list \<Rightarrow> node_ref list \<Rightarrow> node_ref \<Rightarrow> node_ref list" where
  "PreviewSuppression edges hosts monitors parent =
     sort_key (\<lambda>c. (nr_Kind c, nr_ID c))
       (remdups (concat (map (\<lambda>e. previewResolveChildren e hosts monitors parent)
          (filter (\<lambda>e. previewResolveParent e (hostByID hosts) (monitorByID monitors) = Some parent) edges))))"

text \<open>The labels of the snapshot for the hosts of one project.\<close>

definition lite_labels :: "int \<Rightarrow> host_lite list \<Rightarrow> (int \<times> hostLabels) list" where
  "lite_labels project hosts =
     map (\<lambda>h. (ho_ID h, \<lparr>hl_projectID = project, hl_env = ho_Environment h, hl_role = ho_Role h\<rparr>)) hosts"

lemma index_by_iff:
  assumes "distinct (map f xs)"
  shows "map_of (rev (map (\<lambda>x. (f x, x)) xs)) i = Some x \<longleftrightarrow> x \<in> set xs \<and> f x = i"
proof -
  have "distinct (map fst (rev (map (\<lambda>x. (f x, x)) xs)))" using assms by (simp add: rev_map [symmetric] o_def)
  then show ?thesis by (subst map_of_eq_Some_iff) auto
qed

lemma hostByID_iff: "distinct (map ho_ID hosts) \<Longrightarrow> hostByID hosts i = Some h \<longleftrightarrow> h \<in> set hosts \<and> ho_ID h = i"
  unfolding hostByID_def by (rule index_by_iff)

lemma monitorByID_iff: "distinct (map nr_ID ms) \<Longrightarrow> monitorByID ms i = Some m \<longleftrightarrow> m \<in> set ms \<and> nr_ID m = i"
  unfolding monitorByID_def by (rule index_by_iff)

definition ref_node :: "node_ref \<Rightarrow> node" where
  "ref_node r = (nr_Kind r, nr_ID r)"

lemma in_preview:
  "c \<in> set (PreviewSuppression edges hosts monitors parent) \<longleftrightarrow>
   (\<exists>e \<in> set edges. previewResolveParent e (hostByID hosts) (monitorByID monitors) = Some parent \<and>
      c \<in> set (previewResolveChildren e hosts monitors parent))"
  by (auto simp: PreviewSuppression_def)

text \<open>For an edge that the store accepts, the preview and the resolver see the same parent and the same children.\<close>

lemma shape_cases:
  assumes "validateShape e = None"
  obtains (host) c where "de_ChildHostID e = Some c" "de_ChildMonitorID e = None" "de_ChildLabelScope e = None" "de_ChildLabelValue e = None"
  | (monitor) c where "de_ChildHostID e = None" "de_ChildMonitorID e = Some c" "de_ChildLabelScope e = None" "de_ChildLabelValue e = None"
  | (label) scope v where "de_ChildHostID e = None" "de_ChildMonitorID e = None" "de_ChildLabelScope e = Some scope"
      "de_ChildLabelValue e = Some v" "scope = ''env'' \<or> scope = ''role''"
  using assms
  by (cases "de_ChildHostID e"; cases "de_ChildMonitorID e"; cases "de_ChildLabelScope e"; cases "de_ChildLabelValue e")
     (auto simp: validateShape_def count_set_def Let_def split: if_splits)

lemma shape_parent:
  "validateShape e = None \<Longrightarrow> (de_ParentHostID e = None) \<noteq> (de_ParentMonitorID e = None)"
  by (auto simp: validateShape_def count_set_def Let_def split: if_splits)

lemma preview_parent:
  assumes "distinct (map ho_ID hosts)" "distinct (map nr_ID monitors)" "\<forall>m \<in> set monitors. nr_Kind m = ''monitor''"
    and "validateShape e = None"
  shows "previewResolveParent e (hostByID hosts) (monitorByID monitors) = Some parent \<longleftrightarrow>
    parent \<in> host_ref ` set hosts \<union> set monitors \<and> parentNode e = Some (ref_node parent)"
proof (cases "de_ParentHostID e")
  case None
  then obtain p where p: "de_ParentMonitorID e = Some p" using shape_parent [OF assms(4)] by auto
  have l: "previewResolveParent e (hostByID hosts) (monitorByID monitors) = Some parent \<longleftrightarrow> parent \<in> set monitors \<and> nr_ID parent = p"
    by (simp add: previewResolveParent_def None p monitorByID_iff [OF assms(2)])
  have r: "parentNode e = Some (ref_node parent) \<longleftrightarrow> nr_Kind parent = ''monitor'' \<and> nr_ID parent = p"
    by (auto simp: parentNode_def nodeFromIDs_def None p ref_node_def)
  have "nr_Kind parent \<noteq> ''monitor''" if "parent \<in> host_ref ` set hosts" using that by (auto simp: host_ref_def)
  then show ?thesis unfolding l r using assms(3) by blast
next
  case (Some p)
  have l: "previewResolveParent e (hostByID hosts) (monitorByID monitors) = Some parent \<longleftrightarrow> (\<exists>h \<in> set hosts. ho_ID h = p \<and> parent = host_ref h)"
    by (auto simp: previewResolveParent_def Some hostByID_iff [OF assms(1)])
  have r: "parentNode e = Some (ref_node parent) \<longleftrightarrow> nr_Kind parent = ''host'' \<and> nr_ID parent = p"
    by (auto simp: parentNode_def nodeFromIDs_def Some ref_node_def)
  have "nr_Kind parent \<noteq> ''host''" if "parent \<in> set monitors" using that assms(3) by simp
  then show ?thesis unfolding l r by (auto simp: host_ref_def)
qed

lemma lite_labels_of:
  assumes "distinct (map ho_ID hosts)" "h \<in> set hosts"
  shows "map_of (lite_labels project hosts) (ho_ID h) = Some \<lparr>hl_projectID = project, hl_env = ho_Environment h, hl_role = ho_Role h\<rparr>"
  using assms by (intro map_of_is_SomeI) (auto simp: lite_labels_def o_def)

lemma host_hit:
  assumes "distinct (map ho_ID hosts)"
  shows "c \<in> set (case hostByID hosts i of None \<Rightarrow> [] | Some h \<Rightarrow> [host_ref h]) \<longleftrightarrow> (\<exists>h \<in> set hosts. ho_ID h = i \<and> c = host_ref h)"
proof (cases "hostByID hosts i")
  case None
  then have "\<forall>h \<in> set hosts. ho_ID h \<noteq> i" using hostByID_iff [OF assms, of i] by auto
  with None show ?thesis by simp
next
  case (Some h)
  have "h' = h" if "h' \<in> set hosts" "ho_ID h' = i" for h' using hostByID_iff [OF assms, of i h'] that Some by simp
  with Some show ?thesis using hostByID_iff [OF assms, of i h] by auto
qed

lemma monitor_hit:
  assumes "distinct (map nr_ID ms)"
  shows "c \<in> set (case monitorByID ms i of None \<Rightarrow> [] | Some m \<Rightarrow> [m]) \<longleftrightarrow> c \<in> set ms \<and> nr_ID c = i"
  using monitorByID_iff [OF assms, of i c] by (auto split: option.splits)

lemma preview_children:
  assumes hosts: "distinct (map ho_ID hosts)" and monitors: "distinct (map nr_ID monitors)" "\<forall>m \<in> set monitors. nr_Kind m = ''monitor''"
    and e: "validateShape e = None" "checkSelfLoop e = None" "parentNode e = Some (ref_node parent)"
    and snap: "sn_hostLabels snap = lite_labels (de_ProjectID e) hosts"
  shows "c \<in> set (previewResolveChildren e hosts monitors parent) \<longleftrightarrow>
    c \<in> host_ref ` set hosts \<union> set monitors \<and> \<not> isSelfMatchParent e (ref_node c) \<and> edgeMatchesChild e snap (ref_node c)"
  using e(1)
proof (cases rule: shape_cases)
  case (host i)
  have l: "c \<in> set (previewResolveChildren e hosts monitors parent) \<longleftrightarrow> (\<exists>h \<in> set hosts. ho_ID h = i \<and> c = host_ref h)"
    using host_hit [OF hosts, of c i] by (simp add: previewResolveChildren_def host)
  have "edgeMatchesChild e snap (ref_node c) \<longleftrightarrow> nr_Kind c = ''host'' \<and> i = nr_ID c"
    by (simp add: edgeMatchesChild_def ref_node_def host)
  moreover have "\<not> isSelfMatchParent e (ref_node c)" if "nr_Kind c = ''host''" "i = nr_ID c"
    using e(2) host that by (auto simp: isSelfMatchParent_def ref_node_def checkSelfLoop_def split: if_splits)
  moreover have "nr_Kind c \<noteq> ''host''" if "c \<in> set monitors" using that monitors(2) by simp
  ultimately show ?thesis unfolding l by (auto simp: host_ref_def)
next
  case (monitor i)
  have l: "c \<in> set (previewResolveChildren e hosts monitors parent) \<longleftrightarrow> c \<in> set monitors \<and> nr_ID c = i"
    using monitor_hit [OF monitors(1), of c i] by (simp add: previewResolveChildren_def monitor)
  have "edgeMatchesChild e snap (ref_node c) \<longleftrightarrow> nr_Kind c = ''monitor'' \<and> nr_ID c = i"
    by (auto simp: edgeMatchesChild_def ref_node_def monitor)
  moreover have "\<not> isSelfMatchParent e (ref_node c)" if "nr_Kind c = ''monitor''" "nr_ID c = i"
    using e(2) monitor that by (auto simp: isSelfMatchParent_def ref_node_def checkSelfLoop_def split: if_splits)
  moreover have "nr_Kind c \<noteq> ''monitor''" if "c \<in> host_ref ` set hosts" using that by (auto simp: host_ref_def)
  ultimately show ?thesis unfolding l using monitors(2) by blast
next
  case (label scope v)
  have self: "isSelfMatchParent e (''host'', ho_ID h) \<longleftrightarrow> nr_Kind parent = ''host'' \<and> ho_ID h = nr_ID parent" for h
    using e(3) by (auto simp: isSelfMatchParent_def parentNode_def nodeFromIDs_def ref_node_def split: option.splits)
  show ?thesis
    using label monitors(2) lite_labels_of [OF hosts]
    by (auto simp: previewResolveChildren_def previewExpandLabel_def hostByID_iff [OF hosts] self edgeMatchesChild_def snap
        label_matches_def ref_node_def host_ref_def split: if_splits)
qed

text \<open>
  C16: c: The preview shows what is suppressed. For the edges, hosts and monitors of one project,
  the preview lists \<open>c\<close> under \<open>parent\<close> exactly when both are nodes of the project and the
  resolver counts \<open>parent\<close> among the parents of \<open>c\<close>.
\<close>

theorem preview_agrees_with_resolver:
  assumes "distinct (map ho_ID hosts)" "distinct (map nr_ID monitors)" "\<forall>m \<in> set monitors. nr_Kind m = ''monitor''"
    and edges: "\<forall>e \<in> set edges. validateShape e = None \<and> checkSelfLoop e = None \<and> de_ProjectID e = project"
    and snap: "sn_edges snap = edges" "sn_hostLabels snap = lite_labels project hosts"
  shows "c \<in> set (PreviewSuppression edges hosts monitors parent) \<longleftrightarrow>
    c \<in> host_ref ` set hosts \<union> set monitors \<and> parent \<in> host_ref ` set hosts \<union> set monitors \<and>
    (\<exists>e \<in> set (matchingParents snap (ref_node c)). parentNode e = Some (ref_node parent))"
proof -
  have "previewResolveParent e (hostByID hosts) (monitorByID monitors) = Some parent \<and> c \<in> set (previewResolveChildren e hosts monitors parent) \<longleftrightarrow>
      c \<in> host_ref ` set hosts \<union> set monitors \<and> parent \<in> host_ref ` set hosts \<union> set monitors \<and>
      \<not> isSelfMatchParent e (ref_node c) \<and> edgeMatchesChild e snap (ref_node c) \<and> parentNode e = Some (ref_node parent)"
    if "e \<in> set edges" for e
    using that edges preview_parent [OF assms(1-3), of e parent] preview_children [OF assms(1-3), of e parent snap c] snap(2) by auto
  then show ?thesis unfolding in_preview matchingParents_def snap(1) by auto
qed

definition ex_lite :: "int \<Rightarrow> host_lite" where
  "ex_lite i = \<lparr>ho_ID = i, ho_Name = ''h'', ho_Environment = ''prod'', ho_Role = ''db''\<rparr>"

definition ex_label_edge :: dep_edge where
  "ex_label_edge = (ex_edge 1 2)\<lparr>de_ChildHostID := None, de_ChildLabelScope := Some ''env'', de_ChildLabelValue := Some ''prod''\<rparr>"

theorem preview_agrees_with_resolver_witness:
  "PreviewSuppression [ex_label_edge] [ex_lite 1, ex_lite 2] [] (host_ref (ex_lite 1)) = [host_ref (ex_lite 2)] \<and>
   (\<exists>e \<in> set (matchingParents \<lparr>sn_edges = [ex_label_edge], sn_downHosts = [], sn_downMonitors = [],
       sn_hostLabels = lite_labels 1 [ex_lite 1, ex_lite 2], sn_loadedAt = 0\<rparr> (''host'', 2)). parentNode e = Some (''host'', 1))"
proof -
  let ?snap = "\<lparr>sn_edges = [ex_label_edge], sn_downHosts = [], sn_downMonitors = [],
       sn_hostLabels = lite_labels 1 [ex_lite 1, ex_lite 2], sn_loadedAt = 0\<rparr>"
  have run: "PreviewSuppression [ex_label_edge] [ex_lite 1, ex_lite 2] [] (host_ref (ex_lite 1)) = [host_ref (ex_lite 2)]"
    by code_simp
  have "distinct (map ho_ID [ex_lite 1, ex_lite 2])" "distinct (map nr_ID [])"
    "\<forall>e \<in> set [ex_label_edge]. validateShape e = None \<and> checkSelfLoop e = None \<and> de_ProjectID e = 1"
    by code_simp+
  then have "host_ref (ex_lite 2) \<in> set (PreviewSuppression [ex_label_edge] [ex_lite 1, ex_lite 2] [] (host_ref (ex_lite 1))) \<longleftrightarrow>
      host_ref (ex_lite 2) \<in> host_ref ` set [ex_lite 1, ex_lite 2] \<union> set [] \<and>
      host_ref (ex_lite 1) \<in> host_ref ` set [ex_lite 1, ex_lite 2] \<union> set [] \<and>
      (\<exists>e \<in> set (matchingParents ?snap (ref_node (host_ref (ex_lite 2)))). parentNode e = Some (ref_node (host_ref (ex_lite 1))))"
    by (intro preview_agrees_with_resolver [of _ _ _ 1]) simp_all
  moreover have "ref_node (host_ref (ex_lite i)) = (''host'', i)" for i by (simp add: ref_node_def host_ref_def ex_lite_def)
  ultimately show ?thesis unfolding run by simp
qed

end
