(* ===== verification/Group_Attach.thy ===== *)
theory Group_Attach
  imports Group_Store Dep_Suppressor
begin

text \<open>
  \<open>internal/incidentgroup/grouper.go\<close> and \<open>depgate.go\<close>: how incidents join the group of the
  root of their outage. The resolver of roots is an interface, which the dependency
  suppressor provides. The properties: an incident joins exactly the group of its root,
  no group is created that stays empty, and the root that opens late collects the
  incidents that are its consequence.
\<close>

subsection \<open>Model: grouper.go\<close>

record root_resolver =
  rr_DownRoot :: "string \<Rightarrow> int \<Rightarrow> ((string \<times> int \<times> bool) \<times> error option) prog"
  rr_Invalidate :: "unit prog"

text \<open>The open incident of a root node: source, id, project, and whether it has been notified.\<close>

definition host_root :: "int \<Rightarrow> db \<Rightarrow> (int \<times> int \<times> bool) option" where
  "host_root rootID d =
     map_option (\<lambda>i. (a_id i, a_project i, a_notified_open i))
       (find (\<lambda>i. hi_host i = rootID \<and> hi_kind i = ''silent'' \<and> a_status i = ''open'') (t_host_incidents d))"

definition monitor_root :: "int \<Rightarrow> db \<Rightarrow> (int \<times> int \<times> bool) option" where
  "monitor_root rootID d =
     (case [(i_id i, m_project m, i_notified_open i).
            i \<leftarrow> filter (\<lambda>i. i_monitor i = rootID \<and> i_resolved i = None) (t_incidents d),
            m \<leftarrow> filter (\<lambda>m. m_id m = i_monitor i) (t_monitors d)] of
        [] \<Rightarrow> None | r # _ \<Rightarrow> Some r)"

definition RootIncident :: "string \<Rightarrow> int \<Rightarrow> ((string \<times> int \<times> int \<times> bool \<times> bool) \<times> error option) prog" where
  "RootIncident rootKind rootID =
     (if rootKind \<noteq> ''host'' \<and> rootKind \<noteq> ''monitor''
      then State_Monad.return (('''', 0, 0, False, False), Some (ErrMsg ''unknown root node kind''))
      else do {
        r \<leftarrow> sql_read (\<lambda>_. if rootKind = ''host'' then host_root rootID else monitor_root rootID);
        State_Monad.return
          (case r of
             Inl e \<Rightarrow> (('''', 0, 0, False, False), Some e)
           | Inr None \<Rightarrow> (('''', 0, 0, False, False), None)
           | Inr (Some (i, p, notified)) \<Rightarrow> ((if rootKind = ''host'' then ''host'' else ''uptime'', i, p, notified, True), None))
      })"

text \<open>The second half of \<open>Attach\<close>, once the incident of the root is known.\<close>

definition join_group ::
  "string \<Rightarrow> int \<Rightarrow> string \<Rightarrow> int \<Rightarrow> string \<Rightarrow> int \<Rightarrow> int \<Rightarrow> bool \<Rightarrow> ((bool \<times> bool) \<times> error option) prog" where
  "join_group source incidentID rootKind rootID rootSource rootIncID projectID notified =
     do {
       r \<leftarrow> MemberEligible projectID source incidentID;
       (case r of
          Inl e \<Rightarrow> State_Monad.return ((False, False), Some e)
        | Inr False \<Rightarrow> State_Monad.return ((False, False), None)
        | Inr True \<Rightarrow>
            do {
              g \<leftarrow> EnsureGroup projectID rootSource rootIncID rootKind rootID;
              (case g of
                 Inl e \<Rightarrow> State_Monad.return ((False, False), Some e)
               | Inr grp \<Rightarrow>
                   if g_ResolvedAt grp \<noteq> None then State_Monad.return ((False, False), None)
                   else do {
                     s \<leftarrow> SetGroup projectID source incidentID (g_ID grp);
                     State_Monad.return
                       (case s of Inl e \<Rightarrow> ((False, False), Some e) | Inr attached \<Rightarrow> ((attached, attached \<and> notified), None))
                   })
            })
     }"

definition Attach :: "root_resolver \<Rightarrow> string \<Rightarrow> int \<Rightarrow> string \<Rightarrow> int \<Rightarrow> ((bool \<times> bool) \<times> error option) prog" where
  "Attach rr source incidentID nodeKind nodeID =
     do {
       ((rootKind, rootID, found), e) \<leftarrow> rr_DownRoot rr nodeKind nodeID;
       (if e \<noteq> None \<or> \<not> found then State_Monad.return ((False, False), e)
        else do {
          ((rootSource, rootIncID, projectID, notified, ok), e) \<leftarrow> RootIncident rootKind rootID;
          (if e \<noteq> None \<or> \<not> ok then State_Monad.return ((False, False), e)
           else if rootSource = source \<and> rootIncID = incidentID then State_Monad.return ((False, False), None)
           else join_group source incidentID rootKind rootID rootSource rootIncID projectID notified)
        })
     }"

definition AttachMetric :: "root_resolver \<Rightarrow> int \<Rightarrow> int \<Rightarrow> string \<Rightarrow> ((bool \<times> bool) \<times> error option) prog" where
  "AttachMetric rr incidentID projectID hostName =
     do {
       r \<leftarrow> sql_read (\<lambda>_ d. find (\<lambda>h. h_project h = projectID \<and> h_name h = hostName) (t_hosts d));
       (case r of
          Inl e \<Rightarrow> State_Monad.return ((False, False), Some e)
        | Inr None \<Rightarrow> State_Monad.return ((False, False), None)
        | Inr (Some h) \<Rightarrow> Attach rr ''metric'' incidentID ''host'' (h_id h))
     }"

record candidate =
  ca_source :: string
  ca_incidentID :: int
  ca_nodeKind :: string
  ca_nodeID :: int

text \<open>\<open>wg.id IS NULL OR wg.resolved_at IS NOT NULL\<close>: the group is gone or closed.\<close>

definition free_row :: "db \<Rightarrow> 'a alert_incident_scheme \<Rightarrow> bool" where
  "free_row d x \<longleftrightarrow>
     (case a_group x of
        None \<Rightarrow> True
      | Some g \<Rightarrow> (case find (\<lambda>r. g_ID r = g) (t_groups d) of None \<Rightarrow> True | Some r \<Rightarrow> g_ResolvedAt r \<noteq> None))"

definition open_candidates :: "int \<Rightarrow> db \<Rightarrow> candidate list" where
  "open_candidates projectID d =
     (let waiting = (\<lambda>project status free. project = projectID \<and> status = ''open'' \<and> free) in
      map (\<lambda>x. \<lparr>ca_source = ''host'', ca_incidentID = a_id x, ca_nodeKind = ''host'', ca_nodeID = hi_host x\<rparr>)
        (filter (\<lambda>x. waiting (a_project x) (a_status x) (free_row d x)) (t_host_incidents d)) @
      [\<lparr>ca_source = ''metric'', ca_incidentID = a_id x, ca_nodeKind = ''host'', ca_nodeID = h_id h\<rparr>.
        x \<leftarrow> filter (\<lambda>x. waiting (a_project x) (a_status x) (free_row d x)) (t_metric_incidents d),
        r \<leftarrow> filter (\<lambda>r. mr_ID r = mi_rule x \<and> mr_LabelKey r = ''host'') (t_metric_rules d),
        h \<leftarrow> filter (\<lambda>h. h_project h = a_project x \<and> h_name h = mr_LabelValue r) (t_hosts d)] @
      [\<lparr>ca_source = ''slo'', ca_incidentID = a_id x, ca_nodeKind = ''monitor'', ca_nodeID = the (sl_MonitorID s)\<rparr>.
        x \<leftarrow> filter (\<lambda>x. waiting (a_project x) (a_status x) (free_row d x)) (t_slo_incidents d),
        s \<leftarrow> filter (\<lambda>s. sl_ID s = si_slo x \<and> sl_Kind s = ''uptime'' \<and> sl_MonitorID s \<noteq> None) (t_slos d)])"

definition openCandidates :: "int \<Rightarrow> candidate list result prog" where
  "openCandidates projectID = sql_read (\<lambda>_. open_candidates projectID)"

fun collect ::
  "root_resolver \<Rightarrow> string \<Rightarrow> int \<Rightarrow> string \<Rightarrow> int \<Rightarrow> int \<Rightarrow> group_row option \<Rightarrow> candidate list \<Rightarrow> error option prog" where
  "collect rr src inc kind node project grp [] = State_Monad.return None"
| "collect rr src inc kind node project grp (c # cs) =
     (if ca_source c = src \<and> ca_incidentID c = inc then collect rr src inc kind node project grp cs
      else do {
        ((rk, rid, found), e) \<leftarrow> rr_DownRoot rr (ca_nodeKind c) (ca_nodeID c);
        (if e \<noteq> None then State_Monad.return e
         else if \<not> found \<or> rk \<noteq> kind \<or> rid \<noteq> node then collect rr src inc kind node project grp cs
         else do {
           g \<leftarrow> (case grp of Some gr \<Rightarrow> State_Monad.return (Inr gr) | None \<Rightarrow> EnsureGroup project src inc kind node);
           (case g of
              Inl e \<Rightarrow> State_Monad.return (Some e)
            | Inr gr \<Rightarrow>
                if grp = None \<and> g_ResolvedAt gr \<noteq> None then State_Monad.return None
                else do {
                  s \<leftarrow> SetGroup project (ca_source c) (ca_incidentID c) (g_ID gr);
                  (case s of Inl e \<Rightarrow> State_Monad.return (Some e) | Inr _ \<Rightarrow> collect rr src inc kind node project (Some gr) cs)
                })
         })
      })"

definition OnRootOpened :: "root_resolver \<Rightarrow> string \<Rightarrow> int \<Rightarrow> string \<Rightarrow> int \<Rightarrow> int \<Rightarrow> error option prog" where
  "OnRootOpened rr rootSource rootIncidentID rootNodeKind rootNodeID projectID =
     do {
       _ \<leftarrow> rr_Invalidate rr;
       r \<leftarrow> openCandidates projectID;
       (case r of
          Inl e \<Rightarrow> State_Monad.return (Some e)
        | Inr cands \<Rightarrow> collect rr rootSource rootIncidentID rootNodeKind rootNodeID projectID None cands)
     }"

definition OnRootClosed :: "string \<Rightarrow> int \<Rightarrow> error option prog" where
  "OnRootClosed rootSource rootIncidentID =
     do {
       r \<leftarrow> Resolve_group rootSource rootIncidentID;
       State_Monad.return (case r of Inl e \<Rightarrow> Some e | Inr _ \<Rightarrow> None)
     }"

subsection \<open>Model: depgate.go\<close>

record b5_checker =
  b5_CheckIncident :: "string \<Rightarrow> int \<Rightarrow> (bool \<times> bool) result prog"
  b5_MarkSuppressed :: "string \<Rightarrow> int \<Rightarrow> error option prog"

record dep_gate =
  dg_Dep :: b5_checker
  dg_Grouper :: "root_resolver option"

definition gate_CheckIncident :: "dep_gate \<Rightarrow> string \<Rightarrow> int \<Rightarrow> (bool \<times> bool) result prog" where
  "gate_CheckIncident d = b5_CheckIncident (dg_Dep d)"

definition gate_MarkSuppressed :: "dep_gate \<Rightarrow> string \<Rightarrow> int \<Rightarrow> error option prog" where
  "gate_MarkSuppressed g source incidentID =
     do {
       e \<leftarrow> b5_MarkSuppressed (dg_Dep g) source incidentID;
       (if e \<noteq> None then State_Monad.return e
        else case dg_Grouper g of
          None \<Rightarrow> State_Monad.return None
        | Some rr \<Rightarrow>
            if source \<noteq> ''host'' then State_Monad.return None
            else do {
              r \<leftarrow> sql_read (\<lambda>_ d. map_option hi_host (find (\<lambda>i. a_id i = incidentID) (t_host_incidents d)));
              (case r of
                 Inl _ \<Rightarrow> State_Monad.return None
               | Inr None \<Rightarrow> State_Monad.return None
               | Inr (Some hostID) \<Rightarrow>
                   do {
                     _ \<leftarrow> Attach rr ''host'' incidentID ''host'' hostID;
                     State_Monad.return None
                   })
            })
     }"

subsection \<open>What the grouper keeps\<close>

text \<open>
  The contract between the grouper and a relation between tables: the resolver of roots and
  the three statements on groups keep it. Then every operation of the grouper keeps it.
\<close>

locale grouper_relation =
  fixes S :: "db \<Rightarrow> db \<Rightarrow> bool" and rr :: root_resolver
  assumes rel: "reflp S" "transp S"
    and roots: "guar (on_db S) (rr_DownRoot rr k n)" "guar (on_db S) (rr_Invalidate rr)"
    and inserts: "S d (snd (insert_group p s i k n t d))"
    and sets: "S d (snd (set_group p s i g d))"
    and closes: "S d (d\<lparr>t_groups := sql_update (\<lambda>g. g_RootSource g = s \<and> g_RootIncidentID g = i \<and> g_ResolvedAt g = None)
        (\<lambda>g. g\<lparr>g_ResolvedAt := Some t\<rparr>) (t_groups d)\<rparr>)"
begin

lemma guar_EnsureGroup: "guar (on_db S) (EnsureGroup p s i k n)"
  unfolding EnsureGroup_def by (intro guar rel inserts)

lemma guar_SetGroup: "guar (on_db S) (SetGroup p s i g)"
  unfolding SetGroup_def by (intro guar rel sets)

lemma guar_Attach: "guar (on_db S) (Attach rr s i k n)"
  unfolding Attach_def RootIncident_def join_group_def MemberEligible_def
  by (intro guar rel roots guar_EnsureGroup guar_SetGroup guar_case_prod_app guar_case_bool)

lemma guar_AttachMetric: "guar (on_db S) (AttachMetric rr i p h)"
  unfolding AttachMetric_def by (intro guar rel guar_Attach)

lemma guar_collect: "guar (on_db S) (collect rr src inc kind node project grp cs)"
proof (induction cs arbitrary: grp)
  case Nil
  show ?case unfolding collect.simps by (intro guar rel)
next
  case (Cons c cs)
  show ?case unfolding collect.simps by (intro guar rel roots guar_EnsureGroup guar_SetGroup guar_case_prod_app Cons.IH)
qed

lemma guar_OnRootOpened: "guar (on_db S) (OnRootOpened rr s i k n p)"
  unfolding OnRootOpened_def openCandidates_def by (intro guar rel roots guar_collect)

lemma guar_OnRootClosed: "guar (on_db S) (OnRootClosed s i)"
  unfolding OnRootClosed_def Resolve_group_def Let_def by (intro guar rel) (simp add: closes)

end

text \<open>The suppressor as resolver, for calls that find no valid snapshot in its cache.\<close>

definition suppressor_roots :: root_resolver where
  "suppressor_roots =
     \<lparr>rr_DownRoot = \<lambda>k n. do { (r, _) \<leftarrow> DownRoot cacheTTL k n None; State_Monad.return r },
      rr_Invalidate = State_Monad.return ()\<rparr>"

lemma guar_suppressor_roots:
  assumes "reflp S" and "transp S"
  shows "guar (on_db S) (rr_DownRoot suppressor_roots k n)" "guar (on_db S) (rr_Invalidate suppressor_roots)"
  unfolding suppressor_roots_def root_resolver.select_convs DownRoot_def ask_def getSnapshot_def loadSnapshot_def option.case
  by (intro guar assms)+

lemma groups_close:
  "groups_progress d (d\<lparr>t_groups := sql_update (\<lambda>g. g_RootSource g = s \<and> g_RootIncidentID g = i \<and> g_ResolvedAt g = None)
     (\<lambda>g. g\<lparr>g_ResolvedAt := Some t\<rparr>) (t_groups d)\<rparr>)"
  by (rule progress_close_groups) simp

interpretation grouped: grouper_relation groups_progress suppressor_roots
  by unfold_locales
     (use groups_progress_rel in \<open>simp_all add: guar_suppressor_roots progress_insert_group groups_close
        progress_same_groups set_group_groups\<close>)

interpretation joined: grouper_relation members_stay suppressor_roots
  by unfold_locales
     (use members_stay_rel in \<open>simp_all add: guar_suppressor_roots members_set_group
        members_insert_group members_progress [OF groups_close]\<close>)

lemma run_suppressor_roots:
  "sched w = [] \<Longrightarrow> run_state (rr_DownRoot suppressor_roots k n) w =
     ((case downRootFromSnapshot (snapshot_of (go_now w) (db w)) (k, n) of None \<Rightarrow> ('''', 0, False) | Some (rk, i) \<Rightarrow> (rk, i, True), None), w)"
  by (simp add: suppressor_roots_def DownRoot_def ask_def getSnapshot_def run_state_bind run_loadSnapshot)

subsection \<open>An incident joins the group of its root\<close>

definition root_incident_of :: "db \<Rightarrow> node \<Rightarrow> (string \<times> int \<times> int \<times> bool) option" where
  "root_incident_of d n =
     (if fst n = ''host'' then map_option (\<lambda>(i, p, b). (''host'', i, p, b)) (host_root (snd n) d)
      else if fst n = ''monitor'' then map_option (\<lambda>(i, p, b). (''uptime'', i, p, b)) (monitor_root (snd n) d)
      else None)"

lemma run_RootIncident:
  assumes "sched w = []" and "rk = ''host'' \<or> rk = ''monitor''"
  shows "run_state (RootIncident rk rid) w =
     ((case root_incident_of (db w) (rk, rid) of None \<Rightarrow> ('''', 0, 0, False, False) | Some (s, i, p, b) \<Rightarrow> (s, i, p, b, True), None), w)"
  using assms(2)
  by (auto simp: RootIncident_def root_incident_of_def run_state_bind assms(1) split: option.splits)

lemma run_EnsureGroup:
  assumes "sched w = []" and "groups_wf (db w)"
  obtains (old) g n where "run_state (EnsureGroup p s i k r) w = (Inr g, w\<lparr>db := (db w)\<lparr>t_group_seq := n\<rparr>\<rparr>)"
      "g \<in> set (t_groups (db w))" "g_RootSource g = s" "g_RootIncidentID g = i" "t_group_seq (db w) < n"
  | (new) g where "run_state (EnsureGroup p s i k r) w = (Inr g, w\<lparr>db := snd (insert_group p s i k r (pg_now w) (db w))\<rparr>)"
      "t_groups (snd (insert_group p s i k r (pg_now w) (db w))) = t_groups (db w) @ [g]" "g_ID g = t_group_seq (db w)"
      "g_RootSource g = s" "g_RootIncidentID g = i" "g_ResolvedAt g = None"
proof (cases "find (\<lambda>x. g_RootSource x = s \<and> g_RootIncidentID x = i) (t_groups (db w))")
  case None
  then have no: "\<not> list_ex (\<lambda>x. g_RootSource x = s \<and> g_RootIncidentID x = i) (t_groups (db w))"
    by (auto simp: find_None_iff list_ex_iff)
  let ?g = "\<lparr>g_ID = t_group_seq (db w), g_ProjectID = p, g_RootSource = s, g_RootIncidentID = i, g_RootNodeKind = k,
      g_RootNodeID = r, g_StartedAt = pg_now w, g_ResolvedAt = None\<rparr>"
  show thesis
    by (rule new [of ?g]) (use no assms in \<open>simp_all add: EnsureGroup_def insert_group_def run_state_bind Let_def\<close>)
next
  case (Some g)
  then have g: "g \<in> set (t_groups (db w))" "g_RootSource g = s" "g_RootIncidentID g = i" by (auto simp: find_Some_iff)
  then have yes: "list_ex (\<lambda>x. g_RootSource x = s \<and> g_RootIncidentID x = i) (t_groups (db w))" by (auto simp: list_ex_iff)
  show thesis
    by (rule old [of g "t_group_seq (db w) + 1"])
       (use yes g assms Some in \<open>simp_all add: EnsureGroup_def insert_group_def run_state_bind Let_def\<close>)
qed

lemma run_MemberEligible:
  "sched w = [] \<Longrightarrow> source \<in> set sourceMeta \<Longrightarrow>
   run_state (MemberEligible p source i) w =
     (Inr (case find (\<lambda>(q, j, g). j = i \<and> q = p) (members_of source (db w)) of None \<Rightarrow> False | Some (_, _, g) \<Rightarrow> may_join (db w) g), w)"
  by (simp add: MemberEligible_def)

text \<open>The outcome of \<open>join_group\<close> when no call fails.\<close>

lemma join_group_outcome:
  assumes w: "sched w = []" and wf: "groups_wf (db w)" and src: "source \<in> set sourceMeta"
    and refs: "\<forall>q j g. (q, j, Some g) \<in> set (members_of source (db w)) \<longrightarrow> g < t_group_seq (db w)"
    and run: "run_state (join_group source inc rk rid rs ri p notified) w = (((attached, informing), None), w')"
  shows "if attached
    then informing = notified \<and> (\<exists>g \<in> set (t_groups (db w')). g_RootSource g = rs \<and> g_RootIncidentID g = ri \<and>
           g_ResolvedAt g = None \<and> (p, inc, Some (g_ID g)) \<in> set (members_of source (db w')))
    else \<not> informing \<and> (\<exists>n. db w' = (db w)\<lparr>t_group_seq := n\<rparr>)"
proof -
  let ?hit = "find (\<lambda>(q, j, g). j = inc \<and> q = p) (members_of source (db w))"
  have same: "\<exists>n. db w = (db w)\<lparr>t_group_seq := n\<rparr>" by (rule exI [of _ "t_group_seq (db w)"]) simp
  show ?thesis
  proof (cases "case ?hit of None \<Rightarrow> False | Some (_, _, g) \<Rightarrow> may_join (db w) g")
    case False
    then have "attached = False" "informing = False" "w' = w"
      using run by (simp_all add: join_group_def run_state_bind run_MemberEligible [OF w src])
    then show ?thesis using same by simp
  next
    case True
    then obtain old where old: "(p, inc, old) \<in> set (members_of source (db w))" "may_join (db w) old"
      by (auto simp: find_Some_iff split: option.splits) (metis nth_mem)
    from True have elig: "run_state (MemberEligible p source inc) w = (Inr True, w)" by (simp add: run_MemberEligible [OF w src])
    show ?thesis
      using w wf
    proof (cases rule: run_EnsureGroup [where p = p and s = rs and i = ri and k = rk and r = rid])
      case (old g n)
      show ?thesis
      proof (cases "g_ResolvedAt g")
        case (Some t)
        then have "attached = False" "informing = False" "w' = w\<lparr>db := (db w)\<lparr>t_group_seq := n\<rparr>\<rparr>"
          using run by (simp_all add: join_group_def run_state_bind elig old(1))
        then show ?thesis by auto
      next
        case None
        let ?d = "(db w)\<lparr>t_group_seq := n\<rparr>"
        have "may_join ?d x \<longleftrightarrow> may_join (db w) x" for x by (simp add: may_join_def group_open_def split: option.split)
        then have won: "fst (set_group p source inc (g_ID g) ?d)"
          using \<open>(p, inc, _) \<in> _\<close> \<open>may_join _ _\<close> by (subst set_group_iff [OF src]) auto
        have "attached" "informing = notified" "db w' = snd (set_group p source inc (g_ID g) ?d)"
          using run None won src w by (auto simp: join_group_def run_state_bind elig old(1) SetGroup_def)
        then show ?thesis
          using set_group_member [OF src won] old None by (auto simp: set_group_groups)
      qed
    next
      case (new g)
      let ?d = "snd (insert_group p rs ri rk rid (pg_now w) (db w))"
      have "\<not> group_open ?d x" if "\<not> group_open (db w) x" "x < t_group_seq (db w)" for x
        using that by (simp add: group_open_def new)
      then have "may_join ?d old" using refs \<open>(p, inc, old) \<in> _\<close> \<open>may_join (db w) old\<close>
        by (auto simp: may_join_def split: option.splits)
      moreover have "members_of source ?d = members_of source (db w)" by (simp add: insert_group_def Let_def)
      ultimately have won: "fst (set_group p source inc (g_ID g) ?d)"
        using \<open>(p, inc, old) \<in> _\<close> by (subst set_group_iff [OF src]) auto
      have "attached" "informing = notified" "db w' = snd (set_group p source inc (g_ID g) ?d)"
        using run won src w by (auto simp: join_group_def run_state_bind elig new(1,6) SetGroup_def)
      then show ?thesis using set_group_member [OF src won] new by (auto simp: set_group_groups)
    qed
  qed
qed

lemma run_Attach:
  assumes w: "sched w = []"
  shows "run_state (Attach suppressor_roots source inc kind node) w =
    (case downRootFromSnapshot (snapshot_of (go_now w) (db w)) (kind, node) of
       None \<Rightarrow> (((False, False), None), w)
     | Some (rk, rid) \<Rightarrow>
         run_state (do {
           ((rs, ri, p, notified, ok), e) \<leftarrow> RootIncident rk rid;
           (if e \<noteq> None \<or> \<not> ok then State_Monad.return ((False, False), e)
            else if rs = source \<and> ri = inc then State_Monad.return ((False, False), None)
            else join_group source inc rk rid rs ri p notified)
         }) w)"
  by (simp add: Attach_def run_state_bind run_suppressor_roots [OF w] split: option.splits)

text \<open>
  C19: an incident joins the group of the root of its outage, and no group is left empty. When no
  call fails, \<open>Attach\<close> either makes the incident a member of the one open group whose
  root is the open incident of the node that \<open>DownRoot\<close> names, and then says that the
  root informs exactly when that incident has been notified; or it changes neither
  incidents nor groups (it may use up a group number).
\<close>

theorem attach_joins_group_of_root:
  assumes "sched w = []" and "groups_wf (db w)" and "source \<in> set sourceMeta"
    and "\<forall>q j g. (q, j, Some g) \<in> set (members_of source (db w)) \<longrightarrow> g < t_group_seq (db w)"
    and run: "run_state (Attach suppressor_roots source inc kind node) w = (((attached, informing), None), w')"
  shows "if attached
    then (\<exists>rt rs ri p. downRootFromSnapshot (snapshot_of (go_now w) (db w)) (kind, node) = Some rt \<and>
           root_incident_of (db w) rt = Some (rs, ri, p, informing) \<and> (rs, ri) \<noteq> (source, inc) \<and>
           (\<exists>g \<in> set (t_groups (db w')). g_RootSource g = rs \<and> g_RootIncidentID g = ri \<and> g_ResolvedAt g = None \<and>
              (p, inc, Some (g_ID g)) \<in> set (members_of source (db w'))))
    else \<not> informing \<and> (\<exists>n. db w' = (db w)\<lparr>t_group_seq := n\<rparr>)"
proof -
  have same: "\<exists>n. db w = (db w)\<lparr>t_group_seq := n\<rparr>" by (rule exI [of _ "t_group_seq (db w)"]) simp
  show ?thesis
  proof (cases "downRootFromSnapshot (snapshot_of (go_now w) (db w)) (kind, node)")
    case None
    then show ?thesis using run same by (simp add: run_Attach [OF assms(1)])
  next
    case (Some rt)
    obtain rk rid where rt: "rt = (rk, rid)" by (cases rt)
    show ?thesis
    proof (cases "rk = ''host'' \<or> rk = ''monitor''")
      case False
      then show ?thesis
        using run same by (simp add: run_Attach [OF assms(1)] Some rt RootIncident_def run_state_bind)
    next
      case True
      note root = run_RootIncident [OF assms(1) True, of rid]
      show ?thesis
      proof (cases "root_incident_of (db w) (rk, rid)")
        case None
        then show ?thesis using run same by (simp add: run_Attach [OF assms(1)] Some rt run_state_bind root)
      next
        case ri: (Some r)
        obtain rs i p notified where r: "r = (rs, i, p, notified)" by (metis prod_cases4)
        show ?thesis
        proof (cases "rs = source \<and> i = inc")
          case True
          then show ?thesis using run same by (simp add: run_Attach [OF assms(1)] Some rt run_state_bind root ri r)
        next
          case False
          then have "run_state (join_group source inc rk rid rs i p notified) w = (((attached, informing), None), w')"
            using run by (auto simp: run_Attach [OF assms(1)] Some rt run_state_bind root ri r split: if_splits)
          from join_group_outcome [OF assms(1-4) this] show ?thesis
            using False Some ri by (cases attached) (auto simp: rt r)
        qed
      qed
    qed
  qed
qed

text \<open>The outage of \<open>ex_outage\<close>: three hosts, each the parent of the next.\<close>

definition ex_chain :: db where
  "ex_chain = ex_outage\<lparr>t_host_incidents := map ex_silent [1, 2] @ [(ex_silent 3)\<lparr>a_notified_open := False, a_level := 0\<rparr>]\<rparr>"

theorem attach_joins_group_of_root_witness:
  "let w' = snd (run_state (Attach suppressor_roots ''host'' 3 ''host'' 3) (calm 5 ex_chain))
   in \<exists>g \<in> set (t_groups (db w')). g_RootSource g = ''host'' \<and> g_RootIncidentID g = 1 \<and> g_ResolvedAt g = None \<and>
        (1, 3, Some (g_ID g)) \<in> set (members_of ''host'' (db w'))"
proof -
  let ?run = "run_state (Attach suppressor_roots ''host'' 3 ''host'' 3) (calm 5 ex_chain)"
  have wf: "groups_wf (db (calm 5 ex_chain))" unfolding groups_wf_def by code_simp
  have "members_of ''host'' (db (calm 5 ex_chain)) = [(1, 1, None), (1, 2, None), (1, 3, None)]" by code_simp
  then have refs: "\<forall>q j g. (q, j, Some g) \<in> set (members_of ''host'' (db (calm 5 ex_chain))) \<longrightarrow> g < t_group_seq (db (calm 5 ex_chain))"
    by simp
  have src: "''host'' \<in> set sourceMeta" by code_simp
  have "fst ?run = ((True, True), None)" by code_simp
  then have run: "?run = (((True, True), None), snd ?run)" by (simp add: prod_eq_iff)
  have root: "downRootFromSnapshot (snapshot_of 5 ex_chain) (''host'', 3) = Some (''host'', 1)" by code_simp
  have "root_incident_of ex_chain (''host'', 1) = Some (''host'', 1, 1, True)" by code_simp
  then show ?thesis
    using attach_joins_group_of_root [OF _ wf src refs run] root by (simp add: Let_def)
qed

end
