(* ===== verification/Outage_Hooks.thy ===== *)
theory Outage_Hooks
  imports Uptime_Detector Group_Attach
begin

text \<open>
  The dependency suppressor and the grouper behind the interfaces through which detector and
  evaluators call them (\<open>depChecker\<close>, \<open>groupHook\<close>), and what the two keep.
\<close>

text \<open>
  The suppressor as the dependency checker of the detector, for calls that find no valid
  snapshot in its cache and read the tables.
\<close>

definition suppressor_checker :: parent_checker where
  "suppressor_checker =
     \<lparr>pk_HasParent = \<lambda>k n. do { (r, _) \<leftarrow> HasParent cacheTTL k n None; State_Monad.return r },
      pk_ParentDown = \<lambda>k n. do { (r, _) \<leftarrow> ParentDown cacheTTL k n None; State_Monad.return r },
      pk_DownRoot = \<lambda>k n. do { (r, _) \<leftarrow> DownRoot cacheTTL k n None; State_Monad.return r }\<rparr>"

lemma guar_suppressor:
  assumes "reflp R" and "transp R"
  shows "guar (on_db R) (pk_HasParent suppressor_checker k n)" "guar (on_db R) (pk_ParentDown suppressor_checker k n)"
    "guar (on_db R) (pk_DownRoot suppressor_checker k n)"
  unfolding suppressor_checker_def parent_checker.select_convs HasParent_def ParentDown_def DownRoot_def ask_def getSnapshot_def
    loadSnapshot_def option.case
  by (intro guar assms)+

text \<open>The grouper over the suppressor, as the hook of detector and evaluators.\<close>

definition suppressor_hook :: group_hook where
  "suppressor_hook =
     \<lparr>gh_Attach = Attach suppressor_roots, gh_OnRootOpened = OnRootOpened suppressor_roots,
      gh_OnRootClosed = OnRootClosed, gh_RootIncident = RootIncident\<rparr>"

lemma guar_suppressor_hook:
  assumes "grouper_relation S suppressor_roots"
  shows "guar (on_db S) (gh_Attach suppressor_hook s i k n)" "guar (on_db S) (gh_OnRootOpened suppressor_hook s i k n p)"
    "guar (on_db S) (gh_OnRootClosed suppressor_hook s i)" "guar (on_db S) (gh_RootIncident suppressor_hook k n)"
  unfolding suppressor_hook_def group_hook.select_convs RootIncident_def
  by (intro grouper_relation.guar_Attach [OF assms] grouper_relation.guar_OnRootOpened [OF assms]
      grouper_relation.guar_OnRootClosed [OF assms] guar grouper_relation.rel [OF assms])+

end
