(* ===== verification/Host_Settings.thy ===== *)
theory Host_Settings
  imports Store "HOL-Library.AList" "HOL-Library.List_Lexorder" "HOL-Library.Char_ord" "HOL-Library.Product_Lexorder"
begin

text \<open>
  \<open>internal/host/settings.go\<close>, \<open>override.go\<close> and \<open>resolve.go\<close>: the thresholds of host alerts.
  A project has settings; a host, and a group of hosts that share a role or an environment,
  may override single fields; the resolver picks for each kind the most specific level
  that sets the field. The properties: what is stored is always valid and so is what
  the resolver returns; the resolver is the overlay of the levels in their order; and
  storing and reading settings is a round trip to the second.
\<close>

subsection \<open>Model: settings.go\<close>

definition MinSilentAfter :: duration where "MinSilentAfter = 180 * second"
definition MaxSilentAfter :: duration where "MaxSilentAfter = 12 * hour"

definition DefaultSettings :: host_settings where
  "DefaultSettings = \<lparr>hs_DiskEnabled = True, hs_DiskThreshold = 9 / 10, hs_MemoryEnabled = True, hs_MemoryThreshold = 9 / 10,
     hs_LoadEnabled = True, hs_LoadThreshold = 2, hs_SilentEnabled = True, hs_SilentAfter = 5 * minute\<rparr>"

definition KindEnabled :: "host_settings \<Rightarrow> string \<Rightarrow> bool \<times> bool" where
  "KindEnabled s kind =
     (if kind = ''disk'' then (hs_DiskEnabled s, True)
      else if kind = ''memory'' then (hs_MemoryEnabled s, True)
      else if kind = ''load'' then (hs_LoadEnabled s, True)
      else if kind = ''silent'' then (hs_SilentEnabled s, True)
      else (False, False))"

definition ErrInvalidDiskThreshold :: error where "ErrInvalidDiskThreshold = ErrMsg ''disk threshold must be in (0, 1)''"
definition ErrInvalidMemoryThreshold :: error where "ErrInvalidMemoryThreshold = ErrMsg ''memory threshold must be in (0, 1)''"
definition ErrInvalidLoadThreshold :: error where "ErrInvalidLoadThreshold = ErrMsg ''load threshold must be > 0''"
definition ErrInvalidSilentAfter :: error where "ErrInvalidSilentAfter = ErrMsg ''silent after must be between 180s and 12h''"

definition Validate_settings :: "host_settings \<Rightarrow> error option" where
  "Validate_settings s =
     (if hs_DiskThreshold s \<le> 0 \<or> hs_DiskThreshold s \<ge> 1 then Some ErrInvalidDiskThreshold
      else if hs_MemoryThreshold s \<le> 0 \<or> hs_MemoryThreshold s \<ge> 1 then Some ErrInvalidMemoryThreshold
      else if hs_LoadThreshold s \<le> 0 then Some ErrInvalidLoadThreshold
      else if hs_SilentAfter s < MinSilentAfter \<or> hs_SilentAfter s > MaxSilentAfter then Some ErrInvalidSilentAfter
      else None)"

text \<open>
  The column \<open>silent_after_seconds\<close> holds whole seconds: a stored row has the duration
  truncated to seconds. The checks of the table are weaker than \<open>Validate\<close>; the foreign key
  to \<open>projects\<close> may fail.
\<close>

definition whole_seconds :: "duration \<Rightarrow> duration" where
  "whole_seconds t = quot t second * second"

definition project_exists :: "db \<Rightarrow> int \<Rightarrow> bool" where
  "project_exists d projectID \<longleftrightarrow> list_ex (\<lambda>p. fst p = projectID) (t_projects d)"

definition GetWithExists :: "int \<Rightarrow> (host_settings \<times> bool) result prog" where
  "GetWithExists projectID =
     sql_read (\<lambda>_ d. case map_of (t_host_settings d) projectID of None \<Rightarrow> (DefaultSettings, False) | Some s \<Rightarrow> (s, True))"

definition Get_settings :: "int \<Rightarrow> host_settings result prog" where
  "Get_settings projectID =
     do {
       r \<leftarrow> GetWithExists projectID;
       State_Monad.return (case r of Inl e \<Rightarrow> Inl e | Inr (out, _) \<Rightarrow> Inr out)
     }"

definition put_settings :: "int \<Rightarrow> host_settings \<Rightarrow> db \<Rightarrow> bool \<times> db" where
  "put_settings projectID s d =
     (if project_exists d projectID
      then (True, d\<lparr>t_host_settings := AList.update projectID (s\<lparr>hs_SilentAfter := whole_seconds (hs_SilentAfter s)\<rparr>) (t_host_settings d)\<rparr>)
      else (False, d))"

definition saved :: "bool result \<Rightarrow> error option" where
  "saved r = (case r of Inl e \<Rightarrow> Some e | Inr ok \<Rightarrow> if ok then None else Some ErrDB)"

definition Save_settings :: "int \<Rightarrow> host_settings \<Rightarrow> error option prog" where
  "Save_settings projectID s =
     (case Validate_settings s of
        Some e \<Rightarrow> State_Monad.return (Some e)
      | None \<Rightarrow> do { r \<leftarrow> sql (\<lambda>_. put_settings projectID s); State_Monad.return (saved r) })"

subsection \<open>Model: override.go\<close>

definition validateKindOverride :: "bool option \<Rightarrow> rat option \<Rightarrow> (rat \<Rightarrow> bool) \<Rightarrow> error \<Rightarrow> error option" where
  "validateKindOverride enabled val inBounds sentinel =
     (if enabled = None \<and> val \<noteq> None then Some sentinel
      else if enabled = Some True \<and> val = None then Some sentinel
      else case val of None \<Rightarrow> None | Some v \<Rightarrow> if inBounds v then None else Some sentinel)"

definition validateSilentOverride :: "bool option \<Rightarrow> duration option \<Rightarrow> error option" where
  "validateSilentOverride enabled after =
     (if enabled = None \<and> after \<noteq> None then Some ErrInvalidSilentAfter
      else if enabled = Some True \<and> after = None then Some ErrInvalidSilentAfter
      else case after of None \<Rightarrow> None
           | Some v \<Rightarrow> if v < MinSilentAfter \<or> v > MaxSilentAfter then Some ErrInvalidSilentAfter else None)"

definition ValidateOverride :: "threshold_override \<Rightarrow> error option" where
  "ValidateOverride ov =
     (case validateKindOverride (to_DiskEnabled ov) (to_DiskThreshold ov) (\<lambda>v. 0 < v \<and> v < 1) ErrInvalidDiskThreshold of
        Some e \<Rightarrow> Some e
      | None \<Rightarrow>
     (case validateKindOverride (to_MemoryEnabled ov) (to_MemoryThreshold ov) (\<lambda>v. 0 < v \<and> v < 1) ErrInvalidMemoryThreshold of
        Some e \<Rightarrow> Some e
      | None \<Rightarrow>
     (case validateKindOverride (to_LoadEnabled ov) (to_LoadThreshold ov) (\<lambda>v. 0 < v) ErrInvalidLoadThreshold of
        Some e \<Rightarrow> Some e
      | None \<Rightarrow> validateSilentOverride (to_SilentEnabled ov) (to_SilentAfter ov))))"

definition no_override :: threshold_override where
  "no_override = \<lparr>to_DiskEnabled = None, to_DiskThreshold = None, to_MemoryEnabled = None, to_MemoryThreshold = None,
     to_LoadEnabled = None, to_LoadThreshold = None, to_SilentEnabled = None, to_SilentAfter = None\<rparr>"

definition stored_override :: "threshold_override \<Rightarrow> threshold_override" where
  "stored_override ov = ov\<lparr>to_SilentAfter := map_option whole_seconds (to_SilentAfter ov)\<rparr>"

definition Get_override :: "int \<Rightarrow> threshold_override result prog" where
  "Get_override hostID = sql_read (\<lambda>_ d. case map_of (t_host_overrides d) hostID of None \<Rightarrow> no_override | Some ov \<Rightarrow> ov)"

definition put_override :: "int \<Rightarrow> threshold_override \<Rightarrow> db \<Rightarrow> bool \<times> db" where
  "put_override hostID ov d =
     (if list_ex (\<lambda>h. h_id h = hostID) (t_hosts d)
      then (True, d\<lparr>t_host_overrides := AList.update hostID (stored_override ov) (t_host_overrides d)\<rparr>)
      else (False, d))"

definition Save_override :: "int \<Rightarrow> threshold_override \<Rightarrow> error option prog" where
  "Save_override hostID ov =
     (case ValidateOverride ov of
        Some e \<Rightarrow> State_Monad.return (Some e)
      | None \<Rightarrow> do { r \<leftarrow> sql (\<lambda>_. put_override hostID ov); State_Monad.return (saved r) })"

definition GetForHosts :: "int list \<Rightarrow> (int \<rightharpoonup> threshold_override) result prog" where
  "GetForHosts hostIDs =
     (if hostIDs = [] then State_Monad.return (Inr Map.empty)
      else sql_read (\<lambda>_ d h. if h \<in> set hostIDs then map_of (t_host_overrides d) h else None))"

record group_threshold =
  gt_Scope :: string
  gt_Label :: string
  gt_Override :: threshold_override

definition List_thresholds :: "int \<Rightarrow> group_threshold list result prog" where
  "List_thresholds projectID =
     sql_read (\<lambda>_ d. sort_key (\<lambda>g. (gt_Scope g, gt_Label g))
       (map (\<lambda>((_, scope, label), ov). \<lparr>gt_Scope = scope, gt_Label = label, gt_Override = ov\<rparr>)
         (filter (\<lambda>((p, _, _), _). p = projectID) (t_host_group_thresholds d))))"

definition put_threshold :: "int \<Rightarrow> string \<Rightarrow> string \<Rightarrow> threshold_override \<Rightarrow> db \<Rightarrow> bool \<times> db" where
  "put_threshold projectID scope label ov d =
     (if project_exists d projectID \<and> scope \<in> {''env'', ''role''}
      then (True, d\<lparr>t_host_group_thresholds := AList.update (projectID, scope, label) (stored_override ov) (t_host_group_thresholds d)\<rparr>)
      else (False, d))"

definition Upsert_threshold :: "int \<Rightarrow> string \<Rightarrow> string \<Rightarrow> threshold_override \<Rightarrow> error option prog" where
  "Upsert_threshold projectID scope label ov =
     (case ValidateOverride ov of
        Some e \<Rightarrow> State_Monad.return (Some e)
      | None \<Rightarrow> do { r \<leftarrow> sql (\<lambda>_. put_threshold projectID scope label ov); State_Monad.return (saved r) })"

definition Delete_threshold :: "int \<Rightarrow> string \<Rightarrow> string \<Rightarrow> error option prog" where
  "Delete_threshold projectID scope label =
     do {
       r \<leftarrow> sql (\<lambda>_ d. ((), d\<lparr>t_host_group_thresholds :=
              sql_delete (\<lambda>(k, _). k = (projectID, scope, label)) (t_host_group_thresholds d)\<rparr>));
       State_Monad.return (case r of Inl e \<Rightarrow> Some e | Inr _ \<Rightarrow> None)
     }"

subsection \<open>Model: resolve.go\<close>

datatype level = LevelHost | LevelRole | LevelEnv | LevelProject | LevelDefault

record threshold_source =
  ts_Level :: level
  ts_Label :: string

record effective_settings =
  es_Settings :: host_settings
  es_DiskSource :: threshold_source
  es_MemorySource :: threshold_source
  es_LoadSource :: threshold_source
  es_SilentSource :: threshold_source

record threshold_resolver =
  tr_Project :: host_settings
  tr_ProjectExists :: bool
  tr_Groups :: "group_threshold list"
  tr_Overrides :: "int \<rightharpoonup> threshold_override"

definition resolver_group :: "threshold_resolver \<Rightarrow> string \<Rightarrow> string \<Rightarrow> threshold_override \<times> bool" where
  "resolver_group r scope label =
     (if label = '''' then (no_override, False)
      else case find (\<lambda>g. gt_Scope g = scope \<and> gt_Label g = label) (tr_Groups r) of
             Some g \<Rightarrow> (gt_Override g, True) | None \<Rightarrow> (no_override, False))"

record 'v level_candidate =
  lc_level :: level
  lc_label :: string
  lc_enabled :: "bool option"
  lc_value :: "'v option"

definition levelCandidates ::
  "threshold_override \<Rightarrow> threshold_override \<Rightarrow> threshold_override \<Rightarrow> host_row \<Rightarrow> (threshold_override \<Rightarrow> bool option \<times> 'v option) \<Rightarrow>
   'v level_candidate list" where
  "levelCandidates hostOv roleOv envOv h get =
     [\<lparr>lc_level = LevelHost, lc_label = '''', lc_enabled = fst (get hostOv), lc_value = snd (get hostOv)\<rparr>,
      \<lparr>lc_level = LevelRole, lc_label = h_role h, lc_enabled = fst (get roleOv), lc_value = snd (get roleOv)\<rparr>,
      \<lparr>lc_level = LevelEnv, lc_label = h_env h, lc_enabled = fst (get envOv), lc_value = snd (get envOv)\<rparr>]"

definition resolveKind :: "'v level_candidate list \<Rightarrow> bool \<Rightarrow> 'v \<Rightarrow> level \<Rightarrow> bool \<times> 'v \<times> threshold_source" where
  "resolveKind candidates projectEnabled projectValue projectLevel =
     ((case find (\<lambda>c. lc_enabled c \<noteq> None) candidates of Some c \<Rightarrow> the (lc_enabled c) | None \<Rightarrow> projectEnabled),
      (case find (\<lambda>c. lc_value c \<noteq> None) candidates of Some c \<Rightarrow> the (lc_value c) | None \<Rightarrow> projectValue),
      (case find (\<lambda>c. lc_enabled c \<noteq> None) candidates of
         Some c \<Rightarrow> \<lparr>ts_Level = lc_level c, ts_Label = lc_label c\<rparr> | None \<Rightarrow> \<lparr>ts_Level = projectLevel, ts_Label = ''''\<rparr>))"

definition Effective :: "threshold_resolver \<Rightarrow> host_row \<Rightarrow> effective_settings" where
  "Effective r h =
     (let hostOv = (case tr_Overrides r (h_id h) of Some ov \<Rightarrow> ov | None \<Rightarrow> no_override);
          roleOv = fst (resolver_group r ''role'' (h_role h));
          envOv = fst (resolver_group r ''env'' (h_env h));
          projectLevel = (if tr_ProjectExists r then LevelProject else LevelDefault);
          p = tr_Project r;
          (de, dv, ds) = resolveKind (levelCandidates hostOv roleOv envOv h (\<lambda>ov. (to_DiskEnabled ov, to_DiskThreshold ov)))
            (hs_DiskEnabled p) (hs_DiskThreshold p) projectLevel;
          (me, mv, ms) = resolveKind (levelCandidates hostOv roleOv envOv h (\<lambda>ov. (to_MemoryEnabled ov, to_MemoryThreshold ov)))
            (hs_MemoryEnabled p) (hs_MemoryThreshold p) projectLevel;
          (le, lv, ls) = resolveKind (levelCandidates hostOv roleOv envOv h (\<lambda>ov. (to_LoadEnabled ov, to_LoadThreshold ov)))
            (hs_LoadEnabled p) (hs_LoadThreshold p) projectLevel;
          (se, sv, ss) = resolveKind (levelCandidates hostOv roleOv envOv h (\<lambda>ov. (to_SilentEnabled ov, to_SilentAfter ov)))
            (hs_SilentEnabled p) (hs_SilentAfter p) projectLevel
      in \<lparr>es_Settings = \<lparr>hs_DiskEnabled = de, hs_DiskThreshold = dv, hs_MemoryEnabled = me, hs_MemoryThreshold = mv,
            hs_LoadEnabled = le, hs_LoadThreshold = lv, hs_SilentEnabled = se, hs_SilentAfter = sv\<rparr>,
          es_DiskSource = ds, es_MemorySource = ms, es_LoadSource = ls, es_SilentSource = ss\<rparr>)"

subsection \<open>What is stored is valid\<close>

definition thresholds_wf :: "db \<Rightarrow> bool" where
  "thresholds_wf d \<longleftrightarrow>
     list_all (\<lambda>(_, s). Validate_settings s = None) (t_host_settings d) \<and>
     list_all (\<lambda>(_, ov). ValidateOverride ov = None) (t_host_overrides d) \<and>
     list_all (\<lambda>(_, ov). ValidateOverride ov = None) (t_host_group_thresholds d)"

lemma whole_seconds_bounds:
  "MinSilentAfter \<le> t \<Longrightarrow> t \<le> MaxSilentAfter \<Longrightarrow> MinSilentAfter \<le> whole_seconds t \<and> whole_seconds t \<le> MaxSilentAfter"
  by (simp add: whole_seconds_def MinSilentAfter_def MaxSilentAfter_def quot_nonneg) linarith

lemma validate_stored:
  "Validate_settings s = None \<Longrightarrow> Validate_settings (s\<lparr>hs_SilentAfter := whole_seconds (hs_SilentAfter s)\<rparr>) = None"
  using whole_seconds_bounds [of "hs_SilentAfter s"] by (auto simp: Validate_settings_def split: if_splits)

lemma validateSilent_stored:
  "validateSilentOverride e a = None \<Longrightarrow> validateSilentOverride e (map_option whole_seconds a) = None"
proof (cases a)
  case (Some t)
  then show "validateSilentOverride e a = None \<Longrightarrow> ?thesis"
    using whole_seconds_bounds [of t] by (auto simp: validateSilentOverride_def split: if_splits)
qed simp

lemma validate_stored_override: "ValidateOverride ov = None \<Longrightarrow> ValidateOverride (stored_override ov) = None"
  by (auto simp: ValidateOverride_def stored_override_def validateSilent_stored split: option.splits)

lemma list_all_update:
  "list_all (\<lambda>(_, v). P v) xs \<Longrightarrow> P v \<Longrightarrow> list_all (\<lambda>(_, v). P v) (AList.update k v xs)"
  by (induction xs) auto

datatype threshold_op =
    ToSaveSettings int host_settings
  | ToSaveOverride int threshold_override
  | ToUpsertGroup int string string threshold_override
  | ToDeleteGroup int string string

primrec run_threshold_op :: "threshold_op \<Rightarrow> unit prog" where
  "run_threshold_op (ToSaveSettings p s) = ignore (Save_settings p s)"
| "run_threshold_op (ToSaveOverride h ov) = ignore (Save_override h ov)"
| "run_threshold_op (ToUpsertGroup p sc l ov) = ignore (Upsert_threshold p sc l ov)"
| "run_threshold_op (ToDeleteGroup p sc l) = ignore (Delete_threshold p sc l)"

lemma thresholds_wf_puts:
  "Validate_settings s = None \<Longrightarrow> inv_rel thresholds_wf d (snd (put_settings p s d))"
  "ValidateOverride ov = None \<Longrightarrow> inv_rel thresholds_wf d (snd (put_override h ov d))"
  "ValidateOverride ov = None \<Longrightarrow> inv_rel thresholds_wf d (snd (put_threshold p sc l ov d))"
  by (auto simp: inv_rel_def thresholds_wf_def put_settings_def put_override_def put_threshold_def list_all_update
    validate_stored validate_stored_override)

lemma thresholds_wf_delete:
  "inv_rel thresholds_wf d (d\<lparr>t_host_group_thresholds := sql_delete p (t_host_group_thresholds d)\<rparr>)"
  by (auto simp: inv_rel_def thresholds_wf_def sql_delete_def list_all_iff)

lemma guar_threshold_op: "guar (on_db (inv_rel thresholds_wf)) (run_threshold_op oper)"
proof (cases oper)
  case (ToSaveSettings p s)
  then show ?thesis
    by (cases "Validate_settings s") (auto intro!: guar simp: Save_settings_def thresholds_wf_puts)
next
  case (ToSaveOverride h ov)
  then show ?thesis
    by (cases "ValidateOverride ov") (auto intro!: guar simp: Save_override_def thresholds_wf_puts)
next
  case (ToUpsertGroup p sc l ov)
  then show ?thesis
    by (cases "ValidateOverride ov") (auto intro!: guar simp: Upsert_threshold_def thresholds_wf_puts)
next
  case (ToDeleteGroup p sc l)
  then show ?thesis by (auto intro!: guar simp: Delete_threshold_def thresholds_wf_delete)
qed

subsection \<open>The cascade\<close>

text \<open>The reference: an override laid over another, and over the settings of a project.\<close>

definition first_set :: "'v option \<Rightarrow> 'v option \<Rightarrow> 'v option" where
  "first_set a b = (case a of Some v \<Rightarrow> Some v | None \<Rightarrow> b)"

definition override_over :: "threshold_override \<Rightarrow> threshold_override \<Rightarrow> threshold_override" where
  "override_over a b =
     \<lparr>to_DiskEnabled = first_set (to_DiskEnabled a) (to_DiskEnabled b),
      to_DiskThreshold = first_set (to_DiskThreshold a) (to_DiskThreshold b),
      to_MemoryEnabled = first_set (to_MemoryEnabled a) (to_MemoryEnabled b),
      to_MemoryThreshold = first_set (to_MemoryThreshold a) (to_MemoryThreshold b),
      to_LoadEnabled = first_set (to_LoadEnabled a) (to_LoadEnabled b),
      to_LoadThreshold = first_set (to_LoadThreshold a) (to_LoadThreshold b),
      to_SilentEnabled = first_set (to_SilentEnabled a) (to_SilentEnabled b),
      to_SilentAfter = first_set (to_SilentAfter a) (to_SilentAfter b)\<rparr>"

definition settings_under :: "threshold_override \<Rightarrow> host_settings \<Rightarrow> host_settings" where
  "settings_under ov s =
     \<lparr>hs_DiskEnabled = case_option (hs_DiskEnabled s) id (to_DiskEnabled ov),
      hs_DiskThreshold = case_option (hs_DiskThreshold s) id (to_DiskThreshold ov),
      hs_MemoryEnabled = case_option (hs_MemoryEnabled s) id (to_MemoryEnabled ov),
      hs_MemoryThreshold = case_option (hs_MemoryThreshold s) id (to_MemoryThreshold ov),
      hs_LoadEnabled = case_option (hs_LoadEnabled s) id (to_LoadEnabled ov),
      hs_LoadThreshold = case_option (hs_LoadThreshold s) id (to_LoadThreshold ov),
      hs_SilentEnabled = case_option (hs_SilentEnabled s) id (to_SilentEnabled ov),
      hs_SilentAfter = case_option (hs_SilentAfter s) id (to_SilentAfter ov)\<rparr>"

definition host_override :: "threshold_resolver \<Rightarrow> host_row \<Rightarrow> threshold_override" where
  "host_override r h = (case tr_Overrides r (h_id h) of Some ov \<Rightarrow> ov | None \<Rightarrow> no_override)"

definition group_override :: "threshold_resolver \<Rightarrow> string \<Rightarrow> string \<Rightarrow> threshold_override" where
  "group_override r scope label =
     (if label = '''' then no_override
      else case find (\<lambda>g. gt_Scope g = scope \<and> gt_Label g = label) (tr_Groups r) of Some g \<Rightarrow> gt_Override g | None \<Rightarrow> no_override)"

lemma resolveKind_candidates:
  "resolveKind (levelCandidates a b c h get) e v l =
     (case_option e id (first_set (fst (get a)) (first_set (fst (get b)) (fst (get c)))),
      case_option v id (first_set (snd (get a)) (first_set (snd (get b)) (snd (get c)))),
      if fst (get a) \<noteq> None then \<lparr>ts_Level = LevelHost, ts_Label = ''''\<rparr>
      else if fst (get b) \<noteq> None then \<lparr>ts_Level = LevelRole, ts_Label = h_role h\<rparr>
      else if fst (get c) \<noteq> None then \<lparr>ts_Level = LevelEnv, ts_Label = h_env h\<rparr>
      else \<lparr>ts_Level = l, ts_Label = ''''\<rparr>)"
  by (auto simp: resolveKind_def levelCandidates_def first_set_def split: option.splits)

lemma resolver_group_override: "fst (resolver_group r scope label) = group_override r scope label"
  by (simp add: resolver_group_def group_override_def split: option.splits)

lemma Effective_settings:
  "es_Settings (Effective r h) =
     settings_under (override_over (host_override r h)
       (override_over (group_override r ''role'' (h_role h)) (group_override r ''env'' (h_env h)))) (tr_Project r)"
  by (simp add: Effective_def Let_def resolveKind_candidates resolver_group_override host_override_def settings_under_def override_over_def)


text \<open>An overlay of valid levels is valid: the bounds of a field do not depend on its level.\<close>

definition override_in_bounds :: "threshold_override \<Rightarrow> bool" where
  "override_in_bounds ov \<longleftrightarrow>
     (case to_DiskThreshold ov of None \<Rightarrow> True | Some v \<Rightarrow> 0 < v \<and> v < 1) \<and>
     (case to_MemoryThreshold ov of None \<Rightarrow> True | Some v \<Rightarrow> 0 < v \<and> v < 1) \<and>
     (case to_LoadThreshold ov of None \<Rightarrow> True | Some v \<Rightarrow> 0 < v) \<and>
     (case to_SilentAfter ov of None \<Rightarrow> True | Some v \<Rightarrow> MinSilentAfter \<le> v \<and> v \<le> MaxSilentAfter)"

lemma ValidateOverride_in_bounds: "ValidateOverride ov = None \<Longrightarrow> override_in_bounds ov"
  by (auto simp: override_in_bounds_def ValidateOverride_def validateKindOverride_def validateSilentOverride_def
    split: option.splits if_splits)

lemma in_bounds_over: "override_in_bounds a \<Longrightarrow> override_in_bounds b \<Longrightarrow> override_in_bounds (override_over a b)"
  by (simp add: override_in_bounds_def override_over_def first_set_def split: option.splits)

lemma in_bounds_none: "override_in_bounds no_override"
  by (simp add: override_in_bounds_def no_override_def)

lemma settings_under_valid:
  "override_in_bounds ov \<Longrightarrow> Validate_settings s = None \<Longrightarrow> Validate_settings (settings_under ov s) = None"
  by (auto simp: override_in_bounds_def settings_under_def Validate_settings_def split: option.splits if_splits)

lemma Effective_valid:
  assumes "Validate_settings (tr_Project r) = None"
    and "\<And>g. g \<in> set (tr_Groups r) \<Longrightarrow> ValidateOverride (gt_Override g) = None"
    and "\<And>i ov. tr_Overrides r i = Some ov \<Longrightarrow> ValidateOverride ov = None"
  shows "Validate_settings (es_Settings (Effective r h)) = None"
proof -
  have "override_in_bounds (gt_Override g)" if "g \<in> set (tr_Groups r)" for g
    using ValidateOverride_in_bounds [OF assms(2) [OF that]] .
  then have "override_in_bounds (group_override r scope label)" for scope label
    by (auto simp: group_override_def in_bounds_none find_Some_iff split: option.splits)
  moreover have "override_in_bounds (host_override r h)"
    using ValidateOverride_in_bounds assms(3) in_bounds_none by (simp add: host_override_def split: option.split)
  ultimately show ?thesis
    unfolding Effective_settings by (intro settings_under_valid in_bounds_over assms(1))
qed

text \<open>
  Thresholds that are stored stay valid: whatever settings, overrides and group
  thresholds are written or deleted, whatever faults the statements meet, every row passes
  the validation of its kind again when it is read; and then what the resolver makes of any
  rows of the three tables is valid too, so no host is ever judged by a threshold that the
  code would refuse (a share of 1 or more that nothing exceeds, a silence below the interval of
  registration).
\<close>

theorem thresholds_stay_valid:
  assumes "thresholds_wf (db w)" and "run_state (for_each ops run_threshold_op) w = ((), w')"
    and "run_state (GetWithExists projectID) w' = (Inr (s, known), w1)"
    and "run_state (List_thresholds projectID) w' = (Inr groups, w2)"
    and "run_state (GetForHosts hostIDs) w' = (Inr overrides, w3)"
  shows "thresholds_wf (db w') \<and>
         Validate_settings (es_Settings (Effective
           \<lparr>tr_Project = s, tr_ProjectExists = known, tr_Groups = groups, tr_Overrides = overrides\<rparr> h)) = None"
proof -
  have "guar (on_db (inv_rel thresholds_wf)) (for_each ops run_threshold_op)" by (intro guar guar_threshold_op)
  from guarD [OF this, of w] have wf: "thresholds_wf (db w')" using assms(1,2) by (simp add: on_db_def inv_rel_def)
  have "Validate_settings DefaultSettings = None"
    by (simp add: Validate_settings_def DefaultSettings_def MinSilentAfter_def MaxSilentAfter_def)
  with wf read_value [OF assms(3) [unfolded GetWithExists_def]] have "Validate_settings s = None"
    by (force simp: thresholds_wf_def list_all_iff dest: map_of_SomeD split: option.splits)
  moreover have "ValidateOverride (gt_Override g) = None" if "g \<in> set groups" for g
    using wf that read_value [OF assms(4) [unfolded List_thresholds_def]] by (force simp: thresholds_wf_def list_all_iff)
  moreover have "ValidateOverride ov = None" if "overrides i = Some ov" for i ov
  proof (cases "hostIDs = []")
    case False
    with assms(5) have r: "run_state (sql_read (\<lambda>_ d h. if h \<in> set hostIDs then map_of (t_host_overrides d) h else None)) w' = (Inr overrides, w3)"
      by (simp add: GetForHosts_def)
    from wf that read_value [OF r] show ?thesis
      by (force simp: thresholds_wf_def list_all_iff dest: map_of_SomeD split: if_splits)
  qed (use assms(5) that in \<open>auto simp: GetForHosts_def\<close>)
  ultimately show ?thesis using wf by (intro conjI Effective_valid) simp_all
qed

text \<open>A project whose databases have a louder disk alert than the rest.\<close>

definition ex_databases :: threshold_override where
  "ex_databases = no_override\<lparr>to_DiskEnabled := Some True, to_DiskThreshold := Some (4 / 5)\<rparr>"

definition ex_database_host :: host_row where
  "ex_database_host = \<lparr>h_id = 1, h_project = 1, h_name = ''db1'', h_first_seen = 0, h_last_seen = hour, h_agent = '''',
     h_env = '''', h_role = ''db''\<rparr>"

theorem thresholds_stay_valid_witness:
  "let w' = snd (run_state (for_each [ToUpsertGroup 1 ''role'' ''db'' ex_databases] run_threshold_op) (calm 5 ex_db));
       eff = Effective \<lparr>tr_Project = DefaultSettings, tr_ProjectExists = False,
         tr_Groups = [\<lparr>gt_Scope = ''role'', gt_Label = ''db'', gt_Override = ex_databases\<rparr>], tr_Overrides = Map.empty\<rparr> ex_database_host
   in thresholds_wf (db w') \<and> Validate_settings (es_Settings eff) = None \<and> hs_DiskThreshold (es_Settings eff) = 4 / 5 \<and>
      es_DiskSource eff = \<lparr>ts_Level = LevelRole, ts_Label = ''db''\<rparr>"
proof -
  let ?ops = "[ToUpsertGroup 1 ''role'' ''db'' ex_databases]"
  let ?w' = "snd (run_state (for_each ?ops run_threshold_op) (calm 5 ex_db))"
  let ?g = "\<lparr>gt_Scope = ''role'', gt_Label = ''db'', gt_Override = ex_databases\<rparr>"
  have wf: "thresholds_wf (db (calm 5 ex_db))" by (simp add: thresholds_wf_def ex_defs)
  have valid: "ValidateOverride ex_databases = None"
    by (simp add: ValidateOverride_def ex_databases_def no_override_def validateKindOverride_def validateSilentOverride_def)
  have stored: "stored_override ex_databases = ex_databases"
    by (simp add: stored_override_def ex_databases_def no_override_def)
  have w': "?w' = calm 5 (ex_db\<lparr>t_host_group_thresholds := [((1, ''role'', ''db''), ex_databases)]\<rparr>)"
    by (simp add: Upsert_threshold_def valid stored put_threshold_def project_exists_def ex_db_def empty_db_def)
  have r: "run_state (GetWithExists 1) ?w' = (Inr (DefaultSettings, False), ?w')"
    "run_state (List_thresholds 1) ?w' = (Inr [?g], ?w')" "run_state (GetForHosts []) ?w' = (Inr Map.empty, ?w')"
    unfolding w' by (simp_all add: GetWithExists_def List_thresholds_def GetForHosts_def ex_db_def empty_db_def)
  have run: "run_state (for_each ?ops run_threshold_op) (calm 5 ex_db) = ((), ?w')" by (simp add: prod_eq_iff)
  let ?eff = "Effective \<lparr>tr_Project = DefaultSettings, tr_ProjectExists = False, tr_Groups = [?g], tr_Overrides = Map.empty\<rparr> ex_database_host"
  have "hs_DiskThreshold (es_Settings ?eff) = 4 / 5" "es_DiskSource ?eff = \<lparr>ts_Level = LevelRole, ts_Label = ''db''\<rparr>" by code_simp+
  with thresholds_stay_valid [OF wf run r, of ex_database_host] show ?thesis by (simp only: Let_def simp_thms)
qed

text \<open>
  Reading settings after saving them gives them back, the silence cut to whole seconds,
  marked as existing, and leaves the settings of every other project alone. Invalid
  settings are refused and nothing is written.
\<close>

theorem Save_Get_roundtrip:
  assumes "sched w = []" and "project_exists (db w) projectID"
  shows "case run_state (Save_settings projectID s) w of (err, w') \<Rightarrow>
           (if Validate_settings s \<noteq> None then err = Validate_settings s \<and> w' = w
            else err = None \<and>
              fst (run_state (GetWithExists projectID) w') = Inr (s\<lparr>hs_SilentAfter := whole_seconds (hs_SilentAfter s)\<rparr>, True) \<and>
              (\<forall>p. p = projectID \<or> fst (run_state (GetWithExists p) w') = fst (run_state (GetWithExists p) w)))"
  using assms by (auto simp: Save_settings_def GetWithExists_def put_settings_def saved_def update_conv split: option.split)

theorem Save_Get_roundtrip_witness:
  "case run_state (Save_settings 1 (DefaultSettings\<lparr>hs_SilentAfter := 200 * second + 7\<rparr>)) (calm 5 ex_db) of (err, w') \<Rightarrow>
     err = None \<and> fst (run_state (GetWithExists 1) w') = Inr (DefaultSettings\<lparr>hs_SilentAfter := 200 * second\<rparr>, True)"
proof -
  let ?s = "DefaultSettings\<lparr>hs_SilentAfter := 200 * second + 7\<rparr>"
  have "Validate_settings ?s = None" "whole_seconds (200 * second + 7) = 200 * second"
    by (simp_all add: Validate_settings_def DefaultSettings_def MinSilentAfter_def MaxSilentAfter_def whole_seconds_def quot_def)
  moreover have "project_exists (db (calm 5 ex_db)) 1" by (simp add: project_exists_def ex_defs)
  ultimately show ?thesis using Save_Get_roundtrip [of "calm 5 ex_db" 1 ?s] by (simp add: case_prod_beta)
qed

end
