(* ===== verification/Alert_Incident.thy ===== *)
theory Alert_Incident
  imports Escalation_Scheduler
begin

text \<open>
  The tables of incidents of hosts, metrics and service levels have the same statements over
  their shared columns, in \<open>host/incident.go\<close>, \<open>metric/incident.go\<close> and \<open>slo/store.go\<close>. This
  theory holds these statements once, over any such table, with what they keep: at most
  one open incident per key (host and kind, rule, objective), incidents only move forward,
  a level is passed once, and the list for the escalation scheduler is sorted. The
  locale \<open>incident_table\<close> is interpreted for each of the tables.
\<close>

subsection \<open>Statements on a table of incidents\<close>

text \<open>A table of the database: its rows, the way to write them back, and its sequence of ids.\<close>

record 'r table =
  tb_rows :: "db \<Rightarrow> 'r list"
  tb_map :: "('r list \<Rightarrow> 'r list) \<Rightarrow> db \<Rightarrow> db"
  tb_seq :: "db \<Rightarrow> int"
  tb_next :: "db \<Rightarrow> db"

definition host_table :: "host_incident table" where
  "host_table = \<lparr>tb_rows = t_host_incidents, tb_map = t_host_incidents_update,
     tb_seq = t_host_incident_seq, tb_next = (\<lambda>d. d\<lparr>t_host_incident_seq := t_host_incident_seq d + 1\<rparr>)\<rparr>"

definition metric_table :: "metric_incident table" where
  "metric_table = \<lparr>tb_rows = t_metric_incidents, tb_map = t_metric_incidents_update,
     tb_seq = t_metric_incident_seq, tb_next = (\<lambda>d. d\<lparr>t_metric_incident_seq := t_metric_incident_seq d + 1\<rparr>)\<rparr>"

definition slo_table :: "slo_incident table" where
  "slo_table = \<lparr>tb_rows = t_slo_incidents, tb_map = t_slo_incidents_update,
     tb_seq = t_slo_incident_seq, tb_next = (\<lambda>d. d\<lparr>t_slo_incident_seq := t_slo_incident_seq d + 1\<rparr>)\<rparr>"

text \<open>
  The insert of an open incident: the partial unique index on open incidents turns a second
  one for its key into no row, the foreign key to the thing watched may fail, and the
  sequence moves on in any case.
\<close>

definition insert_alert ::
  "'a alert_incident_scheme table \<Rightarrow> ('a alert_incident_scheme \<Rightarrow> 'k) \<Rightarrow> (db \<Rightarrow> bool) \<Rightarrow> (int \<Rightarrow> 'a alert_incident_scheme) \<Rightarrow> db \<Rightarrow>
   'a alert_incident_scheme option result \<times> db" where
  "insert_alert tb key fk new d =
     (let x = new (tb_seq tb d) in
      if list_ex (\<lambda>y. key y = key x \<and> a_status y = ''open'') (tb_rows tb d) then (Inr None, tb_next tb d)
      else if \<not> fk d then (Inl ErrDB, tb_next tb d)
      else (Inr (Some x), tb_map tb (\<lambda>rows. rows @ [x]) (tb_next tb d)))"

text \<open>\<open>UPDATE ... RETURNING\<close>: the rows after the update, in the order of the table.\<close>

definition update_returning :: "'r table \<Rightarrow> ('r \<Rightarrow> bool) \<Rightarrow> ('r \<Rightarrow> 'r) \<Rightarrow> db \<Rightarrow> 'r list \<times> db" where
  "update_returning tb p f d = (map f (filter p (tb_rows tb d)), tb_map tb (sql_update p f) d)"

abbreviation alert_open :: "'a alert_incident_scheme \<Rightarrow> bool" where
  "alert_open x \<equiv> a_status x = ''open''"

text \<open>The status and the time that closing an incident sets.\<close>

definition close_alert :: "time \<Rightarrow> 'a alert_incident_scheme \<Rightarrow> 'a alert_incident_scheme" where
  "close_alert now x = x\<lparr>a_status := ''resolved'', a_resolved := Some now\<rparr>"

text \<open>
  The three ways a statement reports what it did: the updated rows, whether there was
  one, and an error when there was none.
\<close>

definition update_rows :: "'r table \<Rightarrow> ('r \<Rightarrow> bool) \<Rightarrow> (time \<Rightarrow> 'r \<Rightarrow> 'r) \<Rightarrow> 'r list result prog" where
  "update_rows tb p f = sql (\<lambda>now. update_returning tb p (f now))"

definition update_claim :: "'r table \<Rightarrow> ('r \<Rightarrow> bool) \<Rightarrow> (time \<Rightarrow> 'r \<Rightarrow> 'r) \<Rightarrow> bool result prog" where
  "update_claim tb p f =
     do {
       r \<leftarrow> update_rows tb p f;
       State_Monad.return (case r of Inl e \<Rightarrow> Inl e | Inr rows \<Rightarrow> Inr (rows \<noteq> []))
     }"

definition update_must :: "'r table \<Rightarrow> ('r \<Rightarrow> bool) \<Rightarrow> (time \<Rightarrow> 'r \<Rightarrow> 'r) \<Rightarrow> error option prog" where
  "update_must tb p f =
     do {
       r \<leftarrow> update_rows tb p f;
       State_Monad.return (case r of Inl e \<Rightarrow> Some e | Inr rows \<Rightarrow> if rows = [] then Some ErrNotFound else None)
     }"

definition update_count :: "'r table \<Rightarrow> ('r \<Rightarrow> bool) \<Rightarrow> (time \<Rightarrow> 'r \<Rightarrow> 'r) \<Rightarrow> int result prog" where
  "update_count tb p f =
     do {
       r \<leftarrow> update_rows tb p f;
       State_Monad.return (case r of Inl e \<Rightarrow> Inl e | Inr rows \<Rightarrow> Inr (int (length rows)))
     }"

text \<open>The columns notified, acknowledged and escalation level.\<close>

definition mark_alert :: "bool \<Rightarrow> 'a alert_incident_scheme \<Rightarrow> 'a alert_incident_scheme" where
  "mark_alert opn x = (if opn then x\<lparr>a_notified_open := True\<rparr> else x\<lparr>a_notified_close := True\<rparr>)"

definition ack_alert :: "'a alert_incident_scheme table \<Rightarrow> int \<Rightarrow> int \<Rightarrow> int \<Rightarrow> bool result prog" where
  "ack_alert tb incidentID projectID userID =
     update_claim tb (\<lambda>x. a_id x = incidentID \<and> a_project x = projectID \<and> alert_open x \<and> a_acked_at x = None)
       (\<lambda>now x. x\<lparr>a_acked_at := Some now, a_acked_by := Some userID\<rparr>)"

definition bump_alert :: "'a alert_incident_scheme table \<Rightarrow> int \<Rightarrow> int \<Rightarrow> (bool \<times> error option) prog" where
  "bump_alert tb iid from =
     do {
       r \<leftarrow> update_claim tb (\<lambda>x. a_id x = iid \<and> a_level x = from)
             (\<lambda>now x. x\<lparr>a_level := from + 1, a_last_escalated := Some now\<rparr>);
       State_Monad.return (case r of Inl e \<Rightarrow> (False, Some e) | Inr ok \<Rightarrow> (ok, None))
     }"

text \<open>
  The list for the scheduler. The group of an incident comes by a left join: outer \<open>None\<close>
  without a group row, inner \<open>None\<close> while the group is open.
\<close>

definition joined_group :: "db \<Rightarrow> int option \<Rightarrow> time option option" where
  "joined_group d grp = (case grp of None \<Rightarrow> None | Some g \<Rightarrow> map_option g_ResolvedAt (find (\<lambda>r. g_ID r = g) (t_groups d)))"

definition alert_clock :: "db \<Rightarrow> 'a alert_incident_scheme \<Rightarrow> time" where
  "alert_clock d x = max (a_started x) (case joined_group d (a_group x) of Some (Some t) \<Rightarrow> t | _ \<Rightarrow> a_started x)"

definition pending_alert :: "time \<Rightarrow> 'a alert_incident_scheme \<Rightarrow> pending" where
  "pending_alert started x =
     \<lparr>pi_id = a_id x, pi_project = a_project x, pi_started = started, pi_severity = a_severity x, pi_level = a_level x\<rparr>"

definition unacked_alerts ::
  "('a alert_incident_scheme \<Rightarrow> bool) \<Rightarrow> (db \<Rightarrow> 'a alert_incident_scheme \<Rightarrow> time) \<Rightarrow> 'a alert_incident_scheme table \<Rightarrow> db \<Rightarrow> pending list" where
  "unacked_alerts skip clock tb d =
     sort_key pi_id (map (\<lambda>x. pending_alert (clock d x) x)
       (filter (\<lambda>x. alert_open x \<and> a_acked_at x = None \<and> \<not> skip x \<and> joined_group d (a_group x) \<noteq> Some None) (tb_rows tb d)))"

text \<open>\<open>ORDER BY started_at DESC LIMIT\<close>, with 100 rows when the limit is not positive.\<close>

definition newest_alerts :: "('a alert_incident_scheme \<Rightarrow> bool) \<Rightarrow> 'a alert_incident_scheme table \<Rightarrow> db \<Rightarrow> 'a alert_incident_scheme list" where
  "newest_alerts p tb d = sort_key (\<lambda>x. - a_started x) (filter p (tb_rows tb d))"

definition list_alerts :: "('a alert_incident_scheme \<Rightarrow> bool) \<Rightarrow> 'a alert_incident_scheme table \<Rightarrow> int \<Rightarrow> 'a alert_incident_scheme list result prog" where
  "list_alerts p tb limit =
     sql_read (\<lambda>_ d. take (nat (if limit \<le> 0 then 100 else limit)) (newest_alerts p tb d))"

subsection \<open>What the statements keep\<close>

definition alert_wf :: "'a alert_incident_scheme table \<Rightarrow> ('a alert_incident_scheme \<Rightarrow> 'k) \<Rightarrow> db \<Rightarrow> bool" where
  "alert_wf tb key d \<longleftrightarrow>
     distinct (map a_id (tb_rows tb d)) \<and> list_all (\<lambda>x. a_id x < tb_seq tb d) (tb_rows tb d) \<and>
     distinct (map key (filter alert_open (tb_rows tb d))) \<and>
     list_all (\<lambda>x. alert_open x \<longleftrightarrow> a_resolved x = None) (tb_rows tb d)"

text \<open>What may happen to an incident: identity and origin stay, everything else moves forward.\<close>

definition alert_le :: "('a alert_incident_scheme \<Rightarrow> 'k) \<Rightarrow> 'a alert_incident_scheme \<Rightarrow> 'a alert_incident_scheme \<Rightarrow> bool" where
  "alert_le key x y \<longleftrightarrow>
     a_id y = a_id x \<and> a_project y = a_project x \<and> key y = key x \<and> a_started y = a_started x \<and>
     a_severity y = a_severity x \<and> a_in_maintenance y = a_in_maintenance x \<and>
     (\<not> alert_open x \<longrightarrow> \<not> alert_open y \<and> a_resolved y = a_resolved x) \<and>
     ((alert_open x \<longleftrightarrow> a_resolved x = None) \<longrightarrow> (alert_open y \<longleftrightarrow> a_resolved y = None)) \<and>
     (a_acked_at x \<noteq> None \<longrightarrow> a_acked_at y = a_acked_at x \<and> a_acked_by y = a_acked_by x) \<and>
     (a_notified_open x \<longrightarrow> a_notified_open y) \<and> (a_notified_close x \<longrightarrow> a_notified_close y) \<and>
     a_level x \<le> a_level y"

definition alert_progress :: "'a alert_incident_scheme table \<Rightarrow> ('a alert_incident_scheme \<Rightarrow> 'k) \<Rightarrow> db \<Rightarrow> db \<Rightarrow> bool" where
  "alert_progress tb key d d' \<longleftrightarrow>
     (alert_wf tb key d \<longrightarrow> alert_wf tb key d') \<and>
     length (tb_rows tb d) \<le> length (tb_rows tb d') \<and>
     list_all2 (alert_le key) (tb_rows tb d) (take (length (tb_rows tb d)) (tb_rows tb d'))"

lemma alert_le_refl [simp]: "alert_le key x x"
  by (simp add: alert_le_def)

lemma alert_le_trans: "alert_le key x y \<Longrightarrow> alert_le key y z \<Longrightarrow> alert_le key x z"
  by (auto simp: alert_le_def)

lemma alert_progress_rel: "reflp (alert_progress tb key)" "transp (alert_progress tb key)"
proof -
  show "reflp (alert_progress tb key)"
    by (simp add: reflp_def alert_progress_def list_all2_refl)
  show "transp (alert_progress tb key)"
  proof (rule transpI)
    fix a b c assume ab: "alert_progress tb key a b" and bc: "alert_progress tb key b c"
    have "alert_le key (tb_rows tb a ! k) (tb_rows tb c ! k)" if "k < length (tb_rows tb a)" for k
      using ab bc that by (auto simp: alert_progress_def list_all2_conv_all_nth intro: alert_le_trans)
    then show "alert_progress tb key a c"
      using ab bc by (auto simp: alert_progress_def list_all2_conv_all_nth)
  qed
qed

lemma distinct_open_update:
  assumes "\<And>x. p x \<Longrightarrow> alert_le key x (f x)"
  shows "distinct (map key (filter alert_open rows)) \<Longrightarrow> distinct (map key (filter alert_open (sql_update p f rows)))"
proof (induction rows)
  case (Cons r rows)
  have keep: "key (if p x then f x else x) = key x" "alert_open (if p x then f x else x) \<Longrightarrow> alert_open x" for x
    using assms [of x] by (auto simp: alert_le_def split: if_splits)
  let ?r = "if p r then f r else r"
  have sub: "key ` {x \<in> set (sql_update p f rows). alert_open x} \<subseteq> key ` {x \<in> set rows. alert_open x}"
  proof
    fix k assume "k \<in> key ` {x \<in> set (sql_update p f rows). alert_open x}"
    then obtain y where "y \<in> set rows" "alert_open (if p y then f y else y)" "k = key (if p y then f y else y)"
      unfolding set_sql_update by blast
    with keep [of y] show "k \<in> key ` {x \<in> set rows. alert_open x}" by simp
  qed
  have eq: "sql_update p f (r # rows) = ?r # sql_update p f rows" by (simp add: sql_update_def)
  note r = keep [of r]
  have ih: "distinct (map key (filter alert_open (sql_update p f rows)))" using Cons by (simp split: if_splits)
  show ?case
  proof (cases "alert_open ?r")
    case True
    then have "key r \<notin> key ` {x \<in> set rows. alert_open x}" using Cons.prems r by simp
    with sub have "key ?r \<notin> key ` {x \<in> set (sql_update p f rows). alert_open x}" using r(1) by (simp only:) blast
    then show ?thesis unfolding eq using True ih by (simp del: if_split)
  next
    case False
    then show ?thesis unfolding eq using ih by (simp del: if_split)
  qed
qed (simp add: sql_update_def)

text \<open>
  What a table must satisfy: its rows and sequence are read and written without touching one
  another or the tables of the pages, and the shared columns do not enter the key.
\<close>

locale incident_table =
  fixes tb :: "'a alert_incident_scheme table" and key :: "'a alert_incident_scheme \<Rightarrow> 'k"
  assumes rows_map: "tb_rows tb (tb_map tb g d) = g (tb_rows tb d)" "tb_rows tb (tb_next tb d) = tb_rows tb d"
    and seq_map: "tb_seq tb (tb_map tb g d) = tb_seq tb d" "tb_seq tb (tb_next tb d) = tb_seq tb d + 1"
    and frame: "t_esc (tb_map tb g d) = t_esc d" "t_outbox (tb_map tb g d) = t_outbox d"
      "t_esc (tb_next tb d) = t_esc d" "t_outbox (tb_next tb d) = t_outbox d"
    and key_shared: "key (close_alert t x) = key x" "key (mark_alert b x) = key x"
      "key (x\<lparr>a_acked_at := oa, a_acked_by := ob\<rparr>) = key x" "key (x\<lparr>a_level := n, a_last_escalated := oe\<rparr>) = key x"
begin

lemma progress_update:
  assumes "\<And>x. p x \<Longrightarrow> alert_le key x (f x)"
  shows "alert_progress tb key d (snd (update_returning tb p f d))"
proof -
  have le: "alert_le key x (if p x then f x else x)" for x using assms by simp
  have "alert_wf tb key (tb_map tb (sql_update p f) d)" if wf: "alert_wf tb key d"
  proof -
    have "map a_id (sql_update p f (tb_rows tb d)) = map a_id (tb_rows tb d)"
      using le by (auto simp: sql_update_def alert_le_def)
    moreover have "list_all (\<lambda>x. a_id x < tb_seq tb d) (sql_update p f (tb_rows tb d))"
      using wf assms by (auto simp: alert_wf_def list_all_iff set_sql_update alert_le_def)
    moreover have "list_all (\<lambda>x. alert_open x \<longleftrightarrow> a_resolved x = None) (sql_update p f (tb_rows tb d))"
      using wf assms by (auto simp: alert_wf_def list_all_iff set_sql_update alert_le_def)
    ultimately show ?thesis
      using wf distinct_open_update [OF assms] by (simp add: alert_wf_def rows_map seq_map)
  qed
  then show ?thesis
    using le by (simp add: alert_progress_def update_returning_def rows_map sql_update_def list_all2_conv_all_nth)
qed

lemma progress_insert:
  assumes "\<And>i. a_id (new i) = i" and "\<And>i. alert_open (new i) \<and> a_resolved (new i) = None"
  shows "alert_progress tb key d (snd (insert_alert tb key fk new d))"
  using assms by (auto simp: alert_progress_def insert_alert_def Let_def alert_wf_def rows_map seq_map
    list_all2_refl list_ex_iff list_all_iff)

lemma progress_next: "alert_progress tb key d (tb_next tb d)"
  by (auto simp: alert_progress_def alert_wf_def rows_map seq_map list_all2_refl list_all_iff)

text \<open>The operations on the shared columns.\<close>

lemma guar_rows:
  assumes "reflp R" and "\<And>now d. R d (snd (update_returning tb p (f now) d))"
  shows "guar (on_db R) (update_rows tb p f)"
  unfolding update_rows_def by (intro guar_sql assms)

lemma guar_progress_rows:
  "(\<And>now x. p x \<Longrightarrow> alert_le key x (f now x)) \<Longrightarrow> guar (on_db (alert_progress tb key)) (update_rows tb p f)"
  by (intro guar_rows alert_progress_rel progress_update) simp

lemmas progress_rules = guar reflp_on_db [OF alert_progress_rel(1)] transp_on_db [OF alert_progress_rel(2)] guar_progress_rows

lemma guar_progress_update:
  assumes "\<And>now x. p x \<Longrightarrow> alert_le key x (f now x)"
  shows "guar (on_db (alert_progress tb key)) (update_claim tb p f)"
    "guar (on_db (alert_progress tb key)) (update_must tb p f)" "guar (on_db (alert_progress tb key)) (update_count tb p f)"
  unfolding update_claim_def update_must_def update_count_def by (intro progress_rules; simp add: assms)+

lemma le_shared:
  "alert_open x \<Longrightarrow> alert_le key x (close_alert now x)"
  "alert_le key x (mark_alert b x)"
  "a_acked_at x = None \<Longrightarrow> alert_le key x (x\<lparr>a_acked_at := oa, a_acked_by := ob\<rparr>)"
  "a_level x = n \<Longrightarrow> alert_le key x (x\<lparr>a_level := n + 1, a_last_escalated := oe\<rparr>)"
  using key_shared by (auto simp: alert_le_def close_alert_def mark_alert_def)

lemma guar_ack: "guar (on_db (alert_progress tb key)) (ack_alert tb i p u)"
  unfolding ack_alert_def by (intro guar_progress_update) (simp add: le_shared)

lemma guar_bump: "guar (on_db (alert_progress tb key)) (bump_alert tb i n)"
  unfolding bump_alert_def by (intro progress_rules guar_progress_update) (simp add: le_shared)

end

subsection \<open>Levels, and the list for the scheduler\<close>

lemma distinct_map_comp: "distinct (map k xs) \<Longrightarrow> (\<And>x. k' (f x) = k x) \<Longrightarrow> distinct (map k' (map f xs))"
  by (simp add: comp_def)

lemma unacked_sorted: "sorted (map pi_id (unacked_alerts skip clock tb d))"
  by (simp add: unacked_alerts_def)

lemma unacked_distinct:
  assumes "distinct (map a_id (tb_rows tb d))"
  shows "distinct (map pi_id (unacked_alerts skip clock tb d))"
proof -
  let ?rows = "filter (\<lambda>x. alert_open x \<and> a_acked_at x = None \<and> \<not> skip x \<and> joined_group d (a_group x) \<noteq> Some None) (tb_rows tb d)"
  have "distinct (map pi_id (map (\<lambda>x. pending_alert (clock d x) x) ?rows))"
    using distinct_map_filter [OF assms] by (intro distinct_map_comp [of a_id]) (simp_all add: pending_alert_def)
  then show ?thesis unfolding unacked_alerts_def by (simp only: distinct_map set_sort distinct_sort)
qed

lemma set_unacked:
  "set (unacked_alerts skip clock tb d) =
     {pending_alert (clock d x) x | x. x \<in> set (tb_rows tb d) \<and> alert_open x \<and> a_acked_at x = None \<and> \<not> skip x \<and>
        joined_group d (a_group x) \<noteq> Some None}"
  by (auto simp: unacked_alerts_def)

context incident_table
begin

lemma by_id_progress:
  assumes "alert_wf tb key d" and "alert_progress tb key d d'"
    and "x \<in> set (tb_rows tb d)" and "y \<in> set (tb_rows tb d')" and "a_id y = a_id x"
  shows "alert_le key x y"
proof -
  from assms(3) obtain k where k: "k < length (tb_rows tb d)" "tb_rows tb d ! k = x" by (auto simp: in_set_conv_nth)
  with assms(2) have k': "k < length (tb_rows tb d')" "alert_le key x (tb_rows tb d' ! k)"
    by (auto simp: alert_progress_def list_all2_conv_all_nth)
  then have "a_id (tb_rows tb d' ! k) = a_id y" using assms(5) by (simp add: alert_le_def)
  moreover have "distinct (map a_id (tb_rows tb d'))" using assms(1,2) by (simp add: alert_progress_def alert_wf_def)
  ultimately have "tb_rows tb d' ! k = y"
    using distinct_key_unique [of a_id "tb_rows tb d'" "tb_rows tb d' ! k" y] assms(4) k'(1) by simp
  with k'(2) show ?thesis by simp
qed

lemma level_once:
  assumes "alert_wf tb key (db w)" and "run_state (bump_alert tb i n) w = ((True, e), w1)"
    and "alert_progress tb key (db w1) (db w2)" and "run_state (bump_alert tb i n) w2 = ((ok, e'), w3)"
  shows "\<not> ok"
proof -
  let ?p = "\<lambda>x. a_id x = i \<and> a_level x = n" and ?f = "\<lambda>now x. x\<lparr>a_level := n + 1, a_last_escalated := Some now\<rparr>"
  let ?q = "\<lambda>now. update_returning tb ?p (?f now)"
  note bump_def = bump_alert_def update_claim_def update_rows_def
  obtain t where t: "db w1 = snd (?q t (db w))" "fst (?q t (db w)) \<noteq> []"
    using assms(2) by (cases rule: run_sql_cases [of ?q w]) (auto simp: bump_def)
  then obtain x where x: "x \<in> set (tb_rows tb (db w))" "a_id x = i" "a_level x = n"
    by (auto simp: update_returning_def filter_empty_conv)
  have x1: "?f t x \<in> set (tb_rows tb (db w1))"
    using x by (force simp: t(1) update_returning_def rows_map set_sql_update)
  have "alert_progress tb key (db w) (db w1)" unfolding t(1) by (rule progress_update) (simp add: le_shared)
  then have wf1: "alert_wf tb key (db w1)" using assms(1) by (simp add: alert_progress_def)
  have "n + 1 \<le> a_level y" if "y \<in> set (tb_rows tb (db w2))" "a_id y = i" for y
    using by_id_progress [OF wf1 assms(3) x1 that(1)] that(2) x(2) by (simp add: alert_le_def)
  then have none: "fst (?q t (db w2)) = []" for t
    by (force simp: update_returning_def filter_empty_conv)
  show ?thesis
    using assms(4) by (cases rule: run_sql_cases [of ?q w2]) (auto simp: bump_def none)
qed

lemma guar_pages: "guar (on_db (same_rel (\<lambda>d. (t_esc d, t_outbox d)))) (update_rows tb p f)"
  by (intro guar_rows guar) (simp add: same_rel_def update_returning_def frame)

lemma bump_keeps_pages: "guar (on_db (same_rel (\<lambda>d. (t_esc d, t_outbox d)))) (bump_alert tb i n)"
  unfolding bump_alert_def update_claim_def by (intro guar guar_pages)

lemma source_of_list:
  "escalation_source (sql_read (\<lambda>_. unacked_alerts skip clock tb)) (alert_wf tb key)"
proof
  fix w ps w'
  assume wf: "alert_wf tb key (db w)" and r: "run_state (sql_read (\<lambda>_. unacked_alerts skip clock tb)) w = (Inr ps, w')"
  have "ps = unacked_alerts skip clock tb (db w)"
    using r unfolding sql_read_def
    by (cases rule: run_sql_cases [of "\<lambda>_ d. (unacked_alerts skip clock tb d, d)" w]) auto
  with wf show "sorted (map pi_id ps) \<and> distinct (map pi_id ps)"
    by (simp add: unacked_sorted unacked_distinct alert_wf_def)
next
  fix w
  show "db (snd (run_state (sql_read (\<lambda>_. unacked_alerts skip clock tb)) w)) = db w"
    unfolding sql_read_def
    by (cases rule: run_sql_cases [of "\<lambda>_ d. (unacked_alerts skip clock tb d, d)" w]) auto
qed

text \<open>An insert that finds the key free makes the incident the open one of its key.\<close>

lemma insert_alert_open:
  assumes "alert_wf tb key d" and "\<not> list_ex (\<lambda>y. key y = key (new (tb_seq tb d)) \<and> alert_open y) (tb_rows tb d)" and "fk d"
    and "alert_open (new (tb_seq tb d))"
  shows "filter (\<lambda>y. key y = key (new (tb_seq tb d)) \<and> alert_open y) (tb_rows tb (snd (insert_alert tb key fk new d))) =
    [new (tb_seq tb d)]"
  using assms by (auto simp: insert_alert_def Let_def rows_map list_ex_iff filter_empty_conv)

end

end
