(* ===== verification/Host_Incident.thy ===== *)
theory Host_Incident
  imports Alert_Incident
begin

text \<open>
  \<open>internal/host/incident.go\<close>: the incidents of hosts, one row per host and kind (disk,
  memory, load, silence) while open. The properties: a host has at most one open incident
  of a kind, incidents only move forward, an escalation level is passed once, and which
  incidents the escalation scheduler is given.
\<close>

subsection \<open>Model: incident.go\<close>

definition Kinds :: "string list" where
  "Kinds = [''disk'', ''memory'', ''load'', ''silent'']"

definition host_key :: "host_incident \<Rightarrow> int \<times> string" where
  "host_key x = (hi_host x, hi_kind x)"

definition new_host_incident :: "int \<Rightarrow> int \<Rightarrow> string \<Rightarrow> rat \<Rightarrow> string \<Rightarrow> bool \<Rightarrow> time \<Rightarrow> int \<Rightarrow> host_incident" where
  "new_host_incident projectID hostID kind current detail inMaintenance now iid =
     \<lparr>a_id = iid, a_project = projectID, a_status = ''open'', a_started = now, a_resolved = None,
      a_in_maintenance = inMaintenance, a_notified_open = False, a_notified_close = False, a_acked_at = None,
      a_acked_by = None, a_severity = ''critical'', a_level = 0, a_last_escalated = None, a_group = None,
      hi_host = hostID, hi_kind = kind, hi_current = current, hi_peak = current, hi_detail = detail,
      hi_suppressed = False, hi_dep_released = None\<rparr>"

text \<open>The constraints of the table: a known kind, an existing host and an existing project.\<close>

definition host_insertable :: "int \<Rightarrow> int \<Rightarrow> string \<Rightarrow> db \<Rightarrow> bool" where
  "host_insertable projectID hostID kind d \<longleftrightarrow>
     kind \<in> set Kinds \<and> list_ex (\<lambda>h. h_id h = hostID) (t_hosts d) \<and> list_ex (\<lambda>p. fst p = projectID) (t_projects d)"

definition OpenFor_host :: "int \<Rightarrow> string \<Rightarrow> host_incident option result prog" where
  "OpenFor_host hostID kind =
     sql_read (\<lambda>_ d. find (\<lambda>x. hi_host x = hostID \<and> hi_kind x = kind \<and> alert_open x) (t_host_incidents d))"

definition Open_host :: "int \<Rightarrow> int \<Rightarrow> string \<Rightarrow> rat \<Rightarrow> string \<Rightarrow> bool \<Rightarrow> (host_incident \<times> bool) result prog" where
  "Open_host projectID hostID kind current detail inMaintenance =
     do {
       r \<leftarrow> sql (\<lambda>now. insert_alert host_table host_key (host_insertable projectID hostID kind)
              (new_host_incident projectID hostID kind current detail inMaintenance now));
       (case r of
          Inl e \<Rightarrow> State_Monad.return (Inl e)
        | Inr (Inl e) \<Rightarrow> State_Monad.return (Inl e)
        | Inr (Inr (Some x)) \<Rightarrow> State_Monad.return (Inr (x, True))
        | Inr (Inr None) \<Rightarrow>
            do {
              f \<leftarrow> OpenFor_host hostID kind;
              State_Monad.return
                (case f of
                   Inl e \<Rightarrow> Inl e
                 | Inr None \<Rightarrow> Inl (ErrMsg ''conflicted but no open incident found'')
                 | Inr (Some existing) \<Rightarrow> Inr (existing, False))
            })
     }"

definition GetByID_host :: "int \<Rightarrow> host_incident option result prog" where
  "GetByID_host iid = sql_read (\<lambda>_ d. find (\<lambda>x. a_id x = iid) (t_host_incidents d))"

definition Bump_host :: "int \<Rightarrow> rat \<Rightarrow> rat \<Rightarrow> error option prog" where
  "Bump_host iid current peak =
     update_must host_table (\<lambda>x. a_id x = iid \<and> alert_open x) (\<lambda>_ x. x\<lparr>hi_current := current, hi_peak := peak\<rparr>)"

definition Resolve_host :: "int \<Rightarrow> rat \<Rightarrow> bool result prog" where
  "Resolve_host iid current =
     update_claim host_table (\<lambda>x. a_id x = iid \<and> alert_open x) (\<lambda>now x. (close_alert now x)\<lparr>hi_current := current\<rparr>)"

definition ResolveOpenByProjectKind :: "int \<Rightarrow> string \<Rightarrow> int result prog" where
  "ResolveOpenByProjectKind projectID kind =
     update_count host_table (\<lambda>x. a_project x = projectID \<and> hi_kind x = kind \<and> alert_open x) close_alert"

definition ResolveOpenByHostKind :: "int \<Rightarrow> string \<Rightarrow> int result prog" where
  "ResolveOpenByHostKind hostID kind =
     update_count host_table (\<lambda>x. hi_host x = hostID \<and> hi_kind x = kind \<and> alert_open x) close_alert"

definition ResolveOpenByHostsKind :: "int list \<Rightarrow> string \<Rightarrow> int result prog" where
  "ResolveOpenByHostsKind hostIDs kind =
     (if hostIDs = [] then State_Monad.return (Inr 0)
      else update_count host_table (\<lambda>x. hi_host x \<in> set hostIDs \<and> hi_kind x = kind \<and> alert_open x) close_alert)"

text \<open>The map of maps: absent keys read as \<open>False\<close>.\<close>

definition ListOpenKindsForHosts :: "int list \<Rightarrow> (int \<Rightarrow> string \<Rightarrow> bool) result prog" where
  "ListOpenKindsForHosts hostIDs =
     (if hostIDs = [] then State_Monad.return (Inr (\<lambda>_ _. False))
      else sql_read (\<lambda>_ d h k. h \<in> set hostIDs \<and>
        list_ex (\<lambda>x. hi_host x = h \<and> hi_kind x = k \<and> alert_open x) (t_host_incidents d)))"

definition MarkNotified_host :: "int \<Rightarrow> bool \<Rightarrow> error option prog" where
  "MarkNotified_host iid opn = update_must host_table (\<lambda>x. a_id x = iid) (\<lambda>_. mark_alert opn)"

definition Acknowledge_host :: "int \<Rightarrow> int \<Rightarrow> int \<Rightarrow> bool result prog" where
  "Acknowledge_host = ack_alert host_table"

definition host_clock :: "db \<Rightarrow> host_incident \<Rightarrow> time" where
  "host_clock d x = max (alert_clock d x) (case hi_dep_released x of Some t \<Rightarrow> t | None \<Rightarrow> a_started x)"

definition OpenUnacked_host :: "pending list result prog" where
  "OpenUnacked_host = sql_read (\<lambda>_. unacked_alerts hi_suppressed host_clock host_table)"

definition BumpEscalation_host :: "int \<Rightarrow> int \<Rightarrow> (bool \<times> error option) prog" where
  "BumpEscalation_host = bump_alert host_table"

definition suppressed_hosts :: "db \<Rightarrow> pending list" where
  "suppressed_hosts d = sort_key pi_id (map (\<lambda>x. pending_alert (a_started x) x)
     (filter (\<lambda>x. alert_open x \<and> a_acked_at x = None \<and> hi_suppressed x) (t_host_incidents d)))"

definition OpenSuppressed_host :: "pending list result prog" where
  "OpenSuppressed_host = sql_read (\<lambda>_. suppressed_hosts)"

definition ClearSuppressed_host :: "int \<Rightarrow> error option prog" where
  "ClearSuppressed_host iid =
     do {
       r \<leftarrow> update_rows host_table (\<lambda>x. a_id x = iid \<and> hi_suppressed x)
             (\<lambda>now x. x\<lparr>hi_suppressed := False, hi_dep_released := Some now\<rparr>);
       State_Monad.return (case r of Inl e \<Rightarrow> Some e | Inr _ \<Rightarrow> None)
     }"

definition ListByProject_host :: "int \<Rightarrow> int \<Rightarrow> host_incident list result prog" where
  "ListByProject_host projectID = list_alerts (\<lambda>x. a_project x = projectID) host_table"

definition ListOpenByProject :: "int \<Rightarrow> host_incident list result prog" where
  "ListOpenByProject projectID = sql_read (\<lambda>_. newest_alerts (\<lambda>x. a_project x = projectID \<and> alert_open x) host_table)"

definition ListRecentByHost :: "int \<Rightarrow> int \<Rightarrow> host_incident list result prog" where
  "ListRecentByHost hostID = list_alerts (\<lambda>x. hi_host x = hostID) host_table"

definition ListOpenByHost :: "int \<Rightarrow> host_incident list result prog" where
  "ListOpenByHost hostID = sql_read (\<lambda>_. newest_alerts (\<lambda>x. hi_host x = hostID \<and> alert_open x) host_table)"

subsection \<open>The table as an instance of the shared statements\<close>

lemma host_table_simps [simp]:
  "tb_rows host_table d = t_host_incidents d" "tb_map host_table g d = d\<lparr>t_host_incidents := g (t_host_incidents d)\<rparr>"
  "tb_seq host_table d = t_host_incident_seq d" "tb_next host_table d = d\<lparr>t_host_incident_seq := t_host_incident_seq d + 1\<rparr>"
  by (simp_all add: host_table_def)

interpretation host_inc: incident_table host_table host_key
  by unfold_locales (simp_all add: host_key_def close_alert_def mark_alert_def)

abbreviation host_progress :: "db \<Rightarrow> db \<Rightarrow> bool" where
  "host_progress \<equiv> alert_progress host_table host_key"

abbreviation host_wf :: "db \<Rightarrow> bool" where
  "host_wf \<equiv> alert_wf host_table host_key"

lemma host_le:
  "alert_le host_key x (x\<lparr>hi_current := c, hi_peak := p\<rparr>)"
  "alert_open x \<Longrightarrow> alert_le host_key x ((close_alert now x)\<lparr>hi_current := c\<rparr>)"
  "alert_le host_key x (x\<lparr>hi_suppressed := b, hi_dep_released := t\<rparr>)"
  by (simp_all add: alert_le_def host_key_def close_alert_def)

text \<open>The operations of the component, as values.\<close>

datatype host_op =
    HoOpen int int string rat string bool
  | HoBump int rat rat
  | HoResolve int rat
  | HoCloseProject int string
  | HoCloseHosts "int list" string
  | HoCloseHost int string
  | HoMarkNotified int bool
  | HoAcknowledge int int int
  | HoEscalate int int
  | HoRelease int

primrec run_host_op :: "host_op \<Rightarrow> unit prog" where
  "run_host_op (HoOpen p h k c dt mt) = ignore (Open_host p h k c dt mt)"
| "run_host_op (HoBump i c p) = ignore (Bump_host i c p)"
| "run_host_op (HoResolve i c) = ignore (Resolve_host i c)"
| "run_host_op (HoCloseProject p k) = ignore (ResolveOpenByProjectKind p k)"
| "run_host_op (HoCloseHosts hs k) = ignore (ResolveOpenByHostsKind hs k)"
| "run_host_op (HoCloseHost h k) = ignore (ResolveOpenByHostKind h k)"
| "run_host_op (HoMarkNotified i b) = ignore (MarkNotified_host i b)"
| "run_host_op (HoAcknowledge i p u) = ignore (Acknowledge_host i p u)"
| "run_host_op (HoEscalate i n) = ignore (BumpEscalation_host i n)"
| "run_host_op (HoRelease i) = ignore (ClearSuppressed_host i)"

lemma guar_Open_host: "guar (on_db host_progress) (Open_host p h k c dt mt)"
  unfolding Open_host_def OpenFor_host_def
  by (intro host_inc.progress_rules host_inc.progress_insert alert_progress_rel) (simp_all add: new_host_incident_def)

lemma guar_host_writes:
  "guar (on_db host_progress) (Bump_host i c pk)" "guar (on_db host_progress) (Resolve_host i c)"
  "guar (on_db host_progress) (ResolveOpenByProjectKind p k)" "guar (on_db host_progress) (ResolveOpenByHostKind h k)"
  "guar (on_db host_progress) (ResolveOpenByHostsKind hs k)" "guar (on_db host_progress) (MarkNotified_host i b)"
  "guar (on_db host_progress) (Acknowledge_host i p u)" "guar (on_db host_progress) (BumpEscalation_host i n)"
  "guar (on_db host_progress) (ClearSuppressed_host i)"
  unfolding Bump_host_def Resolve_host_def ResolveOpenByProjectKind_def ResolveOpenByHostKind_def ResolveOpenByHostsKind_def
    MarkNotified_host_def Acknowledge_host_def BumpEscalation_host_def ClearSuppressed_host_def
  by (intro host_inc.progress_rules host_inc.guar_progress_update host_inc.guar_ack host_inc.guar_bump alert_progress_rel;
      simp add: host_le host_inc.le_shared)+

lemma guar_host_op: "guar (on_db host_progress) (run_host_op oper)"
  by (cases oper) (simp_all only: run_host_op.simps, (intro host_inc.progress_rules alert_progress_rel guar_Open_host guar_host_writes)+)

lemma guar_host_ops: "guar (on_db host_progress) (for_each ops run_host_op)"
  by (intro host_inc.progress_rules guar_host_op alert_progress_rel)

text \<open>
  Whatever operations on host incidents replicas run in whatever order, and whatever
  faults and lost replies their statements meet, a host never has two open incidents of one
  kind, the status of an incident says whether it has an end, ids stay unique, and every
  incident only moves forward: none disappears, a resolution, an acknowledgement or a
  page once recorded is not undone, and the escalation level never falls.
\<close>

theorem host_incidents_sound:
  assumes "host_wf (db w)" and "run_state (for_each ops run_host_op) w = ((), w')"
  shows "host_wf (db w') \<and>
         list_all2 (alert_le host_key) (t_host_incidents (db w)) (take (length (t_host_incidents (db w))) (t_host_incidents (db w')))"
  using guarD [OF guar_host_ops, of w ops] assms by (simp add: on_db_def alert_progress_def)

text \<open>A host, and its open incident of silence whose first page went out.\<close>

definition ex_hosts :: db where
  "ex_hosts = ex_db\<lparr>t_hosts := [\<lparr>h_id = 1, h_project = 1, h_name = ''db1'', h_first_seen = 0, h_last_seen = hour, h_agent = '''',
        h_env = '''', h_role = ''db''\<rparr>], t_host_seq := 2,
     t_host_incidents := [(new_host_incident 1 1 ''silent'' 400 '''' False (2 * hour) 1)\<lparr>a_notified_open := True, a_level := 1\<rparr>],
     t_host_incident_seq := 2\<rparr>"

theorem host_incidents_sound_witness:
  "map (\<lambda>x. (hi_kind x, a_status x)) (t_host_incidents (db (snd (run_state
       (for_each [HoOpen 1 1 ''silent'' 500 '''' False, HoResolve 1 9, HoOpen 1 1 ''silent'' 300 '''' False] run_host_op)
       ((calm (3 * hour) ex_hosts)\<lparr>sched := [(FailApplied, 1)]\<rparr>))))) = [(''silent'', ''resolved''), (''silent'', ''open'')] \<and>
   host_wf (db (snd (run_state
       (for_each [HoOpen 1 1 ''silent'' 500 '''' False, HoResolve 1 9, HoOpen 1 1 ''silent'' 300 '''' False] run_host_op)
       ((calm (3 * hour) ex_hosts)\<lparr>sched := [(FailApplied, 1)]\<rparr>))))"
proof -
  let ?ops = "for_each [HoOpen 1 1 ''silent'' 500 '''' False, HoResolve 1 9, HoOpen 1 1 ''silent'' 300 '''' False] run_host_op"
  let ?w = "(calm (3 * hour) ex_hosts)\<lparr>sched := [(FailApplied, 1)]\<rparr>"
  have "host_wf (db ?w)" by code_simp
  from host_incidents_sound [OF this, of "[HoOpen 1 1 ''silent'' 500 '''' False, HoResolve 1 9, HoOpen 1 1 ''silent'' 300 '''' False]" "snd (run_state ?ops ?w)"]
  have "host_wf (db (snd (run_state ?ops ?w)))" by (simp add: prod_eq_iff)
  moreover have "map (\<lambda>x. (hi_kind x, a_status x)) (t_host_incidents (db (snd (run_state ?ops ?w)))) =
      [(''silent'', ''resolved''), (''silent'', ''open'')]" by code_simp
  ultimately show ?thesis by simp
qed

text \<open>
  An escalation level of a host incident is passed once: after a replica has raised it
  from \<open>n\<close>, no later attempt to raise it from \<open>n\<close> succeeds, whatever operations on host
  incidents ran in between and whatever faults they met.
\<close>

theorem host_level_once:
  assumes "host_wf (db w)" and "run_state (BumpEscalation_host i n) w = ((True, e), w1)"
    and "run_state (for_each ops run_host_op) w1 = ((), w2)" and "run_state (BumpEscalation_host i n) w2 = ((ok, e'), w3)"
  shows "\<not> ok"
proof -
  have "host_progress (db w1) (db w2)" using guarD [OF guar_host_ops, of w1 ops] assms(3) by (simp add: on_db_def)
  then show ?thesis using host_inc.level_once assms(1,2,4) unfolding BumpEscalation_host_def by blast
qed

theorem host_level_once_witness:
  "\<not> fst (fst (run_state (BumpEscalation_host 1 1) (snd (run_state (for_each [HoAcknowledge 1 1 3] run_host_op)
     (snd (run_state (BumpEscalation_host 1 1) (calm (3 * hour) ex_hosts)))))))"
proof -
  let ?r1 = "run_state (BumpEscalation_host 1 1) (calm (3 * hour) ex_hosts)"
  let ?r2 = "run_state (for_each [HoAcknowledge 1 1 3] run_host_op) (snd ?r1)"
  let ?r3 = "run_state (BumpEscalation_host 1 1) (snd ?r2)"
  have wf: "host_wf (db (calm (3 * hour) ex_hosts))" and r1: "?r1 = ((True, snd (fst ?r1)), snd ?r1)" by code_simp+
  have r2: "?r2 = ((), snd ?r2)" and r3: "?r3 = ((fst (fst ?r3), snd (fst ?r3)), snd ?r3)" by (simp_all add: prod_eq_iff)
  show ?thesis by (rule host_level_once [OF wf r1 r2 r3])
qed

interpretation host_source: escalation_source OpenUnacked_host host_wf
  unfolding OpenUnacked_host_def by (rule host_inc.source_of_list)

end
