(* ===== verification/Host_Store.thy ===== *)
theory Host_Store
  imports Host_Settings Host_Incident
begin

text \<open>
  \<open>internal/host/host.go\<close>: the registry of hosts that ingestion fills and the evaluator walks.
  The properties: which names a batch registers and which it rejects, what a later batch may
  change of a host, the ceiling of hosts per project, and what deleting a host takes along.
\<close>

subsection \<open>Model: host.go\<close>

definition MaxHostsPerProject :: nat where "MaxHostsPerProject = 1000"
definition MaxActiveHostsPerTick :: nat where "MaxActiveHostsPerTick = 20000"

definition validName :: "string \<Rightarrow> bool" where
  "validName name \<longleftrightarrow> name \<noteq> '''' \<and> name \<noteq> ''.'' \<and> name \<noteq> ''..''"

text \<open>\<open>TouchEntry\<close> of \<open>touch.go\<close>; an empty text means unknown.\<close>

record touch_entry =
  te_Name :: string
  te_AgentVersion :: string
  te_Environment :: string
  te_Role :: string

definition keep_unless_set :: "string \<Rightarrow> string \<Rightarrow> string" where
  "keep_unless_set old new = (if new \<noteq> '''' then new else old)"

definition merge_entry :: "touch_entry \<Rightarrow> touch_entry \<Rightarrow> touch_entry" where
  "merge_entry x e = x\<lparr>te_AgentVersion := keep_unless_set (te_AgentVersion x) (te_AgentVersion e),
     te_Environment := keep_unless_set (te_Environment x) (te_Environment e),
     te_Role := keep_unless_set (te_Role x) (te_Role e)\<rparr>"

text \<open>The loop that drops invalid names and merges the entries of one name.\<close>

definition dedup_step :: "touch_entry list \<Rightarrow> touch_entry \<Rightarrow> touch_entry list" where
  "dedup_step acc e =
     (if \<not> validName (te_Name e) then acc
      else if list_ex (\<lambda>x. te_Name x = te_Name e) acc
      then map (\<lambda>x. if te_Name x = te_Name e then merge_entry x e else x) acc
      else acc @ [e])"

definition dedup :: "touch_entry list \<Rightarrow> touch_entry list" where
  "dedup = foldl dedup_step []"

definition host_named :: "db \<Rightarrow> int \<Rightarrow> string \<Rightarrow> bool" where
  "host_named d projectID name \<longleftrightarrow> list_ex (\<lambda>h. h_project h = projectID \<and> h_name h = name) (t_hosts d)"

text \<open>
  The statement: the entries of known hosts (by name, as \<open>DISTINCT ON\<close> sorts them) and then as
  many new ones, in the order of the batch, as there is room; an insert of a new name, an
  update of a known one. Every proposed row takes a number of the sequence. The foreign
  key to \<open>projects\<close> matters for new rows.
\<close>

definition hosts_room :: "db \<Rightarrow> int \<Rightarrow> nat" where
  "hosts_room d projectID = MaxHostsPerProject - length (filter (\<lambda>h. h_project h = projectID) (t_hosts d))"

definition refresh_host :: "time \<Rightarrow> touch_entry \<Rightarrow> host_row \<Rightarrow> host_row" where
  "refresh_host now e h = h\<lparr>h_last_seen := now, h_agent := keep_unless_set (h_agent h) (te_AgentVersion e),
     h_env := keep_unless_set (h_env h) (te_Environment e), h_role := keep_unless_set (h_role h) (te_Role e)\<rparr>"

definition new_host :: "int \<Rightarrow> time \<Rightarrow> int \<Rightarrow> touch_entry \<Rightarrow> host_row" where
  "new_host projectID now hid e = \<lparr>h_id = hid, h_project = projectID, h_name = te_Name e, h_first_seen = now, h_last_seen = now,
     h_agent = te_AgentVersion e, h_env = te_Environment e, h_role = te_Role e\<rparr>"

definition upsert_hosts :: "int \<Rightarrow> touch_entry list \<Rightarrow> time \<Rightarrow> db \<Rightarrow> nat option \<times> db" where
  "upsert_hosts projectID entries now d =
     (let known = sort_key te_Name (filter (\<lambda>e. host_named d projectID (te_Name e)) entries);
          fresh = take (hosts_room d projectID) (filter (\<lambda>e. \<not> host_named d projectID (te_Name e)) entries);
          d1 = d\<lparr>t_host_seq := t_host_seq d + int (length known) + int (length fresh)\<rparr>
      in if fresh \<noteq> [] \<and> \<not> project_exists d projectID then (None, d1)
         else (Some (length known + length fresh),
           d1\<lparr>t_hosts :=
             map (\<lambda>h. case find (\<lambda>e. h_project h = projectID \<and> te_Name e = h_name h) known of
                        Some e \<Rightarrow> refresh_host now e h | None \<Rightarrow> h) (t_hosts d) @
             map (\<lambda>(k, e). new_host projectID now (t_host_seq d + int (length known) + int k) e) (enumerate 0 fresh)\<rparr>))"

definition Upsert_hosts :: "int \<Rightarrow> touch_entry list \<Rightarrow> int result prog" where
  "Upsert_hosts projectID entries =
     (let dd = dedup entries in
      if dd = [] then State_Monad.return (Inr 0)
      else do {
        r \<leftarrow> sql (\<lambda>now. upsert_hosts projectID dd now);
        State_Monad.return
          (case r of
             Inl e \<Rightarrow> Inl e
           | Inr None \<Rightarrow> Inl ErrDB
           | Inr (Some n) \<Rightarrow> Inr (max 0 (int (length dd) - int n)))
      })"

text \<open>\<open>ORDER BY name\<close> within a project.\<close>

definition hosts_where :: "(host_row \<Rightarrow> bool) \<Rightarrow> db \<Rightarrow> host_row list" where
  "hosts_where p d = sort_key h_name (filter p (t_hosts d))"

definition host_limit :: "int \<Rightarrow> nat" where
  "host_limit limit = (if limit \<le> 0 then MaxHostsPerProject else nat limit)"

definition List_hosts :: "int \<Rightarrow> int \<Rightarrow> host_row list result prog" where
  "List_hosts projectID limit =
     sql_read (\<lambda>_ d. take (host_limit limit) (hosts_where (\<lambda>h. h_project h = projectID) d))"

definition ListPage :: "int \<Rightarrow> string \<Rightarrow> int \<Rightarrow> host_row list result prog" where
  "ListPage projectID after limit =
     sql_read (\<lambda>_ d. take (host_limit limit) (hosts_where (\<lambda>h. h_project h = projectID \<and> after < h_name h) d))"

definition HostLabelNone :: string where "HostLabelNone = ''__none__''"

record host_filter =
  hf_Environment :: string
  hf_Role :: string
  hf_NewOnly :: bool

definition label_filter :: "string \<Rightarrow> string \<Rightarrow> bool" where
  "label_filter val col \<longleftrightarrow> (if val = '''' then True else if val = HostLabelNone then col = '''' else col = val)"

definition ListFiltered :: "int \<Rightarrow> host_filter \<Rightarrow> int \<Rightarrow> host_row list result prog" where
  "ListFiltered projectID f limit =
     sql_read (\<lambda>now d. take (host_limit limit) (hosts_where (\<lambda>h. h_project h = projectID \<and>
       label_filter (hf_Environment f) (h_env h) \<and> label_filter (hf_Role f) (h_role h) \<and>
       (hf_NewOnly f \<longrightarrow> now - 24 * hour < h_first_seen h)) d))"

definition distinctLabelValues :: "int \<Rightarrow> (host_row \<Rightarrow> string) \<Rightarrow> string list result prog" where
  "distinctLabelValues projectID col =
     sql_read (\<lambda>_ d. sort (remdups (map col (filter (\<lambda>h. h_project h = projectID \<and> col h \<noteq> '''') (t_hosts d)))))"

definition FacetValues :: "int \<Rightarrow> (string list \<times> string list) result prog" where
  "FacetValues projectID =
     do {
       envs \<leftarrow> distinctLabelValues projectID h_env;
       (case envs of
          Inl e \<Rightarrow> State_Monad.return (Inl e)
        | Inr es \<Rightarrow>
            do {
              roles \<leftarrow> distinctLabelValues projectID h_role;
              State_Monad.return (case roles of Inl e \<Rightarrow> Inl e | Inr rs \<Rightarrow> Inr (es, rs))
            })
     }"

definition Get_host :: "int \<Rightarrow> string \<Rightarrow> host_row option result prog" where
  "Get_host projectID name = sql_read (\<lambda>_ d. find (\<lambda>h. h_project h = projectID \<and> h_name h = name) (t_hosts d))"

definition ListByIDs :: "int list \<Rightarrow> host_row list result prog" where
  "ListByIDs ids =
     (if ids = [] then State_Monad.return (Inr [])
      else sql_read (\<lambda>_ d. filter (\<lambda>h. h_id h \<in> set ids) (t_hosts d)))"

text \<open>Deleting hosts, with the cascades of the foreign keys to \<open>hosts\<close>.\<close>

definition delete_hosts :: "(host_row \<Rightarrow> bool) \<Rightarrow> db \<Rightarrow> nat \<times> db" where
  "delete_hosts p d =
     (let gone = map h_id (filter p (t_hosts d)) in
      (length gone,
       d\<lparr>t_hosts := sql_delete p (t_hosts d),
         t_host_overrides := sql_delete (\<lambda>(h, _). h \<in> set gone) (t_host_overrides d),
         t_host_incidents := sql_delete (\<lambda>x. hi_host x \<in> set gone) (t_host_incidents d),
         t_deps := sql_delete (\<lambda>e. (\<exists>h \<in> set gone. de_ParentHostID e = Some h) \<or> (\<exists>h \<in> set gone. de_ChildHostID e = Some h)) (t_deps d)\<rparr>))"

definition Delete_host :: "int \<Rightarrow> string \<Rightarrow> bool result prog" where
  "Delete_host projectID name =
     do {
       r \<leftarrow> sql (\<lambda>_. delete_hosts (\<lambda>h. h_project h = projectID \<and> h_name h = name));
       State_Monad.return (case r of Inl e \<Rightarrow> Inl e | Inr n \<Rightarrow> Inr (0 < n))
     }"

definition ListActiveWithProject :: "duration \<Rightarrow> int \<Rightarrow> host_row list result prog" where
  "ListActiveWithProject fresh limit =
     do {
       t \<leftarrow> time_now;
       sql_read (\<lambda>_ d. take (if limit \<le> 0 then MaxActiveHostsPerTick else nat limit)
         (sort_key (\<lambda>h. (h_project h, h_name h)) (filter (\<lambda>h. t - fresh < h_last_seen h) (t_hosts d))))
     }"

subsection \<open>The batch of a registration\<close>

text \<open>
  The names of a batch after merging: the valid ones, each once, in the order of their first
  appearance.
\<close>

fun first_names :: "string list \<Rightarrow> string list" where
  "first_names [] = []"
| "first_names (n # ns) = n # filter (\<lambda>m. m \<noteq> n) (first_names ns)"

lemma set_first_names [simp]: "set (first_names ns) = set ns"
  by (induction ns) auto

lemma distinct_first_names [simp]: "distinct (first_names ns)"
  by (induction ns) auto

lemma names_merged: "map te_Name (map (\<lambda>x. if te_Name x = te_Name e then merge_entry x e else x) acc) = map te_Name acc"
  by (simp add: merge_entry_def)

lemma foldl_dedup_names:
  "map te_Name (foldl dedup_step acc es) =
     map te_Name acc @ filter (\<lambda>n. n \<notin> set (map te_Name acc)) (first_names (filter validName (map te_Name es)))"
proof (induction es arbitrary: acc)
  case (Cons e es)
  show ?case
  proof (cases "validName (te_Name e)")
    case True
    show ?thesis
    proof (cases "list_ex (\<lambda>x. te_Name x = te_Name e) acc")
      case old: True
      then have "te_Name e \<in> set (map te_Name acc)" unfolding list_ex_iff set_map by (metis image_eqI)
      moreover have "filter (\<lambda>n. n \<notin> S) (filter (\<lambda>m. m \<noteq> a) xs) = filter (\<lambda>n. n \<notin> S) xs" if "a \<in> S" for S and a and xs :: "string list"
        using that by (induction xs) auto
      ultimately show ?thesis
        using True old Cons.IH [of "map (\<lambda>x. if te_Name x = te_Name e then merge_entry x e else x) acc"]
        unfolding names_merged by (simp add: dedup_step_def del: set_map filter_filter)
    next
      case new: False
      then have "te_Name e \<notin> set (map te_Name acc)" by (auto simp: list_ex_iff)
      with True new Cons.IH [of "acc @ [e]"] show ?thesis by (simp add: dedup_step_def conj_commute)
    qed
  next
    case False
    with Cons.IH [of acc] show ?thesis by (simp add: dedup_step_def)
  qed
qed simp

lemma dedup_names: "map te_Name (dedup es) = first_names (filter validName (map te_Name es))"
  using foldl_dedup_names [of "[]" es] by (simp add: dedup_def)

lemma distinct_dedup: "distinct (map te_Name (dedup es))"
  by (simp add: dedup_names)

subsection \<open>The registry\<close>

definition hosts_of :: "db \<Rightarrow> int \<Rightarrow> host_row list" where
  "hosts_of d projectID = filter (\<lambda>h. h_project h = projectID) (t_hosts d)"

definition hosts_wf :: "db \<Rightarrow> bool" where
  "hosts_wf d \<longleftrightarrow>
     distinct (map h_id (t_hosts d)) \<and> (\<forall>h \<in> set (t_hosts d). h_id h < t_host_seq d) \<and>
     distinct (map (\<lambda>h. (h_project h, h_name h)) (t_hosts d)) \<and>
     (\<forall>h \<in> set (t_hosts d). validName (h_name h)) \<and>
     (\<forall>p. length (hosts_of d p) \<le> MaxHostsPerProject)"

definition known_entries :: "db \<Rightarrow> int \<Rightarrow> touch_entry list \<Rightarrow> touch_entry list" where
  "known_entries d p es = sort_key te_Name (filter (\<lambda>e. host_named d p (te_Name e)) es)"

definition fresh_entries :: "db \<Rightarrow> int \<Rightarrow> touch_entry list \<Rightarrow> touch_entry list" where
  "fresh_entries d p es = filter (\<lambda>e. \<not> host_named d p (te_Name e)) es"

definition refreshed :: "int \<Rightarrow> touch_entry list \<Rightarrow> time \<Rightarrow> host_row \<Rightarrow> host_row" where
  "refreshed p known now h =
     (case find (\<lambda>e. h_project h = p \<and> te_Name e = h_name h) known of Some e \<Rightarrow> refresh_host now e h | None \<Rightarrow> h)"

definition added_hosts :: "db \<Rightarrow> int \<Rightarrow> touch_entry list \<Rightarrow> time \<Rightarrow> host_row list" where
  "added_hosts d p es now =
     map (\<lambda>(k, e). new_host p now (t_host_seq d + int (length (known_entries d p es)) + int k) e)
       (enumerate 0 (take (hosts_room d p) (fresh_entries d p es)))"

lemma upsert_hosts_split:
  "upsert_hosts p es now d =
     (let n = length (known_entries d p es) + length (take (hosts_room d p) (fresh_entries d p es)) in
      if take (hosts_room d p) (fresh_entries d p es) \<noteq> [] \<and> \<not> project_exists d p
      then (None, d\<lparr>t_host_seq := t_host_seq d + int n\<rparr>)
      else (Some n, d\<lparr>t_host_seq := t_host_seq d + int n,
        t_hosts := map (refreshed p (known_entries d p es) now) (t_hosts d) @ added_hosts d p es now\<rparr>))"
  by (simp add: upsert_hosts_def Let_def known_entries_def fresh_entries_def refreshed_def added_hosts_def)

lemma refreshed_same [simp]:
  "h_id (refreshed p es now h) = h_id h" "h_project (refreshed p es now h) = h_project h"
  "h_name (refreshed p es now h) = h_name h" "h_first_seen (refreshed p es now h) = h_first_seen h"
  by (simp_all add: refreshed_def refresh_host_def split: option.split)

lemma added_hosts_simps:
  "map h_name (added_hosts d p es now) = map te_Name (take (hosts_room d p) (fresh_entries d p es))"
  "map h_id (added_hosts d p es now) =
     map (\<lambda>k. t_host_seq d + int (length (known_entries d p es)) + int k) [0..<length (take (hosts_room d p) (fresh_entries d p es))]"
  "\<forall>h \<in> set (added_hosts d p es now). h_project h = p"
  "length (added_hosts d p es now) = length (take (hosts_room d p) (fresh_entries d p es))"
  by (auto simp: added_hosts_def new_host_def enumerate_eq_zip comp_def case_prod_beta
    simp flip: map_map intro!: nth_equalityI)

lemma hosts_of_refresh:
  "filter (\<lambda>h. h_project h = p') (map (refreshed p es now) rows) = map (refreshed p es now) (filter (\<lambda>h. h_project h = p') rows)"
  by (induction rows) simp_all

lemma hosts_of_upsert:
  "hosts_of (d\<lparr>t_host_seq := s, t_hosts := map (refreshed p ks now) (t_hosts d) @ added_hosts d p es now\<rparr>) p' =
     map (refreshed p ks now) (hosts_of d p') @ (if p' = p then added_hosts d p es now else [])"
  using added_hosts_simps(3) [of d p es now]
  by (auto simp: hosts_of_def hosts_of_refresh filter_id_conv filter_empty_conv)

lemma host_named_iff: "host_named d p n \<longleftrightarrow> n \<in> set (map h_name (hosts_of d p))"
  by (force simp: host_named_def hosts_of_def list_ex_iff)

lemma hosts_wf_upsert:
  assumes wf: "hosts_wf d" and es: "distinct (map te_Name es)" "\<forall>e \<in> set es. validName (te_Name e)"
  shows "hosts_wf (snd (upsert_hosts p es now d))"
proof -
  let ?new = "added_hosts d p es now" and ?old = "map (refreshed p (known_entries d p es) now) (t_hosts d)"
  let ?fresh = "take (hosts_room d p) (fresh_entries d p es)"
  have fresh: "distinct (map te_Name ?fresh)" "\<forall>e \<in> set ?fresh. \<not> host_named d p (te_Name e) \<and> validName (te_Name e)"
    using es by (auto simp: fresh_entries_def take_map [symmetric] distinct_map_filter dest: in_set_takeD)
  have "distinct (map h_id ?new)" unfolding added_hosts_simps by (simp add: distinct_map inj_on_def)
  moreover have ids: "h_id h < t_host_seq d + int (length (known_entries d p es) + length ?fresh) \<and> t_host_seq d \<le> h_id h"
    if "h \<in> set ?new" for h
  proof -
    have "h_id h \<in> set (map h_id ?new)" using that by simp
    then show ?thesis unfolding added_hosts_simps by auto
  qed
  ultimately have "distinct (map h_id (?old @ ?new))"
    using wf by (force simp: hosts_wf_def comp_def)
  moreover have "distinct (map (\<lambda>h. (h_project h, h_name h)) (?old @ ?new))"
  proof -
    have "map (\<lambda>h. (h_project h, h_name h)) ?new = map (Pair p) (map h_name ?new)"
      using added_hosts_simps(3) [of d p es now] by simp
    then have rows: "map (\<lambda>h. (h_project h, h_name h)) (?old @ ?new) =
        map (\<lambda>h. (h_project h, h_name h)) (t_hosts d) @ map (Pair p) (map h_name ?new)" by (simp add: comp_def)
    have "distinct (map (Pair p) ns)" if "distinct ns" for ns :: "string list"
      using that by (simp add: distinct_map inj_on_def)
    with fresh(1) have "distinct (map (Pair p) (map h_name ?new))" unfolding added_hosts_simps by blast
    moreover have "(p, n) \<notin> (\<lambda>h. (h_project h, h_name h)) ` set (t_hosts d)" if "n \<in> set (map h_name ?new)" for n
    proof -
      from that obtain e where e: "e \<in> set ?fresh" "te_Name e = n" unfolding added_hosts_simps by auto
      with fresh(2) have "\<not> host_named d p n" by blast
      then show ?thesis by (auto simp: host_named_def list_ex_iff)
    qed
    ultimately show ?thesis using wf unfolding rows distinct_append by (auto simp: hosts_wf_def simp del: map_map)
  qed
  moreover have "validName (h_name h)" if "h \<in> set (?old @ ?new)" for h
  proof -
    have "validName n" if "n \<in> set (map h_name ?new)" for n
      using that fresh(2) unfolding added_hosts_simps by auto
    with that wf show ?thesis by (auto simp: hosts_wf_def)
  qed
  moreover have "length (map (refreshed p (known_entries d p es) now) (hosts_of d p') @ (if p' = p then ?new else [])) \<le> MaxHostsPerProject" for p'
  proof -
    have "length (hosts_of d p') \<le> MaxHostsPerProject" using wf by (simp add: hosts_wf_def)
    then show ?thesis by (auto simp: added_hosts_simps hosts_room_def hosts_of_def)
  qed
  moreover have "\<forall>h \<in> set (?old @ ?new). h_id h < t_host_seq d + int (length (known_entries d p es) + length ?fresh)"
    using ids wf by (force simp: hosts_wf_def)
  ultimately have "hosts_wf (d\<lparr>t_host_seq := t_host_seq d + int (length (known_entries d p es) + length ?fresh), t_hosts := ?old @ ?new\<rparr>)"
    unfolding hosts_wf_def hosts_of_upsert by simp
  moreover have "hosts_wf (d\<lparr>t_host_seq := t_host_seq d + int (length (known_entries d p es) + length ?fresh)\<rparr>)"
    using wf by (force simp: hosts_wf_def hosts_of_def)
  ultimately show ?thesis by (simp add: upsert_hosts_split Let_def)
qed

lemma hosts_wf_delete:
  assumes "hosts_wf d"
  shows "hosts_wf (snd (delete_hosts p d))"
proof -
  have "length (filter q (filter r rows)) \<le> length (filter q rows)" for q r and rows :: "host_row list"
    by (induction rows) auto
  then have "length (hosts_of (snd (delete_hosts p d)) p') \<le> length (hosts_of d p')" for p'
    unfolding hosts_of_def delete_hosts_def sql_delete_def Let_def by simp
  then have "length (hosts_of (snd (delete_hosts p d)) p') \<le> MaxHostsPerProject" for p'
    using assms order_trans unfolding hosts_wf_def by blast
  then show ?thesis
    using assms by (simp add: hosts_wf_def delete_hosts_def Let_def sql_delete_def distinct_map_filter)
qed

subsection \<open>Properties\<close>

datatype registry_op = RoUpsert int "touch_entry list" | RoDelete int string

primrec run_registry_op :: "registry_op \<Rightarrow> unit prog" where
  "run_registry_op (RoUpsert p es) = ignore (Upsert_hosts p es)"
| "run_registry_op (RoDelete p n) = ignore (Delete_host p n)"

lemma dedup_valid: "\<forall>e \<in> set (dedup es). validName (te_Name e)"
proof -
  have "set (map te_Name (dedup es)) = set (filter validName (map te_Name es))" unfolding dedup_names by simp
  then show ?thesis by auto
qed

lemma guar_registry_op: "guar (on_db (inv_rel hosts_wf)) (run_registry_op oper)"
proof (cases oper)
  case (RoUpsert p es)
  have "inv_rel hosts_wf d (snd (upsert_hosts p (dedup es) now d))" for now d
    by (simp add: inv_rel_def hosts_wf_upsert distinct_dedup dedup_valid)
  then show ?thesis unfolding RoUpsert run_registry_op.simps Upsert_hosts_def Let_def by (intro guar)
next
  case (RoDelete p n)
  then show ?thesis unfolding RoDelete run_registry_op.simps Delete_host_def
    by (intro guar) (simp add: inv_rel_def hosts_wf_delete)
qed

text \<open>
  The registry of hosts stays sound under registrations and deletions in any order and
  with any faults: a project has at most 1000 hosts, no two with one name, none with the
  empty name or the names of the current and parent directory, and ids are unique.
  (The ceiling is checked in the statement that inserts; two such statements that overlap
  are not modelled.)
\<close>

theorem registry_stays_sound:
  assumes "hosts_wf (db w)" and "run_state (for_each ops run_registry_op) w = ((), w')"
  shows "hosts_wf (db w')"
proof -
  have "guar (on_db (inv_rel hosts_wf)) (for_each ops run_registry_op)" by (intro guar guar_registry_op)
  from guarD [OF this, of w] assms show ?thesis by (simp add: on_db_def inv_rel_def)
qed

definition ex_touch :: "string \<Rightarrow> string \<Rightarrow> touch_entry" where
  "ex_touch name role = \<lparr>te_Name = name, te_AgentVersion = '''', te_Environment = '''', te_Role = role\<rparr>"

lemma ex_hosts_wf: "hosts_wf ex_hosts"
  by (simp add: hosts_wf_def ex_hosts_def ex_db_def empty_db_def hosts_of_def validName_def MaxHostsPerProject_def)

theorem registry_stays_sound_witness:
  "let w' = snd (run_state (for_each [RoUpsert 1 [ex_touch ''web1'' '''', ex_touch ''..'' '''', ex_touch ''web1'' ''web''], RoDelete 1 ''db1'']
       run_registry_op) (calm (3 * hour) ex_hosts))
   in hosts_wf (db w') \<and> map (\<lambda>h. (h_name h, h_role h)) (t_hosts (db w')) = [(''web1'', ''web'')] \<and> t_host_incidents (db w') = []"
proof -
  let ?ops = "[RoUpsert 1 [ex_touch ''web1'' '''', ex_touch ''..'' '''', ex_touch ''web1'' ''web''], RoDelete 1 ''db1'']"
  let ?w' = "snd (run_state (for_each ?ops run_registry_op) (calm (3 * hour) ex_hosts))"
  have wf: "hosts_wf (db (calm (3 * hour) ex_hosts))" using ex_hosts_wf by simp
  have "hosts_wf (db ?w')" by (rule registry_stays_sound [OF wf, of ?ops]) (simp add: prod_eq_iff)
  moreover have "map (\<lambda>h. (h_name h, h_role h)) (t_hosts (db ?w')) = [(''web1'', ''web'')] \<and> t_host_incidents (db ?w') = []"
    by code_simp
  ultimately show ?thesis by (simp add: Let_def)
qed

text \<open>
  C37: what a registration does when its statement succeeds. Every host of the project that
  the batch names is seen now, also when the project is full; of the names not yet known, in
  the order of the batch, exactly as many are added as the ceiling leaves room for, first
  seen now; the number returned is the number of names dropped. An entry changes a label
  or the version of the agent only where it has one: an empty text leaves the stored one.
\<close>

theorem Upsert_hosts_meaning:
  assumes "sched w = []" and "project_exists (db w) p"
  shows "case run_state (Upsert_hosts p es) w of (r, w') \<Rightarrow>
     let fresh = fresh_entries (db w) p (dedup es); room = hosts_room (db w) p in
       r = Inr (int (length fresh - room)) \<and>
       map h_name (hosts_of (db w') p) = map h_name (hosts_of (db w) p) @ map te_Name (take room fresh) \<and>
       map h_first_seen (hosts_of (db w') p) = map h_first_seen (hosts_of (db w) p) @ replicate (length (take room fresh)) (pg_now w) \<and>
       (\<forall>h \<in> set (hosts_of (db w) p). \<exists>h' \<in> set (hosts_of (db w') p). h_id h' = h_id h \<and>
          (case find (\<lambda>e. te_Name e = h_name h) (dedup es) of
             None \<Rightarrow> h' = h
           | Some e \<Rightarrow> h_last_seen h' = pg_now w \<and> h_role h' = keep_unless_set (h_role h) (te_Role e) \<and>
               h_env h' = keep_unless_set (h_env h) (te_Environment e) \<and> h_agent h' = keep_unless_set (h_agent h) (te_AgentVersion e)))"
proof -
  let ?d = "db w" and ?es = "dedup es"
  let ?fresh = "fresh_entries ?d p ?es" and ?known = "known_entries ?d p ?es" and ?room = "hosts_room ?d p"
  have split: "length ?known + length ?fresh = length ?es"
    using sum_length_filter_compl [of "\<lambda>e. host_named ?d p (te_Name e)" ?es] by (simp add: known_entries_def fresh_entries_def)
  have first: "map h_first_seen (added_hosts ?d p ?es now) = replicate (length (take ?room ?fresh)) now" for now
    by (auto simp: added_hosts_def new_host_def enumerate_eq_zip intro!: nth_equalityI)
  have refresh: "find (\<lambda>e. h_project h = p \<and> te_Name e = h_name h) ?known = find (\<lambda>e. te_Name e = h_name h) ?es"
    if h: "h \<in> set (hosts_of ?d p)" for h
  proof (cases "find (\<lambda>e. te_Name e = h_name h) ?es")
    case None
    then have "find (\<lambda>e. h_project h = p \<and> te_Name e = h_name h) ?known = None"
      by (auto simp: find_None_iff known_entries_def)
    with None show ?thesis by simp
  next
    case (Some e)
    then have e: "e \<in> set ?es" "te_Name e = h_name h" by (auto simp: find_Some_iff)
    with h have "e \<in> set ?known" by (auto simp: known_entries_def host_named_iff)
    with e(2) h obtain e' where e': "find (\<lambda>e. h_project h = p \<and> te_Name e = h_name h) ?known = Some e'"
      by (cases "find (\<lambda>e. h_project h = p \<and> te_Name e = h_name h) ?known") (auto simp: find_None_iff hosts_of_def)
    then have "e' \<in> set ?known" "te_Name e' = h_name h" using find_SomeD [OF e'] by simp_all
    then have "e' \<in> set ?es" "te_Name e' = h_name h" by (simp_all add: known_entries_def)
    with e distinct_key_unique [OF distinct_dedup] have "e' = e" by metis
    with e' Some show ?thesis by simp
  qed
  show ?thesis
  proof (cases "?es = []")
    case True
    then show ?thesis using assms by (auto simp: Upsert_hosts_def Let_def fresh_entries_def)
  next
    case False
    let ?w' = "w\<lparr>db := snd (upsert_hosts p ?es (pg_now w) ?d)\<rparr>"
    have run: "run_state (Upsert_hosts p es) w = (Inr (int (length ?fresh - ?room)), ?w')"
      using assms False split by (simp add: Upsert_hosts_def upsert_hosts_split Let_def)
    have rows: "hosts_of (db ?w') p = map (refreshed p ?known (pg_now w)) (hosts_of ?d p) @ added_hosts ?d p ?es (pg_now w)"
      using assms by (simp add: upsert_hosts_split Let_def hosts_of_upsert)
    have names: "map h_name (hosts_of (db ?w') p) = map h_name (hosts_of ?d p) @ map te_Name (take ?room ?fresh)"
      and firsts: "map h_first_seen (hosts_of (db ?w') p) = map h_first_seen (hosts_of ?d p) @ replicate (length (take ?room ?fresh)) (pg_now w)"
      unfolding rows by (simp_all add: added_hosts_simps first comp_def del: length_take)
    moreover have "\<exists>h' \<in> set (hosts_of (db ?w') p). h_id h' = h_id h \<and>
          (case find (\<lambda>e. te_Name e = h_name h) ?es of
             None \<Rightarrow> h' = h
           | Some e \<Rightarrow> h_last_seen h' = pg_now w \<and> h_role h' = keep_unless_set (h_role h) (te_Role e) \<and>
               h_env h' = keep_unless_set (h_env h) (te_Environment e) \<and> h_agent h' = keep_unless_set (h_agent h) (te_AgentVersion e))"
      if "h \<in> set (hosts_of ?d p)" for h
    proof
      show "refreshed p ?known (pg_now w) h \<in> set (hosts_of (db ?w') p)" unfolding rows using that by simp
    qed (auto simp: refreshed_def refresh_host_def refresh [OF that] split: option.split)
    ultimately show ?thesis unfolding run Let_def prod.case by (intro conjI ballI) simp_all
  qed
qed

theorem Upsert_hosts_meaning_witness:
  "fst (run_state (Upsert_hosts 1 [ex_touch ''web1'' '''', ex_touch ''db1'' '''']) (calm (3 * hour) ex_hosts)) = Inr 0"
proof -
  have "project_exists (db (calm (3 * hour) ex_hosts)) 1" "hosts_room ex_hosts 1 = 999"
    "length (fresh_entries ex_hosts 1 (dedup [ex_touch ''web1'' '''', ex_touch ''db1'' ''''])) = 1" by code_simp+
  with Upsert_hosts_meaning [of "calm (3 * hour) ex_hosts" 1 "[ex_touch ''web1'' '''', ex_touch ''db1'' '''']"]
  show ?thesis by (simp add: case_prod_beta Let_def)
qed

text \<open>Deleting a host leaves no row that refers to it.\<close>

definition host_refs :: "db \<Rightarrow> int set" where
  "host_refs d = hi_host ` set (t_host_incidents d) \<union> fst ` set (t_host_overrides d) \<union>
     {h. \<exists>e \<in> set (t_deps d). de_ParentHostID e = Some h \<or> de_ChildHostID e = Some h}"

lemma delete_hosts_refs:
  assumes "distinct (map h_id (t_hosts d))" and "host_refs d \<subseteq> h_id ` set (t_hosts d)"
  shows "host_refs (snd (delete_hosts p d)) \<subseteq> h_id ` set (t_hosts (snd (delete_hosts p d)))"
proof -
  let ?gone = "h_id ` {h \<in> set (t_hosts d). p h}"
  have stay: "i \<in> h_id ` {h \<in> set (t_hosts d). \<not> p h}" if "i \<in> host_refs d" "i \<notin> h_id ` {h \<in> set (t_hosts d). p h}" for i
    using assms(2) that by blast
  show ?thesis
  proof
    fix i assume i: "i \<in> host_refs (snd (delete_hosts p d))"
    then have "i \<in> hi_host ` {x \<in> set (t_host_incidents d). hi_host x \<notin> ?gone} \<union> fst ` {ov \<in> set (t_host_overrides d). fst ov \<notin> ?gone} \<union>
        {h. h \<notin> ?gone \<and> (\<exists>e \<in> set (t_deps d). de_ParentHostID e = Some h \<or> de_ChildHostID e = Some h)}"
      by (auto simp: host_refs_def delete_hosts_def Let_def sql_delete_def case_prod_beta)
    then have "i \<in> host_refs d \<and> i \<notin> ?gone"
      unfolding host_refs_def by (elim UnE imageE CollectE conjE; simp)
    then have "i \<in> host_refs d" "i \<notin> ?gone" by simp_all
    from stay [OF this] show "i \<in> h_id ` set (t_hosts (snd (delete_hosts p d)))"
      by (auto simp: delete_hosts_def Let_def sql_delete_def)
  qed
qed

end
