(* ===== verification/Host_Touch.thy ===== *)
theory Host_Touch
  imports Host_Store
begin

text \<open>
  \<open>internal/host/touch.go\<close>: every batch of metrics touches the hosts it comes from, and the
  \<open>Toucher\<close> lets a host through to the registry once per interval, remembering when in a map
  of bounded size with least-recently-used eviction. The properties: the bookkeeping stays
  consistent and bounded, what is evicted is the oldest entry, a remembered host is let
  through only after the interval, and a registration that failed is tried again.
\<close>

subsection \<open>Model: touch.go\<close>

type_synonym touch_key = "int \<times> string"

text \<open>
  The maps are association lists. An element of the linked list is identified with the key
  it holds: a key is pushed only when the map does not have it.
\<close>

record toucher =
  tc_seen :: "(touch_key \<times> time) list"
  tc_order :: "touch_key list"
  tc_elems :: "(touch_key \<times> touch_key) list"
  tc_every :: duration
  tc_max :: int
  tc_failures :: int
  tc_rejected :: int

definition NewToucher :: "duration \<Rightarrow> int \<Rightarrow> toucher" where
  "NewToucher every maxEntries =
     \<lparr>tc_seen = [], tc_order = [], tc_elems = [], tc_every = every, tc_max = maxEntries, tc_failures = 0, tc_rejected = 0\<rparr>"

definition evictOldestLocked :: "toucher \<Rightarrow> toucher" where
  "evictOldestLocked t =
     (case tc_order t of
        [] \<Rightarrow> t
      | key # rest \<Rightarrow> t\<lparr>tc_order := rest, tc_elems := AList.delete key (tc_elems t), tc_seen := AList.delete key (tc_seen t)\<rparr>)"

definition Forget :: "int \<Rightarrow> string \<Rightarrow> toucher \<Rightarrow> toucher" where
  "Forget projectID name t =
     (let key = (projectID, name);
          t1 = (case map_of (tc_elems t) key of
                  Some el \<Rightarrow> t\<lparr>tc_order := remove1 el (tc_order t), tc_elems := AList.delete key (tc_elems t)\<rparr>
                | None \<Rightarrow> t)
      in t1\<lparr>tc_seen := AList.delete key (tc_seen t1)\<rparr>)"

text \<open>The body of the loop over the entries, under the lock.\<close>

definition move_to_back :: "touch_key \<Rightarrow> toucher \<Rightarrow> toucher" where
  "move_to_back key t =
     (case map_of (tc_elems t) key of
        Some el \<Rightarrow> t\<lparr>tc_order := remove1 el (tc_order t) @ [el]\<rparr> | None \<Rightarrow> t)"

definition push_back :: "touch_key \<Rightarrow> toucher \<Rightarrow> toucher" where
  "push_back key t = t\<lparr>tc_order := tc_order t @ [key], tc_elems := AList.update key key (tc_elems t)\<rparr>"

definition set_seen :: "touch_key \<Rightarrow> time \<Rightarrow> toucher \<Rightarrow> toucher" where
  "set_seen key now t = t\<lparr>tc_seen := AList.update key now (tc_seen t)\<rparr>"

definition touch_one :: "time \<Rightarrow> int \<Rightarrow> toucher \<times> touch_entry list \<Rightarrow> touch_entry \<Rightarrow> toucher \<times> touch_entry list" where
  "touch_one now projectID s e =
     (case s of (t, due) \<Rightarrow>
        let key = (projectID, te_Name e) in
        if \<not> validName (te_Name e) then (t, due)
        else case map_of (tc_seen t) key of
            Some before \<Rightarrow>
              if time_sub now before < tc_every t then (t, due)
              else (set_seen key now (move_to_back key t), due @ [e])
          | None \<Rightarrow>
              (let t1 = (if int (length (tc_seen t)) \<ge> tc_max t then evictOldestLocked t else t)
               in (set_seen key now (push_back key t1), due @ [e])))"

definition touch_mark :: "time \<Rightarrow> int \<Rightarrow> touch_entry list \<Rightarrow> toucher \<Rightarrow> toucher \<times> touch_entry list" where
  "touch_mark now projectID entries t = foldl (touch_one now projectID) (t, []) entries"

text \<open>\<open>Touch\<close>, with the registration that it starts in the background run to its end.\<close>

definition Touch :: "int \<Rightarrow> touch_entry list \<Rightarrow> toucher \<Rightarrow> toucher prog" where
  "Touch projectID entries t =
     (if entries = [] then State_Monad.return t
      else do {
        now \<leftarrow> time_now;
        (case touch_mark now projectID entries t of (t', due) \<Rightarrow>
           if due = [] then State_Monad.return t'
           else do {
             r \<leftarrow> Upsert_hosts projectID due;
             State_Monad.return
               (case r of
                  Inl _ \<Rightarrow> foldl (\<lambda>u e. Forget projectID (te_Name e) u) (t'\<lparr>tc_failures := tc_failures t' + 1\<rparr>) due
                | Inr n \<Rightarrow> if 0 < n then t'\<lparr>tc_rejected := tc_rejected t' + n\<rparr> else t')
           })
      })"

subsection \<open>The bookkeeping\<close>

definition seen_at :: "toucher \<Rightarrow> touch_key \<Rightarrow> time" where
  "seen_at t k = the (map_of (tc_seen t) k)"

definition toucher_wf :: "toucher \<Rightarrow> bool" where
  "toucher_wf t \<longleftrightarrow>
     distinct (tc_order t) \<and> distinct (map fst (tc_seen t)) \<and> dom (map_of (tc_seen t)) = set (tc_order t) \<and>
     map_of (tc_elems t) = (\<lambda>k. if k \<in> set (tc_order t) then Some k else None) \<and>
     int (length (tc_order t)) \<le> max 1 (tc_max t) \<and> sorted (map (seen_at t) (tc_order t))"

definition seen_until :: "toucher \<Rightarrow> time \<Rightarrow> bool" where
  "seen_until t now \<longleftrightarrow> (\<forall>k \<in> set (tc_order t). seen_at t k \<le> now)"

lemma seen_length:
  assumes "toucher_wf t"
  shows "length (tc_seen t) = length (tc_order t)"
proof -
  have "set (map fst (tc_seen t)) = set (tc_order t)" using assms by (simp add: toucher_wf_def dom_map_of_conv_image_fst)
  then show ?thesis using assms unfolding toucher_wf_def by (metis distinct_card length_map)
qed

text \<open>Removing a key, as eviction and forgetting do, and setting one at the back.\<close>

definition without :: "touch_key \<Rightarrow> toucher \<Rightarrow> toucher" where
  "without k t = t\<lparr>tc_order := remove1 k (tc_order t), tc_elems := AList.delete k (tc_elems t), tc_seen := AList.delete k (tc_seen t)\<rparr>"

definition at_back :: "touch_key \<Rightarrow> time \<Rightarrow> toucher \<Rightarrow> toucher" where
  "at_back k now t = t\<lparr>tc_order := remove1 k (tc_order t) @ [k], tc_elems := AList.update k k (tc_elems t),
     tc_seen := AList.update k now (tc_seen t)\<rparr>"

lemma change_simps [simp]:
  "tc_order (without k t) = remove1 k (tc_order t)" "tc_elems (without k t) = AList.delete k (tc_elems t)"
  "tc_seen (without k t) = AList.delete k (tc_seen t)" "tc_max (without k t) = tc_max t" "tc_every (without k t) = tc_every t"
  "tc_order (at_back k now t) = remove1 k (tc_order t) @ [k]" "tc_elems (at_back k now t) = AList.update k k (tc_elems t)"
  "tc_seen (at_back k now t) = AList.update k now (tc_seen t)" "tc_max (at_back k now t) = tc_max t"
  "tc_every (at_back k now t) = tc_every t"
  by (simp_all add: without_def at_back_def)

lemma seen_at_change [simp]:
  "k' \<noteq> k \<Longrightarrow> seen_at (without k t) k' = seen_at t k'" "k' \<noteq> k \<Longrightarrow> seen_at (at_back k now t) k' = seen_at t k'"
  "seen_at (at_back k now t) k = now"
  by (simp_all add: seen_at_def update_conv')

lemma sorted_remove1_map: "sorted (map f xs) \<Longrightarrow> sorted (map f (remove1 k xs))"
proof (induction xs)
  case (Cons x xs)
  then show ?case using set_remove1_subset [of k xs] by auto
qed simp

lemma map_remove1_cong:
  "distinct xs \<Longrightarrow> (\<And>x. x \<noteq> k \<Longrightarrow> f x = g x) \<Longrightarrow> map f (remove1 k xs) = map g (remove1 k xs)"
  by (intro map_cong) auto

lemma wf_without:
  assumes "toucher_wf t"
  shows "toucher_wf (without k t)"
proof -
  have d: "distinct (tc_order t)" using assms by (simp add: toucher_wf_def)
  have "map (seen_at (without k t)) (remove1 k (tc_order t)) = map (seen_at t) (remove1 k (tc_order t))"
    by (rule map_remove1_cong [OF d]) simp
  then have "sorted (map (seen_at (without k t)) (tc_order (without k t)))"
    using assms by (simp only: change_simps) (simp add: toucher_wf_def sorted_remove1_map)
  moreover have "distinct (map fst (AList.delete k (tc_seen t)))"
    using assms by (simp add: toucher_wf_def AList.distinct_delete)
  moreover have "int (length (remove1 k (tc_order t))) \<le> max 1 (tc_max t)"
    using assms by (auto simp: toucher_wf_def length_remove1)
  ultimately show ?thesis
    using assms d by (auto simp: toucher_wf_def delete_conv' fun_eq_iff)
qed

lemma wf_at_back:
  assumes "toucher_wf t" and "seen_until t now" and "k \<in> set (tc_order t) \<or> int (length (tc_order t)) < max 1 (tc_max t)"
  shows "toucher_wf (at_back k now t)" and "seen_until (at_back k now t) now"
proof -
  have d: "distinct (tc_order t)" using assms(1) by (simp add: toucher_wf_def)
  have "map (seen_at (at_back k now t)) (remove1 k (tc_order t)) = map (seen_at t) (remove1 k (tc_order t))"
    by (rule map_remove1_cong [OF d]) simp
  then have last: "map (seen_at (at_back k now t)) (tc_order (at_back k now t)) = map (seen_at t) (remove1 k (tc_order t)) @ [now]"
    by (simp only: change_simps map_append list.map seen_at_change)
  have "sorted (map (seen_at (at_back k now t)) (tc_order (at_back k now t)))"
    unfolding last using assms(1,2) set_remove1_subset [of k "tc_order t"]
    by (auto simp: toucher_wf_def seen_until_def sorted_append sorted_remove1_map)
  moreover have "distinct (map fst (AList.update k now (tc_seen t)))"
    using assms(1) by (simp add: toucher_wf_def AList.distinct_update)
  moreover have "int (length (remove1 k (tc_order t) @ [k])) \<le> max 1 (tc_max t)"
    using assms(1,3) length_pos_if_in_set [of k "tc_order t"] by (auto simp: toucher_wf_def length_remove1)
  ultimately have "sorted (map (seen_at (at_back k now t)) (tc_order (at_back k now t))) \<and>
    distinct (map fst (tc_seen (at_back k now t))) \<and> int (length (tc_order (at_back k now t))) \<le> max 1 (tc_max t)"
    by (simp only: change_simps)
  then show "toucher_wf (at_back k now t)"
    using assms(1) d unfolding toucher_wf_def by (auto simp: update_conv' fun_eq_iff simp del: map_append)
  show "seen_until (at_back k now t) now"
    using assms(2) d by (auto simp: seen_until_def seen_at_def update_conv')
qed

lemma seen_until_without: "toucher_wf t \<Longrightarrow> seen_until t now \<Longrightarrow> seen_until (without k t) now"
  by (auto simp: seen_until_def toucher_wf_def)

text \<open>The code in these terms.\<close>

lemma Forget_without: "toucher_wf t \<Longrightarrow> Forget p n t = (if (p, n) \<in> set (tc_order t) then without (p, n) t else t)"
proof -
  assume wf: "toucher_wf t"
  show ?thesis
  proof (cases "(p, n) \<in> set (tc_order t)")
    case False
    with wf have "(p, n) \<notin> fst ` set (tc_seen t)" by (simp add: toucher_wf_def dom_map_of_conv_image_fst)
    with wf False show ?thesis by (simp add: Forget_def Let_def toucher_wf_def)
  qed (use wf in \<open>simp add: Forget_def Let_def toucher_wf_def without_def\<close>)
qed

lemma evict_without: "toucher_wf t \<Longrightarrow> tc_order t = k # rest \<Longrightarrow> evictOldestLocked t = without k t"
  by (simp add: evictOldestLocked_def without_def)

lemma evict_empty: "tc_order t = [] \<Longrightarrow> evictOldestLocked t = t"
  by (simp add: evictOldestLocked_def)

lemma back_at_back:
  "toucher_wf t \<Longrightarrow> k \<in> set (tc_order t) \<Longrightarrow> set_seen k now (move_to_back k t) = at_back k now t"
  "toucher_wf t \<Longrightarrow> k \<notin> set (tc_order t) \<Longrightarrow> set_seen k now (push_back k t) = at_back k now t"
proof -
  assume wf: "toucher_wf t" and "k \<in> set (tc_order t)"
  then have "AList.update k k (tc_elems t) = tc_elems t" by (intro update_triv) (simp add: toucher_wf_def)
  then show "set_seen k now (move_to_back k t) = at_back k now t"
    using wf \<open>k \<in> set (tc_order t)\<close> by (simp add: set_seen_def move_to_back_def at_back_def toucher_wf_def)
next
  assume "toucher_wf t" "k \<notin> set (tc_order t)"
  then show "set_seen k now (push_back k t) = at_back k now t"
    by (simp add: set_seen_def push_back_def at_back_def remove1_idem)
qed

text \<open>The map after the step that makes room for a new key.\<close>

definition make_room :: "toucher \<Rightarrow> toucher" where
  "make_room t = (if int (length (tc_order t)) \<ge> tc_max t then evictOldestLocked t else t)"

lemma make_room:
  assumes "toucher_wf t" and "k \<notin> set (tc_order t)"
  shows "toucher_wf (make_room t)" and "k \<notin> set (tc_order (make_room t))"
    and "int (length (tc_order (make_room t))) < max 1 (tc_max t)"
    and "tc_every (make_room t) = tc_every t" and "tc_max (make_room t) = tc_max t"
    and "seen_until t now \<Longrightarrow> seen_until (make_room t) now"
proof -
  consider (stay) "make_room t = t" "int (length (tc_order t)) < max 1 (tc_max t)"
    | (evict) old rest where "tc_order t = old # rest" "make_room t = without old t"
    using assms(1) by (cases "tc_order t"; cases "tc_max t \<le> int (length (tc_order t))")
      (simp_all add: make_room_def evict_empty evict_without)
  note cs = this
  show "toucher_wf (make_room t)" using cs by cases (simp_all add: assms wf_without)
  show "k \<notin> set (tc_order (make_room t))"
    using cs
  proof cases
    case (evict old rest)
    then show ?thesis using assms(2) set_remove1_subset [of old "tc_order t"] by auto
  qed (simp add: assms)
  show "int (length (tc_order (make_room t))) < max 1 (tc_max t)"
    using cs
  proof cases
    case (evict old rest)
    then show ?thesis using assms(1) by (simp add: toucher_wf_def)
  qed simp
  show "tc_every (make_room t) = tc_every t" "tc_max (make_room t) = tc_max t" using cs by (cases, simp_all)+
  show "seen_until t now \<Longrightarrow> seen_until (make_room t) now" using cs by cases (simp_all add: seen_until_without assms)
qed

lemma remembered_iff:
  assumes "toucher_wf t"
  shows "map_of (tc_seen t) k = (if k \<in> set (tc_order t) then Some (seen_at t k) else None)"
proof (cases "map_of (tc_seen t) k")
  case None
  then have "k \<notin> dom (map_of (tc_seen t))" by blast
  with None assms show ?thesis by (simp add: toucher_wf_def)
next
  case (Some s)
  then have "k \<in> dom (map_of (tc_seen t))" by blast
  with Some assms show ?thesis by (simp add: toucher_wf_def seen_at_def)
qed

lemma touch_one_eq:
  assumes "toucher_wf t"
  shows "touch_one now p (t, due) e =
     (let k = (p, te_Name e) in
      if \<not> validName (te_Name e) then (t, due)
      else if k \<in> set (tc_order t) then
        if time_sub now (seen_at t k) < tc_every t then (t, due) else (at_back k now t, due @ [e])
      else (at_back k now (make_room t), due @ [e]))"
proof (cases "(p, te_Name e) \<in> set (tc_order t)")
  case True
  then show ?thesis using assms by (simp add: touch_one_def remembered_iff back_at_back Let_def)
next
  case False
  then show ?thesis
    using assms make_room(1,2) [OF assms False]
    by (simp add: touch_one_def remembered_iff back_at_back Let_def make_room_def seen_length)
qed

lemma touch_one_wf:
  assumes "toucher_wf t" and "seen_until t now" and "touch_one now p (t, due) e = (t', due')"
  shows "toucher_wf t' \<and> seen_until t' now \<and> tc_max t' = tc_max t \<and> tc_every t' = tc_every t"
proof (cases "(p, te_Name e) \<in> set (tc_order t)")
  case True
  then show ?thesis using assms(3) wf_at_back [OF assms(1,2)] assms(1,2)
    by (auto simp: touch_one_eq [OF assms(1)] Let_def split: if_splits)
next
  case False
  note mr = make_room [OF assms(1) False]
  show ?thesis using assms(3) wf_at_back [OF mr(1) mr(6) [OF assms(2)]] mr assms(1,2) False
    by (auto simp: touch_one_eq [OF assms(1)] Let_def split: if_splits)
qed

lemma touch_fold_wf:
  "toucher_wf t \<Longrightarrow> seen_until t now \<Longrightarrow> foldl (touch_one now p) (t, due) es = (t', due') \<Longrightarrow>
     toucher_wf t' \<and> seen_until t' now \<and> tc_max t' = tc_max t \<and> tc_every t' = tc_every t"
proof (induction es arbitrary: t due)
  case (Cons e es)
  obtain t1 due1 where one: "touch_one now p (t, due) e = (t1, due1)" by fastforce
  from touch_one_wf [OF Cons.prems(1,2) one] Cons.IH [of t1 due1] Cons.prems(3) one show ?case by simp
qed simp

lemma touch_mark_wf:
  "toucher_wf t \<Longrightarrow> seen_until t now \<Longrightarrow> touch_mark now p es t = (t', due) \<Longrightarrow>
     toucher_wf t' \<and> seen_until t' now \<and> tc_max t' = tc_max t \<and> tc_every t' = tc_every t"
  unfolding touch_mark_def by (rule touch_fold_wf)

subsection \<open>Properties\<close>

text \<open>The events a toucher sees, in the order in which they take its lock.\<close>

datatype touch_event = TeTouch time int "touch_entry list" | TeForget int string

fun on_event :: "toucher \<Rightarrow> touch_event \<Rightarrow> toucher" where
  "on_event t (TeTouch now p es) = fst (touch_mark now p es t)"
| "on_event t (TeForget p n) = Forget p n t"

fun clock_forward :: "time \<Rightarrow> touch_event list \<Rightarrow> bool" where
  "clock_forward t [] \<longleftrightarrow> True"
| "clock_forward t (TeTouch now p es # evs) \<longleftrightarrow> t \<le> now \<and> clock_forward now evs"
| "clock_forward t (TeForget p n # evs) \<longleftrightarrow> clock_forward t evs"

lemma seen_until_mono: "seen_until t a \<Longrightarrow> a \<le> b \<Longrightarrow> seen_until t b"
  by (auto simp: seen_until_def)

lemma wf_Forget: "toucher_wf t \<Longrightarrow> toucher_wf (Forget p n t) \<and> (seen_until t now \<longrightarrow> seen_until (Forget p n t) now) \<and> tc_max (Forget p n t) = tc_max t"
  by (simp add: Forget_without wf_without seen_until_without)

lemma touch_events_wf:
  "toucher_wf t \<Longrightarrow> seen_until t now \<Longrightarrow> clock_forward now evs \<Longrightarrow>
     toucher_wf (foldl on_event t evs) \<and> tc_max (foldl on_event t evs) = tc_max t"
proof (induction evs arbitrary: t now)
  case (Cons ev evs)
  show ?case
  proof (cases ev)
    case (TeTouch now' p es)
    obtain t1 due where m: "touch_mark now' p es t = (t1, due)" by fastforce
    have "now \<le> now'" using Cons.prems(3) TeTouch by simp
    from touch_mark_wf [OF Cons.prems(1) seen_until_mono [OF Cons.prems(2) this] m] Cons.IH [of t1 now'] Cons.prems(3) m TeTouch
    show ?thesis by simp
  next
    case (TeForget p n)
    from wf_Forget [OF Cons.prems(1)] Cons.IH [of "Forget p n t" now] Cons.prems(2,3) TeForget show ?thesis by simp
  qed
qed simp



text \<open>Without eviction, a batch of distinct names is filtered by what is remembered.\<close>

definition lets_through :: "toucher \<Rightarrow> time \<Rightarrow> int \<Rightarrow> touch_entry \<Rightarrow> bool" where
  "lets_through t now p e \<longleftrightarrow> validName (te_Name e) \<and>
     (case map_of (tc_seen t) (p, te_Name e) of None \<Rightarrow> True | Some s \<Rightarrow> tc_every t \<le> time_sub now s)"

lemma touch_fold_due:
  "toucher_wf t \<Longrightarrow> seen_until t now \<Longrightarrow> distinct (map te_Name es) \<Longrightarrow> int (length (tc_order t) + length es) \<le> tc_max t \<Longrightarrow>
     snd (foldl (touch_one now p) (t, due) es) = due @ filter (lets_through t now p) es"
proof (induction es arbitrary: t due)
  case (Cons e es)
  obtain t1 due1 where one: "touch_one now p (t, due) e = (t1, due1)" by fastforce
  have room: "make_room t = t" using Cons.prems(4) by (simp add: make_room_def)
  note wf1 = touch_one_wf [OF Cons.prems(1,2) one]
  have due1: "due1 = due @ filter (lets_through t now p) [e]"
    using one Cons.prems(1) by (auto simp: touch_one_eq lets_through_def Let_def remembered_iff room not_less split: if_splits)
  have t1: "t1 = t \<or> t1 = at_back (p, te_Name e) now t"
    using one Cons.prems(1) by (auto simp: touch_one_eq Let_def room split: if_splits)
  have len: "length (tc_order t1) \<le> Suc (length (tc_order t))" using t1 by (auto simp: length_remove1)
  have "map_of (tc_seen t1) (p, te_Name x) = map_of (tc_seen t) (p, te_Name x)" if x: "x \<in> set es" for x
  proof -
    have "te_Name x \<in> te_Name ` set es" using x by blast
    moreover have "te_Name e \<notin> te_Name ` set es" using Cons.prems(3) by simp
    ultimately have "te_Name x \<noteq> te_Name e" by metis
    then show ?thesis using t1 by (auto simp: update_conv')
  qed
  then have "filter (lets_through t1 now p) es = filter (lets_through t now p) es"
    using wf1 by (intro filter_cong) (simp_all add: lets_through_def split: option.split)
  moreover have "snd (foldl (touch_one now p) (t1, due1) es) = due1 @ filter (lets_through t1 now p) es"
    using wf1 Cons.prems len by (intro Cons.IH) simp_all
  ultimately show ?case using one due1 by simp
qed simp

lemma touch_mark_due:
  "toucher_wf t \<Longrightarrow> seen_until t now \<Longrightarrow> distinct (map te_Name es) \<Longrightarrow> int (length (tc_order t) + length es) \<le> tc_max t \<Longrightarrow>
     snd (touch_mark now p es t) = filter (lets_through t now p) es"
  by (simp add: touch_mark_def touch_fold_due)

lemma touch_one_kept:
  assumes "toucher_wf t" and "make_room t = t" and "touch_one now p (t, due) e = (t', due')"
  shows "tc_failures t' = tc_failures t"
    and "(p, te_Name e) \<noteq> k \<Longrightarrow> map_of (tc_seen t') k = map_of (tc_seen t) k"
    and "lets_through t now p e \<Longrightarrow> map_of (tc_seen t') (p, te_Name e) = Some now"
  using assms by (auto simp: touch_one_eq lets_through_def Let_def update_conv' at_back_def remembered_iff split: if_splits)

lemma evict_failures: "tc_failures (evictOldestLocked t) = tc_failures t"
  by (simp add: evictOldestLocked_def split: list.split)

lemma touch_mark_failures: "tc_failures (fst (touch_mark now p es t)) = tc_failures t"
proof -
  have "tc_failures (fst (foldl (touch_one now p) (t, due) es)) = tc_failures t" for due
  proof (induction es arbitrary: t due)
    case (Cons e es)
    have "tc_failures (fst (touch_one now p (t, due) e)) = tc_failures t"
      by (simp add: touch_one_def Let_def set_seen_def move_to_back_def push_back_def evict_failures split: option.split)
    with Cons [of "fst (touch_one now p (t, due) e)" "snd (touch_one now p (t, due) e)"] show ?case by simp
  qed simp
  then show ?thesis by (simp add: touch_mark_def)
qed

lemma touch_fold_kept:
  "toucher_wf t \<Longrightarrow> seen_until t now \<Longrightarrow> distinct (map te_Name es) \<Longrightarrow> int (length (tc_order t) + length es) \<le> tc_max t \<Longrightarrow>
     (\<forall>e \<in> set es. lets_through t now p e \<longrightarrow>
        map_of (tc_seen (fst (foldl (touch_one now p) (t, due) es))) (p, te_Name e) = Some now) \<and>
     (\<forall>k. k \<notin> Pair p ` te_Name ` set es \<longrightarrow>
        map_of (tc_seen (fst (foldl (touch_one now p) (t, due) es))) k = map_of (tc_seen t) k)"
proof (induction es arbitrary: t due)
  case (Cons e es)
  obtain t1 due1 where one: "touch_one now p (t, due) e = (t1, due1)" by fastforce
  have room: "make_room t = t" using Cons.prems(4) by (simp add: make_room_def)
  note wf1 = touch_one_wf [OF Cons.prems(1,2) one] and kept = touch_one_kept [OF Cons.prems(1) room one]
  have t1: "t1 = t \<or> t1 = at_back (p, te_Name e) now t"
    using one Cons.prems(1) by (auto simp: touch_one_eq Let_def room split: if_splits)
  have len: "length (tc_order t1) \<le> Suc (length (tc_order t))" using t1 by (auto simp: length_remove1)
  note ih = Cons.IH [of t1 due1]
  have ih: "(\<forall>x \<in> set es. lets_through t1 now p x \<longrightarrow>
        map_of (tc_seen (fst (foldl (touch_one now p) (t1, due1) es))) (p, te_Name x) = Some now) \<and>
     (\<forall>k. k \<notin> Pair p ` te_Name ` set es \<longrightarrow>
        map_of (tc_seen (fst (foldl (touch_one now p) (t1, due1) es))) k = map_of (tc_seen t1) k)"
    using wf1 Cons.prems len by (intro Cons.IH) simp_all
  have out: "(p, te_Name e) \<notin> Pair p ` te_Name ` set es" using Cons.prems(3) by auto
  have "lets_through t1 now p x = lets_through t now p x" if "x \<in> set es" for x
  proof -
    have "(p, te_Name x) \<in> Pair p ` te_Name ` set es" using that by blast
    then have "(p, te_Name e) \<noteq> (p, te_Name x)" using out by metis
    then show ?thesis using kept(2) wf1 by (simp add: lets_through_def split: option.split)
  qed
  then show ?case using ih out kept(2,3) one by (auto simp del: split_paired_All)
qed simp

lemma touch_mark_kept:
  assumes "toucher_wf t" and "seen_until t now" and "distinct (map te_Name es)" and "int (length (tc_order t) + length es) \<le> tc_max t"
    and "touch_mark now p es t = (tm, due)"
  shows "\<forall>e \<in> set (filter (lets_through t now p) es). map_of (tc_seen tm) (p, te_Name e) = Some now"
  using touch_fold_kept [OF assms(1-4), of p "[]"] assms(5) by (simp add: touch_mark_def)

lemma forget_all:
  "toucher_wf t \<Longrightarrow>
     (\<forall>e \<in> set es. map_of (tc_seen (foldl (\<lambda>u e. Forget p (te_Name e) u) t es)) (p, te_Name e) = None) \<and>
     (\<forall>k. map_of (tc_seen t) k = None \<longrightarrow> map_of (tc_seen (foldl (\<lambda>u e. Forget p (te_Name e) u) t es)) k = None) \<and>
     tc_failures (foldl (\<lambda>u e. Forget p (te_Name e) u) t es) = tc_failures t"
proof (induction es arbitrary: t)
  case (Cons e es)
  let ?t = "Forget p (te_Name e) t"
  have "toucher_wf ?t" "tc_failures ?t = tc_failures t" "map_of (tc_seen ?t) (p, te_Name e) = None"
    "\<forall>k. map_of (tc_seen t) k = None \<longrightarrow> map_of (tc_seen ?t) k = None"
    using Cons.prems wf_Forget [OF Cons.prems] remembered_iff [OF Cons.prems]
    by (auto simp: Forget_without delete_conv') (simp_all add: without_def)
  with Cons.IH [of ?t] show ?case by auto
qed simp

text \<open>
  Which hosts of a batch reach the registry. As long as the map has room for the batch,
  exactly those with a valid name that are not remembered or were let through at least an
  interval ago; in particular a host is registered at most once per interval. When their
  registration fails, all of them are forgotten, so the next batch tries them again; and
  when they stay remembered, the rows of the registry were written.
\<close>

theorem Touch_registers_due:
  assumes "toucher_wf t" and "seen_until t (go_now w)" and "distinct (map te_Name es)"
    and "int (length (tc_order t) + length es) \<le> tc_max t" and "run_state (Touch p es t) w = (t', w')"
  shows "let due = filter (lets_through t (go_now w) p) es in
     if due = [] then w' = w \<and> tc_failures t' = tc_failures t
     else tc_failures t' = tc_failures t + 1 \<and> list_all (\<lambda>e. map_of (tc_seen t') (p, te_Name e) = None) due \<or>
       tc_failures t' = tc_failures t \<and> list_all (\<lambda>e. map_of (tc_seen t') (p, te_Name e) = Some (go_now w)) due \<and>
       (\<exists>now. db w' = snd (upsert_hosts p (dedup due) now (db w)) \<and> fst (upsert_hosts p (dedup due) now (db w)) \<noteq> None)"
proof (cases "es = []")
  case True
  then show ?thesis using assms(5) by (simp add: Touch_def)
next
  case False
  let ?due = "filter (lets_through t (go_now w) p) es"
  obtain tm where tm: "touch_mark (go_now w) p es t = (tm, ?due)"
    using touch_mark_due [OF assms(1-4), of p] by (metis prod.collapse)
  have wf: "toucher_wf tm" using touch_mark_wf [OF assms(1,2) tm] by simp
  have fails: "tc_failures tm = tc_failures t" using touch_mark_failures [of "go_now w" p es t] tm by simp
  show ?thesis
  proof (cases "?due = []")
    case True
    then show ?thesis using assms(5) False tm fails by (simp add: Touch_def)
  next
    case due: False
    let ?q = "\<lambda>now. upsert_hosts p (dedup ?due) now"
    have dd: "dedup ?due \<noteq> []"
    proof
      assume "dedup ?due = []"
      then have "first_names (filter validName (map te_Name ?due)) = []" using dedup_names [of ?due] by simp
      then have "set (filter validName (map te_Name ?due)) = {}" by (metis set_first_names set_empty)
      then have "\<forall>e \<in> set ?due. \<not> validName (te_Name e)" by (auto simp: filter_empty_conv)
      then show False using due by (auto simp: lets_through_def filter_empty_conv)
    qed
    have kept: "list_all (\<lambda>e. map_of (tc_seen tm) (p, te_Name e) = Some (go_now w)) ?due"
      using touch_mark_kept [OF assms(1-4) tm] by (simp add: list_all_iff)
    have forgot: "list_all (\<lambda>e. map_of (tc_seen (foldl (\<lambda>u e. Forget p (te_Name e) u) (tm\<lparr>tc_failures := n\<rparr>) ?due)) (p, te_Name e) = None) ?due \<and>
        tc_failures (foldl (\<lambda>u e. Forget p (te_Name e) u) (tm\<lparr>tc_failures := n\<rparr>) ?due) = n" for n
    proof -
      have "toucher_wf (tm\<lparr>tc_failures := n\<rparr>)" using wf by (simp add: toucher_wf_def seen_at_def [abs_def])
      from forget_all [OF this, of ?due p] show ?thesis unfolding list_all_iff by simp
    qed
    have run: "run_state (Touch p es t) w = run_state (do {
         r \<leftarrow> Upsert_hosts p ?due;
         State_Monad.return
           (case r of
              Inl _ \<Rightarrow> foldl (\<lambda>u e. Forget p (te_Name e) u) (tm\<lparr>tc_failures := tc_failures tm + 1\<rparr>) ?due
            | Inr n \<Rightarrow> if 0 < n then tm\<lparr>tc_rejected := tc_rejected tm + n\<rparr> else tm)
       }) w"
      using False due tm by (simp add: Touch_def)
    show ?thesis
    proof (cases rule: run_sql_cases [of ?q w])
      case (ok now w1)
      show ?thesis
      proof (cases "fst (?q now (db w))")
        case None
        with ok assms(5) dd due forgot [of "tc_failures tm + 1"] fails show ?thesis
          unfolding run by (auto simp: Upsert_hosts_def Let_def)
      next
        case (Some n)
        then have "fst (?q now (db w)) \<noteq> None" by simp
        with Some ok assms(5) dd due kept fails show ?thesis
          unfolding run by (auto simp: Upsert_hosts_def Let_def split: if_splits)
      qed
    next
      case (lost now w1)
      with assms(5) dd due forgot [of "tc_failures tm + 1"] fails show ?thesis
        unfolding run by (auto simp: Upsert_hosts_def Let_def)
    next
      case (clean w1)
      with assms(5) dd due forgot [of "tc_failures tm + 1"] fails show ?thesis
        unfolding run by (auto simp: Upsert_hosts_def Let_def)
    qed
  qed
qed

theorem Touch_registers_due_witness:
  "let w = (calm (3 * hour) ex_hosts)\<lparr>sched := [(FailClean, 0)]\<rparr>;
       t' = fst (run_state (Touch 1 [ex_touch ''db1'' ''''] (NewToucher minute 10)) w)
   in tc_failures t' = 1 \<and> tc_seen t' = []"
proof -
  let ?w = "(calm (3 * hour) ex_hosts)\<lparr>sched := [(FailClean, 0)]\<rparr>" and ?t = "NewToucher minute 10"
  let ?r = "run_state (Touch 1 [ex_touch ''db1'' ''''] ?t) ?w"
  have "toucher_wf ?t" "seen_until ?t (go_now ?w)" by (simp_all add: toucher_wf_def NewToucher_def seen_until_def)
  moreover have "distinct (map te_Name [ex_touch ''db1'' ''''])" "int (length (tc_order ?t) + length [ex_touch ''db1'' '''']) \<le> tc_max ?t"
    by (simp_all add: NewToucher_def)
  moreover have "tc_seen (fst ?r) = [] \<and> tc_failures (fst ?r) = 1" by code_simp
  moreover have "run_state (Touch 1 [ex_touch ''db1'' ''''] ?t) ?w = (fst ?r, snd ?r)" by simp
  ultimately show ?thesis using Touch_registers_due [of ?t ?w "[ex_touch ''db1'' '''']" 1 "fst ?r" "snd ?r"] by (simp add: Let_def)
qed

end
