(* ===== verification/Alert_Notify.thy ===== *)
theory Alert_Notify
  imports Alert_Incident Notify_Dispatch
begin

text \<open>
  What the notifiers and evaluators of hosts, metrics and service levels share
  (\<open>host/notify.go\<close>, \<open>metric/notify.go\<close>, \<open>slo/notify.go\<close> and the last functions of the three
  \<open>evaluator.go\<close>): numbers in messages, the dispatch to the channels of a project, the first
  page of an incident and the recovery notice. The locale \<open>alert_pages\<close> is the contract of a
  source; from it follow at-most-once paging and that recovery notices go only to channels
  that were paged.
\<close>

subsection \<open>Numbers in messages\<close>

text \<open>
  \<open>strconv.FormatFloat\<close> on exact values: the formats \<open>'f'\<close>, with a fixed number of digits, and
  \<open>'g'\<close>, with a number of significant ones. Both round half to even.
\<close>

definition round_even :: "rat \<Rightarrow> int" where
  "round_even q =
     (let f = \<lfloor>q\<rfloor>; r = q - of_int f in
      if r < 1 / 2 then f else if r > 1 / 2 then f + 1 else if even f then f else f + 1)"

definition pad_zeros :: "nat \<Rightarrow> string \<Rightarrow> string" where
  "pad_zeros n s = replicate (n - length s) CHR ''0'' @ s"

definition format_fixed :: "nat \<Rightarrow> rat \<Rightarrow> string" where
  "format_fixed prec v =
     (let n = round_even (\<bar>v\<bar> * 10 ^ prec) in
      (if v < 0 then ''-'' else '''') @ itoa (n div 10 ^ prec) @
      (if prec = 0 then '''' else ''.'' @ pad_zeros prec (itoa (n mod 10 ^ prec))))"

text \<open>The exponent of the leading digit of a positive number.\<close>

definition lead_exponent :: "rat \<Rightarrow> int" where
  "lead_exponent v =
     (if v \<ge> 1 then int (length (itoa \<lfloor>v\<rfloor>)) - 1 else - int (length (itoa (\<lceil>1 / v\<rceil> - 1))))"

definition strip_zeros :: "string \<Rightarrow> string" where
  "strip_zeros s = rev (dropWhile (\<lambda>c. c = CHR ''0'') (rev s))"

definition format_general :: "nat \<Rightarrow> rat \<Rightarrow> string" where
  "format_general prec v =
     (if v = 0 then ''0'' else
      let a = \<bar>v\<bar>;
          e = lead_exponent a;
          shift = int prec - 1 - e;
          n = round_even (if shift \<ge> 0 then a * 10 ^ nat shift else a / 10 ^ nat (- shift));
          (n, e) = (if n = 10 ^ prec then (10 ^ (prec - 1), e + 1) else (n, e));
          ds = strip_zeros (itoa n);
          nd = int (length ds);
          dp = e + 1;
          eprec = (if int prec > nd \<and> nd \<ge> dp then nd else int prec)
      in (if v < 0 then ''-'' else '''') @
         (if e < - 4 \<or> e \<ge> eprec then
            take 1 ds @ (if nd > 1 then ''.'' @ drop 1 ds else '''') @ ''e'' @ (if e < 0 then ''-'' else ''+'') @
            pad_zeros 2 (itoa \<bar>e\<bar>)
          else
            (if dp > 0 then take (nat dp) ds @ replicate (nat (dp - nd)) CHR ''0'' else ''0'') @
            (if nd > dp then ''.'' @ replicate (nat (- dp)) CHR ''0'' @ drop (nat dp) ds else '''')))"

subsection \<open>Model: dispatch\<close>

text \<open>The fields that the three notifiers share.\<close>

record alert_notifier =
  an_keyring :: keyring
  an_BaseURL :: string
  an_EmailEnabled :: bool
  an_AllowsDetails :: "channel \<Rightarrow> bool"
  an_i18n :: i18n
  an_Projects :: "(int \<Rightarrow> db \<Rightarrow> string option) option"

definition alert_channel :: "'a alert_notifier_scheme \<Rightarrow> channel \<Rightarrow> dispatch_channel" where
  "alert_channel n ch =
     \<lparr>dch_ID = ch_ID ch, dch_Kind = ch_Kind ch, dch_Target = ch_Target ch,
      dch_IsEmail = (ch_Kind ch = ''email''), dch_Deliverable = Deliverable ch,
      dch_AllowsDetails = an_AllowsDetails n ch\<rparr>"

text \<open>The message of a source, before its channels are known.\<close>

definition alert_input ::
  "int \<Rightarrow> string \<Rightarrow> string \<Rightarrow> string \<Rightarrow> string \<Rightarrow> string \<Rightarrow> payload \<Rightarrow> int list \<Rightarrow> dispatch_input" where
  "alert_input project kind subject body url redacted extra chs =
     \<lparr>di_ProjectID = project, di_Kind = kind, di_Subject = subject, di_Body = body, di_URL = url,
      di_RedactedURL = redacted, di_Extra = extra, di_ChannelIDs = chs, di_Channels = [], di_IdempotencyKeyPrefix = ''''\<rparr>"

definition alert_dispatch :: "'a alert_notifier_scheme \<Rightarrow> dispatch_input \<Rightarrow> (int list \<times> error option) prog" where
  "alert_dispatch n inp =
     do {
       c \<leftarrow> Channels (an_keyring n) (di_ProjectID inp);
       (case c of
          Inl e \<Rightarrow> State_Monad.return ([], Some e)
        | Inr channels \<Rightarrow>
            Dispatch (an_i18n n) \<lparr>dd_EmailEnabled = an_EmailEnabled n, dd_Projects = an_Projects n\<rparr>
              (inp\<lparr>di_Channels := map (alert_channel n) channels\<rparr>))
     }"

subsection \<open>Model: first page and recovery notice\<close>

text \<open>
  What \<open>notifyOpen\<close> and \<open>notifyClose\<close> of the evaluators call: the notifier and the store of the
  source. The two flags say that \<open>Policy\<close> and \<open>Pool\<close> are set.
\<close>

record alert_source =
  as_Name :: string
  as_Policy :: bool
  as_Pool :: bool
  as_NotifyStep :: "int \<Rightarrow> int list \<Rightarrow> int \<Rightarrow> (int list \<times> error option) prog"
  as_NotifyRecovery :: "int \<Rightarrow> int list \<Rightarrow> error option prog"
  as_BumpEscalation :: "int \<Rightarrow> int \<Rightarrow> (bool \<times> error option) prog"
  as_MarkNotified :: "int \<Rightarrow> bool \<Rightarrow> error option prog"

definition first_page :: "alert_source option \<Rightarrow> int \<Rightarrow> string \<Rightarrow> int \<Rightarrow> unit prog" where
  "first_page src projectID severity iid =
     (case src of
        None \<Rightarrow> State_Monad.return ()
      | Some s \<Rightarrow>
          if \<not> as_Policy s \<or> \<not> as_Pool s then State_Monad.return ()
          else do {
            r \<leftarrow> Ladder projectID severity;
            (case r of
               Inl _ \<Rightarrow> State_Monad.return ()
             | Inr ladder \<Rightarrow>
                 do {
                   (sent, e) \<leftarrow> SendStepIfDue ladder (as_Name s) iid 0 0 (as_NotifyStep s iid) (as_BumpEscalation s);
                   (if e \<noteq> None \<or> \<not> sent then State_Monad.return ()
                    else ignore (as_MarkNotified s iid True))
                 })
          })"

definition recovery_page :: "alert_source option \<Rightarrow> int \<Rightarrow> unit prog" where
  "recovery_page src iid =
     (case src of
        None \<Rightarrow> State_Monad.return ()
      | Some s \<Rightarrow>
          if \<not> as_Pool s then State_Monad.return ()
          else do {
            r \<leftarrow> RecoveryChannels (as_Name s) iid;
            (case r of
               Inl _ \<Rightarrow> State_Monad.return ()
             | Inr chs \<Rightarrow>
                 if chs = [] then State_Monad.return ()
                 else do {
                   e \<leftarrow> as_NotifyRecovery s iid chs;
                   (if e \<noteq> None then State_Monad.return () else ignore (as_MarkNotified s iid False))
                 })
          })"

subsection \<open>What a dispatch queues\<close>

text \<open>The jobs of the queue grow by jobs for the given channels, when there are any given.\<close>

definition queued_for :: "int list \<Rightarrow> db \<Rightarrow> db \<Rightarrow> bool" where
  "queued_for chs d d' \<longleftrightarrow>
     (\<exists>rows. t_outbox d' = t_outbox d @ rows \<and> (chs \<noteq> [] \<longrightarrow> list_all (\<lambda>r. o_channel r \<in> set chs) rows))"

lemma queued_for_refl [simp]: "queued_for chs d d"
  by (simp add: queued_for_def)

lemma alert_channel_ID [simp]: "dch_ID (alert_channel n ch) = ch_ID ch"
  by (simp add: alert_channel_def)

lemma wp_Channels:
  "wp (Channels kr pid) (\<lambda>r w'. db w' = db w \<and> (\<forall>chs. r = Inr chs \<and> channels_wf (db w) \<longrightarrow> distinct (map ch_ID chs))) w"
proof -
  have "distinct (map ch_ID (map (open_channel kr) (sort_key c_id (filter p (t_channels (db w))))))"
    if "channels_wf (db w)" for p
    using distinct_sorted_rows [OF distinct_map_filter [OF that, of p]] by (simp add: comp_def)
  then show ?thesis unfolding Channels_def by (auto intro!: wp_sql_readI)
qed

lemma dispatched_for:
  assumes "dispatched l deps inp subject body (di_Channels inp) ([], None) d (enq, err) d'"
  shows "only_outbox d d' \<and> queued_for (di_ChannelIDs inp) d d' \<and>
         (distinct (map dch_ID (di_Channels inp)) \<longrightarrow> distinct enq) \<and>
         (di_ChannelIDs inp \<noteq> [] \<longrightarrow> set enq \<subseteq> set (di_ChannelIDs inp))"
proof -
  from assms obtain rows where
    enq: "subseq enq (map dch_ID (filter (passes_gates deps inp) (di_Channels inp)))" and
    rows: "t_outbox d' = t_outbox d @ rows" "list_all (dispatch_row l deps inp subject body) rows" and only: "only_outbox d d'"
    by (auto simp: dispatched_def)
  have gate: "dch_ID ch \<in> set (di_ChannelIDs inp)" if "passes_gates deps inp ch" "di_ChannelIDs inp \<noteq> []" for ch
    using that by (simp add: passes_gates_def)
  have "queued_for (di_ChannelIDs inp) d d'"
    using rows gate by (auto simp: queued_for_def list_all_iff dispatch_row_def list_ex_iff)
  moreover have "distinct enq" if "distinct (map dch_ID (di_Channels inp))"
    using subseq_distinct_mono [OF enq distinct_map_filter [OF that]] .
  moreover have "set enq \<subseteq> set (di_ChannelIDs inp)" if "di_ChannelIDs inp \<noteq> []"
    using subseq_set [OF enq] gate that by auto
  ultimately show ?thesis using only by blast
qed

lemma dispatched_extra:
  "dispatched l deps (inp\<lparr>di_Extra := x\<rparr>) subject body chs acc d res d' \<Longrightarrow>
     \<exists>inp'. di_Channels inp' = di_Channels inp \<and> di_ChannelIDs inp' = di_ChannelIDs inp \<and>
       dispatched l deps inp' subject body chs acc d res d'"
  by (rule exI [of _ "inp\<lparr>di_Extra := x\<rparr>"]) simp

lemma wp_alert_dispatch:
  "wp (alert_dispatch n inp) (\<lambda>(enq, err) w'. only_outbox (db w) (db w') \<and> queued_for (di_ChannelIDs inp) (db w) (db w') \<and>
      (channels_wf (db w) \<longrightarrow> distinct enq) \<and> (di_ChannelIDs inp \<noteq> [] \<longrightarrow> set enq \<subseteq> set (di_ChannelIDs inp))) w"
  unfolding alert_dispatch_def
proof (simp only: wp, rule wp_mono [OF wp_Channels], goal_cases)
  case (1 c w1)
  show ?case
  proof (cases c)
    case (Inl e)
    then show ?thesis using 1 by (simp add: wp only_outbox_def)
  next
    case (Inr channels)
    let ?deps = "\<lparr>dd_EmailEnabled = an_EmailEnabled n, dd_Projects = an_Projects n\<rparr>"
    let ?inp = "inp\<lparr>di_Channels := map (alert_channel n) channels\<rparr>"
    obtain enq err w' where r: "run_state (Dispatch (an_i18n n) ?deps ?inp) w1 = ((enq, err), w')" by (metis prod.collapse)
    from Dispatch_dispatched [OF r] obtain subject body extra where
      "dispatched (an_i18n n) ?deps (?inp\<lparr>di_Extra := extra\<rparr>) subject body (di_Channels ?inp) ([], None) (db w1) (enq, err) (db w')" .
    from dispatched_extra [OF this] obtain inp' where
      inp': "di_Channels inp' = di_Channels ?inp" "di_ChannelIDs inp' = di_ChannelIDs inp"
      "dispatched (an_i18n n) ?deps inp' subject body (di_Channels inp') ([], None) (db w1) (enq, err) (db w')" by auto
    have "map dch_ID (di_Channels inp') = map ch_ID channels" using inp'(1) by (simp add: comp_def)
    then show ?thesis
      using dispatched_for [OF inp'(3)] inp'(2) 1 Inr r by (simp add: wp_def)
  qed
qed

subsection \<open>The contract of a source\<close>

text \<open>What reaches a channel or the log through the callbacks of a source.\<close>

locale alert_pages =
  fixes src :: alert_source
  assumes step: "wp (as_NotifyStep src i chs st) (\<lambda>(enq, err) w'. only_outbox (db w) (db w') \<and> queued_for chs (db w) (db w') \<and>
      (channels_wf (db w) \<longrightarrow> distinct enq) \<and> (chs \<noteq> [] \<longrightarrow> set enq \<subseteq> set chs)) w"
    and recovery: "wp (as_NotifyRecovery src i chs) (\<lambda>_ w'. only_outbox (db w) (db w') \<and> queued_for chs (db w) (db w')) w"
    and bump_keeps: "guar (on_db (same_rel (\<lambda>d. (t_esc d, t_outbox d)))) (as_BumpEscalation src i n)"
    and mark_keeps: "guar (on_db (same_rel (\<lambda>d. (t_esc d, t_outbox d)))) (as_MarkNotified src i b)"
begin

lemma effects: "step_effects (as_NotifyStep src i) (as_BumpEscalation src)"
proof
  fix chs st w enq err w'
  assume "distinct chs" "chs \<noteq> []" "channels_wf (db w)" and r: "run_state (as_NotifyStep src i chs st) w = ((enq, err), w')"
  then show "distinct enq \<and> set enq \<subseteq> set chs" using step [of i chs st w] by (simp add: wp_def)
next
  fix chs st w
  show "t_esc (db (snd (run_state (as_NotifyStep src i chs st) w))) = t_esc (db w)"
    using step [of i chs st w] only_outbox_same [of "db w" _ t_esc] by (auto simp: wp_def split: prod.splits)
next
  fix j lvl w
  show "t_esc (db (snd (run_state (as_BumpEscalation src j lvl) w))) = t_esc (db w)"
    using guarD [OF bump_keeps, of w j lvl] by (simp add: on_db_def same_rel_def)
qed

text \<open>A recovery notice goes to channels that the log names for the incident, and to none if it names none.\<close>

lemma recovery_queued:
  "queued_for (recovery_channels (db w) (as_Name src) i) (db w) (db (snd (run_state (recovery_page (Some src) i) w)))"
  "recovery_channels (db w) (as_Name src) i = [] \<Longrightarrow> t_outbox (db (snd (run_state (recovery_page (Some src) i) w))) = t_outbox (db w)"
proof -
  let ?chs = "recovery_channels (db w) (as_Name src) i"
  have mark: "t_outbox (db (snd (run_state (as_MarkNotified src i b) w'))) = t_outbox (db w')" for b w'
    using guarD [OF mark_keeps, of w' i b] by (simp add: on_db_def same_rel_def)
  have "wp (recovery_page (Some src) i) (\<lambda>_ w'. queued_for ?chs (db w) (db w') \<and> (?chs = [] \<longrightarrow> t_outbox (db w') = t_outbox (db w))) w"
  proof (cases "as_Pool src")
    case False
    then show ?thesis by (simp add: recovery_page_def wp)
  next
    case True
    have sent: "wp (as_NotifyRecovery src i ?chs) (\<lambda>e. wp (if e \<noteq> None then State_Monad.return () else ignore (as_MarkNotified src i False))
        (\<lambda>_ w'. queued_for ?chs (db w) (db w'))) w1" if "db w1 = db w" for w1
    proof (rule wp_mono [OF recovery], goal_cases)
      case (1 e w2)
      then show ?case using that mark [of False w2] by (auto simp: wp_def run_state_bind case_prod_beta queued_for_def)
    qed
    show ?thesis
      unfolding recovery_page_def option.case RecoveryChannels_def
    proof (simp only: wp True not_True_eq_False if_False, rule wp_sql_readI, goal_cases)
      case (1 t w1)
      then show ?case using sent [of w1] by (cases "?chs = []") (simp_all add: wp)
    qed (simp add: wp)
  qed
  then show "queued_for ?chs (db w) (db (snd (run_state (recovery_page (Some src) i) w)))"
    "?chs = [] \<Longrightarrow> t_outbox (db (snd (run_state (recovery_page (Some src) i) w))) = t_outbox (db w)"
    by (auto simp: wp_def split: prod.splits)
qed

end

text \<open>What the pages of a source keep, when its callbacks and the log of pages keep it.\<close>

locale page_relation =
  fixes R :: "world \<Rightarrow> world \<Rightarrow> bool" and src :: alert_source
  assumes rel: "reflp R" "transp R"
    and logs: "guar R (Ladder p sev)" "guar R (ClaimStepChannels s i st chs)" "guar R (ReleaseStepChannels s i st chs)"
      "guar R (RecoveryChannels s i)"
    and source: "guar R (as_NotifyStep src i chs st)" "guar R (as_NotifyRecovery src i chs)"
      "guar R (as_BumpEscalation src i lvl)" "guar R (as_MarkNotified src i b)"
begin

lemmas page_rules = guar rel logs source

lemma guar_SendStepIfDue: "guar R (SendStepIfDue ladder s i lvl el (as_NotifyStep src i) (as_BumpEscalation src))"
  unfolding SendStepIfDue_def Let_def by (intro page_rules)

lemma guar_first_page: "guar R (first_page (Some src) p sev i)"
  unfolding first_page_def option.case by (intro page_rules guar_SendStepIfDue)

lemma guar_recovery_page: "guar R (recovery_page (Some src) i)"
  unfolding recovery_page_def option.case by (intro page_rules)

end

lemma guar_Ladder: "reflp S \<Longrightarrow> transp S \<Longrightarrow> guar (on_db S) (Ladder p sev)"
  unfolding Ladder_def defaultLadder_def Let_def by (intro guar)

lemma page_relation_on_db:
  assumes S: "reflp S" "transp S" and logs: "\<And>d e f. S d (d\<lparr>t_esc := e, t_logfail := f\<rparr>)"
    and outbox: "\<And>d d'. only_outbox d d' \<Longrightarrow> S d d'"
    and pages: "alert_pages src"
    and marks: "\<And>i n. guar (on_db S) (as_BumpEscalation src i n)" "\<And>i b. guar (on_db S) (as_MarkNotified src i b)"
  shows "page_relation (on_db S) src"
proof
  show rr: "reflp (on_db S)" "transp (on_db S)" using S by (auto intro: guar)
  have le: "on_db only_logs \<le> on_db S" using logs by (auto simp: on_db_def only_logs_def)
  show "guar (on_db S) (ClaimStepChannels s i st chs)" "guar (on_db S) (ReleaseStepChannels s i st chs)"
    "guar (on_db S) (RecoveryChannels s i)" for s i st chs
    by (rule guar_mono [OF _ le], rule guar_log_ops)+
  show "guar (on_db S) (as_NotifyStep src i chs st)" for i chs st
    unfolding guar_wp on_db_def
    by (intro allI, rule wp_mono [OF alert_pages.step [OF pages]]) (auto intro: outbox)
  show "guar (on_db S) (as_NotifyRecovery src i chs)" for i chs
    unfolding guar_wp on_db_def
    by (intro allI, rule wp_mono [OF alert_pages.recovery [OF pages]]) (auto intro: outbox)
  show "guar (on_db S) (Ladder p sev)" for p sev by (rule guar_Ladder [OF S])
qed (fact marks)+

end
