(* ===== verification/Host_Notifier.thy ===== *)
theory Host_Notifier
  imports Host_Store Alert_Notify
begin

text \<open>
  \<open>internal/host/notify.go\<close>, \<open>value.go\<close> and \<open>retire.go\<close>: the messages of the host source, and
  the step of the retention job that announces and closes the incidents of hosts that are
  about to be deleted (the loop that calls it is in \<open>Host_Retention\<close>).
\<close>

subsection \<open>Model: value.go\<close>

text \<open>\<open>humanize.Duration\<close>: the largest unit only.\<close>

definition humanize_Duration :: "i18n \<Rightarrow> duration \<Rightarrow> string" where
  "humanize_Duration l d0 =
     (let d = (if d0 < 0 then wrap64 (- d0) else d0) in
      if d \<ge> 24 * hour then i18n_Tn l ''unit.days'' (quot d (24 * hour))
      else if d \<ge> hour then i18n_Tn l ''unit.hours'' (quot d hour)
      else if d \<ge> minute then i18n_Tn l ''unit.minutes'' (quot d minute)
      else if d \<ge> second then i18n_Tn l ''unit.seconds'' (quot d second)
      else i18n_T l ''time.now'')"

text \<open>The conversion from \<open>float64\<close> to an integer drops the fraction.\<close>

definition truncate_rat :: "rat \<Rightarrow> int" where
  "truncate_rat v = (if v < 0 then \<lceil>v\<rceil> else \<lfloor>v\<rfloor>)"

definition ValueLabel :: "i18n \<Rightarrow> string \<Rightarrow> rat \<Rightarrow> string" where
  "ValueLabel l kind v =
     (if kind = ''disk'' \<or> kind = ''memory'' then format_fixed 1 (v * 100) @ ''%''
      else if kind = ''load'' then format_fixed 2 v @ [CHR 0xC3, CHR 0x97]
      else if kind = ''silent'' then humanize_Duration l (truncate_rat (v * of_int second))
      else format_fixed 2 v)"

subsection \<open>Model: notify.go\<close>

text \<open>
  The fields of \<open>HostNotifier\<close> beyond the shared ones: the count of declared children (a query),
  and whether overrides and thresholds of groups are wired.
\<close>

record host_notifier = alert_notifier +
  hn_DepCounts :: "(int \<Rightarrow> db \<Rightarrow> int) option"
  hn_Overrides :: bool
  hn_Groups :: bool

text \<open>\<open>url.PathEscape\<close>, byte by byte.\<close>

definition hex_digit :: "nat \<Rightarrow> char" where
  "hex_digit n = ''0123456789ABCDEF'' ! n"

definition path_safe :: "char \<Rightarrow> bool" where
  "path_safe c \<longleftrightarrow>
     (let n = of_char c :: nat in (48 \<le> n \<and> n \<le> 57) \<or> (65 \<le> n \<and> n \<le> 90) \<or> (97 \<le> n \<and> n \<le> 122)) \<or> c \<in> set ''-_.~$&+:=@''"

definition PathEscape :: "string \<Rightarrow> string" where
  "PathEscape s = concat (map (\<lambda>c. if path_safe c then [c]
     else [CHR ''%'', hex_digit (of_char c div 16), hex_digit (of_char c mod 16)]) s)"

definition cardLink :: "'a alert_notifier_scheme \<Rightarrow> int \<Rightarrow> string \<Rightarrow> string" where
  "cardLink n projectID name = an_BaseURL n @ ''/projects/'' @ itoa projectID @ ''/hosts/'' @ PathEscape name"

definition listLink :: "'a alert_notifier_scheme \<Rightarrow> int \<Rightarrow> string" where
  "listLink n projectID = an_BaseURL n @ ''/projects/'' @ itoa projectID @ ''/hosts''"

definition kindLabels :: "i18n \<Rightarrow> host_incident list \<Rightarrow> string" where
  "kindLabels l opn = join_with '', '' (map (\<lambda>x. i18n_T l (''hosts.kind.'' @ hi_kind x)) opn)"

definition thresholdFor :: "string \<Rightarrow> host_settings \<Rightarrow> rat option" where
  "thresholdFor kind s =
     (if kind = ''disk'' then Some (hs_DiskThreshold s)
      else if kind = ''memory'' then Some (hs_MemoryThreshold s)
      else if kind = ''load'' then Some (hs_LoadThreshold s)
      else if kind = ''silent'' then Some (of_int (hs_SilentAfter s) / of_int second)
      else None)"

definition hostSubject :: "i18n \<Rightarrow> host_incident \<Rightarrow> host_row \<Rightarrow> bool \<Rightarrow> string" where
  "hostSubject l x h opened =
     i18n_Tf l (if opened then ''notify.host_alert_open.subject'' else ''notify.host_alert_resolved.subject'')
       [(''host'', h_name h), (''kind'', i18n_T l (''hosts.kind.'' @ hi_kind x))]"

definition hostBody :: "i18n \<Rightarrow> host_incident \<Rightarrow> host_row \<Rightarrow> bool \<Rightarrow> rat option \<Rightarrow> string \<Rightarrow> string \<Rightarrow> string" where
  "hostBody l x h opened threshold link depsLine =
     (let kindLabel = i18n_T l (''hosts.kind.'' @ hi_kind x);
          value = ValueLabel l (hi_kind x) (hi_current x);
          detailLine = (if hi_detail x \<noteq> '''' then i18n_Tf l ''notify.host_alert.detail_line'' [(''detail'', hi_detail x)] else '''');
          thresholdLine = (case threshold of None \<Rightarrow> ''''
            | Some t \<Rightarrow> i18n_Tf l ''notify.host_alert.threshold_line'' [(''threshold'', ValueLabel l (hi_kind x) t)])
      in if opened then
           i18n_Tf l ''notify.host_alert_open.body''
             [(''host'', h_name h), (''kind'', kindLabel), (''value'', value), (''threshold_line'', thresholdLine),
              (''detail_line'', detailLine), (''deps_line'', depsLine), (''url'', link)]
         else i18n_Tf l ''notify.host_alert_resolved.body''
             [(''host'', h_name h), (''kind'', kindLabel), (''value'', value), (''detail_line'', detailLine), (''url'', link)])"

definition host_extra :: "host_incident \<Rightarrow> host_row \<Rightarrow> rat option \<Rightarrow> payload" where
  "host_extra x h threshold =
     [(''host_id'', JInt (h_id h)), (''host_name'', JStr (h_name h)), (''host_kind'', JStr (hi_kind x)),
      (''current_value'', JNum (hi_current x)), (''peak_value'', JNum (hi_peak x))] @
     (case threshold of None \<Rightarrow> [] | Some t \<Rightarrow> [(''threshold'', JNum t)]) @
     (if hi_detail x \<noteq> '''' then [(''detail'', JStr (hi_detail x))] else [])"

definition dispatch_host ::
  "host_notifier \<Rightarrow> int \<Rightarrow> string \<Rightarrow> string \<Rightarrow> string \<Rightarrow> string \<Rightarrow> payload \<Rightarrow> int list \<Rightarrow> (int list \<times> error option) prog" where
  "dispatch_host n projectID kind subject body link extra channelIDs =
     alert_dispatch n (alert_input projectID kind subject body link (listLink n projectID) extra channelIDs)"

definition depsLine_host :: "host_notifier \<Rightarrow> host_incident \<Rightarrow> host_row \<Rightarrow> string prog" where
  "depsLine_host n x h =
     (case hn_DepCounts n of
        None \<Rightarrow> State_Monad.return ''''
      | Some cntq \<Rightarrow>
          if hi_kind x \<noteq> ''silent'' then State_Monad.return ''''
          else do {
            r \<leftarrow> sql_read (\<lambda>_. cntq (h_id h));
            State_Monad.return
              (case r of
                 Inl _ \<Rightarrow> ''''
               | Inr cnt \<Rightarrow> if cnt = 0 then '''' else i18n_Tf (an_i18n n) ''notify.host.deps_affected'' [(''count'', itoa cnt)])
          })"

text \<open>The body of \<open>send\<close>, \<open>NotifyStep\<close> and \<open>NotifyRecovery\<close> once everything is loaded.\<close>

definition send_host :: "host_notifier \<Rightarrow> host_incident \<Rightarrow> host_row \<Rightarrow> bool \<Rightarrow> rat option \<Rightarrow> bool \<Rightarrow> int list \<Rightarrow> (int list \<times> error option) prog" where
  "send_host n x h opened threshold withDeps channelIDs =
     (let link = cardLink n (a_project x) (h_name h) in
      do {
        deps \<leftarrow> (if withDeps then depsLine_host n x h else State_Monad.return '''');
        dispatch_host n (a_project x) (if opened then ''host_alert_open'' else ''host_alert_resolved'')
          (hostSubject (an_i18n n) x h opened) (hostBody (an_i18n n) x h opened threshold link deps) link
          (host_extra x h threshold) channelIDs
      })"

definition HostIncidentOpened :: "host_notifier \<Rightarrow> host_incident \<Rightarrow> host_row \<Rightarrow> host_settings \<Rightarrow> error option prog" where
  "HostIncidentOpened n x h s =
     do { r \<leftarrow> send_host n x h True (thresholdFor (hi_kind x) s) True []; State_Monad.return (snd r) }"

definition HostIncidentResolved :: "host_notifier \<Rightarrow> host_incident \<Rightarrow> host_row \<Rightarrow> error option prog" where
  "HostIncidentResolved n x h =
     do { r \<leftarrow> send_host n x h False None True []; State_Monad.return (snd r) }"

definition HostRetired :: "host_notifier \<Rightarrow> host_row \<Rightarrow> host_incident list \<Rightarrow> error option prog" where
  "HostRetired n h opn =
     (let l = an_i18n n; link = listLink n (h_project h) in
      do {
        r \<leftarrow> dispatch_host n (h_project h) ''host_retired'' (i18n_Tf l ''notify.host_retired.subject'' [(''host'', h_name h)])
          (i18n_Tf l ''notify.host_retired.body'' [(''host'', h_name h), (''kinds'', kindLabels l opn), (''url'', link)]) link
          [(''host_id'', JInt (h_id h)), (''host_name'', JStr (h_name h)), (''host_kinds'', JList (map hi_kind opn))] [];
        State_Monad.return (snd r)
      })"

text \<open>\<open>effectiveSettings\<close>: the cascade of thresholds for one host.\<close>

definition effectiveSettings :: "host_notifier \<Rightarrow> int \<Rightarrow> host_row \<Rightarrow> host_settings result prog" where
  "effectiveSettings n projectID h =
     do {
       p \<leftarrow> GetWithExists projectID;
       (case p of
          Inl e \<Rightarrow> State_Monad.return (Inl e)
        | Inr (proj, exists) \<Rightarrow>
            do {
              o1 \<leftarrow> (if hn_Overrides n then Get_override (h_id h) else State_Monad.return (Inr no_override));
              (case o1 of
                 Inl e \<Rightarrow> State_Monad.return (Inl e)
               | Inr ov \<Rightarrow>
                   do {
                     g \<leftarrow> (if hn_Groups n then List_thresholds projectID else State_Monad.return (Inr []));
                     State_Monad.return
                       (case g of
                          Inl e \<Rightarrow> Inl e
                        | Inr groups \<Rightarrow> Inr (es_Settings (Effective
                            \<lparr>tr_Project = proj, tr_ProjectExists = exists, tr_Groups = groups,
                             tr_Overrides = (if hn_Overrides n then [h_id h \<mapsto> ov] else Map.empty)\<rparr> h)))
                   })
            })
     }"

definition load_host_incident :: "int \<Rightarrow> (host_incident \<times> host_row) result prog" where
  "load_host_incident incidentID =
     do {
       i \<leftarrow> GetByID_host incidentID;
       (case i of
          Inl e \<Rightarrow> State_Monad.return (Inl e)
        | Inr None \<Rightarrow> State_Monad.return (Inl (ErrMsg ''incident not found''))
        | Inr (Some x) \<Rightarrow>
            do {
              hs \<leftarrow> ListByIDs [hi_host x];
              State_Monad.return
                (case hs of
                   Inl e \<Rightarrow> Inl e
                 | Inr [] \<Rightarrow> Inl (ErrMsg ''host not found'')
                 | Inr (h # _) \<Rightarrow> Inr (x, h))
            })
     }"

definition NotifyStep_host :: "host_notifier \<Rightarrow> int \<Rightarrow> int list \<Rightarrow> int \<Rightarrow> (int list \<times> error option) prog" where
  "NotifyStep_host n incidentID channelIDs step =
     do {
       r \<leftarrow> load_host_incident incidentID;
       (case r of
          Inl e \<Rightarrow> State_Monad.return ([], Some e)
        | Inr (x, h) \<Rightarrow>
            do {
              s \<leftarrow> effectiveSettings n (a_project x) h;
              (case s of
                 Inl e \<Rightarrow> State_Monad.return ([], Some e)
               | Inr settings \<Rightarrow> send_host n x h True (thresholdFor (hi_kind x) settings) True channelIDs)
            })
     }"

definition NotifyRecovery_host :: "host_notifier \<Rightarrow> int \<Rightarrow> int list \<Rightarrow> error option prog" where
  "NotifyRecovery_host n incidentID channelIDs =
     do {
       r \<leftarrow> load_host_incident incidentID;
       (case r of
          Inl e \<Rightarrow> State_Monad.return (Some e)
        | Inr (x, h) \<Rightarrow> do { d \<leftarrow> send_host n x h False None False channelIDs; State_Monad.return (snd d) })
     }"

definition host_alert_source :: "host_notifier \<Rightarrow> alert_source" where
  "host_alert_source n =
     \<lparr>as_Name = ''host'', as_Policy = True, as_Pool = True, as_NotifyStep = NotifyStep_host n,
      as_NotifyRecovery = NotifyRecovery_host n, as_BumpEscalation = BumpEscalation_host,
      as_MarkNotified = MarkNotified_host\<rparr>"

subsection \<open>Model: retire.go\<close>

text \<open>The loop of \<open>retireOne\<close> over the open incidents, which ends at the first error.\<close>

fun close_retired :: "host_incident list \<Rightarrow> error option prog" where
  "close_retired [] = State_Monad.return None"
| "close_retired (x # xs) =
     do {
       r \<leftarrow> Resolve_host (a_id x) (hi_current x);
       (case r of
          Inl e \<Rightarrow> State_Monad.return (Some e)
        | Inr _ \<Rightarrow>
            do {
              m \<leftarrow> MarkNotified_host (a_id x) False;
              (if m \<noteq> None then State_Monad.return m else close_retired xs)
            })
     }"

text \<open>\<open>RetireNotifier\<close> is the argument \<open>notify\<close>.\<close>

definition retireOne :: "(host_row \<Rightarrow> host_incident list \<Rightarrow> error option prog) \<Rightarrow> host_row \<Rightarrow> error option prog" where
  "retireOne notify h =
     do {
       r \<leftarrow> ListOpenByHost (h_id h);
       (case r of
          Inl e \<Rightarrow> State_Monad.return (Some e)
        | Inr opn \<Rightarrow>
            if opn = [] then State_Monad.return None
            else do {
              e \<leftarrow> notify h opn;
              (if e \<noteq> None then State_Monad.return e else close_retired opn)
            })
     }"

definition Retire :: "(host_row \<Rightarrow> host_incident list \<Rightarrow> error option prog) \<Rightarrow> int list \<Rightarrow> error option prog" where
  "Retire notify hostIDs =
     do {
       r \<leftarrow> ListByIDs hostIDs;
       (case r of
          Inl e \<Rightarrow> State_Monad.return (Some e)
        | Inr hosts \<Rightarrow>
            for_acc None hosts (\<lambda>errs h. do {
              e \<leftarrow> retireOne notify h;
              State_Monad.return (if e = None then errs else errors_join [errs, e])
            }))
     }"

subsection \<open>The host source keeps the contract of pages\<close>

lemma wp_depsLine_host: "wp (depsLine_host n x h) (\<lambda>_ w'. db w' = db w) w"
  unfolding depsLine_host_def by (auto simp: wp intro!: wp_sql_readI split: option.splits)

lemma wp_send_host:
  "wp (send_host n x h opened thr deps chs) (\<lambda>(enq, err) w'. only_outbox (db w) (db w') \<and> queued_for chs (db w) (db w') \<and>
      (channels_wf (db w) \<longrightarrow> distinct enq) \<and> (chs \<noteq> [] \<longrightarrow> set enq \<subseteq> set chs)) w"
proof -
  have deps: "wp (if deps then depsLine_host n x h else State_Monad.return '''') (\<lambda>_ w'. db w' = db w) w" for w
    by (simp add: wp wp_depsLine_host)
  show ?thesis
    unfolding send_host_def Let_def dispatch_host_def wp_bind
    by (rule wp_mono [OF deps], rule wp_mono [OF wp_alert_dispatch]) (simp add: alert_input_def case_prod_beta)
qed

lemma wp_load_host_incident: "wp (load_host_incident i) (\<lambda>_ w'. db w' = db w) w"
  unfolding load_host_incident_def GetByID_host_def ListByIDs_def
  by (auto simp: wp intro!: wp_sql_readI split: option.splits)

lemma wp_effectiveSettings: "wp (effectiveSettings n p h) (\<lambda>_ w'. db w' = db w) w"
proof -
  have "guar (on_db (same_rel (\<lambda>d. d))) (effectiveSettings n p h)"
    unfolding effectiveSettings_def GetWithExists_def Get_override_def List_thresholds_def by (intro guar)
  then have "wp (effectiveSettings n p h) (\<lambda>_. on_db (same_rel (\<lambda>d. d)) w) w" by (simp only: guar_wp)
  then show ?thesis by (rule wp_mono) (simp add: on_db_def same_rel_def)
qed

interpretation host_pages: alert_pages "host_alert_source n" for n
proof
  fix i chs st w
  let ?Q = "\<lambda>w (enq, err) w'. only_outbox (db w) (db w') \<and> queued_for chs (db w) (db w') \<and>
      (channels_wf (db w) \<longrightarrow> distinct enq) \<and> (chs \<noteq> [] \<longrightarrow> set enq \<subseteq> set chs)"
  show "wp (as_NotifyStep (host_alert_source n) i chs st) (?Q w) w"
    unfolding host_alert_source_def alert_source.select_convs NotifyStep_host_def wp_bind
  proof (rule wp_mono [OF wp_load_host_incident], goal_cases)
    case (1 r w1)
    show ?case
    proof (cases r)
      case (Inr xh)
      obtain x h where xh: "xh = (x, h)" by fastforce
      show ?thesis
        unfolding Inr xh sum.case prod.case wp_bind
      proof (rule wp_mono [OF wp_effectiveSettings], goal_cases)
        case (1 s w2)
        then show ?case using \<open>db w1 = db w\<close>
          by (cases s) (auto simp: wp only_outbox_def intro: wp_mono [OF wp_send_host])
      qed
    qed (use 1 in \<open>simp add: wp only_outbox_def\<close>)
  qed
  show "wp (as_NotifyRecovery (host_alert_source n) i chs) (\<lambda>_ w'. only_outbox (db w) (db w') \<and> queued_for chs (db w) (db w')) w"
    unfolding host_alert_source_def alert_source.select_convs NotifyRecovery_host_def wp_bind
  proof (rule wp_mono [OF wp_load_host_incident], goal_cases)
    case (1 r w1)
    then show ?case
      by (cases r) (auto simp: wp only_outbox_def split: prod.split intro: wp_mono [OF wp_send_host])
  qed
qed (simp_all add: host_alert_source_def BumpEscalation_host_def MarkNotified_host_def host_inc.bump_keeps_pages,
     (unfold update_must_def, intro guar host_inc.guar_pages))

end
