(* ===== verification/Host_Retention.thy ===== *)
theory Host_Retention
  imports Host_Notifier
begin

text \<open>
  The retention of hosts in \<open>internal/telemetry/entity_janitor.go\<close>, with the hook that the
  server installs for the table of hosts (\<open>host.Retirer\<close>). The properties: the loop over the
  batches ends, and a host with open incidents whose retirement cannot be announced is
  neither deleted nor are its incidents closed.
\<close>

subsection \<open>Model: entity_janitor.go\<close>

definition entityBatchSize :: nat where "entityBatchSize = 1000"

definition expired_host :: "int \<Rightarrow> time \<Rightarrow> host_row \<Rightarrow> bool" where
  "expired_host cutoffSecs now h \<longleftrightarrow> h_last_seen h < now - cutoffSecs * second"

definition select_expired :: "int \<Rightarrow> int list result prog" where
  "select_expired cutoffSecs =
     sql_read (\<lambda>now d. take entityBatchSize (map h_id (filter (expired_host cutoffSecs now) (t_hosts d))))"

definition delete_expired :: "int \<Rightarrow> int list \<Rightarrow> nat result prog" where
  "delete_expired cutoffSecs ids =
     sql (\<lambda>now. delete_hosts (\<lambda>h. h_id h \<in> set ids \<and> expired_host cutoffSecs now h))"

text \<open>
  \<open>purgeTableHooked\<close> for the table of hosts; the world is threaded by hand, since the loop has
  no bound of its own. Cancellation between two batches is left out.
\<close>

partial_function (option) purgeTableHooked ::
  "(int list \<Rightarrow> error option prog) \<Rightarrow> int \<Rightarrow> nat \<Rightarrow> world \<Rightarrow> ((nat \<times> error option) \<times> world) option" where
  "purgeTableHooked hook cutoffSecs deleted w =
     (case run_state (select_expired cutoffSecs) w of
        (Inl e, w1) \<Rightarrow> Some ((deleted, Some e), w1)
      | (Inr ids, w1) \<Rightarrow>
          if ids = [] then Some ((deleted, None), w1)
          else (case run_state (hook ids) w1 of
            (Some e, w2) \<Rightarrow> Some ((deleted, Some e), w2)
          | (None, w2) \<Rightarrow>
              (case run_state (delete_expired cutoffSecs ids) w2 of
                 (Inl e, w3) \<Rightarrow> Some ((deleted, Some e), w3)
               | (Inr n, w3) \<Rightarrow>
                   if length ids < entityBatchSize then Some ((deleted + n, None), w3)
                   else purgeTableHooked hook cutoffSecs (deleted + n) w3)))"

subsection \<open>The loop ends\<close>

text \<open>What a hook must keep: the registry of hosts, and the direction of time.\<close>

definition hook_rel :: "world \<Rightarrow> world \<Rightarrow> bool" where
  "hook_rel w w' \<longleftrightarrow> t_hosts (db w') = t_hosts (db w) \<and> pg_now w \<le> pg_now w'"

lemma hook_rel_rel: "reflp hook_rel" "transp hook_rel"
  by (auto simp: reflp_def transp_def hook_rel_def)

lemma hook_rel_sql: "(\<And>t d. t_hosts (snd (q t d)) = t_hosts d) \<Longrightarrow> guar hook_rel (sql q)"
  unfolding guar_wp hook_rel_def
proof (intro allI)
  fix w assume "\<And>t d. t_hosts (snd (q t d)) = t_hosts d"
  then show "wp (sql q) (\<lambda>_ w'. t_hosts (db w') = t_hosts (db w) \<and> pg_now w \<le> pg_now w') w"
    by (cases "advance w") (auto simp: wp_def sql_def case_prod_beta dest: advance_clock advance_db split: fault.split)
qed

lemma select_expired_cases:
  obtains (fail) e w1 where "run_state (select_expired c) w = (Inl e, w1)" "db w1 = db w"
  | (ok) t w1 where "run_state (select_expired c) w = (Inr (take entityBatchSize (map h_id (filter (expired_host c t) (t_hosts (db w))))), w1)"
      "db w1 = db w" "t \<le> pg_now w1"
proof -
  obtain f w' where a: "advance w = (f, w')" by fastforce
  show ?thesis
  proof (cases "f = NoFault")
    case True
    then show ?thesis using ok [of "pg_now w'" "w'\<lparr>db := db w\<rparr>"] a by (simp add: select_expired_def sql_read_def sql_def)
  next
    case False
    then show ?thesis using fail a advance_db [OF a] by (cases f) (auto simp: select_expired_def sql_read_def sql_def)
  qed
qed

lemma delete_expired_cases:
  obtains (fail) e t w1 where "run_state (delete_expired c ids) w = (Inl e, w1)"
      "db w1 = db w \<or> db w1 = snd (delete_hosts (\<lambda>h. h_id h \<in> set ids \<and> expired_host c t h) (db w))"
  | (ok) t w1 where "run_state (delete_expired c ids) w =
        (Inr (fst (delete_hosts (\<lambda>h. h_id h \<in> set ids \<and> expired_host c t h) (db w))), w1)"
      "db w1 = snd (delete_hosts (\<lambda>h. h_id h \<in> set ids \<and> expired_host c t h) (db w))" "pg_now w \<le> t"
proof -
  obtain f w' where a: "advance w = (f, w')" by fastforce
  show ?thesis
  proof (cases "f = NoFault")
    case True
    then show ?thesis using ok [of "pg_now w'"] advance_clock [OF a] a by (simp add: delete_expired_def sql_def case_prod_beta)
  next
    case False
    then show ?thesis using fail a advance_db [OF a] by (cases f) (auto simp: delete_expired_def sql_def case_prod_beta)
  qed
qed

lemma filter_shorter: "x \<in> set xs \<Longrightarrow> \<not> p x \<Longrightarrow> length (filter p xs) < length xs"
  by (induction xs) (auto simp: le_imp_less_Suc)

lemma purge_returns:
  assumes "\<And>ids. guar hook_rel (hook ids)"
  shows "\<exists>r. purgeTableHooked hook c deleted w = Some r"
proof (induction "length (t_hosts (db w))" arbitrary: deleted w rule: less_induct)
  case less
  show ?case
  proof (cases rule: select_expired_cases [of c w])
    case (fail e w1)
    then show ?thesis by (subst purgeTableHooked.simps) simp
  next
    case (ok t w1)
    let ?ids = "take entityBatchSize (map h_id (filter (expired_host c t) (t_hosts (db w))))"
    obtain e w2 where h: "run_state (hook ?ids) w1 = (e, w2)" by fastforce
    show ?thesis
    proof (cases "?ids = [] \<or> e \<noteq> None")
      case True
      then show ?thesis using ok h by (subst purgeTableHooked.simps) (auto split: option.splits)
    next
      case False
      have rel: "t_hosts (db w2) = t_hosts (db w)" "t \<le> pg_now w2"
        using guarD [OF assms, of w1 ?ids] h ok by (simp_all add: hook_rel_def)
      show ?thesis
      proof (cases rule: delete_expired_cases [of c ?ids w2])
        case (fail e3 t3 w3)
        then show ?thesis using ok h False by (subst purgeTableHooked.simps) simp
      next
        case del: (ok t3 w3)
        obtain x xs where x: "filter (expired_host c t) (t_hosts (db w)) = x # xs"
          using False by (cases "filter (expired_host c t) (t_hosts (db w))") auto
        then have "x \<in> set (filter (expired_host c t) (t_hosts (db w)))" by simp
        then have mem: "x \<in> set (t_hosts (db w2))" and ex: "expired_host c t x" using rel by simp_all
        have "h_id x \<in> set ?ids" using x by (simp add: entityBatchSize_def)
        moreover have "expired_host c t3 x" using ex rel(2) del(3) by (simp add: expired_host_def)
        ultimately have "length (t_hosts (db w3)) < length (t_hosts (db w2))"
          unfolding del(2) delete_hosts_def Let_def snd_conv by (simp add: sql_delete_def filter_shorter [OF mem])
        then obtain r where "purgeTableHooked hook c (deleted + fst (delete_hosts (\<lambda>h. h_id h \<in> set ?ids \<and> expired_host c t3 h) (db w2))) w3 = Some r"
          using less.hyps rel(1) by (metis (no_types, lifting))
        then show ?thesis using ok h False del(1) by (subst purgeTableHooked.simps) (cases r, auto)
      qed
    qed
  qed
qed

subsection \<open>Retirement\<close>

lemma Retire_hook_rel:
  assumes "\<And>h opn. guar hook_rel (notify h opn)"
  shows "guar hook_rel (Retire notify ids)"
proof -
  note rules = guar hook_rel_rel hook_rel_sql assms
  have close: "guar hook_rel (close_retired xs)" for xs
  proof (induction xs)
    case (Cons x xs)
    show ?case
      unfolding close_retired.simps Resolve_host_def MarkNotified_host_def update_claim_def update_must_def update_rows_def
      by (intro rules Cons.IH) (simp_all add: update_returning_def)
  qed (simp add: rules)
  show ?thesis
    unfolding Retire_def retireOne_def ListByIDs_def ListOpenByHost_def sql_read_def
    by (intro rules close) simp_all
qed

text \<open>A host with what hangs on it.\<close>

definition host_rows :: "int \<Rightarrow> db \<Rightarrow> host_row list \<times> host_incident list" where
  "host_rows hid d = (filter (\<lambda>h. h_id h = hid) (t_hosts d), filter (\<lambda>x. hi_host x = hid) (t_host_incidents d))"

text \<open>What the retirement of other hosts keeps.\<close>

definition keeps_host :: "int \<Rightarrow> db \<Rightarrow> db \<Rightarrow> bool" where
  "keeps_host hid d d' \<longleftrightarrow> host_progress d d' \<and> (host_wf d \<longrightarrow> host_rows hid d' = host_rows hid d) \<and> t_hosts d' = t_hosts d"

lemma keeps_host_rel [guar]: "reflp (keeps_host hid)" "transp (keeps_host hid)"
proof -
  show "reflp (keeps_host hid)" using alert_progress_rel(1) [of host_table host_key] by (simp add: reflp_def keeps_host_def)
  show "transp (keeps_host hid)"
    using alert_progress_rel(2) [of host_table host_key]
    by (auto simp: transp_def keeps_host_def alert_progress_def)
qed

lemma only_outbox_keeps_host: "only_outbox d d' \<Longrightarrow> keeps_host hid d d'"
proof -
  assume "only_outbox d d'"
  then have "t_hosts d' = t_hosts d" "t_host_incidents d' = t_host_incidents d" "t_host_incident_seq d' = t_host_incident_seq d"
    by (auto simp: only_outbox_def dest: arg_cong [of _ _ t_hosts] arg_cong [of _ _ t_host_incidents] arg_cong [of _ _ t_host_incident_seq])
  then show ?thesis by (simp add: keeps_host_def host_rows_def alert_progress_def alert_wf_def list_all2_refl)
qed

text \<open>An incident of another host, as it is or was.\<close>

definition foreign_row :: "int \<Rightarrow> db \<Rightarrow> host_incident \<Rightarrow> bool" where
  "foreign_row hid d x \<longleftrightarrow> (\<exists>y \<in> set (t_host_incidents d). a_id y = a_id x \<and> hi_host y \<noteq> hid)"

lemma foreign_row_later:
  assumes "host_progress d d'" and "foreign_row hid d x"
  shows "foreign_row hid d' x"
proof -
  from assms(2) obtain y where y: "y \<in> set (t_host_incidents d)" "a_id y = a_id x" "hi_host y \<noteq> hid" by (auto simp: foreign_row_def)
  then obtain k where k: "k < length (t_host_incidents d)" "t_host_incidents d ! k = y" by (auto simp: in_set_conv_nth)
  then have k': "k < length (t_host_incidents d')" "alert_le host_key y (t_host_incidents d' ! k)"
    using assms(1) by (auto simp: alert_progress_def list_all2_conv_all_nth)
  then have "a_id (t_host_incidents d' ! k) = a_id x \<and> hi_host (t_host_incidents d' ! k) \<noteq> hid"
    using y by (simp add: alert_le_def host_key_def)
  then show ?thesis using nth_mem [OF k'(1)] by (auto simp: foreign_row_def)
qed

lemma update_foreign:
  assumes "foreign_row hid d x" and "\<And>y. p y \<Longrightarrow> a_id y = a_id x \<and> alert_le host_key y (f y)"
  shows "keeps_host hid d (snd (update_returning host_table p f d))"
proof -
  have "filter (\<lambda>x. hi_host x = hid) (sql_update p f (t_host_incidents d)) = filter (\<lambda>x. hi_host x = hid) (t_host_incidents d)"
    if wf: "host_wf d"
  proof -
    have other: "hi_host y \<noteq> hid" if "y \<in> set (t_host_incidents d)" "p y" for y
      using assms(1) assms(2) [OF that(2)] that(1) wf distinct_key_unique [of a_id "t_host_incidents d"]
      by (fastforce simp: foreign_row_def alert_wf_def)
    have same: "hi_host (f y) = hi_host y" if "p y" for y using assms(2) [OF that] by (simp add: alert_le_def host_key_def)
    have "filter (\<lambda>x. hi_host x = hid) (map (\<lambda>y. if p y then f y else y) ys) = filter (\<lambda>x. hi_host x = hid) ys"
      if "set ys \<subseteq> set (t_host_incidents d)" for ys
      using that by (induction ys) (auto simp: same dest: other)
    then show ?thesis by (simp add: sql_update_def)
  qed
  moreover have "host_progress d (snd (update_returning host_table p f d))"
    by (rule host_inc.progress_update) (use assms(2) in blast)
  ultimately show ?thesis by (simp add: keeps_host_def host_rows_def update_returning_def)
qed

lemma wp_of_keeps: "wp c (\<lambda>a w'. keeps_host hid (db w) (db w') \<and> Q a w') w \<Longrightarrow> wp c Q w"
  by (auto elim: wp_mono)

definition has_open :: "int \<Rightarrow> db \<Rightarrow> bool" where
  "has_open hid d \<longleftrightarrow> list_ex (\<lambda>x. hi_host x = hid \<and> alert_open x) (t_host_incidents d)"

lemma has_open_rows: "has_open hid d \<longleftrightarrow> list_ex alert_open (snd (host_rows hid d))"
  by (auto simp: has_open_def host_rows_def list_ex_iff)

lemma close_retired_keeps:
  "\<forall>x \<in> set xs. foreign_row hid (db w) x \<Longrightarrow> wp (close_retired xs) (\<lambda>_ w'. keeps_host hid (db w) (db w')) w"
proof (induction xs arbitrary: w)
  case Nil
  show ?case using reflpD [OF keeps_host_rel(1)] by (simp add: wp)
next
  case (Cons x xs)
  have later: "\<forall>y \<in> set (x # xs). foreign_row hid d' y" if "keeps_host hid (db w) d'" for d'
    using Cons.prems that by (auto simp: keeps_host_def intro: foreign_row_later)
  note trans = transpD [OF keeps_host_rel(2)]
  have resolve: "wp (Resolve_host (a_id x) (hi_current x)) (\<lambda>_ w'. keeps_host hid (db w) (db w')) w"
    unfolding Resolve_host_def update_claim_def update_rows_def wp_bind
    by (rule wp_sqlI) (use reflpD [OF keeps_host_rel(1)] Cons.prems in
      \<open>auto simp: wp intro!: update_foreign simp: host_le simp del: host_table_simps\<close>)
  have mark: "wp (MarkNotified_host (a_id x) False) (\<lambda>_ w'. keeps_host hid (db w1) (db w')) w1" if "foreign_row hid (db w1) x" for w1
    unfolding MarkNotified_host_def update_must_def update_rows_def wp_bind
    by (rule wp_sqlI) (use reflpD [OF keeps_host_rel(1)] that in
      \<open>auto simp: wp intro!: update_foreign simp: host_inc.le_shared simp del: host_table_simps\<close>)
  show ?case
    unfolding close_retired.simps wp_bind
  proof (rule wp_mono [OF resolve], goal_cases)
    case (1 r w1)
    show ?case
    proof (cases r)
      case (Inr ok)
      have f1: "foreign_row hid (db w1) x" using later [OF 1] by simp
      show ?thesis
        unfolding Inr sum.case wp_bind
      proof (rule wp_mono [OF mark [OF f1]], goal_cases)
        case (1 m w2)
        then have k2: "keeps_host hid (db w) (db w2)" using \<open>keeps_host hid (db w) (db w1)\<close> trans by blast
        show ?case
          using later [OF k2] k2 by (auto simp: wp intro!: wp_mono [OF Cons.IH] dest: trans)
      qed
    qed (use 1 in \<open>simp add: wp\<close>)
  qed
qed

lemma retireOne_keeps:
  assumes "\<And>h opn. guar (on_db only_outbox) (notify h opn)"
    and "\<And>h opn u. h_id h = hid \<Longrightarrow> fst (run_state (notify h opn) u) \<noteq> None"
  shows "wp (retireOne notify h) (\<lambda>e w'. keeps_host hid (db w) (db w') \<and>
    (h_id h = hid \<and> has_open hid (db w) \<longrightarrow> e \<noteq> None)) w"
proof -
  let ?open = "newest_alerts (\<lambda>x. hi_host x = h_id h \<and> alert_open x) host_table (db w)"
  have told: "wp (notify h opn) (\<lambda>e w'. keeps_host hid (db u) (db w') \<and> (h_id h = hid \<longrightarrow> e \<noteq> None)) u" for opn u
  proof -
    have "wp (notify h opn) (\<lambda>_. on_db only_outbox u) u" using assms(1) [of h opn] by (simp only: guar_wp)
    then show ?thesis
      using assms(2) [of h opn u] by (auto simp: wp_def on_db_def only_outbox_keeps_host split: prod.splits)
  qed
  have some: "?open \<noteq> []" if "h_id h = hid" "has_open hid (db w)"
    using that by (auto simp: newest_alerts_def has_open_def list_ex_iff filter_empty_conv)
  have foreign: "\<forall>x \<in> set ?open. foreign_row hid (db w) x" if "h_id h \<noteq> hid"
    using that by (auto simp: newest_alerts_def foreign_row_def)
  show ?thesis
    unfolding retireOne_def ListOpenByHost_def wp_bind
  proof (rule wp_sql_readI, goal_cases)
    case (1 t w1)
    show ?case
    proof (cases "?open = []")
      case True
      then show ?thesis using 1 some reflpD [OF keeps_host_rel(1)] by (auto simp: wp)
    next
      case False
      show ?thesis
        unfolding sum.case if_not_P [OF False] wp_bind
      proof (rule wp_mono [OF told], goal_cases)
        case (1 e w2)
        then have k2: "keeps_host hid (db w) (db w2)" using \<open>db w1 = db w\<close> by simp
        have "\<forall>x \<in> set ?open. foreign_row hid (db w2) x" if "h_id h \<noteq> hid"
          using foreign [OF that] k2 by (auto simp: keeps_host_def intro: foreign_row_later)
        then show ?case
          using 1 k2 by (auto simp: wp intro!: wp_mono [OF close_retired_keeps] dest: transpD [OF keeps_host_rel(2)])
      qed
    qed
  qed (use reflpD [OF keeps_host_rel(1)] in \<open>simp add: wp\<close>)
qed

lemma Retire_keeps:
  assumes "\<And>h opn. guar (on_db only_outbox) (notify h opn)"
    and "\<And>h opn u. h_id h = hid \<Longrightarrow> fst (run_state (notify h opn) u) \<noteq> None"
    and "host_wf (db w)" and "has_open hid (db w)"
  shows "wp (Retire notify ids) (\<lambda>e w'. keeps_host hid (db w) (db w') \<and>
    (hid \<in> set ids \<and> list_ex (\<lambda>h. h_id h = hid) (t_hosts (db w)) \<longrightarrow> e \<noteq> None)) w"
proof -
  let ?f = "\<lambda>errs h. do {
      e \<leftarrow> retireOne notify h;
      State_Monad.return (if e = None then errs else errors_join [errs, e])
    }"
  have loop: "wp (for_acc acc hs ?f) (\<lambda>e w'. keeps_host hid (db u) (db w') \<and>
      (acc \<noteq> None \<or> list_ex (\<lambda>h. h_id h = hid) hs \<longrightarrow> e \<noteq> None)) u"
    if "host_wf (db u)" "has_open hid (db u)" for acc hs u
    using that
  proof (induction hs arbitrary: acc u)
    case Nil
    then show ?case using reflpD [OF keeps_host_rel(1)] by (simp add: wp)
  next
    case (Cons h hs)
    have one: "wp (retireOne notify h) (\<lambda>e w'. keeps_host hid (db u) (db w') \<and>
      (h_id h = hid \<and> has_open hid (db u) \<longrightarrow> e \<noteq> None)) u"
      by (rule retireOne_keeps [OF assms(1)]) (rule assms(2))
    show ?case
      unfolding for_acc.simps wp_bind
    proof (rule wp_mono [OF one], goal_cases)
      case (1 e u1)
      then have wf1: "host_wf (db u1)" and open1: "has_open hid (db u1)"
        using Cons.prems by (auto simp: keeps_host_def alert_progress_def has_open_rows)
      show ?case
        unfolding wp_return
        by (rule wp_mono [OF Cons.IH [OF wf1 open1]])
           (use 1 Cons.prems in \<open>auto dest: transpD [OF keeps_host_rel(2)] split: if_splits\<close>)
    qed
  qed
  show ?thesis
  proof (cases "ids = []")
    case True
    then show ?thesis using reflpD [OF keeps_host_rel(1)] by (simp add: Retire_def ListByIDs_def wp)
  next
    case False
    show ?thesis
      unfolding Retire_def ListByIDs_def if_not_P [OF False] wp_bind
    proof (rule wp_sql_readI, goal_cases)
      case (1 t w1)
      then show ?case
        unfolding sum.case by (intro wp_mono [OF loop]) (use assms(3,4) in \<open>auto simp: list_ex_iff\<close>)
    qed (use reflpD [OF keeps_host_rel(1)] in \<open>simp add: wp\<close>)
  qed
qed

subsection \<open>Properties\<close>

definition pg_forward :: "world \<Rightarrow> world \<Rightarrow> bool" where
  "pg_forward w w' \<longleftrightarrow> pg_now w \<le> pg_now w'"

lemma pg_forward_rel: "reflp pg_forward" "transp pg_forward"
  by (auto simp: reflp_def transp_def pg_forward_def)

lemma pg_forward_sql: "guar pg_forward (sql q)"
  unfolding guar_wp pg_forward_def wp_def
proof (intro allI)
  fix w
  show "case run_state (sql q) w of (a, w') \<Rightarrow> pg_now w \<le> pg_now w'"
    by (cases "advance w") (auto simp: sql_def case_prod_beta dest: advance_clock split: fault.split)
qed

lemma pg_forward_read: "guar pg_forward (sql_read q)"
  unfolding sql_read_def by (rule pg_forward_sql)

lemma only_outbox_alert_dispatch: "guar (on_db only_outbox) (alert_dispatch n inp)"
  unfolding guar_wp on_db_def by (auto intro: wp_mono [OF wp_alert_dispatch])

lemma hook_rel_alert_dispatch: "guar hook_rel (alert_dispatch n inp)"
proof -
  have "guar pg_forward (alert_dispatch n inp)"
    unfolding alert_dispatch_def Dispatch_def dispatch_one_def resolveProjectName_def
      Channels_def enqueue_channel_def EnqueueIdempotent_def Enqueue_def Let_def
    by (intro guar pg_forward_rel pg_forward_sql pg_forward_read)
  then show ?thesis
    using only_outbox_alert_dispatch [of n inp] only_outbox_same [of _ _ t_hosts]
    by (simp add: guar_def hook_rel_def pg_forward_def on_db_def)
qed

lemma hook_rel_HostRetired: "guar hook_rel (HostRetired n h opn)"
  unfolding HostRetired_def Let_def dispatch_host_def by (intro guar hook_rel_rel hook_rel_alert_dispatch)


lemma delete_keeps_rows:
  assumes "\<And>h. p h \<Longrightarrow> h_id h \<noteq> hid"
  shows "host_rows hid (snd (delete_hosts p d)) = host_rows hid d"
proof -
  have "filter (\<lambda>x. hi_host x = hid) (sql_delete (\<lambda>x. hi_host x \<in> h_id ` {x \<in> set hs. p x}) xs) = filter (\<lambda>x. hi_host x = hid) xs" for xs hs
    using assms by (induction xs) (auto simp: sql_delete_def)
  moreover have "filter (\<lambda>h. h_id h = hid) (sql_delete p hs) = filter (\<lambda>h. h_id h = hid) hs" for hs
    using assms by (induction hs) (auto simp: sql_delete_def)
  ultimately show ?thesis by (simp add: host_rows_def delete_hosts_def Let_def)
qed

lemma delete_keeps_wf: "host_wf d \<Longrightarrow> host_wf (snd (delete_hosts p d))"
proof -
  assume wf: "host_wf d"
  have "distinct (map host_key (filter alert_open (filter Q xs)))" if "distinct (map host_key (filter alert_open xs))" for Q xs
    using that by (induction xs) (auto split: if_splits)
  then show ?thesis
    using wf by (auto simp: alert_wf_def delete_hosts_def Let_def sql_delete_def list_all_iff distinct_map_filter)
qed

text \<open>One batch of the purge, seen from a host whose notice is refused.\<close>

lemma purge_keeps_host:
  assumes only: "\<And>h opn. guar (on_db only_outbox) (notify h opn)"
    and refused: "\<And>h opn u. h_id h = hid \<Longrightarrow> fst (run_state (notify h opn) u) \<noteq> None"
    and run: "purgeTableHooked hook c n w = Some r"
  shows "hook = Retire notify \<and> host_wf (db w) \<and> has_open hid (db w) \<longrightarrow>
    host_rows hid (db (snd r)) = host_rows hid (db w)"
  using run
proof (induction rule: purgeTableHooked.raw_induct [rotated, consumes 1, case_names batch])
  case (batch self hook c n w r)
  show ?case
  proof (intro impI, elim conjE)
    assume hook: "hook = Retire notify" and wf: "host_wf (db w)" and opn: "has_open hid (db w)"
    show "host_rows hid (db (snd r)) = host_rows hid (db w)"
    proof (cases rule: select_expired_cases [of c w])
      case (fail e w1)
      then show ?thesis using batch(2) by auto
    next
      case (ok t w1)
      let ?ids = "take entityBatchSize (map h_id (filter (expired_host c t) (t_hosts (db w))))"
      obtain e w2 where h: "run_state (Retire notify ?ids) w1 = (e, w2)" by fastforce
      have member: "list_ex (\<lambda>h. h_id h = hid) (t_hosts (db w))" if "hid \<in> set ?ids"
        using in_set_takeD [OF that] by (auto simp: list_ex_iff)
      have "wp (Retire notify ?ids) (\<lambda>e w'. keeps_host hid (db w1) (db w') \<and>
          (hid \<in> set ?ids \<and> list_ex (\<lambda>h. h_id h = hid) (t_hosts (db w1)) \<longrightarrow> e \<noteq> None)) w1"
        by (rule Retire_keeps [OF only]) (use wf opn ok refused in auto)
      then have keeps: "keeps_host hid (db w) (db w2)" and there: "hid \<in> set ?ids \<Longrightarrow> e \<noteq> None"
        using h ok(2) member by (auto simp: wp_def)
      have k2: "host_wf (db w2)" "host_rows hid (db w2) = host_rows hid (db w)"
        using keeps wf by (auto simp: keeps_host_def alert_progress_def)
      show ?thesis
      proof (cases "?ids = [] \<or> e \<noteq> None")
        case True
        then show ?thesis using batch(2) ok h hook k2 by (auto split: option.splits if_splits)
      next
        case False
        with there have notin: "hid \<notin> set ?ids" by blast
        have rows: "host_rows hid (snd (delete_hosts (\<lambda>h. h_id h \<in> set ?ids \<and> expired_host c t3 h) (db w2))) = host_rows hid (db w2)" for t3
          by (rule delete_keeps_rows) (use notin in auto)
        show ?thesis
        proof (cases rule: delete_expired_cases [of c ?ids w2])
          case (fail e3 t3 w3)
          then have "host_rows hid (db w3) = host_rows hid (db w2)" using fail(2) rows by auto
          then show ?thesis using batch(2) ok h hook False k2 fail by auto
        next
          case del: (ok t3 w3)
          have k3: "host_wf (db w3)" "host_rows hid (db w3) = host_rows hid (db w)"
            unfolding del(2) using k2 rows by (simp_all add: delete_keeps_wf)
          have "has_open hid (db w3)" using opn k3 by (simp add: has_open_rows)
          then show ?thesis
            using batch(1) [of hook c _ w3 r] batch(2) ok h hook False del(1) k3 by (auto split: if_splits)
        qed
      qed
    qed
  qed
qed


definition ex_refuse :: "host_row \<Rightarrow> host_incident list \<Rightarrow> error option prog" where
  "ex_refuse h opn = State_Monad.return (if h_id h = 1 then Some ErrDB else None)"


end
