(* ===== verification/Metric_Rule.thy ===== *)
theory Metric_Rule
  imports Alert_Incident
begin

text \<open>
  \<open>internal/metric/decide.go\<close>, \<open>rule.go\<close> and \<open>incident.go\<close>: alert rules on metrics, the
  decision to open or close an incident, and the incidents. The properties: the hysteresis
  of the decision keeps a value near the threshold from flapping; a rule has at most one
  open incident; switching a rule off closes it; storing a rule is a round trip.
\<close>

subsection \<open>Model: decide.go\<close>

definition recoveryBand :: rat where "recoveryBand = 1 / 20"

record decision =
  d_Open :: bool
  d_Close :: bool
  d_Bump :: bool

definition no_decision :: decision where
  "no_decision = \<lparr>d_Open = False, d_Close = False, d_Bump = False\<rparr>"

definition Decide :: "rat \<Rightarrow> string \<Rightarrow> rat \<Rightarrow> bool \<Rightarrow> decision" where
  "Decide current comparator threshold opn =
     (let band = recoveryBand * \<bar>threshold\<bar>;
          (breached, recovered) =
            (if comparator = ''gt'' then (current > threshold, current \<le> threshold - band)
             else if comparator = ''lt'' then (current < threshold, current \<ge> threshold + band)
             else (False, False))
      in if \<not> opn \<and> breached then no_decision\<lparr>d_Open := True\<rparr>
         else if opn \<and> recovered then no_decision\<lparr>d_Close := True\<rparr>
         else if opn then no_decision\<lparr>d_Bump := True\<rparr>
         else no_decision)"

subsection \<open>Model: rule.go\<close>

definition Aggregations :: "string list" where
  "Aggregations = [''avg'', ''max'', ''min'', ''sum'', ''increase'', ''p50'', ''p95'', ''p99'']"

definition ErrInvalidRule :: error where "ErrInvalidRule = ErrMsg ''invalid alert rule''"

text \<open>Thresholds are rational numbers, so the tests for NaN and infinity have no counterpart.\<close>

definition validateRule :: "metric_rule \<Rightarrow> error option" where
  "validateRule r =
     (if mr_MetricName r = '''' \<or> mr_Aggregation r \<notin> set Aggregations \<or>
         (mr_Comparator r \<noteq> ''gt'' \<and> mr_Comparator r \<noteq> ''lt'') \<or> mr_WindowSeconds r \<le> 0
      then Some ErrInvalidRule else None)"

text \<open>The check on the column \<open>severity\<close>, where the empty text is stored as null.\<close>

definition severity_ok :: "string \<Rightarrow> bool" where
  "severity_ok sev \<longleftrightarrow> sev \<in> {'''', ''critical'', ''warning''}"

definition insert_rule :: "metric_rule \<Rightarrow> time \<Rightarrow> db \<Rightarrow> metric_rule option \<times> db" where
  "insert_rule r now d =
     (let d1 = d\<lparr>t_metric_rule_seq := t_metric_rule_seq d + 1\<rparr>;
          row = r\<lparr>mr_ID := t_metric_rule_seq d, mr_CreatedAt := now\<rparr>
      in if severity_ok (mr_Severity r) \<and> list_ex (\<lambda>p. fst p = mr_ProjectID r) (t_projects d)
         then (Some row, d1\<lparr>t_metric_rules := t_metric_rules d @ [row]\<rparr>)
         else (None, d1))"

definition Create_rule :: "metric_rule \<Rightarrow> metric_rule result prog" where
  "Create_rule r =
     (case validateRule r of
        Some e \<Rightarrow> State_Monad.return (Inl e)
      | None \<Rightarrow>
          do {
            x \<leftarrow> sql (insert_rule r);
            State_Monad.return (case x of Inl e \<Rightarrow> Inl e | Inr None \<Rightarrow> Inl ErrDB | Inr (Some row) \<Rightarrow> Inr row)
          })"

text \<open>
  The statement that closes an incident (\<open>resolveIncidentSQL\<close>), and its use for the open
  incident of a rule that is switched off: the value stays as it was.
\<close>

definition resolve_metric :: "time \<Rightarrow> rat \<Rightarrow> metric_incident \<Rightarrow> metric_incident" where
  "resolve_metric now current x = (close_alert now x)\<lparr>mi_current := current\<rparr>"

definition resolveOpenIncidentForRule :: "int \<Rightarrow> time \<Rightarrow> db \<Rightarrow> db" where
  "resolveOpenIncidentForRule ruleID now d =
     (case find (\<lambda>x. mi_rule x = ruleID \<and> alert_open x) (t_metric_incidents d) of
        None \<Rightarrow> d
      | Some x \<Rightarrow> snd (update_returning metric_table (\<lambda>y. a_id y = a_id x \<and> alert_open y) (resolve_metric now (mi_current x)) d))"

text \<open>The transaction of \<open>Update\<close>: lock, update, and close the incident of a rule switched off.\<close>

definition update_rule_row :: "metric_rule \<Rightarrow> metric_rule \<Rightarrow> metric_rule" where
  "update_rule_row r x = r\<lparr>mr_ID := mr_ID x, mr_ProjectID := mr_ProjectID x, mr_CreatedAt := mr_CreatedAt x\<rparr>"

definition update_rule_tx :: "metric_rule \<Rightarrow> time \<Rightarrow> db \<Rightarrow> metric_rule result \<times> db" where
  "update_rule_tx r now d =
     (let hit = (\<lambda>x. mr_ID x = mr_ID r \<and> mr_ProjectID x = mr_ProjectID r) in
      case find hit (t_metric_rules d) of
        None \<Rightarrow> (Inl ErrNotFound, d)
      | Some x \<Rightarrow>
          if \<not> severity_ok (mr_Severity r) then (Inl ErrDB, d)
          else let out = update_rule_row r x;
                   d1 = d\<lparr>t_metric_rules := sql_update hit (update_rule_row r) (t_metric_rules d)\<rparr>
               in (Inr out, if mr_Enabled out then d1 else resolveOpenIncidentForRule (mr_ID out) now d1))"

definition Update_rule :: "metric_rule \<Rightarrow> metric_rule result prog" where
  "Update_rule r =
     (case validateRule r of
        Some e \<Rightarrow> State_Monad.return (Inl e)
      | None \<Rightarrow>
          do {
            x \<leftarrow> sql (update_rule_tx r);
            State_Monad.return (case x of Inl e \<Rightarrow> Inl e | Inr res \<Rightarrow> res)
          })"

definition List_rules :: "int \<Rightarrow> metric_rule list result prog" where
  "List_rules projectID =
     sql_read (\<lambda>_ d. sort_key (\<lambda>r. - mr_CreatedAt r) (filter (\<lambda>r. mr_ProjectID r = projectID) (t_metric_rules d)))"

definition ListEnabled_rules :: "metric_rule list result prog" where
  "ListEnabled_rules = sql_read (\<lambda>_ d. sort_key mr_ID (filter mr_Enabled (t_metric_rules d)))"

definition Get_rule :: "int \<Rightarrow> metric_rule option result prog" where
  "Get_rule rid = sql_read (\<lambda>_ d. find (\<lambda>r. mr_ID r = rid) (t_metric_rules d))"

text \<open>Deleting a rule takes its incidents along (the foreign key cascades).\<close>

definition delete_rule :: "int \<Rightarrow> int \<Rightarrow> db \<Rightarrow> db" where
  "delete_rule rid projectID d =
     (if list_ex (\<lambda>r. mr_ID r = rid \<and> mr_ProjectID r = projectID) (t_metric_rules d)
      then d\<lparr>t_metric_rules := sql_delete (\<lambda>r. mr_ID r = rid \<and> mr_ProjectID r = projectID) (t_metric_rules d),
             t_metric_incidents := sql_delete (\<lambda>x. mi_rule x = rid) (t_metric_incidents d)\<rparr>
      else d)"

definition Delete_rule :: "int \<Rightarrow> int \<Rightarrow> error option prog" where
  "Delete_rule rid projectID =
     do {
       r \<leftarrow> sql (\<lambda>_ d. ((), delete_rule rid projectID d));
       State_Monad.return (case r of Inl e \<Rightarrow> Some e | Inr _ \<Rightarrow> None)
     }"

subsection \<open>Model: incident.go\<close>

definition new_metric_incident :: "int \<Rightarrow> int \<Rightarrow> rat \<Rightarrow> bool \<Rightarrow> string \<Rightarrow> time \<Rightarrow> int \<Rightarrow> metric_incident" where
  "new_metric_incident ruleID projectID current inMaintenance severity now iid =
     \<lparr>a_id = iid, a_project = projectID, a_status = ''open'', a_started = now, a_resolved = None,
      a_in_maintenance = inMaintenance, a_notified_open = False, a_notified_close = False, a_acked_at = None,
      a_acked_by = None, a_severity = (if severity = '''' then ''warning'' else severity), a_level = 0,
      a_last_escalated = None, a_group = None, mi_rule = ruleID, mi_current = current, mi_peak = current\<rparr>"

definition metric_insertable :: "int \<Rightarrow> int \<Rightarrow> string \<Rightarrow> db \<Rightarrow> bool" where
  "metric_insertable ruleID projectID severity d \<longleftrightarrow>
     severity_ok severity \<and> list_ex (\<lambda>r. mr_ID r = ruleID) (t_metric_rules d) \<and> list_ex (\<lambda>p. fst p = projectID) (t_projects d)"

definition OpenFor_metric :: "int \<Rightarrow> metric_incident option result prog" where
  "OpenFor_metric ruleID = sql_read (\<lambda>_ d. find (\<lambda>x. mi_rule x = ruleID \<and> alert_open x) (t_metric_incidents d))"

definition Open_metric :: "int \<Rightarrow> int \<Rightarrow> rat \<Rightarrow> bool \<Rightarrow> string \<Rightarrow> (metric_incident \<times> bool) result prog" where
  "Open_metric ruleID projectID current inMaintenance severity =
     do {
       r \<leftarrow> sql (\<lambda>now. insert_alert metric_table mi_rule (metric_insertable ruleID projectID severity)
              (new_metric_incident ruleID projectID current inMaintenance severity now));
       (case r of
          Inl e \<Rightarrow> State_Monad.return (Inl e)
        | Inr (Inl e) \<Rightarrow> State_Monad.return (Inl e)
        | Inr (Inr (Some x)) \<Rightarrow> State_Monad.return (Inr (x, True))
        | Inr (Inr None) \<Rightarrow>
            do {
              f \<leftarrow> OpenFor_metric ruleID;
              State_Monad.return
                (case f of
                   Inl e \<Rightarrow> Inl e
                 | Inr None \<Rightarrow> Inl (ErrMsg ''conflicted but no open incident found'')
                 | Inr (Some existing) \<Rightarrow> Inr (existing, False))
            })
     }"

definition GetByID_metric :: "int \<Rightarrow> metric_incident option result prog" where
  "GetByID_metric iid = sql_read (\<lambda>_ d. find (\<lambda>x. a_id x = iid) (t_metric_incidents d))"

definition Bump_metric :: "int \<Rightarrow> rat \<Rightarrow> rat \<Rightarrow> error option prog" where
  "Bump_metric iid current peak =
     update_must metric_table (\<lambda>x. a_id x = iid \<and> alert_open x) (\<lambda>_ x. x\<lparr>mi_current := current, mi_peak := peak\<rparr>)"

definition Resolve_metric :: "int \<Rightarrow> rat \<Rightarrow> bool result prog" where
  "Resolve_metric iid current =
     update_claim metric_table (\<lambda>x. a_id x = iid \<and> alert_open x) (\<lambda>now. resolve_metric now current)"

definition MarkNotified_metric :: "int \<Rightarrow> bool \<Rightarrow> error option prog" where
  "MarkNotified_metric iid opn = update_must metric_table (\<lambda>x. a_id x = iid) (\<lambda>_. mark_alert opn)"

definition Acknowledge_metric :: "int \<Rightarrow> int \<Rightarrow> int \<Rightarrow> bool result prog" where
  "Acknowledge_metric = ack_alert metric_table"

definition OpenUnacked_metric :: "pending list result prog" where
  "OpenUnacked_metric = sql_read (\<lambda>_. unacked_alerts (\<lambda>_. False) alert_clock metric_table)"

definition BumpEscalation_metric :: "int \<Rightarrow> int \<Rightarrow> (bool \<times> error option) prog" where
  "BumpEscalation_metric = bump_alert metric_table"

definition List_metric :: "int \<Rightarrow> int \<Rightarrow> metric_incident list result prog" where
  "List_metric projectID = list_alerts (\<lambda>x. a_project x = projectID) metric_table"

subsection \<open>The decision\<close>

text \<open>The state of the incident along the values of a rule, and how often it changes.\<close>

fun flips :: "string \<Rightarrow> rat \<Rightarrow> bool \<Rightarrow> rat list \<Rightarrow> nat" where
  "flips cmp thr opn [] = 0"
| "flips cmp thr opn (x # xs) =
     (let d = Decide x cmp thr opn in
      if d_Open d then Suc (flips cmp thr True xs)
      else if d_Close d then Suc (flips cmp thr False xs)
      else flips cmp thr opn xs)"

lemma Decide_simps:
  "d_Open (Decide c ''gt'' t b) \<longleftrightarrow> \<not> b \<and> t < c" "d_Close (Decide c ''gt'' t b) \<longleftrightarrow> b \<and> c \<le> t - recoveryBand * \<bar>t\<bar>"
  "d_Open (Decide c ''lt'' t b) \<longleftrightarrow> \<not> b \<and> c < t" "d_Close (Decide c ''lt'' t b) \<longleftrightarrow> b \<and> t + recoveryBand * \<bar>t\<bar> \<le> c"
  "cmp \<noteq> ''gt'' \<Longrightarrow> cmp \<noteq> ''lt'' \<Longrightarrow> \<not> d_Open (Decide c cmp t b) \<and> \<not> d_Close (Decide c cmp t b)"
  by (auto simp: Decide_def no_decision_def Let_def)

lemma Decide_apart:
  assumes "d_Open (Decide a cmp thr False)" and "d_Close (Decide b cmp thr True)"
  shows "recoveryBand * \<bar>thr\<bar> < \<bar>a - b\<bar>"
proof -
  consider "cmp = ''gt''" | "cmp = ''lt''" using assms(1) Decide_simps(5) by blast
  then show ?thesis using assms by cases (auto simp: Decide_simps)
qed

lemma flips_near:
  assumes "\<forall>x \<in> set xs. \<bar>a - x\<bar> \<le> recoveryBand * \<bar>thr\<bar>"
  shows "d_Open (Decide a cmp thr False) \<Longrightarrow> flips cmp thr True xs = 0"
    and "d_Close (Decide a cmp thr True) \<Longrightarrow> flips cmp thr False xs = 0"
proof -
  have excl: "\<not> d_Open (Decide x cmp thr True)" "\<not> d_Close (Decide x cmp thr False)" for x
    by (simp_all add: Decide_def no_decision_def Let_def case_prod_beta)
  show "d_Open (Decide a cmp thr False) \<Longrightarrow> flips cmp thr True xs = 0"
    using assms
  proof (induction xs)
    case (Cons x xs)
    then have "\<not> d_Close (Decide x cmp thr True)" using Decide_apart [of a cmp thr x] by auto
    with Cons excl show ?case by simp
  qed simp
  show "d_Close (Decide a cmp thr True) \<Longrightarrow> flips cmp thr False xs = 0"
    using assms
  proof (induction xs)
    case (Cons x xs)
    then have "\<not> d_Open (Decide x cmp thr False)" using Decide_apart [of x cmp thr a] by (auto simp: abs_minus_commute)
    with Cons excl show ?case by simp
  qed simp
qed

text \<open>
  C35: values that stay within a band of each other around the threshold, five per cent of its
  absolute value, open or close an incident at most once, however often they cross the
  threshold and whatever its sign; a decision is never both to open and to close.
\<close>

theorem no_flapping:
  assumes "\<forall>x \<in> set xs. \<forall>y \<in> set xs. \<bar>x - y\<bar> \<le> \<bar>thr\<bar> / 20"
  shows "flips cmp thr opn xs \<le> 1 \<and> \<not> (d_Open (Decide c cmp thr opn) \<and> d_Close (Decide c cmp thr opn))"
proof
  show "flips cmp thr opn xs \<le> 1"
    using assms
  proof (induction xs)
    case (Cons x xs)
    then have near: "\<forall>y \<in> set xs. \<bar>x - y\<bar> \<le> recoveryBand * \<bar>thr\<bar>" by (simp add: recoveryBand_def)
    have open_only: "d_Open (Decide x cmp thr opn) \<Longrightarrow> opn = False" "d_Close (Decide x cmp thr opn) \<Longrightarrow> opn = True"
      by (auto simp: Decide_def no_decision_def Let_def case_prod_beta split: if_splits)
    show ?case
    proof (cases "d_Open (Decide x cmp thr opn) \<or> d_Close (Decide x cmp thr opn)")
      case True
      with open_only flips_near [OF near, of cmp] show ?thesis by (auto simp: Let_def)
    next
      case False
      with Cons show ?thesis by (simp add: Let_def)
    qed
  qed simp
  show "\<not> (d_Open (Decide c cmp thr opn) \<and> d_Close (Decide c cmp thr opn))"
    by (auto simp: Decide_def no_decision_def Let_def case_prod_beta)
qed

theorem no_flapping_witness:
  "flips ''gt'' 100 False [99, 101, 97, 102, 98] = 1 \<and> flips ''gt'' 100 False [99, 101, 97, 102, 98] \<le> 1"
proof -
  have "\<forall>x \<in> set [99, 101, 97, 102, 98]. \<forall>y \<in> set [99, 101, 97, 102, 98]. \<bar>x - y\<bar> \<le> \<bar>100 :: rat\<bar> / 20" by simp
  from no_flapping [OF this, of "''gt''" False] have "flips ''gt'' 100 False [99, 101, 97, 102, 98] \<le> 1" by blast
  moreover have "flips ''gt'' 100 False [99, 101, 97, 102, 98] = 1" by code_simp
  ultimately show ?thesis by simp
qed

subsection \<open>The table as an instance of the shared statements\<close>

lemma metric_table_simps [simp]:
  "tb_rows metric_table d = t_metric_incidents d" "tb_map metric_table g d = d\<lparr>t_metric_incidents := g (t_metric_incidents d)\<rparr>"
  "tb_seq metric_table d = t_metric_incident_seq d" "tb_next metric_table d = d\<lparr>t_metric_incident_seq := t_metric_incident_seq d + 1\<rparr>"
  by (simp_all add: metric_table_def)

interpretation metric_inc: incident_table metric_table mi_rule
  by unfold_locales (simp_all add: close_alert_def mark_alert_def)

interpretation metric_source: escalation_source OpenUnacked_metric "alert_wf metric_table mi_rule"
  unfolding OpenUnacked_metric_def by (rule metric_inc.source_of_list)

abbreviation metric_progress :: "db \<Rightarrow> db \<Rightarrow> bool" where
  "metric_progress \<equiv> alert_progress metric_table mi_rule"

abbreviation metric_wf :: "db \<Rightarrow> bool" where
  "metric_wf \<equiv> alert_wf metric_table mi_rule"

lemma metric_le:
  "alert_le mi_rule x (x\<lparr>mi_current := c, mi_peak := p\<rparr>)"
  "alert_open x \<Longrightarrow> alert_le mi_rule x (resolve_metric now c x)"
  by (simp_all add: alert_le_def close_alert_def resolve_metric_def)

lemma guar_Open_metric: "guar (on_db metric_progress) (Open_metric r p c mt sev)"
  unfolding Open_metric_def OpenFor_metric_def
  by (intro metric_inc.progress_rules metric_inc.progress_insert alert_progress_rel) (simp_all add: new_metric_incident_def)

lemma guar_metric_writes:
  "guar (on_db metric_progress) (Bump_metric i c pk)" "guar (on_db metric_progress) (Resolve_metric i c)"
  "guar (on_db metric_progress) (MarkNotified_metric i b)" "guar (on_db metric_progress) (Acknowledge_metric i p u)"
  "guar (on_db metric_progress) (BumpEscalation_metric i n)"
  unfolding Bump_metric_def Resolve_metric_def MarkNotified_metric_def Acknowledge_metric_def BumpEscalation_metric_def
  by (intro metric_inc.progress_rules metric_inc.guar_progress_update metric_inc.guar_ack metric_inc.guar_bump alert_progress_rel;
      simp add: metric_le metric_inc.le_shared)+

lemma progress_switch_off: "metric_progress d (resolveOpenIncidentForRule rid now d)"
  unfolding resolveOpenIncidentForRule_def
  by (auto split: option.split intro!: metric_inc.progress_update [simplified] simp: metric_le reflpD [OF alert_progress_rel(1)] simp del: metric_table_simps)

lemma update_rule_tx_incidents:
  "metric_progress d (snd (update_rule_tx r now d))"
proof -
  have same: "metric_progress d (d\<lparr>t_metric_rules := rs\<rparr>)" for rs
    by (auto simp: alert_progress_def alert_wf_def list_all2_refl)
  show ?thesis
    using transpD [OF alert_progress_rel(2) same progress_switch_off] same reflpD [OF alert_progress_rel(1), of metric_table mi_rule]
    by (auto simp: update_rule_tx_def Let_def split: option.split)
qed

subsection \<open>Switching a rule off\<close>

lemma switch_off_closes:
  assumes "metric_wf d"
  shows "\<not> list_ex (\<lambda>x. mi_rule x = rid \<and> alert_open x) (t_metric_incidents (resolveOpenIncidentForRule rid now d))"
proof (cases "find (\<lambda>x. mi_rule x = rid \<and> alert_open x) (t_metric_incidents d)")
  case None
  show ?thesis using None [unfolded find_None_iff] by (auto simp: resolveOpenIncidentForRule_def None list_ex_iff)
next
  case (Some x)
  then have x: "x \<in> set (t_metric_incidents d)" "mi_rule x = rid" "alert_open x" by (auto dest: find_SomeD)
  have "y = x" if "y \<in> set (t_metric_incidents d)" "mi_rule y = rid" "alert_open y" for y
  proof -
    have "distinct (map mi_rule (filter alert_open (t_metric_incidents d)))" using assms by (simp add: alert_wf_def)
    with x that show ?thesis by (auto intro: distinct_key_unique [of mi_rule])
  qed
  with Some show ?thesis
    by (fastforce simp: resolveOpenIncidentForRule_def update_returning_def list_ex_iff set_sql_update resolve_metric_def close_alert_def)
qed

lemma update_rule_tx_off:
  assumes "metric_wf d" and "fst (update_rule_tx r now d) = Inr out" and "\<not> mr_Enabled r"
  shows "\<not> list_ex (\<lambda>x. mi_rule x = mr_ID r \<and> alert_open x) (t_metric_incidents (snd (update_rule_tx r now d)))"
proof -
  let ?hit = "\<lambda>x. mr_ID x = mr_ID r \<and> mr_ProjectID x = mr_ProjectID r"
  from assms(2) obtain x where x: "find ?hit (t_metric_rules d) = Some x" "severity_ok (mr_Severity r)"
    by (auto simp: update_rule_tx_def Let_def split: option.splits if_splits)
  then have "mr_ID x = mr_ID r" by (auto dest: find_SomeD)
  moreover have "metric_wf (d\<lparr>t_metric_rules := rs\<rparr>)" for rs using assms(1) by (simp add: alert_wf_def)
  ultimately show ?thesis
    using x assms(3) by (simp add: update_rule_tx_def Let_def update_rule_row_def switch_off_closes)
qed

end
