(* ===== verification/Eval_Tick.thy ===== *)
theory Eval_Tick
  imports Store
begin

text \<open>
  The frame of a tick, which the evaluators of hosts, metrics and service levels share
  (\<open>rotateHosts\<close>, \<open>rotateRules\<close>, \<open>rotateSLOs\<close>, \<open>tickBudget\<close> and the loops of the three
  \<open>Tick\<close>): the list is walked from behind the cursor until the budget is spent, and the
  cursor moves to the last item that was done. The property: whatever the ticks manage,
  the items are served round robin.
\<close>

subsection \<open>Model\<close>

text \<open>\<open>sort.Search\<close>: binary search for the first index at which the predicate holds.\<close>

function sort_search_in :: "(nat \<Rightarrow> bool) \<Rightarrow> nat \<Rightarrow> nat \<Rightarrow> nat" where
  "sort_search_in p i j =
     (if i < j then
        let h = (i + j) div 2 in
        if \<not> p h then sort_search_in p (h + 1) j else sort_search_in p i h
      else i)"
  by pat_completeness auto
termination by (relation "measure (\<lambda>(p, i, j). j - i)") auto

definition sort_search :: "nat \<Rightarrow> (nat \<Rightarrow> bool) \<Rightarrow> nat" where
  "sort_search n p = sort_search_in p 0 n"

text \<open>\<open>rotateRules\<close> and its siblings.\<close>

definition rotate_after :: "('a \<Rightarrow> 'k::linorder) \<Rightarrow> 'k \<Rightarrow> 'a list \<Rightarrow> 'a list" where
  "rotate_after key cursor xs =
     (if xs = [] then xs
      else let idx = sort_search (length xs) (\<lambda>i. cursor < key (xs ! i)) in
        if idx = 0 then xs else drop idx xs @ take idx xs)"

text \<open>\<open>tickBudget\<close>: eighty per cent of the interval, not below ten seconds.\<close>

definition minTickBudget :: duration where "minTickBudget = 10 * second"

definition tick_budget :: "duration \<Rightarrow> duration" where
  "tick_budget interval =
     (let budget = \<lfloor>of_int interval * (4 / 5 :: rat)\<rfloor> in if budget < minTickBudget then minTickBudget else budget)"

text \<open>
  The loop of a tick: before each item it asks whether the context has expired. The result
  is the number of items done and the accumulated value.
\<close>

fun budget_loop :: "time \<Rightarrow> ('b \<Rightarrow> 'a \<Rightarrow> 'b prog) \<Rightarrow> nat \<times> 'b \<Rightarrow> 'a list \<Rightarrow> (nat \<times> 'b) prog" where
  "budget_loop deadline f acc [] = State_Monad.return acc"
| "budget_loop deadline f (k, b) (x # xs) =
     do {
       now \<leftarrow> time_now;
       (if deadline \<le> now then State_Monad.return (k, b)
        else do { b' \<leftarrow> f b x; budget_loop deadline f (k + 1, b') xs })
     }"

text \<open>
  What an evaluator keeps between its ticks: the cursor, and what its metrics publish, the
  number of items left out by the last tick and the time of the last complete one.
\<close>

record 'k eval_tick_state =
  ts_cursor :: 'k
  ts_skipped :: nat
  ts_lastTick :: time

text \<open>The cursor after a tick over \<open>order\<close> that did the first \<open>k\<close> items.\<close>

definition cursor_after :: "('a \<Rightarrow> 'k) \<Rightarrow> 'k \<Rightarrow> 'a list \<Rightarrow> nat \<Rightarrow> 'k" where
  "cursor_after key cursor order k = (if k > 0 then key (order ! (k - 1)) else cursor)"

text \<open>The end of a tick over \<open>order\<close>: only a tick within its deadline counts as complete.\<close>

definition end_tick :: "('a \<Rightarrow> 'k) \<Rightarrow> 'a list \<Rightarrow> time \<Rightarrow> 'k eval_tick_state \<Rightarrow> nat \<Rightarrow> 'k eval_tick_state prog" where
  "end_tick key order deadline st k =
     do {
       fin \<leftarrow> time_now;
       State_Monad.return \<lparr>ts_cursor = cursor_after key (ts_cursor st) order k, ts_skipped = length order - k,
         ts_lastTick = (if deadline \<le> fin then ts_lastTick st else fin)\<rparr>
     }"

lemma guar_budget_loop:
  assumes "reflp R" "transp R" "guar R time_now" "\<And>b x. guar R (f b x)"
  shows "guar R (budget_loop deadline f acc xs)"
proof (induction xs arbitrary: acc)
  case (Cons x xs)
  show ?case by (cases acc) (simp only: budget_loop.simps, intro guar assms Cons.IH)
qed (simp add: guar_return assms(1))

subsection \<open>Search and rotation\<close>

lemma sort_search_in_least:
  assumes "i \<le> m" "m \<le> j" "\<And>k. i \<le> k \<Longrightarrow> k < m \<Longrightarrow> \<not> p k" "\<And>k. m \<le> k \<Longrightarrow> k < j \<Longrightarrow> p k"
  shows "sort_search_in p i j = m"
  using assms
proof (induction p i j rule: sort_search_in.induct)
  case (1 p i j)
  show ?case
  proof (cases "i < j")
    case False
    then show ?thesis using 1 by simp
  next
    case True
    let ?h = "(i + j) div 2"
    have h: "i \<le> ?h" "?h < j" using True by auto
    show ?thesis
    proof (cases "p ?h")
      case False
      then have "?h < m" using 1(6) [of ?h] h(2) by (cases "m \<le> ?h") auto
      then have "sort_search_in p (?h + 1) j = m" using 1(1) [OF True refl] False 1(4-6) h by simp
      then show ?thesis using True False by (simp add: Let_def)
    next
      case pos: True
      then have "m \<le> ?h" using 1(5) [of ?h] h(1) by (cases "?h < m") auto
      then have "sort_search_in p i ?h = m" using 1(2) [OF True refl] pos 1(3,5,6) h by simp
      then show ?thesis using True pos by (simp add: Let_def)
    qed
  qed
qed

declare sort_search_in.simps [simp del]

lemma sort_search_least:
  "m \<le> n \<Longrightarrow> (\<And>k. k < m \<Longrightarrow> \<not> p k) \<Longrightarrow> (\<And>k. m \<le> k \<Longrightarrow> k < n \<Longrightarrow> p k) \<Longrightarrow> sort_search n p = m"
  unfolding sort_search_def by (rule sort_search_in_least) auto

abbreviation strictly_sorted :: "('a \<Rightarrow> 'k::linorder) \<Rightarrow> 'a list \<Rightarrow> bool" where
  "strictly_sorted key xs \<equiv> sorted_wrt (\<lambda>x y. key x < key y) xs"

lemma rotate_after_rotate:
  assumes "strictly_sorted key xs"
  shows "rotate_after key c xs = rotate (length (takeWhile (\<lambda>x. key x \<le> c) xs)) xs"
proof (cases "xs = []")
  case False
  let ?m = "length (takeWhile (\<lambda>x. key x \<le> c) xs)"
  have le: "?m \<le> length xs" by (rule length_takeWhile_le)
  have below: "\<not> c < key (xs ! k)" if "k < ?m" for k
    using that set_takeWhileD [of "xs ! k" "\<lambda>x. key x \<le> c" xs] nth_mem [OF that] by (simp add: takeWhile_nth not_less)
  have above: "c < key (xs ! k)" if "?m \<le> k" "k < length xs" for k
  proof -
    have "c < key (xs ! ?m)" using nth_length_takeWhile [of "\<lambda>x. key x \<le> c" xs] that by simp
    moreover have "key (xs ! ?m) \<le> key (xs ! k)"
      using assms that by (cases "?m = k") (auto simp: sorted_wrt_iff_nth_less intro: less_imp_le)
    ultimately show ?thesis by simp
  qed
  have "sort_search (length xs) (\<lambda>i. c < key (xs ! i)) = ?m"
    using le below above by (intro sort_search_least)
  then show ?thesis
    using False le by (cases "?m = length xs") (auto simp: rotate_after_def rotate_drop_take Let_def)
qed (simp add: rotate_after_def)

lemma takeWhile_upto:
  assumes "strictly_sorted key xs" and "m < length xs"
  shows "length (takeWhile (\<lambda>x. key x \<le> key (xs ! m)) xs) = Suc m"
proof (rule length_takeWhile_less_P_nth [THEN antisym [rotated]])
  show "key (xs ! i) \<le> key (xs ! m)" if "i < Suc m" for i
    using assms that by (cases "i = m") (auto simp: sorted_wrt_iff_nth_less intro: less_imp_le)
  show "Suc m \<le> length xs" using assms(2) by simp
  show "length (takeWhile (\<lambda>x. key x \<le> key (xs ! m)) xs) \<le> Suc m"
  proof (rule ccontr)
    assume "\<not> ?thesis"
    then have less: "Suc m < length (takeWhile (\<lambda>x. key x \<le> key (xs ! m)) xs)" by simp
    then have "key (xs ! Suc m) \<le> key (xs ! m)"
      using set_takeWhileD [of "xs ! Suc m" "\<lambda>x. key x \<le> key (xs ! m)" xs] nth_mem [OF less] by (simp add: takeWhile_nth)
    moreover have "Suc m < length xs" using less length_takeWhile_le [of _ xs] by (meson less_le_trans)
    ultimately show False using assms(1) unfolding sorted_wrt_iff_nth_less by (meson leD lessI)
  qed
qed

subsection \<open>Fairness\<close>

text \<open>The items that a series of ticks serves, when the i-th of them manages the i-th number.\<close>

fun served :: "('a \<Rightarrow> 'k::linorder) \<Rightarrow> 'a list \<Rightarrow> 'k \<Rightarrow> nat list \<Rightarrow> 'a list" where
  "served key xs cursor [] = []"
| "served key xs cursor (k # ks) =
     (let order = rotate_after key cursor xs
      in take k order @ served key xs (cursor_after key cursor order k) ks)"

lemma served_cycle:
  assumes "strictly_sorted key xs" and "xs \<noteq> []" and "\<forall>k \<in> set ks. k \<le> length xs"
    and "rotate_after key cursor xs = rotate i xs"
  shows "served key xs cursor ks = map (\<lambda>j. xs ! ((i + j) mod length xs)) [0..<sum_list ks]"
  using assms(3,4)
proof (induction ks arbitrary: cursor i)
  case (Cons k ks)
  let ?n = "length xs" and ?order = "rotate i xs"
  have k: "k \<le> ?n" using Cons.prems by simp
  have first: "take k ?order = map (\<lambda>j. xs ! ((i + j) mod ?n)) [0..<k]"
    using k by (intro nth_equalityI) (auto simp: nth_rotate add.commute)
  let ?c = "cursor_after key cursor ?order k"
  have next_order: "rotate_after key ?c xs = rotate (i + k) xs"
  proof (cases "k = 0")
    case True
    then show ?thesis using Cons.prems by (simp add: cursor_after_def)
  next
    case False
    let ?m = "(i + (k - 1)) mod ?n"
    have m: "?m < ?n" using assms(2) by simp
    have "?c = key (xs ! ?m)" using False k by (simp add: cursor_after_def nth_rotate add.commute)
    then have "rotate_after key ?c xs = rotate (Suc ?m) xs"
      using rotate_after_rotate [OF assms(1)] takeWhile_upto [OF assms(1) m] by simp
    also have "\<dots> = rotate (Suc ?m mod ?n) xs" by (rule rotate_conv_mod)
    also have "Suc ?m mod ?n = (i + k) mod ?n" using False by (simp add: mod_Suc_eq)
    finally show ?thesis by (metis rotate_conv_mod)
  qed
  have "map (\<lambda>j. xs ! ((i + k + j) mod ?n)) [0..<sum_list ks] = map (\<lambda>j. xs ! ((i + j) mod ?n)) [k..<k + sum_list ks]"
    by (intro nth_equalityI) (simp_all add: add.assoc)
  moreover have "[0..<sum_list (k # ks)] = [0..<k] @ [k..<k + sum_list ks]"
    using upt_add_eq_append [of 0 k "sum_list ks"] by simp
  moreover have "served key xs ?c ks = map (\<lambda>j. xs ! ((i + k + j) mod ?n)) [0..<sum_list ks]"
    using Cons.IH [OF _ next_order] Cons.prems by simp
  ultimately show ?case
    using first Cons.prems(2) by (simp only: served.simps Let_def map_append)
qed simp

lemma cycle_window:
  assumes "xs \<noteq> []"
  shows "set (map (\<lambda>j. xs ! ((i + j) mod length xs)) [0..<length xs]) = set xs"
proof -
  have "map (\<lambda>j. xs ! ((i + j) mod length xs)) [0..<length xs] = rotate i xs"
    by (intro nth_equalityI) (simp_all add: nth_rotate add.commute)
  then show ?thesis by simp
qed

text \<open>
  C38: with a fixed list of items in the order of their keys, the ticks of an evaluator serve
  them round robin, whatever number each tick manages within its budget: of any stretch of
  services as long as the list, no item is missing.
\<close>

theorem ticks_serve_round_robin:
  assumes "strictly_sorted key xs" and "\<forall>k \<in> set ks. k \<le> length xs" and "j + length xs \<le> sum_list ks"
  shows "length (served key xs cursor ks) = sum_list ks \<and>
         set (take (length xs) (drop j (served key xs cursor ks))) = set xs"
proof (cases "xs = []")
  case True
  have "served key [] c ks = []" for c by (induction ks arbitrary: c) (simp_all add: rotate_after_def Let_def)
  moreover have "sum_list ks = 0" using assms(2) True by (simp add: sum_list_eq_0_iff)
  ultimately show ?thesis using True by simp
next
  case False
  let ?i = "length (takeWhile (\<lambda>x. key x \<le> cursor) xs)"
  have cyc: "served key xs cursor ks = map (\<lambda>j. xs ! ((?i + j) mod length xs)) [0..<sum_list ks]"
    by (rule served_cycle [OF assms(1) False assms(2) rotate_after_rotate [OF assms(1)]])
  have "take (length xs) (drop j (served key xs cursor ks)) = map (\<lambda>k. xs ! ((?i + j + k) mod length xs)) [0..<length xs]"
    using assms(3) unfolding cyc by (intro nth_equalityI) (simp_all add: add.assoc)
  then show ?thesis using cycle_window [OF False, of "?i + j"] cyc by simp
qed

theorem ticks_serve_round_robin_witness:
  "served id [1, 4, 6, 9 :: int] 4 [1, 2, 0, 3] = [6, 9, 1, 4, 6, 9] \<and>
   set (take 4 (drop 2 (served id [1, 4, 6, 9 :: int] 4 [1, 2, 0, 3]))) = {1, 4, 6, 9}"
proof -
  have "strictly_sorted id [1, 4, 6, 9 :: int]" "\<forall>k \<in> set [1, 2, 0, 3]. k \<le> length [1, 4, 6, 9 :: int]"
    "2 + length [1, 4, 6, 9 :: int] \<le> sum_list [1, 2, 0, 3]" by simp_all
  from ticks_serve_round_robin [OF this, of 4] show ?thesis by code_simp
qed

end
