(* ===== verification/Metric_Evaluator.thy ===== *)
theory Metric_Evaluator
  imports Metric_Rule Alert_Notify Eval_Tick Uptime_Maintenance Group_Attach
begin

text \<open>
  \<open>internal/metric/notify.go\<close> and \<open>evaluator.go\<close>: the messages of the metric source, and the
  tick that reads the value of every enabled rule and opens, follows or closes its incident.
  The properties: the state of the incident follows the decisions, the peak is the worst
  value, what a tick keeps, who hears of a recovery, and that nothing is sent for an
  incident opened under maintenance or as the consequence of a known outage.
\<close>

subsection \<open>Model: notify.go\<close>

record metric_event =
  me_ProjectID :: int
  me_RuleID :: int
  me_MetricName :: string
  me_Aggregation :: string
  me_Comparator :: string
  me_Threshold :: rat
  me_Current :: rat
  me_Peak :: rat
  me_Environment :: string
  me_LabelKey :: string
  me_LabelValue :: string
  me_Opened :: bool

definition cmpSymbol :: "string \<Rightarrow> string" where
  "cmpSymbol comparator = (if comparator = ''lt'' then ''<'' else ''>'')"

definition formatNum :: "rat \<Rightarrow> string" where
  "formatNum v = format_general 6 v"

definition metricSubject :: "i18n \<Rightarrow> metric_event \<Rightarrow> string" where
  "metricSubject l ev =
     (let state = (if me_Opened ev then i18n_T l ''notify.metric.state.firing'' else i18n_T l ''notify.metric.state.resolved'')
      in i18n_Tf l ''notify.metric.subject''
        [(''metric'', me_MetricName ev), (''agg'', me_Aggregation ev), (''cmp'', cmpSymbol (me_Comparator ev)),
         (''threshold'', formatNum (me_Threshold ev)), (''state'', state)])"

definition metricBody :: "i18n \<Rightarrow> metric_event \<Rightarrow> string \<Rightarrow> string" where
  "metricBody l ev url =
     (let scope = (if me_Environment ev = '''' then i18n_T l ''notify.metric.scope.all_env'' else me_Environment ev);
          scope = (if me_LabelKey ev \<noteq> '''' then scope @ '', '' @ me_LabelKey ev @ ''='' @ me_LabelValue ev else scope);
          key = (if me_Opened ev then ''notify.metric.body.open'' else ''notify.metric.body.close'')
      in i18n_Tf l key
        [(''metric'', me_MetricName ev), (''agg'', me_Aggregation ev), (''cmp'', cmpSymbol (me_Comparator ev)),
         (''threshold'', formatNum (me_Threshold ev)), (''current'', formatNum (me_Current ev)),
         (''peak'', formatNum (me_Peak ev)), (''scope'', scope), (''url'', url)])"

definition metric_event_of :: "metric_incident \<Rightarrow> metric_rule \<Rightarrow> bool \<Rightarrow> metric_event" where
  "metric_event_of inc r opened =
     \<lparr>me_ProjectID = a_project inc, me_RuleID = mr_ID r, me_MetricName = mr_MetricName r, me_Aggregation = mr_Aggregation r,
      me_Comparator = mr_Comparator r, me_Threshold = mr_Threshold r, me_Current = mi_current inc, me_Peak = mi_peak inc,
      me_Environment = mr_Environment r, me_LabelKey = mr_LabelKey r, me_LabelValue = mr_LabelValue r, me_Opened = opened\<rparr>"

definition reloadEvent :: "int \<Rightarrow> bool \<Rightarrow> metric_event result prog" where
  "reloadEvent incidentID opened =
     do {
       i \<leftarrow> GetByID_metric incidentID;
       (case i of
          Inl e \<Rightarrow> State_Monad.return (Inl e)
        | Inr None \<Rightarrow> State_Monad.return (Inl (ErrMsg ''incident not found''))
        | Inr (Some inc) \<Rightarrow>
            do {
              r \<leftarrow> Get_rule (mi_rule inc);
              State_Monad.return
                (case r of
                   Inl e \<Rightarrow> Inl e
                 | Inr None \<Rightarrow> Inl (ErrMsg ''rule not found'')
                 | Inr (Some rule) \<Rightarrow> Inr (metric_event_of inc rule opened))
            })
     }"

definition metric_extra :: "metric_event \<Rightarrow> payload" where
  "metric_extra ev =
     [(''metric'', JStr (me_MetricName ev)), (''aggregation'', JStr (me_Aggregation ev)),
      (''comparator'', JStr (me_Comparator ev)), (''threshold'', JNum (me_Threshold ev)),
      (''current_value'', JNum (me_Current ev)), (''peak_value'', JNum (me_Peak ev))]"

definition dispatch_metric :: "alert_notifier \<Rightarrow> metric_event \<Rightarrow> int list \<Rightarrow> (int list \<times> error option) prog" where
  "dispatch_metric n ev channelIDs =
     (let url = an_BaseURL n @ ''/projects/'' @ itoa (me_ProjectID ev) @ ''/metrics/alerts'';
          kind = (if me_Opened ev then ''metric_alert_open'' else ''metric_alert_resolved'')
      in alert_dispatch n (alert_input (me_ProjectID ev) kind (metricSubject (an_i18n n) ev)
           (metricBody (an_i18n n) ev url) url '''' (metric_extra ev) channelIDs))"

definition Notify_metric :: "alert_notifier \<Rightarrow> metric_event \<Rightarrow> error option prog" where
  "Notify_metric n ev = do { r \<leftarrow> dispatch_metric n ev []; State_Monad.return (snd r) }"

definition NotifyStep_metric :: "alert_notifier \<Rightarrow> int \<Rightarrow> int list \<Rightarrow> int \<Rightarrow> (int list \<times> error option) prog" where
  "NotifyStep_metric n incidentID channelIDs step =
     do {
       r \<leftarrow> reloadEvent incidentID True;
       (case r of
          Inl e \<Rightarrow> State_Monad.return ([], Some e)
        | Inr ev \<Rightarrow> dispatch_metric n ev channelIDs)
     }"

definition NotifyRecovery_metric :: "alert_notifier \<Rightarrow> int \<Rightarrow> int list \<Rightarrow> error option prog" where
  "NotifyRecovery_metric n incidentID channelIDs =
     do {
       r \<leftarrow> reloadEvent incidentID False;
       (case r of
          Inl e \<Rightarrow> State_Monad.return (Some e)
        | Inr ev \<Rightarrow> do { d \<leftarrow> dispatch_metric n ev channelIDs; State_Monad.return (snd d) })
     }"

definition metric_alert_source :: "alert_notifier \<Rightarrow> alert_source" where
  "metric_alert_source n =
     \<lparr>as_Name = ''metric'', as_Policy = True, as_Pool = True, as_NotifyStep = NotifyStep_metric n,
      as_NotifyRecovery = NotifyRecovery_metric n, as_BumpEscalation = BumpEscalation_metric,
      as_MarkNotified = MarkNotified_metric\<rparr>"

subsection \<open>Model: evaluator.go\<close>

text \<open>
  \<open>Query.Aggregate\<close> reads ClickHouse and is a parameter: project, metric, environment, label
  matchers, aggregation and interval to a value, no value, or an error. \<open>Maint\<close> is the set of
  maintenance windows, \<open>IncidentGroups\<close> the method \<open>AttachMetric\<close>.
\<close>

record metric_evaluator =
  mv_Aggregate :: "int \<Rightarrow> string \<Rightarrow> string \<Rightarrow> (string \<times> string) list \<Rightarrow> string \<Rightarrow> time \<Rightarrow> time \<Rightarrow> rat option result"
  mv_Maint :: "tzdata option"
  mv_Source :: "alert_source option"
  mv_Groups :: "(int \<Rightarrow> int \<Rightarrow> string \<Rightarrow> ((bool \<times> bool) \<times> error option) prog) option"
  mv_Interval :: duration

definition evaluatorDefaultInterval :: duration where "evaluatorDefaultInterval = 60 * second"

definition metric_interval :: "metric_evaluator \<Rightarrow> duration" where
  "metric_interval e = (if mv_Interval e \<le> 0 then evaluatorDefaultInterval else mv_Interval e)"

definition ruleSeverity :: "metric_rule \<Rightarrow> string" where
  "ruleSeverity r = (if mr_Severity r \<noteq> '''' then mr_Severity r else SeverityWarning)"

text \<open>\<open>inMaintenance\<close>: without windows, or when they cannot be read, the answer is no.\<close>

definition maintenance_now :: "tzdata option \<Rightarrow> int \<Rightarrow> time \<Rightarrow> bool prog" where
  "maintenance_now mt projectID now =
     (case mt of
        None \<Rightarrow> State_Monad.return False
      | Some tz \<Rightarrow>
          do {
            r \<leftarrow> InMaintenance tz projectID now;
            State_Monad.return (case r of Inl _ \<Rightarrow> False | Inr v \<Rightarrow> v)
          })"

definition groupGate_metric :: "metric_evaluator \<Rightarrow> metric_rule \<Rightarrow> metric_incident \<Rightarrow> bool prog" where
  "groupGate_metric e r inc =
     (case mv_Groups e of
        None \<Rightarrow> State_Monad.return False
      | Some attach \<Rightarrow>
          if mr_LabelKey r \<noteq> ''host'' \<or> mr_LabelValue r = '''' then State_Monad.return False
          else do {
            ((attached, informing), err) \<leftarrow> attach (a_id inc) (mr_ProjectID r) (mr_LabelValue r);
            State_Monad.return (if err \<noteq> None then False else attached \<and> informing)
          })"

definition worse :: "string \<Rightarrow> rat \<Rightarrow> rat \<Rightarrow> rat" where
  "worse comparator a b = (if comparator = ''lt'' then (if b < a then b else a) else (if b > a then b else a))"

definition open_rule_incident :: "metric_evaluator \<Rightarrow> metric_rule \<Rightarrow> rat \<Rightarrow> time \<Rightarrow> unit prog" where
  "open_rule_incident e r current now =
     do {
       inMaint \<leftarrow> maintenance_now (mv_Maint e) (mr_ProjectID r) now;
       o1 \<leftarrow> Open_metric (mr_ID r) (mr_ProjectID r) current inMaint (mr_Severity r);
       (case o1 of
          Inl _ \<Rightarrow> State_Monad.return ()
        | Inr (inc, created) \<Rightarrow>
            if \<not> created then State_Monad.return ()
            else do {
              grouped \<leftarrow> groupGate_metric e r inc;
              (if \<not> inMaint \<and> \<not> grouped then first_page (mv_Source e) (mr_ProjectID r) (ruleSeverity r) (a_id inc)
               else State_Monad.return ())
            })
     }"

definition close_rule_incident :: "metric_evaluator \<Rightarrow> metric_incident \<Rightarrow> rat \<Rightarrow> unit prog" where
  "close_rule_incident e x current =
     do {
       c \<leftarrow> Resolve_metric (a_id x) current;
       (case c of
          Inl _ \<Rightarrow> State_Monad.return ()
        | Inr ok \<Rightarrow> if ok then recovery_page (mv_Source e) (a_id x) else State_Monad.return ())
     }"

definition act_on_decision :: "metric_evaluator \<Rightarrow> metric_rule \<Rightarrow> rat \<Rightarrow> metric_incident option \<Rightarrow> time \<Rightarrow> unit prog" where
  "act_on_decision e r current opn now =
     (let d = Decide current (mr_Comparator r) (mr_Threshold r) (opn \<noteq> None) in
      if d_Open d then open_rule_incident e r current now
      else case opn of
        None \<Rightarrow> State_Monad.return ()
      | Some x \<Rightarrow>
          if d_Bump d then ignore (Bump_metric (a_id x) current (worse (mr_Comparator r) (mi_peak x) current))
          else if d_Close d then close_rule_incident e x current
          else State_Monad.return ())"

definition rule_value :: "metric_evaluator \<Rightarrow> metric_rule \<Rightarrow> time \<Rightarrow> rat option result" where
  "rule_value e r now =
     mv_Aggregate e (mr_ProjectID r) (mr_MetricName r) (mr_Environment r)
       (if mr_LabelKey r \<noteq> '''' then [(mr_LabelKey r, mr_LabelValue r)] else [])
       (mr_Aggregation r) (now + wrap64 (- mr_WindowSeconds r * second)) now"

definition evalRule :: "metric_evaluator \<Rightarrow> metric_rule \<Rightarrow> time \<Rightarrow> unit prog" where
  "evalRule e r now =
     (case rule_value e r now of
        Inl _ \<Rightarrow> State_Monad.return ()
      | Inr None \<Rightarrow> State_Monad.return ()
      | Inr (Some current) \<Rightarrow>
          do {
            f \<leftarrow> OpenFor_metric (mr_ID r);
            (case f of
               Inl _ \<Rightarrow> State_Monad.return ()
             | Inr opn \<Rightarrow> act_on_decision e r current opn now)
          })"

definition Tick_metric :: "metric_evaluator \<Rightarrow> int eval_tick_state \<Rightarrow> int eval_tick_state prog" where
  "Tick_metric e st =
     do {
       started \<leftarrow> time_now;
       r \<leftarrow> ListEnabled_rules;
       (case r of
          Inl _ \<Rightarrow> State_Monad.return st
        | Inr enabled \<Rightarrow>
            (let rules = rotate_after mr_ID (ts_cursor st) enabled; deadline = started + tick_budget (metric_interval e) in
             do {
               now \<leftarrow> time_now;
               (k, _) \<leftarrow> budget_loop deadline (\<lambda>_ r. evalRule e r now) (0, ()) rules;
               end_tick mr_ID rules deadline st k
             }))
     }"

subsection \<open>The metric source keeps the contract of pages\<close>

lemma wp_reloadEvent: "wp (reloadEvent i b) (\<lambda>_ w'. db w' = db w) w"
  unfolding reloadEvent_def GetByID_metric_def Get_rule_def
  by (auto simp: wp intro!: wp_sql_readI split: option.splits)

lemma input_channels [simp]: "di_ChannelIDs (alert_input p k s b u ru x chs) = chs"
  by (simp add: alert_input_def)

lemma wp_dispatch_metric:
  "wp (dispatch_metric n ev chs) (\<lambda>(enq, err) w'. only_outbox (db w) (db w') \<and> queued_for chs (db w) (db w') \<and>
      (channels_wf (db w) \<longrightarrow> distinct enq) \<and> (chs \<noteq> [] \<longrightarrow> set enq \<subseteq> set chs)) w"
proof -
  define k where "k = (if me_Opened ev then ''metric_alert_open'' else ''metric_alert_resolved'')"
  show ?thesis
    unfolding dispatch_metric_def Let_def k_def [symmetric] by (rule wp_mono [OF wp_alert_dispatch]) simp
qed

interpretation metric_pages: alert_pages "metric_alert_source n" for n
proof
  fix i chs st w
  show "wp (as_NotifyStep (metric_alert_source n) i chs st) (\<lambda>(enq, err) w'. only_outbox (db w) (db w') \<and> queued_for chs (db w) (db w') \<and>
      (channels_wf (db w) \<longrightarrow> distinct enq) \<and> (chs \<noteq> [] \<longrightarrow> set enq \<subseteq> set chs)) w"
    unfolding metric_alert_source_def alert_source.select_convs NotifyStep_metric_def
  proof (simp only: wp, rule wp_mono [OF wp_reloadEvent], goal_cases)
    case (1 r w1)
    then show ?case
      by (cases r) (auto simp: wp only_outbox_def intro: wp_mono [OF wp_dispatch_metric])
  qed
  show "wp (as_NotifyRecovery (metric_alert_source n) i chs) (\<lambda>_ w'. only_outbox (db w) (db w') \<and> queued_for chs (db w) (db w')) w"
    unfolding metric_alert_source_def alert_source.select_convs NotifyRecovery_metric_def
  proof (simp only: wp, rule wp_mono [OF wp_reloadEvent], goal_cases)
    case (1 r w1)
    then show ?case
      by (cases r) (auto simp: wp only_outbox_def intro: wp_mono [OF wp_dispatch_metric])
  qed
qed (simp_all add: metric_alert_source_def BumpEscalation_metric_def MarkNotified_metric_def metric_inc.bump_keeps_pages,
     (unfold update_must_def, intro guar metric_inc.guar_pages))

subsection \<open>What a tick keeps\<close>

text \<open>
  The collaborators of an evaluator, with the statements on incidents, keep a relation of
  states; then so does a tick.
\<close>

locale metric_relation = page_relation +
  fixes e :: metric_evaluator
  assumes src: "mv_Source e = Some src"
    and groups: "\<And>attach i p h. mv_Groups e = Some attach \<Longrightarrow> guar R (attach i p h)"
    and reads: "guar R (Windows p)" "guar R (OpenFor_metric i)" "guar R ListEnabled_rules" "guar R time_now"
    and opens: "guar R (Open_metric rid p c mt sev)" and resolves: "guar R (Resolve_metric i c)"
    and bumps: "guar R (Bump_metric i c pk)"
begin

lemma guar_open_rule_incident: "guar R (open_rule_incident e r c now)"
proof -
  have gate: "guar R (groupGate_metric e r inc)" for inc
    unfolding groupGate_metric_def
  proof (cases "mv_Groups e")
    case (Some attach)
    then show "guar R (case mv_Groups e of None \<Rightarrow> State_Monad.return False
      | Some attach \<Rightarrow>
          if mr_LabelKey r \<noteq> ''host'' \<or> mr_LabelValue r = '''' then State_Monad.return False
          else do {
            ((attached, informing), err) \<leftarrow> attach (a_id inc) (mr_ProjectID r) (mr_LabelValue r);
            State_Monad.return (if err \<noteq> None then False else attached \<and> informing)
          })"
      by (simp only: option.case) (intro guar guar_case_prod_app rel groups [OF Some])
  qed (simp add: guar rel)
  show ?thesis
    unfolding open_rule_incident_def maintenance_now_def InMaintenance_def src
    by (intro guar rel reads opens gate guar_first_page)
qed

lemma guar_evalRule: "guar R (evalRule e r now)"
  unfolding evalRule_def act_on_decision_def close_rule_incident_def Let_def src
  by (intro guar rel reads guar_open_rule_incident bumps resolves guar_recovery_page)

lemma guar_Tick: "guar R (Tick_metric e st)"
  unfolding Tick_metric_def Let_def end_tick_def
  by (intro guar rel reads guar_budget_loop guar_evalRule)

end

text \<open>The evaluator as the server wires it, with the grouper over the dependency suppressor.\<close>

definition wired_metric_evaluator ::
  "tzdata \<Rightarrow> alert_notifier \<Rightarrow>
   (int \<Rightarrow> string \<Rightarrow> string \<Rightarrow> (string \<times> string) list \<Rightarrow> string \<Rightarrow> time \<Rightarrow> time \<Rightarrow> rat option result) \<Rightarrow> duration \<Rightarrow> metric_evaluator" where
  "wired_metric_evaluator tz n q interval =
     \<lparr>mv_Aggregate = q, mv_Maint = Some tz, mv_Source = Some (metric_alert_source n),
      mv_Groups = Some (AttachMetric suppressor_roots), mv_Interval = interval\<rparr>"

lemma metric_relation_on_db:
  assumes S: "reflp S" "transp S" and logs: "\<And>d e f. S d (d\<lparr>t_esc := e, t_logfail := f\<rparr>)"
    and outbox: "\<And>d d'. only_outbox d d' \<Longrightarrow> S d d'"
    and writes: "\<And>i n. guar (on_db S) (BumpEscalation_metric i n)" "\<And>i b. guar (on_db S) (MarkNotified_metric i b)"
      "\<And>r p c mt sev. guar (on_db S) (Open_metric r p c mt sev)" "\<And>i c. guar (on_db S) (Resolve_metric i c)"
      "\<And>i c pk. guar (on_db S) (Bump_metric i c pk)"
    and groups: "grouper_relation S suppressor_roots"
  shows "metric_relation (on_db S) (metric_alert_source n) (wired_metric_evaluator tz n q interval)"
proof -
  have pages: "page_relation (on_db S) (metric_alert_source n)"
    by (rule page_relation_on_db [OF S logs outbox metric_pages.alert_pages_axioms])
       (simp_all add: metric_alert_source_def writes)
  show ?thesis
  proof (rule metric_relation.intro [OF pages], unfold_locales)
    show "guar (on_db S) (attach i p h)" if "mv_Groups (wired_metric_evaluator tz n q interval) = Some attach" for attach i p h
      using that grouper_relation.guar_AttachMetric [OF groups] by (auto simp: wired_metric_evaluator_def)
    show "guar (on_db S) (Windows p)" "guar (on_db S) (OpenFor_metric i)" "guar (on_db S) ListEnabled_rules" for p i
      unfolding Windows_def OpenFor_metric_def ListEnabled_rules_def by (intro guar S)+
    show "guar (on_db S) time_now" by (rule guar_time_now [OF S(1)])
  qed (simp_all add: wired_metric_evaluator_def writes)
qed

lemma metric_progress_same: "t_metric_incidents d' = t_metric_incidents d \<Longrightarrow> t_metric_incident_seq d' = t_metric_incident_seq d \<Longrightarrow> metric_progress d d'"
  by (simp add: alert_progress_def alert_wf_def list_all2_refl)

lemma set_group_metric:
  "t_metric_incident_seq (snd (set_group p s i g d)) = t_metric_incident_seq d"
  "t_metric_incidents (snd (set_group p s i g d)) =
     (if s = ''metric'' then snd (set_alert_group d p i g (t_metric_incidents d)) else t_metric_incidents d)"
  by (simp_all add: set_group_def Let_def case_prod_beta)

lemma metric_progress_set_group: "metric_progress d (snd (set_group p s i g d))"
proof (cases "s = ''metric''")
  case True
  let ?p = "\<lambda>x. a_id x = i \<and> a_project x = p \<and> may_join d (a_group x)" and ?f = "\<lambda>x :: metric_incident. x\<lparr>a_group := Some g\<rparr>"
  have "metric_progress d (snd (update_returning metric_table ?p ?f d))"
    by (rule metric_inc.progress_update) (simp add: alert_le_def)
  moreover have "snd (update_returning metric_table ?p ?f d) = snd (set_group p s i g d)"
    using True by (simp add: update_returning_def set_group_def set_alert_group_def Let_def)
  ultimately show ?thesis by simp
qed (rule metric_progress_same; simp add: set_group_metric)

lemma insert_group_metric:
  "t_metric_incidents (snd (insert_group p s i k n t d)) = t_metric_incidents d"
  "t_metric_incident_seq (snd (insert_group p s i k n t d)) = t_metric_incident_seq d"
  by (simp_all add: insert_group_def Let_def split: option.split)

interpretation metric_groups: grouper_relation metric_progress suppressor_roots
  by unfold_locales
     (simp_all add: alert_progress_rel guar_suppressor_roots metric_progress_set_group metric_progress_same insert_group_metric)

interpretation metric_tick: metric_relation "on_db metric_progress" "metric_alert_source n" "wired_metric_evaluator tz n q interval"
  for n tz q interval
  by (rule metric_relation_on_db [OF alert_progress_rel])
     (simp_all add: guar_metric_writes guar_Open_metric metric_groups.grouper_relation_axioms metric_progress_same,
      auto simp: only_outbox_def intro!: metric_progress_same dest: arg_cong [of _ _ t_metric_incidents] arg_cong [of _ _ t_metric_incident_seq])

subsection \<open>The incident follows the decisions\<close>

text \<open>The open incident of a rule as the evaluator sees it: the last value and the peak.\<close>

definition rule_state :: "db \<Rightarrow> int \<Rightarrow> (rat \<times> rat) option" where
  "rule_state d rid = map_option (\<lambda>x. (mi_current x, mi_peak x)) (find (\<lambda>x. mi_rule x = rid \<and> alert_open x) (t_metric_incidents d))"

text \<open>The specification: what a value does to it.\<close>

definition rule_step :: "metric_rule \<Rightarrow> rat \<Rightarrow> (rat \<times> rat) option \<Rightarrow> (rat \<times> rat) option" where
  "rule_step r v s =
     (let d = Decide v (mr_Comparator r) (mr_Threshold r) (s \<noteq> None) in
      case s of
        None \<Rightarrow> if d_Open d then Some (v, v) else None
      | Some (c, p) \<Rightarrow> if d_Close d then None else Some (v, worse (mr_Comparator r) p v))"

definition metric_view :: "db \<Rightarrow> (int \<times> int \<times> string \<times> rat \<times> rat) list" where
  "metric_view d = map (\<lambda>x. (a_id x, mi_rule x, a_status x, mi_current x, mi_peak x)) (t_metric_incidents d)"

lemma rule_state_view: "rule_state d rid = map_option (\<lambda>(_, _, _, c, p). (c, p)) (find (\<lambda>(_, r, st, _). r = rid \<and> st = ''open'') (metric_view d))"
proof -
  have "map_option (\<lambda>x. (mi_current x, mi_peak x)) (find (\<lambda>x. mi_rule x = rid \<and> alert_open x) xs) =
    map_option (\<lambda>(_, _, _, c, p). (c, p)) (find (\<lambda>(_, r, st, _). r = rid \<and> st = ''open'')
      (map (\<lambda>x. (a_id x, mi_rule x, a_status x, mi_current x, mi_peak x)) xs))" for xs
    by (induction xs) auto
  then show ?thesis by (simp add: rule_state_def metric_view_def)
qed

lemma same_metric_view [guar]: "reflp (same_rel metric_view)" "transp (same_rel metric_view)"
  by (rule guar)+

lemma keeps_rule_state:
  "guar (on_db (same_rel metric_view)) p \<Longrightarrow> wp p (\<lambda>_ w'. rule_state (db w') rid = rule_state (db w) rid) w"
  by (auto simp: guar_wp on_db_def same_rel_def rule_state_view elim!: allE intro: wp_mono)

lemma guar_view_update:
  assumes "\<And>now x. a_id (f now x) = a_id x \<and> mi_rule (f now x) = mi_rule x \<and> a_status (f now x) = a_status x \<and>
    mi_current (f now x) = mi_current x \<and> mi_peak (f now x) = mi_peak x"
  shows "guar (on_db (same_rel metric_view)) (update_rows metric_table p f)"
  using assms by (intro metric_inc.guar_rows guar) (simp add: same_rel_def metric_view_def update_returning_def sql_update_def)

lemma view_set_group: "metric_view (snd (set_group p s i g d)) = metric_view d"
  by (simp add: metric_view_def set_group_metric set_alert_group_def Let_def sql_update_def)

interpretation metric_view_groups: grouper_relation "same_rel metric_view" suppressor_roots
  by unfold_locales
     (simp_all add: guar guar_suppressor_roots same_rel_def view_set_group, simp_all add: metric_view_def insert_group_metric)

interpretation metric_view_pages: page_relation "on_db (same_rel metric_view)" "metric_alert_source n" for n
proof (rule page_relation_on_db [OF _ _ _ _ metric_pages.alert_pages_axioms])
  show "guar (on_db (same_rel metric_view)) (as_BumpEscalation (metric_alert_source n) i k)" for i k
    unfolding metric_alert_source_def alert_source.select_convs BumpEscalation_metric_def bump_alert_def update_claim_def
    by (intro guar guar_view_update) simp
  show "guar (on_db (same_rel metric_view)) (as_MarkNotified (metric_alert_source n) i b)" for i b
    unfolding metric_alert_source_def alert_source.select_convs MarkNotified_metric_def update_must_def
    by (intro guar guar_view_update) (simp add: mark_alert_def)
qed (auto simp: guar same_rel_def metric_view_def only_outbox_def dest: arg_cong [of _ _ t_metric_incidents])

text \<open>What the four statements on incidents do to the state of a rule.\<close>

lemma rule_state_None: "rule_state d rid = None \<longleftrightarrow> \<not> list_ex (\<lambda>x. mi_rule x = rid \<and> alert_open x) (t_metric_incidents d)"
  by (simp add: rule_state_def find_None_iff list_ex_iff) blast

lemma find_append: "find p (xs @ ys) = (case find p xs of None \<Rightarrow> find p ys | Some x \<Rightarrow> Some x)"
  by (induction xs) auto

lemma rule_state_insert:
  assumes "rule_state d rid = None" and "metric_insertable rid p sev d"
  shows "fst (insert_alert metric_table mi_rule (metric_insertable rid p sev) (new_metric_incident rid p v mt sev now) d) =
      Inr (Some (new_metric_incident rid p v mt sev now (t_metric_incident_seq d)))"
    and "rule_state (snd (insert_alert metric_table mi_rule (metric_insertable rid p sev) (new_metric_incident rid p v mt sev now) d)) rid = Some (v, v)"
proof -
  have none: "\<not> list_ex (\<lambda>y. mi_rule y = rid \<and> alert_open y) (t_metric_incidents d)"
    using assms(1) by (simp add: rule_state_None)
  then have "find (\<lambda>x. mi_rule x = rid \<and> alert_open x) (t_metric_incidents d) = None"
    by (auto simp: find_None_iff list_ex_iff)
  then show "fst (insert_alert metric_table mi_rule (metric_insertable rid p sev) (new_metric_incident rid p v mt sev now) d) =
      Inr (Some (new_metric_incident rid p v mt sev now (t_metric_incident_seq d)))"
    "rule_state (snd (insert_alert metric_table mi_rule (metric_insertable rid p sev) (new_metric_incident rid p v mt sev now) d)) rid = Some (v, v)"
    using assms(2) none by (simp_all add: insert_alert_def Let_def new_metric_incident_def rule_state_def find_append)
qed

lemma find_update_hit:
  "find p (map (\<lambda>x. if q x then f x else x) xs) = map_option (\<lambda>x. if q x then f x else x) (find p xs)"
  if "\<And>x. q x \<Longrightarrow> p (f x) = p x"
  using that by (induction xs) auto

lemma open_row_unique:
  assumes "metric_wf d" and "find (\<lambda>x. mi_rule x = rid \<and> alert_open x) (t_metric_incidents d) = Some x"
    and "y \<in> set (t_metric_incidents d)" and "a_id y = a_id x"
  shows "y = x"
proof -
  have "distinct (map a_id (t_metric_incidents d))" using assms(1) by (simp add: alert_wf_def)
  then show ?thesis using distinct_key_unique [of a_id] assms find_SomeD [OF assms(2)] by blast
qed

lemma rule_state_bump:
  assumes "metric_wf d" and "find (\<lambda>x. mi_rule x = rid \<and> alert_open x) (t_metric_incidents d) = Some x"
  shows "rule_state (snd (update_returning metric_table (\<lambda>y. a_id y = a_id x \<and> alert_open y) (\<lambda>y. y\<lparr>mi_current := c, mi_peak := pk\<rparr>) d)) rid =
    Some (c, pk)"
  using assms(2) by (simp add: rule_state_def update_returning_def sql_update_def find_update_hit) (auto dest: find_SomeD)

lemma rule_state_resolve:
  assumes "metric_wf d" and "find (\<lambda>x. mi_rule x = rid \<and> alert_open x) (t_metric_incidents d) = Some x"
  shows "rule_state (snd (update_returning metric_table (\<lambda>y. a_id y = a_id x \<and> alert_open y) (resolve_metric now c) d)) rid = None"
proof -
  have "distinct (map mi_rule (filter alert_open (t_metric_incidents d)))" using assms(1) by (simp add: alert_wf_def)
  then have "y = x" if "y \<in> set (t_metric_incidents d)" "mi_rule y = rid" "alert_open y" for y
    using find_SomeD [OF assms(2)] that distinct_key_unique [of mi_rule "filter alert_open (t_metric_incidents d)" y x] by simp
  then show ?thesis
    by (fastforce simp: rule_state_None update_returning_def list_ex_iff set_sql_update resolve_metric_def close_alert_def)
qed

text \<open>Before it and after it: the decided state, or, when a statement failed, the state as it was.\<close>

definition decided :: "metric_rule \<Rightarrow> rat \<Rightarrow> world \<Rightarrow> world \<Rightarrow> bool" where
  "decided r v w w' \<longleftrightarrow>
     rule_state (db w') (mr_ID r) = rule_step r v (rule_state (db w) (mr_ID r)) \<or>
     (sched w \<noteq> [] \<and> rule_state (db w') (mr_ID r) = rule_state (db w) (mr_ID r))"

lemma wp_maintenance_now: "wp (maintenance_now mt p now) (\<lambda>_ w'. db w' = db w \<and> (sched w = [] \<longrightarrow> sched w' = [])) w"
  unfolding maintenance_now_def InMaintenance_def Windows_def
  by (auto simp: wp intro!: wp_sql_read_schedI split: option.split)

lemma wp_then_keeps:
  assumes "wp c (\<lambda>_ w'. P (rule_state (db w') rid)) w" and "\<And>a. guar (on_db (same_rel metric_view)) (f a)"
  shows "wp (State_Monad.bind c f) (\<lambda>_ w'. P (rule_state (db w') rid)) w"
  unfolding wp_bind by (rule wp_mono [OF assms(1)], rule wp_mono [OF keeps_rule_state [OF assms(2), where rid = rid]]) simp

lemma wp_Open_metric:
  assumes "rule_state (db w) rid = None" and "metric_insertable rid p sev (db w)"
  shows "wp (Open_metric rid p v mt sev)
    (\<lambda>_ w'. rule_state (db w') rid = Some (v, v) \<or> (sched w \<noteq> [] \<and> rule_state (db w') rid = None)) w"
  unfolding Open_metric_def wp_bind
proof (rule wp_sql_schedI, goal_cases)
  case (1 t w')
  then show ?case using rule_state_insert [OF assms, of v mt t] by (simp add: wp)
qed (use rule_state_insert [OF assms] in \<open>simp_all add: wp assms(1)\<close>)

lemma decided_open:
  assumes "rule_state (db w) (mr_ID r) = None" and "d_Open (Decide v (mr_Comparator r) (mr_Threshold r) False)"
    and "metric_insertable (mr_ID r) (mr_ProjectID r) (mr_Severity r) (db w)"
  shows "wp (open_rule_incident (wired_metric_evaluator tz n q iv) r v now) (\<lambda>_. decided r v w) w"
proof -
  let ?e = "wired_metric_evaluator tz n q iv"
  have gate: "guar (on_db (same_rel metric_view)) (groupGate_metric ?e r inc)" for inc
    unfolding groupGate_metric_def wired_metric_evaluator_def metric_evaluator.select_convs option.case
    by (intro guar guar_case_prod_app metric_view_groups.guar_AttachMetric)
  have page: "guar (on_db (same_rel metric_view)) (first_page (mv_Source ?e) p sev i)" for p sev i
    by (simp add: wired_metric_evaluator_def metric_view_pages.guar_first_page)
  let ?P = "\<lambda>s. s = Some (v, v) \<or> (sched w \<noteq> [] \<and> s = None)"
  have "wp (open_rule_incident ?e r v now) (\<lambda>_ w'. ?P (rule_state (db w') (mr_ID r))) w"
    unfolding open_rule_incident_def wp_bind [of "maintenance_now (mv_Maint ?e) (mr_ProjectID r) now"]
  proof (rule wp_mono [OF wp_maintenance_now], goal_cases)
    case (1 mt w1)
    have "wp (Open_metric (mr_ID r) (mr_ProjectID r) v mt (mr_Severity r)) (\<lambda>_ w'. ?P (rule_state (db w') (mr_ID r))) w1"
      by (rule wp_mono [OF wp_Open_metric]) (use 1 assms(1,3) in auto)
    then show ?case by (rule wp_then_keeps) (intro guar gate page)
  qed
  then show ?thesis
    by (rule wp_mono) (use assms(1,2) in \<open>auto simp: decided_def rule_step_def Let_def\<close>)
qed

lemma decided_close:
  assumes "metric_wf (db w)" and "find (\<lambda>x. mi_rule x = mr_ID r \<and> alert_open x) (t_metric_incidents (db w)) = Some x"
    and "d_Close (Decide v (mr_Comparator r) (mr_Threshold r) True)"
  shows "wp (close_rule_incident (wired_metric_evaluator tz n q iv) x v) (\<lambda>_. decided r v w) w"
proof -
  let ?e = "wired_metric_evaluator tz n q iv"
  let ?P = "\<lambda>s. s = None \<or> (sched w \<noteq> [] \<and> s = Some (mi_current x, mi_peak x))"
  have st: "rule_state (db w) (mr_ID r) = Some (mi_current x, mi_peak x)" using assms(2) by (simp add: rule_state_def)
  have "wp (Resolve_metric (a_id x) v) (\<lambda>_ w'. ?P (rule_state (db w') (mr_ID r))) w"
    unfolding Resolve_metric_def update_claim_def update_rows_def wp_bind
    by (rule wp_sql_schedI) (use rule_state_resolve [OF assms(1,2)] st in \<open>simp_all add: wp\<close>)
  then have "wp (close_rule_incident ?e x v) (\<lambda>_ w'. ?P (rule_state (db w') (mr_ID r))) w"
    unfolding close_rule_incident_def
    by (rule wp_then_keeps) (simp only: wired_metric_evaluator_def metric_evaluator.select_convs, intro guar metric_view_pages.guar_recovery_page)
  then show ?thesis
    by (rule wp_mono) (use st assms(3) in \<open>auto simp: decided_def rule_step_def Let_def\<close>)
qed

lemma decided_bump:
  assumes "metric_wf (db w)" and "find (\<lambda>x. mi_rule x = mr_ID r \<and> alert_open x) (t_metric_incidents (db w)) = Some x"
    and "\<not> d_Close (Decide v (mr_Comparator r) (mr_Threshold r) True)"
  shows "wp (ignore (Bump_metric (a_id x) v (worse (mr_Comparator r) (mi_peak x) v))) (\<lambda>_. decided r v w) w"
proof -
  have st: "rule_state (db w) (mr_ID r) = Some (mi_current x, mi_peak x)" using assms(2) by (simp add: rule_state_def)
  show ?thesis
    unfolding Bump_metric_def update_must_def update_rows_def wp_bind
    by (rule wp_sql_schedI)
       (use rule_state_bump [OF assms(1,2)] st assms(3) in \<open>simp_all add: wp decided_def rule_step_def Let_def\<close>)
qed

lemma Decide_cases:
  "\<not> d_Open (Decide v cmp thr True)" "d_Bump (Decide v cmp thr True) \<longleftrightarrow> \<not> d_Close (Decide v cmp thr True)"
  "\<not> d_Close (Decide v cmp thr False)" "\<not> d_Bump (Decide v cmp thr False)"
  by (simp_all add: Decide_def no_decision_def Let_def case_prod_beta)


text \<open>A rule on the load of the host \<open>db1\<close>, with the values of the load by the end of the window.\<close>

definition ex_rule :: metric_rule where
  "ex_rule = \<lparr>mr_ID = 1, mr_ProjectID = 1, mr_MetricName = ''load'', mr_Aggregation = ''avg'', mr_Comparator = ''gt'',
     mr_Threshold = 10, mr_WindowSeconds = 300, mr_Environment = '''', mr_LabelKey = '''', mr_LabelValue = '''',
     mr_Enabled = True, mr_Severity = '''', mr_CreatedAt = 0\<rparr>"

definition ex_load :: "int \<Rightarrow> string \<Rightarrow> string \<Rightarrow> (string \<times> string) list \<Rightarrow> string \<Rightarrow> time \<Rightarrow> time \<Rightarrow> rat option result" where
  "ex_load p m env ls agg from to = (if to = hour then Inr (Some 12) else if to = 2 * hour then Inr (Some 9.7) else Inr (Some 9))"

definition ex_alert_notifier :: alert_notifier where
  "ex_alert_notifier = \<lparr>an_keyring = \<lparr>kr_set = False, kr_Open = Some, kr_IsEncrypted = (\<lambda>_. False)\<rparr>, an_BaseURL = ''u'',
     an_EmailEnabled = True, an_AllowsDetails = (\<lambda>_. True), an_i18n = ex_i18n, an_Projects = None\<rparr>"

definition ex_metric_evaluator :: metric_evaluator where
  "ex_metric_evaluator = wired_metric_evaluator (\<lambda>_. None) ex_alert_notifier ex_load (60 * second)"

definition ex_metrics :: db where
  "ex_metrics = ex_db\<lparr>t_metric_rules := [ex_rule], t_metric_rule_seq := 2\<rparr>"


subsection \<open>Silence under maintenance\<close>

abbreviation alert_pages_of :: "db \<Rightarrow> esc_row list \<times> outbox_row list" where
  "alert_pages_of \<equiv> \<lambda>d. (t_esc d, t_outbox d)"

interpretation paged_groups: grouper_relation "same_rel alert_pages_of" suppressor_roots
  by unfold_locales
     (simp_all add: guar guar_suppressor_roots same_rel_def set_group_def insert_group_def Let_def case_prod_beta split: option.split)

lemma guar_open_pages: "guar (on_db (same_rel alert_pages_of)) (Open_metric r p v mt sev)"
  unfolding Open_metric_def OpenFor_metric_def
  by (intro guar) (simp add: same_rel_def insert_alert_def Let_def)


definition ex_maintained :: db where
  "ex_maintained = ex_metrics\<lparr>t_windows := [(new_window_row 1 1)\<lparr>wr_name := ''w'', wr_starts := Some 0, wr_ends := Some (2 * hour)\<rparr>]\<rparr>"


subsection \<open>Invariants of the incidents of metrics\<close>

text \<open>The operations of the component, as values; the reads have no effect.\<close>

datatype metric_op =
    MoTick "int eval_tick_state"
  | MoUpdateRule metric_rule
  | MoOpen int int rat bool string
  | MoResolve int rat
  | MoBump int rat rat
  | MoMarkNotified int bool
  | MoAcknowledge int int int
  | MoEscalate int int

primrec run_metric_op :: "metric_evaluator \<Rightarrow> metric_op \<Rightarrow> unit prog" where
  "run_metric_op e (MoTick st) = ignore (Tick_metric e st)"
| "run_metric_op e (MoUpdateRule r) = ignore (Update_rule r)"
| "run_metric_op e (MoOpen r p c mt sev) = ignore (Open_metric r p c mt sev)"
| "run_metric_op e (MoResolve i c) = ignore (Resolve_metric i c)"
| "run_metric_op e (MoBump i c p) = ignore (Bump_metric i c p)"
| "run_metric_op e (MoMarkNotified i b) = ignore (MarkNotified_metric i b)"
| "run_metric_op e (MoAcknowledge i p u) = ignore (Acknowledge_metric i p u)"
| "run_metric_op e (MoEscalate i n) = ignore (BumpEscalation_metric i n)"

lemma guar_Update_rule: "guar (on_db metric_progress) (Update_rule r)"
  unfolding Update_rule_def by (intro metric_inc.progress_rules update_rule_tx_incidents alert_progress_rel)

lemma guar_metric_op: "guar (on_db metric_progress) (run_metric_op (wired_metric_evaluator tz n q iv) oper)"
  by (cases oper)
     (simp_all only: run_metric_op.simps,
      (intro metric_inc.progress_rules guar_Open_metric guar_metric_writes guar_Update_rule metric_tick.guar_Tick)+)

text \<open>
  Whatever ticks of evaluators, edits of rules, acknowledgements and escalations happen
  in whatever order, and whatever faults they meet, a rule has at most one open incident,
  ids stay unique, and every incident only moves forward: it is not removed, and a
  resolution, an acknowledgement or a page once recorded is not undone.
\<close>

theorem metric_incidents_sound:
  assumes "metric_wf (db w)" and "run_state (for_each ops (run_metric_op (wired_metric_evaluator tz n q iv))) w = ((), w')"
  shows "metric_wf (db w') \<and>
    list_all2 (alert_le mi_rule) (t_metric_incidents (db w)) (take (length (t_metric_incidents (db w))) (t_metric_incidents (db w')))"
proof -
  have "guar (on_db metric_progress) (for_each ops (run_metric_op (wired_metric_evaluator tz n q iv)))"
    by (intro metric_inc.progress_rules guar_metric_op)
  from guarD [OF this, of w] show ?thesis using assms by (simp add: on_db_def alert_progress_def)
qed

theorem metric_incidents_sound_witness:
  "let w' = snd (run_state (for_each [MoTick \<lparr>ts_cursor = 0, ts_skipped = 0, ts_lastTick = 0\<rparr>, MoAcknowledge 1 1 5,
        MoUpdateRule (ex_rule\<lparr>mr_Enabled := False\<rparr>)] (run_metric_op ex_metric_evaluator)) ((calm hour ex_metrics)\<lparr>sched := [(NoFault, 0), (NoFault, 3)]\<rparr>))
   in metric_wf (db w') \<and> map (\<lambda>x. (a_status x, a_acked_by x)) (t_metric_incidents (db w')) = [(''resolved'', Some 5)]"
proof -
  let ?ops = "[MoTick \<lparr>ts_cursor = 0, ts_skipped = 0, ts_lastTick = 0\<rparr>, MoAcknowledge 1 1 5, MoUpdateRule (ex_rule\<lparr>mr_Enabled := False\<rparr>)]"
  let ?w = "(calm hour ex_metrics)\<lparr>sched := [(NoFault, 0), (NoFault, 3)]\<rparr>"
  let ?run = "run_state (for_each ?ops (run_metric_op ex_metric_evaluator)) ?w"
  have wf: "metric_wf (db ?w)" by code_simp
  have run: "run_state (for_each ?ops (run_metric_op (wired_metric_evaluator (\<lambda>_. None) ex_alert_notifier ex_load (60 * second)))) ?w = ((), snd ?run)"
    by (simp add: prod_eq_iff ex_metric_evaluator_def)
  have "map (\<lambda>x. (a_status x, a_acked_by x)) (t_metric_incidents (db (snd ?run))) = [(''resolved'', Some 5)]" by code_simp
  then show ?thesis using metric_incidents_sound [OF wf run] by (simp add: Let_def)
qed

text \<open>
  A rule that is saved as switched off has no open incident afterwards, whatever the
  state it was in; the update reports the rule as stored.
\<close>

theorem switched_off_rule_is_closed:
  assumes "metric_wf (db w)" and "run_state (Update_rule r) w = (Inr out, w')" and "\<not> mr_Enabled r"
  shows "rule_state (db w') (mr_ID r) = None \<and> out \<in> set (t_metric_rules (db w')) \<and> \<not> mr_Enabled out"
proof -
  have valid: "validateRule r = None" using assms(2) by (cases "validateRule r") (simp_all add: Update_rule_def)
  obtain t where t: "fst (update_rule_tx r t (db w)) = Inr out" "db w' = snd (update_rule_tx r t (db w))"
    using assms(2) valid
    by (cases rule: run_sql_cases [of "update_rule_tx r" w]) (auto simp: Update_rule_def run_state_bind)
  then have "rule_state (db w') (mr_ID r) = None"
    using update_rule_tx_off [OF assms(1) t(1) assms(3)] by (simp add: rule_state_None)
  moreover obtain x where x: "find (\<lambda>x. mr_ID x = mr_ID r \<and> mr_ProjectID x = mr_ProjectID r) (t_metric_rules (db w)) = Some x"
    "out = update_rule_row r x"
    using t(1) by (auto simp: update_rule_tx_def Let_def split: option.splits if_splits)
  moreover have "out \<in> set (t_metric_rules (db w'))"
  proof -
    have "out \<in> set (sql_update (\<lambda>x. mr_ID x = mr_ID r \<and> mr_ProjectID x = mr_ProjectID r) (update_rule_row r) (t_metric_rules (db w)))"
      using find_SomeD [OF x(1)] x(2) by (auto simp: set_sql_update)
    then show ?thesis
      using t x by (auto simp: update_rule_tx_def Let_def resolveOpenIncidentForRule_def update_returning_def
          split: option.splits if_splits)
  qed
  ultimately show ?thesis using assms(3) by (simp add: update_rule_row_def)
qed

theorem switched_off_rule_is_closed_witness:
  "rule_state (db (snd (run_state (Update_rule (ex_rule\<lparr>mr_Enabled := False\<rparr>))
     (snd (run_state (evalRule ex_metric_evaluator ex_rule hour) (calm hour ex_metrics)))))) 1 = None"
proof -
  let ?w = "snd (run_state (evalRule ex_metric_evaluator ex_rule hour) (calm hour ex_metrics))"
  let ?r = "ex_rule\<lparr>mr_Enabled := False\<rparr>"
  have wf: "metric_wf (db ?w)" by code_simp
  have "fst (run_state (Update_rule ?r) ?w) = Inr ?r" by code_simp
  then have run: "run_state (Update_rule ?r) ?w = (Inr ?r, snd (run_state (Update_rule ?r) ?w))" by (simp add: prod_eq_iff)
  show ?thesis using switched_off_rule_is_closed [OF wf run] by (simp add: ex_rule_def)
qed

text \<open>
  The race that the transaction of \<open>Update\<close> leaves: an evaluator that listed the rule before it
  was switched off opens the incident afterwards, and no later tick looks at it again.
\<close>

lemma stale_rule_reopens:
  "let w1 = snd (run_state (Update_rule (ex_rule\<lparr>mr_Enabled := False\<rparr>)) (calm hour ex_metrics));
       w2 = snd (run_state (evalRule ex_metric_evaluator ex_rule hour) w1);
       w3 = snd (run_state (Tick_metric ex_metric_evaluator \<lparr>ts_cursor = 0, ts_skipped = 0, ts_lastTick = 0\<rparr>) (w2\<lparr>go_now := 3 * hour\<rparr>))
   in rule_state (db w1) 1 = None \<and> rule_state (db w2) 1 = Some (12, 12) \<and> rule_state (db w3) 1 = Some (12, 12)"
  by code_simp

end
