(* ===== verification/Host_Evaluator.thy ===== *)
theory Host_Evaluator
  imports Host_Notifier Metric_Evaluator Outage_Hooks
begin

text \<open>
  \<open>internal/host/evaluator.go\<close>: the tick that watches hosts. A first pass over all active hosts
  decides on silence, a second one on disk, memory and load. The properties: what an
  evaluation does to the incident of a host and a kind, whatever pages, groups,
  dependencies and faults do; a young server opens no silence; incidents stay sound through
  every sequence of ticks and operations; a host below a declared parent is never paged by
  its own evaluator.
\<close>

subsection \<open>Model\<close>

definition freshWithin :: duration where "freshWithin = 24 * hour"

definition aggregateWindow :: duration where "aggregateWindow = 5 * minute"

definition silentBumpGrowth :: rat where "silentBumpGrowth = 3 / 2"

text \<open>
  The queries of \<open>metric.Query\<close> read ClickHouse and are parameters; the first argument is the
  moment of the query. \<open>hm_AggregateByHost\<close> takes project, metric, matchers, aggregation and
  interval to the values by host name; \<open>hm_SeriesGrouped\<close> takes project, metric, host, attribute,
  aggregation, interval and step to the groups with the values of their points.
\<close>

record host_metrics =
  hm_AggregateByHost :: "time \<Rightarrow> int \<Rightarrow> string \<Rightarrow> (string \<times> string) list \<Rightarrow> string \<Rightarrow> time \<Rightarrow> time \<Rightarrow> (string \<rightharpoonup> rat) result"
  hm_SeriesGrouped :: "time \<Rightarrow> int \<Rightarrow> string \<Rightarrow> string \<Rightarrow> string \<Rightarrow> string \<Rightarrow> time \<Rightarrow> time \<Rightarrow> duration \<Rightarrow> (string \<times> rat list) list result"

text \<open>
  The fields of \<open>Evaluator\<close>. \<open>hv_Overrides\<close> and \<open>hv_Groups\<close> say that the stores of thresholds are
  wired, \<open>hv_Source\<close> holds policy, notifier and pool, as for metrics.
\<close>

record host_evaluator =
  hv_Metrics :: "host_metrics option"
  hv_Source :: "alert_source option"
  hv_Interval :: duration
  hv_Overrides :: bool
  hv_Groups :: bool
  hv_Maint :: "tzdata option"
  hv_Dep :: "parent_checker option"
  hv_IncidentGroups :: "group_hook option"

text \<open>What it keeps between ticks; \<open>None\<close> is the zero time.\<close>

record host_tick_state = "(int \<times> string) eval_tick_state" +
  ht_StartedAt :: "time option"

definition host_interval :: "host_evaluator \<Rightarrow> duration" where
  "host_interval e = (if hv_Interval e \<le> 0 then evaluatorDefaultInterval else hv_Interval e)"

definition hostKeyOf :: "host_row \<Rightarrow> int \<times> string" where
  "hostKeyOf h = (h_project h, h_name h)"

definition markStarted :: "host_tick_state \<Rightarrow> host_tick_state prog" where
  "markStarted st =
     (case ht_StartedAt st of
        Some _ \<Rightarrow> State_Monad.return st
      | None \<Rightarrow> do { t \<leftarrow> time_now; State_Monad.return (st\<lparr>ht_StartedAt := Some t\<rparr>) })"

definition evalOrCloseKind :: "host_row \<Rightarrow> string \<Rightarrow> bool \<Rightarrow> (int \<Rightarrow> string \<Rightarrow> bool) option \<Rightarrow> 'b \<Rightarrow> 'b prog \<Rightarrow> 'b prog" where
  "evalOrCloseKind h kind enabled openKinds unchanged eval =
     (if enabled then eval
      else if (case openKinds of None \<Rightarrow> False | Some f \<Rightarrow> \<not> f (h_id h) kind) then State_Monad.return unchanged
      else do {
        _ \<leftarrow> ResolveOpenByHostKind (h_id h) kind;
        State_Monad.return unchanged
      })"

text \<open>\<open>groupGate\<close>: attached to a group, and silent because its root informs.\<close>

definition groupGate_host :: "host_evaluator \<Rightarrow> host_incident \<Rightarrow> host_row \<Rightarrow> (bool \<times> bool) prog" where
  "groupGate_host e x h =
     (case hv_IncidentGroups e of
        None \<Rightarrow> State_Monad.return (False, False)
      | Some g \<Rightarrow>
          do {
            ((attached, informing), err) \<leftarrow> gh_Attach g ''host'' (a_id x) ''host'' (h_id h);
            State_Monad.return (if err \<noteq> None then (False, False) else (attached, attached \<and> informing))
          })"

definition groupRootOpened :: "host_evaluator \<Rightarrow> host_incident \<Rightarrow> host_row \<Rightarrow> bool \<Rightarrow> unit prog" where
  "groupRootOpened e x h attachedAsMember =
     (case hv_IncidentGroups e of
        None \<Rightarrow> State_Monad.return ()
      | Some g \<Rightarrow>
          if hi_kind x \<noteq> ''silent'' then State_Monad.return ()
          else if \<not> attachedAsMember then ignore (gh_OnRootOpened g ''host'' (a_id x) ''host'' (h_id h) (h_project h))
          else case hv_Dep e of
            None \<Rightarrow> State_Monad.return ()
          | Some dep \<Rightarrow>
              do {
                ((rk, rid, found), err) \<leftarrow> pk_DownRoot dep ''host'' (h_id h);
                (if err \<noteq> None \<or> \<not> found then State_Monad.return ()
                 else do {
                   ((src, incID, _, _, ok), err) \<leftarrow> gh_RootIncident g rk rid;
                   (if err \<noteq> None \<or> \<not> ok then State_Monad.return ()
                    else ignore (gh_OnRootOpened g src incID rk rid (h_project h)))
                 })
              })"

definition groupRootClosed :: "host_evaluator \<Rightarrow> host_incident \<Rightarrow> unit prog" where
  "groupRootClosed e x =
     (case hv_IncidentGroups e of
        None \<Rightarrow> State_Monad.return ()
      | Some g \<Rightarrow> if hi_kind x \<noteq> ''silent'' then State_Monad.return () else ignore (gh_OnRootClosed g ''host'' (a_id x)))"

text \<open>The first page of a new incident: not in maintenance, not for a member, not below a parent.\<close>

definition page_new_incident :: "host_evaluator \<Rightarrow> host_row \<Rightarrow> host_incident \<Rightarrow> bool \<Rightarrow> bool \<Rightarrow> unit prog" where
  "page_new_incident e h x inMaint grouped =
     (if inMaint \<or> grouped then State_Monad.return ()
      else do {
        hasParent \<leftarrow> (case hv_Dep e of
          None \<Rightarrow> State_Monad.return False
        | Some dep \<Rightarrow>
            do {
              (hp, err) \<leftarrow> pk_HasParent dep ''host'' (h_id h);
              State_Monad.return (if err \<noteq> None then False else hp)
            });
        (if hasParent then State_Monad.return ()
         else first_page (hv_Source e) (a_project x) SeverityCritical (a_id x))
      })"

definition mayOpenSilent :: "time \<Rightarrow> host_row \<Rightarrow> host_settings \<Rightarrow> time \<Rightarrow> bool" where
  "mayOpenSilent startedAt h s now \<longleftrightarrow>
     \<not> time_sub now startedAt \<le> hs_SilentAfter s \<and> hs_SilentAfter s \<le> time_sub (h_last_seen h) (h_first_seen h)"

definition seconds :: "duration \<Rightarrow> rat" where
  "seconds d = of_int d / of_int second"

definition open_silent :: "host_evaluator \<Rightarrow> host_row \<Rightarrow> rat \<Rightarrow> time \<Rightarrow> unit prog" where
  "open_silent e h silence now =
     do {
       inMaint \<leftarrow> maintenance_now (hv_Maint e) (h_project h) now;
       o1 \<leftarrow> Open_host (h_project h) (h_id h) ''silent'' silence '''' inMaint;
       (case o1 of
          Inl _ \<Rightarrow> State_Monad.return ()
        | Inr (x, created) \<Rightarrow>
            if \<not> created then State_Monad.return ()
            else do {
              (attached, grouped) \<leftarrow> groupGate_host e x h;
              _ \<leftarrow> groupRootOpened e x h attached;
              page_new_incident e h x inMaint grouped
            })
     }"

definition evalSilent :: "host_evaluator \<Rightarrow> time \<Rightarrow> host_row \<Rightarrow> host_settings \<Rightarrow> time \<Rightarrow> unit prog" where
  "evalSilent e startedAt h s now =
     (if \<not> hs_SilentEnabled s then State_Monad.return ()
      else let silence = seconds (time_sub now (h_last_seen h)); threshold = seconds (hs_SilentAfter s) in
      do {
        f \<leftarrow> OpenFor_host (h_id h) ''silent'';
        (case f of
           Inl _ \<Rightarrow> State_Monad.return ()
         | Inr None \<Rightarrow>
             if silence > threshold \<and> mayOpenSilent startedAt h s now then open_silent e h silence now
             else State_Monad.return ()
         | Inr (Some x) \<Rightarrow>
             if silence \<le> threshold then do {
               r \<leftarrow> Resolve_host (a_id x) silence;
               (case r of
                  Inl _ \<Rightarrow> State_Monad.return ()
                | Inr resolved \<Rightarrow>
                    if resolved then do { _ \<leftarrow> groupRootClosed e x; recovery_page (hv_Source e) (a_id x) }
                    else State_Monad.return ())
             }
             else if silence \<ge> hi_peak x * silentBumpGrowth then ignore (Bump_host (a_id x) silence silence)
             else State_Monad.return ())
      })"

text \<open>
  The values of one metric for all hosts of a project, queried once in a tick: \<open>None\<close> when the
  query failed. The cache of the tick is passed along.
\<close>

type_synonym host_batch = "(string \<rightharpoonup> rat) option"
type_synonym metric_cache = "int \<times> string \<rightharpoonup> host_batch"

definition batchAggregate ::
  "host_metrics \<Rightarrow> metric_cache \<Rightarrow> int \<Rightarrow> string \<Rightarrow> string \<Rightarrow> (string \<times> string) list \<Rightarrow> string \<Rightarrow> time \<Rightarrow> (host_batch \<times> metric_cache) prog" where
  "batchAggregate q cache projectID kind name matchers agg now =
     (case cache (projectID, kind) of
        Some b \<Rightarrow> State_Monad.return (b, cache)
      | None \<Rightarrow>
          do {
            moment \<leftarrow> time_now;
            (let b = (case hm_AggregateByHost q moment projectID name matchers agg (now - aggregateWindow) now of
                        Inl _ \<Rightarrow> None | Inr values \<Rightarrow> Some values)
             in State_Monad.return (b, cache((projectID, kind) \<mapsto> b)))
          })"

text \<open>The value of a host in a batch, when the query succeeded and has one.\<close>

definition batch_value :: "host_batch \<Rightarrow> host_row \<Rightarrow> rat option" where
  "batch_value b h = (case b of None \<Rightarrow> None | Some values \<Rightarrow> values (h_name h))"

definition worst_group :: "(string \<times> rat list) list \<Rightarrow> string" where
  "worst_group groups =
     fst (foldl (\<lambda>(best, bestVal) (key, points).
       if points = [] then (best, bestVal)
       else if best = '''' \<or> List.last points > bestVal then (key, List.last points) else (best, bestVal)) ('''', 0) groups)"

definition worstMountpoint :: "host_metrics \<Rightarrow> host_row \<Rightarrow> time \<Rightarrow> string prog" where
  "worstMountpoint q h now =
     do {
       moment \<leftarrow> time_now;
       State_Monad.return
         (case hm_SeriesGrouped q moment (h_project h) ''system.filesystem.utilization'' (h_name h) ''mountpoint'' ''max''
            (now - aggregateWindow) now aggregateWindow of
            Inl _ \<Rightarrow> '''' | Inr groups \<Rightarrow> worst_group groups)
     }"

definition open_threshold :: "host_evaluator \<Rightarrow> host_metrics \<Rightarrow> host_row \<Rightarrow> string \<Rightarrow> rat \<Rightarrow> time \<Rightarrow> unit prog" where
  "open_threshold e q h kind current now =
     do {
       detail \<leftarrow> (if kind = ''disk'' then worstMountpoint q h now else State_Monad.return '''');
       inMaint \<leftarrow> maintenance_now (hv_Maint e) (h_project h) now;
       o1 \<leftarrow> Open_host (h_project h) (h_id h) kind current detail inMaint;
       (case o1 of
          Inl _ \<Rightarrow> State_Monad.return ()
        | Inr (x, created) \<Rightarrow>
            if \<not> created then State_Monad.return ()
            else do {
              (_, grouped) \<leftarrow> groupGate_host e x h;
              page_new_incident e h x inMaint grouped
            })
     }"

definition applyDecision :: "host_evaluator \<Rightarrow> host_metrics \<Rightarrow> host_row \<Rightarrow> string \<Rightarrow> rat \<Rightarrow> rat \<Rightarrow> time \<Rightarrow> unit prog" where
  "applyDecision e q h kind current threshold now =
     do {
       f \<leftarrow> OpenFor_host (h_id h) kind;
       (case f of
          Inl _ \<Rightarrow> State_Monad.return ()
        | Inr opn \<Rightarrow>
            (let d = Decide current ''gt'' threshold (opn \<noteq> None) in
             if d_Open d then open_threshold e q h kind current now
             else case opn of
               None \<Rightarrow> State_Monad.return ()
             | Some x \<Rightarrow>
                 if d_Bump d then ignore (Bump_host (a_id x) current (if current > hi_peak x then current else hi_peak x))
                 else if d_Close d then do {
                   r \<leftarrow> Resolve_host (a_id x) current;
                   (case r of
                      Inl _ \<Rightarrow> State_Monad.return ()
                    | Inr resolved \<Rightarrow> if resolved then recovery_page (hv_Source e) (a_id x) else State_Monad.return ())
                 }
                 else State_Monad.return ()))
     }"

text \<open>\<open>evalDisk\<close> and \<open>evalMemory\<close> differ in their metric and threshold only.\<close>

definition eval_single ::
  "host_evaluator \<Rightarrow> host_metrics \<Rightarrow> string \<Rightarrow> string \<Rightarrow> (string \<times> string) list \<Rightarrow> string \<Rightarrow> metric_cache \<Rightarrow> host_row \<Rightarrow> rat \<Rightarrow> time \<Rightarrow> metric_cache prog" where
  "eval_single e q kind name matchers agg cache h threshold now =
     do {
       (b, cache) \<leftarrow> batchAggregate q cache (h_project h) kind name matchers agg now;
       (case batch_value b h of
          None \<Rightarrow> State_Monad.return cache
        | Some current \<Rightarrow> do { _ \<leftarrow> applyDecision e q h kind current threshold now; State_Monad.return cache })
     }"

definition evalDisk :: "host_evaluator \<Rightarrow> host_metrics \<Rightarrow> metric_cache \<Rightarrow> host_row \<Rightarrow> host_settings \<Rightarrow> time \<Rightarrow> metric_cache prog" where
  "evalDisk e q cache h s now = eval_single e q ''disk'' ''system.filesystem.utilization'' [] ''max'' cache h (hs_DiskThreshold s) now"

definition evalMemory :: "host_evaluator \<Rightarrow> host_metrics \<Rightarrow> metric_cache \<Rightarrow> host_row \<Rightarrow> host_settings \<Rightarrow> time \<Rightarrow> metric_cache prog" where
  "evalMemory e q cache h s now =
     eval_single e q ''memory'' ''system.memory.utilization'' [(''state'', ''used'')] ''avg'' cache h (hs_MemoryThreshold s) now"

definition evalLoad :: "host_evaluator \<Rightarrow> host_metrics \<Rightarrow> metric_cache \<Rightarrow> host_row \<Rightarrow> host_settings \<Rightarrow> time \<Rightarrow> metric_cache prog" where
  "evalLoad e q cache h s now =
     do {
       (b, cache) \<leftarrow> batchAggregate q cache (h_project h) ''load'' ''system.cpu.load_average.5m'' [] ''avg'' now;
       (case batch_value b h of
          None \<Rightarrow> State_Monad.return cache
        | Some load \<Rightarrow>
            do {
              (b, cache) \<leftarrow> batchAggregate q cache (h_project h) ''cores'' ''system.cpu.logical.count'' [] ''last'' now;
              (case batch_value b h of
                 None \<Rightarrow> State_Monad.return cache
               | Some cores \<Rightarrow>
                   if cores \<le> 0 then State_Monad.return cache
                   else do { _ \<leftarrow> applyDecision e q h ''load'' (load / cores) (hs_LoadThreshold s) now; State_Monad.return cache })
            })
     }"

text \<open>
  The closure \<open>effFor\<close> of a tick: settings and group thresholds are read once for a project,
  failures included.
\<close>

record eff_cache =
  ec_projects :: "int \<rightharpoonup> (host_settings \<times> bool) option"
  ec_groups :: "int \<rightharpoonup> group_threshold list"
  ec_failed :: "int set"

definition load_project :: "int \<Rightarrow> eff_cache \<Rightarrow> ((host_settings \<times> bool) option \<times> eff_cache) prog" where
  "load_project p c =
     (case ec_projects c p of
        Some r \<Rightarrow> State_Monad.return (r, c)
      | None \<Rightarrow>
          do {
            r \<leftarrow> GetWithExists p;
            (let v = (case r of Inl _ \<Rightarrow> None | Inr se \<Rightarrow> Some se)
             in State_Monad.return (v, c\<lparr>ec_projects := (ec_projects c)(p \<mapsto> v)\<rparr>))
          })"

definition load_groups :: "host_evaluator \<Rightarrow> int \<Rightarrow> eff_cache \<Rightarrow> (group_threshold list \<times> eff_cache) prog" where
  "load_groups e p c =
     (if \<not> hv_Groups e then State_Monad.return ([], c)
      else case ec_groups c p of
        Some g \<Rightarrow> State_Monad.return (g, c)
      | None \<Rightarrow>
          if p \<in> ec_failed c then State_Monad.return ([], c)
          else do {
            r \<leftarrow> List_thresholds p;
            State_Monad.return
              (case r of
                 Inl _ \<Rightarrow> ([], c\<lparr>ec_failed := insert p (ec_failed c)\<rparr>)
               | Inr g \<Rightarrow> (g, c\<lparr>ec_groups := (ec_groups c)(p \<mapsto> g)\<rparr>))
          })"

definition effFor :: "host_evaluator \<Rightarrow> (int \<rightharpoonup> threshold_override) \<Rightarrow> host_row \<Rightarrow> eff_cache \<Rightarrow> (host_settings option \<times> eff_cache) prog" where
  "effFor e overrides h c =
     do {
       (p, c) \<leftarrow> load_project (h_project h) c;
       (case p of
          None \<Rightarrow> State_Monad.return (None, c)
        | Some (s, exists) \<Rightarrow>
            do {
              (groups, c) \<leftarrow> load_groups e (h_project h) c;
              State_Monad.return (Some (es_Settings (Effective
                \<lparr>tr_Project = s, tr_ProjectExists = exists, tr_Groups = groups, tr_Overrides = overrides\<rparr> h)), c)
            })
     }"

definition silence_pass ::
  "host_evaluator \<Rightarrow> time \<Rightarrow> (int \<rightharpoonup> threshold_override) \<Rightarrow> (int \<Rightarrow> string \<Rightarrow> bool) option \<Rightarrow> time \<Rightarrow> eff_cache \<Rightarrow> host_row \<Rightarrow> eff_cache prog" where
  "silence_pass e startedAt overrides openKinds now c h =
     do {
       (eff, c) \<leftarrow> effFor e overrides h c;
       (case eff of
          None \<Rightarrow> State_Monad.return c
        | Some s \<Rightarrow>
            do {
              _ \<leftarrow> evalOrCloseKind h ''silent'' (hs_SilentEnabled s) openKinds () (evalSilent e startedAt h s now);
              State_Monad.return c
            })
     }"

definition threshold_pass ::
  "host_evaluator \<Rightarrow> host_metrics \<Rightarrow> (int \<rightharpoonup> threshold_override) \<Rightarrow> (int \<Rightarrow> string \<Rightarrow> bool) option \<Rightarrow> time \<Rightarrow>
   eff_cache \<times> metric_cache \<Rightarrow> host_row \<Rightarrow> (eff_cache \<times> metric_cache) prog" where
  "threshold_pass e q overrides openKinds now cm h =
     (case cm of (c, m) \<Rightarrow>
      do {
        (eff, c) \<leftarrow> effFor e overrides h c;
        (case eff of
           None \<Rightarrow> State_Monad.return (c, m)
         | Some s \<Rightarrow>
             do {
               m \<leftarrow> evalOrCloseKind h ''disk'' (hs_DiskEnabled s) openKinds m (evalDisk e q m h s now);
               m \<leftarrow> evalOrCloseKind h ''memory'' (hs_MemoryEnabled s) openKinds m (evalMemory e q m h s now);
               m \<leftarrow> evalOrCloseKind h ''load'' (hs_LoadEnabled s) openKinds m (evalLoad e q m h s now);
               State_Monad.return (c, m)
             })
      })"

text \<open>
  The two passes: silence of all hosts first. The cursor moves to the last host that both
  passes reached.
\<close>

definition Tick_host :: "host_evaluator \<Rightarrow> host_tick_state \<Rightarrow> host_tick_state prog" where
  "Tick_host e st0 =
     do {
       st \<leftarrow> markStarted st0;
       started \<leftarrow> time_now;
       r \<leftarrow> ListActiveWithProject freshWithin MaxActiveHostsPerTick;
       (case r of
          Inl _ \<Rightarrow> State_Monad.return st
        | Inr active \<Rightarrow>
            (let hosts = rotate_after hostKeyOf (ts_cursor st) active; ids = map h_id hosts;
                 deadline = started + tick_budget (host_interval e); startedAt = the (ht_StartedAt st) in
             do {
               now \<leftarrow> time_now;
               ov \<leftarrow> (if hv_Overrides e then GetForHosts ids else State_Monad.return (Inr Map.empty));
               ok \<leftarrow> ListOpenKindsForHosts ids;
               (let overrides = (case ov of Inl _ \<Rightarrow> Map.empty | Inr m \<Rightarrow> m);
                    openKinds = (case ok of Inl _ \<Rightarrow> None | Inr f \<Rightarrow> Some f) in
                do {
                  (silentDone, c) \<leftarrow> budget_loop deadline (silence_pass e startedAt overrides openKinds now)
                    (0, \<lparr>ec_projects = Map.empty, ec_groups = Map.empty, ec_failed = {}\<rparr>) hosts;
                  (thresholdDone, _) \<leftarrow> (case hv_Metrics e of
                      None \<Rightarrow> State_Monad.return (length hosts, (c, Map.empty))
                    | Some q \<Rightarrow> budget_loop deadline (threshold_pass e q overrides openKinds now) (0, (c, Map.empty)) hosts);
                  base \<leftarrow> end_tick hostKeyOf hosts deadline (eval_tick_state.truncate st) (min silentDone thresholdDone);
                  State_Monad.return (st\<lparr>ts_cursor := ts_cursor base, ts_skipped := ts_skipped base, ts_lastTick := ts_lastTick base\<rparr>)
                })
             }))
     }"

subsection \<open>What a tick keeps\<close>

locale host_page_relation = page_relation +
  fixes e :: host_evaluator
  assumes src: "hv_Source e = Some src"
    and dep: "\<And>d k n. hv_Dep e = Some d \<Longrightarrow> guar R (pk_HasParent d k n)" "\<And>d k n. hv_Dep e = Some d \<Longrightarrow> guar R (pk_DownRoot d k n)"
    and groups: "\<And>g s i k n. hv_IncidentGroups e = Some g \<Longrightarrow> guar R (gh_Attach g s i k n)"
      "\<And>g s i k n p. hv_IncidentGroups e = Some g \<Longrightarrow> guar R (gh_OnRootOpened g s i k n p)"
      "\<And>g s i. hv_IncidentGroups e = Some g \<Longrightarrow> guar R (gh_OnRootClosed g s i)"
      "\<And>g k n. hv_IncidentGroups e = Some g \<Longrightarrow> guar R (gh_RootIncident g k n)"
begin

lemma guar_pages:
  "guar R (groupGate_host e x h)" "guar R (groupRootOpened e x h att)" "guar R (groupRootClosed e x)"
  "guar R (page_new_incident e h x mt gr)"
proof -
  show "guar R (groupGate_host e x h)"
    by (cases "hv_IncidentGroups e") (simp_all only: groupGate_host_def option.case, (intro guar guar_case_prod_app rel groups)+)
  show "guar R (groupRootOpened e x h att)"
    by (cases "hv_IncidentGroups e"; cases "hv_Dep e")
       (simp_all only: groupRootOpened_def option.case, (intro guar guar_case_prod_app rel groups dep; assumption)+)
  show "guar R (groupRootClosed e x)"
    by (cases "hv_IncidentGroups e") (simp_all only: groupRootClosed_def option.case, (intro guar rel groups)+)
  have parent: "guar R (case hv_Dep e of None \<Rightarrow> State_Monad.return False
      | Some dep \<Rightarrow> do { (hp, err) \<leftarrow> pk_HasParent dep k n; State_Monad.return (if err \<noteq> None then False else hp) })" for k n
    by (cases "hv_Dep e") (simp_all only: option.case, (intro guar rel dep)+)
  show "guar R (page_new_incident e h x mt gr)"
    unfolding page_new_incident_def src by (intro guar rel parent guar_first_page)
qed

end

text \<open>With the statements on incidents; incidents are opened for the kinds of \<open>kinds\<close> only.\<close>

locale host_relation = host_page_relation +
  fixes kinds :: "string set"
  assumes reads: "guar R time_now" "guar R (Windows p)" "guar R (OpenFor_host h k)" "guar R (GetWithExists p)" "guar R (List_thresholds p)"
      "guar R (ListActiveWithProject fr lm)" "guar R (GetForHosts ids)" "guar R (ListOpenKindsForHosts ids)"
    and opens: "k \<in> kinds \<Longrightarrow> guar R (Open_host p h k c dt mt)"
    and resolves: "guar R (Resolve_host i c)" "guar R (ResolveOpenByHostKind h k)"
    and bumps: "guar R (Bump_host i c pk)"
begin

lemma guar_maintenance_now: "guar R (maintenance_now mt p now)"
  unfolding maintenance_now_def InMaintenance_def by (intro guar rel reads)

lemma guar_evalSilent:
  assumes "mayOpenSilent st h s now \<Longrightarrow> ''silent'' \<in> kinds"
  shows "guar R (evalSilent e st h s now)"
proof (cases "mayOpenSilent st h s now")
  case True
  have opn: "guar R (open_silent e h v now)" for v
    unfolding open_silent_def
    by (intro guar guar_case_prod_app rel opens [OF assms [OF True]] guar_pages guar_maintenance_now)
  show ?thesis
    unfolding evalSilent_def Let_def src
    by (intro guar rel reads resolves bumps opn guar_pages guar_recovery_page)
next
  case False
  show ?thesis
    unfolding evalSilent_def Let_def src
    by (simp only: False simp_thms if_False) (intro guar rel reads resolves bumps guar_pages guar_recovery_page)
qed

lemma guar_applyDecision: "k \<in> kinds \<Longrightarrow> guar R (applyDecision e q h k c thr now)"
  unfolding applyDecision_def open_threshold_def worstMountpoint_def Let_def src
  by (intro guar guar_case_prod_app rel reads opens resolves bumps guar_pages guar_recovery_page guar_maintenance_now)

lemma guar_evalOrCloseKind: "guar R eval \<Longrightarrow> guar R (evalOrCloseKind h k en ok un eval)"
  unfolding evalOrCloseKind_def by (intro guar rel resolves)

lemma guar_effFor: "guar R (effFor e ov h c)"
  unfolding effFor_def load_project_def load_groups_def Let_def
  by (intro guar rel reads)

lemma guar_threshold_pass:
  assumes "{''disk'', ''memory'', ''load''} \<subseteq> kinds"
  shows "guar R (threshold_pass e q ov ok now cm h)"
proof -
  have batch: "guar R (batchAggregate q m p k nm ms ag now)" for m p k nm ms ag
    unfolding batchAggregate_def Let_def by (intro guar rel reads)
  show ?thesis
    unfolding threshold_pass_def evalDisk_def evalMemory_def evalLoad_def eval_single_def
    by (intro guar rel guar_effFor guar_evalOrCloseKind batch guar_applyDecision) (use assms in auto)
qed

lemma guar_Tick_host:
  assumes "set Kinds \<subseteq> kinds"
  shows "guar R (Tick_host e st)"
  unfolding Tick_host_def markStarted_def end_tick_def silence_pass_def Let_def
  by (intro guar rel reads guar_budget_loop guar_effFor guar_evalOrCloseKind guar_evalSilent guar_threshold_pass)
     (use assms in \<open>auto simp: Kinds_def\<close>)

end

text \<open>The evaluator as the server wires it, over the suppressor and the grouper.\<close>

definition wired_host_evaluator :: "tzdata \<Rightarrow> host_notifier \<Rightarrow> host_metrics \<Rightarrow> duration \<Rightarrow> host_evaluator" where
  "wired_host_evaluator tz n q interval =
     \<lparr>hv_Metrics = Some q, hv_Source = Some (host_alert_source n), hv_Interval = interval, hv_Overrides = True, hv_Groups = True,
      hv_Maint = Some tz, hv_Dep = Some suppressor_checker, hv_IncidentGroups = Some suppressor_hook\<rparr>"

lemma host_hooks_on_db:
  assumes S: "reflp S" "transp S" and groups: "grouper_relation S suppressor_roots"
    and pages: "page_relation (on_db S) (host_alert_source n)"
  shows "host_page_relation (on_db S) (host_alert_source n) (wired_host_evaluator tz n q interval)"
  by (rule host_page_relation.intro [OF pages], unfold_locales)
     (auto simp: wired_host_evaluator_def guar_suppressor [OF S] guar_suppressor_hook [OF groups])

lemma host_relation_on_db:
  assumes S: "reflp S" "transp S" and logs: "\<And>d e f. S d (d\<lparr>t_esc := e, t_logfail := f\<rparr>)"
    and outbox: "\<And>d d'. only_outbox d d' \<Longrightarrow> S d d'"
    and writes: "\<And>i n. guar (on_db S) (BumpEscalation_host i n)" "\<And>i b. guar (on_db S) (MarkNotified_host i b)"
      "\<And>p h k c dt mt. k \<in> kinds \<Longrightarrow> guar (on_db S) (Open_host p h k c dt mt)" "\<And>i c. guar (on_db S) (Resolve_host i c)"
      "\<And>h k. guar (on_db S) (ResolveOpenByHostKind h k)" "\<And>i c pk. guar (on_db S) (Bump_host i c pk)"
    and groups: "grouper_relation S suppressor_roots"
  shows "host_relation (on_db S) (host_alert_source n) (wired_host_evaluator tz n q interval) kinds"
proof -
  have pages: "page_relation (on_db S) (host_alert_source n)"
    by (rule page_relation_on_db [OF S logs outbox host_pages.alert_pages_axioms])
       (simp_all add: host_alert_source_def writes)
  show ?thesis
  proof (rule host_relation.intro [OF host_hooks_on_db [OF S groups pages]], unfold_locales)
    show "guar (on_db S) time_now" "guar (on_db S) (Windows p)" "guar (on_db S) (OpenFor_host h k)" "guar (on_db S) (GetWithExists p)"
      "guar (on_db S) (List_thresholds p)" "guar (on_db S) (ListActiveWithProject fr lm)" "guar (on_db S) (GetForHosts ids)"
      "guar (on_db S) (ListOpenKindsForHosts ids)" for p h k fr lm ids
      unfolding Windows_def OpenFor_host_def GetWithExists_def List_thresholds_def ListActiveWithProject_def GetForHosts_def ListOpenKindsForHosts_def
      by (intro guar S)+
  qed (simp_all add: writes)
qed

lemma host_progress_same:
  "t_host_incidents d' = t_host_incidents d \<Longrightarrow> t_host_incident_seq d' = t_host_incident_seq d \<Longrightarrow> host_progress d d'"
  by (simp add: alert_progress_def alert_wf_def list_all2_refl)

lemma set_group_host:
  "t_host_incident_seq (snd (set_group p s i g d)) = t_host_incident_seq d"
  "t_host_incidents (snd (set_group p s i g d)) =
     (if s = ''host'' then snd (set_alert_group d p i g (t_host_incidents d)) else t_host_incidents d)"
  by (simp_all add: set_group_def Let_def case_prod_beta)

lemma insert_group_host:
  "t_host_incidents (snd (insert_group p s i k n t d)) = t_host_incidents d"
  "t_host_incident_seq (snd (insert_group p s i k n t d)) = t_host_incident_seq d"
  by (simp_all add: insert_group_def Let_def split: option.split)

lemma host_progress_set_group: "host_progress d (snd (set_group p s i g d))"
proof (cases "s = ''host''")
  case True
  let ?p = "\<lambda>x. a_id x = i \<and> a_project x = p \<and> may_join d (a_group x)" and ?f = "\<lambda>x :: host_incident. x\<lparr>a_group := Some g\<rparr>"
  have "host_progress d (snd (update_returning host_table ?p ?f d))"
    by (rule host_inc.progress_update) (simp add: alert_le_def host_key_def)
  moreover have "snd (update_returning host_table ?p ?f d) = snd (set_group p s i g d)"
    using True by (simp add: update_returning_def set_group_def set_alert_group_def Let_def)
  ultimately show ?thesis by simp
qed (rule host_progress_same; simp add: set_group_host)

interpretation host_groups: grouper_relation host_progress suppressor_roots
  by unfold_locales
     (simp_all add: alert_progress_rel guar_suppressor_roots host_progress_set_group host_progress_same insert_group_host)

interpretation host_tick: host_relation "on_db host_progress" "host_alert_source n" "wired_host_evaluator tz n q interval" UNIV
  for n tz q interval
  by (rule host_relation_on_db [OF alert_progress_rel])
     (simp_all add: guar_host_writes guar_Open_host host_groups.grouper_relation_axioms host_progress_same,
      auto simp: only_outbox_def intro!: host_progress_same dest: arg_cong [of _ _ t_host_incidents] arg_cong [of _ _ t_host_incident_seq])

subsection \<open>The incident of a host and a kind\<close>

definition kind_state :: "db \<Rightarrow> int \<Rightarrow> string \<Rightarrow> (rat \<times> rat) option" where
  "kind_state d hid k =
     map_option (\<lambda>x. (hi_current x, hi_peak x)) (find (\<lambda>x. hi_host x = hid \<and> hi_kind x = k \<and> alert_open x) (t_host_incidents d))"

definition host_view :: "db \<Rightarrow> (int \<times> int \<times> string \<times> string \<times> rat \<times> rat) list" where
  "host_view d = map (\<lambda>x. (a_id x, hi_host x, hi_kind x, a_status x, hi_current x, hi_peak x)) (t_host_incidents d)"

lemma kind_state_view:
  "kind_state d hid k = map_option (\<lambda>(_, _, _, _, c, p). (c, p)) (find (\<lambda>(_, h, kd, st, _). h = hid \<and> kd = k \<and> st = ''open'') (host_view d))"
proof -
  have "map_option (\<lambda>x. (hi_current x, hi_peak x)) (find (\<lambda>x. hi_host x = hid \<and> hi_kind x = k \<and> alert_open x) xs) =
    map_option (\<lambda>(_, _, _, _, c, p). (c, p)) (find (\<lambda>(_, h, kd, st, _). h = hid \<and> kd = k \<and> st = ''open'')
      (map (\<lambda>x. (a_id x, hi_host x, hi_kind x, a_status x, hi_current x, hi_peak x)) xs))" for xs
    by (induction xs) auto
  then show ?thesis by (simp add: kind_state_def host_view_def)
qed

lemma keeps_kind_state:
  "guar (on_db (same_rel host_view)) p \<Longrightarrow> wp p (\<lambda>_ w'. kind_state (db w') hid k = kind_state (db w) hid k) w"
  by (auto simp: guar_wp on_db_def same_rel_def kind_state_view elim!: allE intro: wp_mono)

lemma guar_host_view_update:
  assumes "\<And>now x. a_id (f now x) = a_id x \<and> hi_host (f now x) = hi_host x \<and> hi_kind (f now x) = hi_kind x \<and>
    a_status (f now x) = a_status x \<and> hi_current (f now x) = hi_current x \<and> hi_peak (f now x) = hi_peak x"
  shows "guar (on_db (same_rel host_view)) (update_rows host_table p f)"
  using assms by (intro host_inc.guar_rows guar) (simp add: same_rel_def host_view_def update_returning_def sql_update_def)

lemma host_view_set_group: "host_view (snd (set_group p s i g d)) = host_view d"
  by (simp add: host_view_def set_group_host set_alert_group_def Let_def sql_update_def)

interpretation host_view_groups: grouper_relation "same_rel host_view" suppressor_roots
  by unfold_locales
     (simp_all add: guar guar_suppressor_roots same_rel_def host_view_set_group, simp_all add: host_view_def insert_group_host)

interpretation host_view_pages: page_relation "on_db (same_rel host_view)" "host_alert_source n" for n
proof (rule page_relation_on_db [OF _ _ _ _ host_pages.alert_pages_axioms])
  show "guar (on_db (same_rel host_view)) (as_BumpEscalation (host_alert_source n) i k)" for i k
    unfolding host_alert_source_def alert_source.select_convs BumpEscalation_host_def bump_alert_def update_claim_def
    by (intro guar guar_host_view_update) simp
  show "guar (on_db (same_rel host_view)) (as_MarkNotified (host_alert_source n) i b)" for i b
    unfolding host_alert_source_def alert_source.select_convs MarkNotified_host_def update_must_def
    by (intro guar guar_host_view_update) (simp add: mark_alert_def)
qed (auto simp: guar same_rel_def host_view_def only_outbox_def dest: arg_cong [of _ _ t_host_incidents])

interpretation host_view_hooks: host_page_relation "on_db (same_rel host_view)" "host_alert_source n" "wired_host_evaluator tz n q interval"
  for n tz q interval
  by (rule host_hooks_on_db [OF _ _ host_view_groups.grouper_relation_axioms host_view_pages.page_relation_axioms]) (rule guar)+

text \<open>What the three statements on incidents do to it.\<close>

lemma kind_state_None: "kind_state d hid k = None \<longleftrightarrow> \<not> list_ex (\<lambda>x. hi_host x = hid \<and> hi_kind x = k \<and> alert_open x) (t_host_incidents d)"
  by (simp add: kind_state_def find_None_iff list_ex_iff) blast

lemma kind_insert:
  assumes "kind_state d hid k = None" and "host_insertable p hid k d"
  shows "fst (insert_alert host_table host_key (host_insertable p hid k) (new_host_incident p hid k v dt mt now) d) =
      Inr (Some (new_host_incident p hid k v dt mt now (t_host_incident_seq d)))"
    and "kind_state (snd (insert_alert host_table host_key (host_insertable p hid k) (new_host_incident p hid k v dt mt now) d)) hid k = Some (v, v)"
proof -
  have none: "\<not> list_ex (\<lambda>y. host_key y = (hid, k) \<and> alert_open y) (t_host_incidents d)"
    using assms(1) by (simp add: kind_state_None host_key_def)
  then have "find (\<lambda>x. hi_host x = hid \<and> hi_kind x = k \<and> alert_open x) (t_host_incidents d) = None"
    by (auto simp: find_None_iff list_ex_iff host_key_def)
  then show "fst (insert_alert host_table host_key (host_insertable p hid k) (new_host_incident p hid k v dt mt now) d) =
      Inr (Some (new_host_incident p hid k v dt mt now (t_host_incident_seq d)))"
    "kind_state (snd (insert_alert host_table host_key (host_insertable p hid k) (new_host_incident p hid k v dt mt now) d)) hid k = Some (v, v)"
    using assms(2) none by (simp_all add: insert_alert_def Let_def new_host_incident_def kind_state_def find_append host_key_def)
qed

lemma kind_bump:
  assumes "find (\<lambda>x. hi_host x = hid \<and> hi_kind x = k \<and> alert_open x) (t_host_incidents d) = Some x"
  shows "kind_state (snd (update_returning host_table (\<lambda>y. a_id y = a_id x \<and> alert_open y) (\<lambda>y. y\<lparr>hi_current := c, hi_peak := pk\<rparr>) d)) hid k =
    Some (c, pk)"
  using assms by (simp add: kind_state_def update_returning_def sql_update_def find_update_hit) (auto dest: find_SomeD)

lemma kind_resolve:
  assumes "host_wf d" and "find (\<lambda>x. hi_host x = hid \<and> hi_kind x = k \<and> alert_open x) (t_host_incidents d) = Some x"
  shows "kind_state (snd (update_returning host_table (\<lambda>y. a_id y = a_id x \<and> alert_open y)
    (\<lambda>y. (close_alert now y)\<lparr>hi_current := c\<rparr>) d)) hid k = None"
proof -
  have "distinct (map host_key (filter alert_open (t_host_incidents d)))" using assms(1) by (simp add: alert_wf_def)
  then have "y = x" if "y \<in> set (t_host_incidents d)" "hi_host y = hid" "hi_kind y = k" "alert_open y" for y
    using find_SomeD [OF assms(2)] that distinct_key_unique [of host_key "filter alert_open (t_host_incidents d)" y x]
    by (simp add: host_key_def)
  then show ?thesis
    by (fastforce simp: kind_state_None update_returning_def list_ex_iff set_sql_update close_alert_def)
qed

text \<open>As decided, or, when a statement failed, as it was.\<close>

definition kind_decided :: "int \<Rightarrow> string \<Rightarrow> (rat \<times> rat) option \<Rightarrow> world \<Rightarrow> world \<Rightarrow> bool" where
  "kind_decided hid k s' w w' \<longleftrightarrow>
     kind_state (db w') hid k = s' \<or> (sched w \<noteq> [] \<and> kind_state (db w') hid k = kind_state (db w) hid k)"

lemma decided_then_keeps:
  assumes "wp c (\<lambda>_. kind_decided hid k s w0) w" and "\<And>a. guar (on_db (same_rel host_view)) (f a)"
  shows "wp (State_Monad.bind c f) (\<lambda>_. kind_decided hid k s w0) w"
  unfolding wp_bind
  by (rule wp_mono [OF assms(1)], rule wp_mono [OF keeps_kind_state [OF assms(2), where hid = hid and k = k]])
     (simp add: kind_decided_def)

lemma wired_host_evaluator_source: "hv_Source (wired_host_evaluator tz n q iv) = Some (host_alert_source n)"
  by (simp add: wired_host_evaluator_def)

lemma decided_Open_host:
  assumes "kind_state (db w) hid k = None" and "host_insertable p hid k (db w)"
  shows "wp (Open_host p hid k v dt mt) (\<lambda>_. kind_decided hid k (Some (v, v)) w) w"
  unfolding Open_host_def wp_bind
proof (rule wp_sql_schedI, goal_cases)
  case (1 t w')
  then show ?case using kind_insert [OF assms, of v dt mt t] by (simp add: wp kind_decided_def)
qed (use kind_insert [OF assms] in \<open>simp_all add: wp assms(1) kind_decided_def\<close>)

lemma decided_Resolve_host:
  assumes "host_wf (db w)" and "find (\<lambda>x. hi_host x = hid \<and> hi_kind x = k \<and> alert_open x) (t_host_incidents (db w)) = Some x"
  shows "wp (Resolve_host (a_id x) v) (\<lambda>_. kind_decided hid k None w) w"
  unfolding Resolve_host_def update_claim_def update_rows_def wp_bind
  by (rule wp_sql_schedI) (use kind_resolve [OF assms] in \<open>simp_all add: wp kind_decided_def\<close>)

lemma decided_Bump_host:
  assumes "find (\<lambda>x. hi_host x = hid \<and> hi_kind x = k \<and> alert_open x) (t_host_incidents (db w)) = Some x"
  shows "wp (ignore (Bump_host (a_id x) v pk)) (\<lambda>_. kind_decided hid k (Some (v, pk)) w) w"
  unfolding Bump_host_def update_must_def update_rows_def wp_bind
  by (rule wp_sql_schedI) (use kind_bump [OF assms] in \<open>simp_all add: wp kind_decided_def\<close>)

lemma decided_from:
  assumes "wp c (\<lambda>_. kind_decided hid k s w1) w1" and "db w1 = db w" and "sched w = [] \<longrightarrow> sched w1 = []"
  shows "wp c (\<lambda>_. kind_decided hid k s w) w1"
  using assms by (auto simp: kind_decided_def elim!: wp_mono)

lemma decided_same: "kind_state (db w) hid k = s \<Longrightarrow> db w' = db w \<Longrightarrow> kind_decided hid k s w w'"
  by (simp add: kind_decided_def)

text \<open>The specifications: what silence, or a value against a threshold, does to the open incident.\<close>

definition silence_step :: "bool \<Rightarrow> rat \<Rightarrow> rat \<Rightarrow> (rat \<times> rat) option \<Rightarrow> (rat \<times> rat) option" where
  "silence_step may threshold silence st =
     (case st of
        None \<Rightarrow> if silence > threshold \<and> may then Some (silence, silence) else None
      | Some (c, p) \<Rightarrow>
          if silence \<le> threshold then None else if silence \<ge> p * (3 / 2) then Some (silence, silence) else Some (c, p))"

definition threshold_step :: "rat \<Rightarrow> rat \<Rightarrow> (rat \<times> rat) option \<Rightarrow> (rat \<times> rat) option" where
  "threshold_step threshold v st =
     (case st of
        None \<Rightarrow> if v > threshold then Some (v, v) else None
      | Some (c, p) \<Rightarrow> if v \<le> threshold - \<bar>threshold\<bar> / 20 then None else Some (v, max p v))"

lemma wp_OpenFor_host:
  assumes "\<And>w1. db w1 = db w \<Longrightarrow> (sched w = [] \<longrightarrow> sched w1 = []) \<Longrightarrow>
      wp (f (Inr (find (\<lambda>x. hi_host x = hid \<and> hi_kind x = k \<and> alert_open x) (t_host_incidents (db w))))) Q w1"
    and "\<And>e w1. db w1 = db w \<Longrightarrow> sched w \<noteq> [] \<Longrightarrow> wp (f (Inl e)) Q w1"
  shows "wp (State_Monad.bind (OpenFor_host hid k) f) Q w"
  unfolding OpenFor_host_def wp_bind by (rule wp_sql_read_schedI) (use assms in auto)

lemma decided_open_silent:
  assumes "kind_state (db w) (h_id h) ''silent'' = None" and "host_insertable (h_project h) (h_id h) ''silent'' (db w)"
  shows "wp (open_silent (wired_host_evaluator tz n q iv) h v now) (\<lambda>_. kind_decided (h_id h) ''silent'' (Some (v, v)) w) w"
  unfolding open_silent_def wp_bind [of "maintenance_now (hv_Maint (wired_host_evaluator tz n q iv)) (h_project h) now"]
proof (rule wp_mono [OF wp_maintenance_now], goal_cases)
  case (1 mt w1)
  have "wp (Open_host (h_project h) (h_id h) ''silent'' v '''' mt) (\<lambda>_. kind_decided (h_id h) ''silent'' (Some (v, v)) w) w1"
    by (rule decided_from [OF decided_Open_host]) (use 1 assms in simp_all)
  then show ?case by (rule decided_then_keeps) (intro guar guar_case_prod_app host_view_hooks.guar_pages)
qed

text \<open>
  C29: what an evaluation of silence does to the incident of a host depends on the silence
  alone: without an open incident it opens one exactly if the host has been silent for
  longer than its threshold, the server has been running for longer than that, and the
  host had been known for at least as long; an open incident is closed exactly if the
  silence is back within the threshold, and its value is renewed only when the silence has
  grown by half. Maintenance, groups, dependencies and pages have no influence on it, and
  failing statements leave it as decided or as it was.
\<close>

theorem silence_decides_incident:
  assumes "host_wf (db w)" and "host_insertable (h_project h) (h_id h) ''silent'' (db w)" and "hs_SilentEnabled s"
    and "run_state (evalSilent (wired_host_evaluator tz n q iv) startedAt h s now) w = ((), w')"
  shows "kind_state (db w') (h_id h) ''silent'' =
      silence_step (time_sub now startedAt > hs_SilentAfter s \<and> time_sub (h_last_seen h) (h_first_seen h) \<ge> hs_SilentAfter s)
        (seconds (hs_SilentAfter s)) (seconds (time_sub now (h_last_seen h))) (kind_state (db w) (h_id h) ''silent'') \<or>
    (sched w \<noteq> [] \<and> kind_state (db w') (h_id h) ''silent'' = kind_state (db w) (h_id h) ''silent'')"
proof -
  let ?e = "wired_host_evaluator tz n q iv" and ?sil = "seconds (time_sub now (h_last_seen h))" and ?thr = "seconds (hs_SilentAfter s)"
  let ?may = "time_sub now startedAt > hs_SilentAfter s \<and> time_sub (h_last_seen h) (h_first_seen h) \<ge> hs_SilentAfter s"
  let ?next = "silence_step ?may ?thr ?sil (kind_state (db w) (h_id h) ''silent'')"
  let ?find = "find (\<lambda>x. hi_host x = h_id h \<and> hi_kind x = ''silent'' \<and> alert_open x) (t_host_incidents (db w))"
  have may: "mayOpenSilent startedAt h s now \<longleftrightarrow> ?may" by (simp add: mayOpenSilent_def not_le)
  have on: "\<not> \<not> hs_SilentEnabled s" using assms(3) by simp
  have "wp (evalSilent ?e startedAt h s now) (\<lambda>_. kind_decided (h_id h) ''silent'' ?next w) w"
    unfolding evalSilent_def Let_def if_not_P [OF on]
  proof (rule wp_OpenFor_host, goal_cases)
    case (1 w1)
    show ?case
    proof (cases ?find)
      case None
      then have st: "kind_state (db w) (h_id h) ''silent'' = None" by (simp add: kind_state_def)
      show ?thesis
        unfolding None sum.case option.case may st silence_step_def
        by (cases "?thr < ?sil \<and> ?may")
           (use 1 st assms(2) in \<open>auto simp: wp intro!: decided_from [OF decided_open_silent] decided_same\<close>)
    next
      case (Some x)
      then have st: "kind_state (db w) (h_id h) ''silent'' = Some (hi_current x, hi_peak x)" by (simp add: kind_state_def)
      have find1: "find (\<lambda>x. hi_host x = h_id h \<and> hi_kind x = ''silent'' \<and> alert_open x) (t_host_incidents (db w1)) = Some x"
        using Some 1 by simp
      have close: "wp (Resolve_host (a_id x) ?sil) (\<lambda>_. kind_decided (h_id h) ''silent'' None w) w1"
        by (rule decided_from [OF decided_Resolve_host [OF _ find1]]) (use 1 assms(1) in simp_all)
      have bump: "wp (ignore (Bump_host (a_id x) ?sil ?sil)) (\<lambda>_. kind_decided (h_id h) ''silent'' (Some (?sil, ?sil)) w) w1"
        by (rule decided_from [OF decided_Bump_host [OF find1]]) (use 1 in simp_all)
      show ?thesis
        unfolding Some sum.case option.case st silence_step_def prod.case
      proof (cases "?sil \<le> ?thr", goal_cases)
        case 1
        show ?case
          unfolding if_P [OF 1]
          by (rule decided_then_keeps [OF close])
             (simp only: wired_host_evaluator_source, intro guar host_view_hooks.guar_pages host_view_pages.guar_recovery_page)
      next
        case 2
        then show ?case
          using bump \<open>db w1 = db w\<close> st by (auto simp: wp silentBumpGrowth_def intro!: decided_same)
      qed
    qed
  qed (simp add: wp kind_decided_def)
  then show ?thesis using assms(4) by (simp add: wp_def kind_decided_def)
qed

lemma decided_open_threshold:
  assumes "kind_state (db w) (h_id h) k = None" and "host_insertable (h_project h) (h_id h) k (db w)"
  shows "wp (open_threshold (wired_host_evaluator tz n q iv) m h k v now) (\<lambda>_. kind_decided (h_id h) k (Some (v, v)) w) w"
proof -
  have rest: "wp (do {
      inMaint \<leftarrow> maintenance_now (hv_Maint (wired_host_evaluator tz n q iv)) (h_project h) now;
      o1 \<leftarrow> Open_host (h_project h) (h_id h) k v dt inMaint;
      f inMaint o1 }) (\<lambda>_. kind_decided (h_id h) k (Some (v, v)) w) w"
    if f: "\<And>mt o1. guar (on_db (same_rel host_view)) (f mt o1)" for dt and f :: "bool \<Rightarrow> (host_incident \<times> bool) result \<Rightarrow> unit prog"
    unfolding wp_bind [of "maintenance_now (hv_Maint (wired_host_evaluator tz n q iv)) (h_project h) now"]
  proof (rule wp_mono [OF wp_maintenance_now], goal_cases)
    case (1 mt w1)
    have "wp (Open_host (h_project h) (h_id h) k v dt mt) (\<lambda>_. kind_decided (h_id h) k (Some (v, v)) w) w1"
      by (rule decided_from [OF decided_Open_host]) (use 1 assms in simp_all)
    then show ?case by (rule decided_then_keeps) (rule f)
  qed
  have detail: "wp (if k = ''disk'' then worstMountpoint m h now else State_Monad.return '''') (\<lambda>_ w'. w' = w) w"
    by (simp add: worstMountpoint_def wp)
  show ?thesis
    unfolding open_threshold_def wp_bind [of "if k = ''disk'' then _ else _"]
  proof (rule wp_mono [OF detail], goal_cases)
    case (1 dt w1)
    show ?case
      unfolding 1 by (rule rest) (intro guar guar_case_prod_app host_view_hooks.guar_pages)
  qed
qed

text \<open>
  C30: what a value of disk, memory or load does to the incident of a host depends on the value
  and the threshold alone: without an open incident it opens one exactly if the threshold
  is exceeded; an open incident is closed exactly if the value has fallen below the
  threshold by a twentieth of it, and otherwise takes the value, and the greater of value
  and peak as its peak. The mount point that is named, maintenance, groups, dependencies
  and pages have no influence on it, and failing statements leave it as decided or as it was.
\<close>

theorem threshold_decides_incident:
  assumes "host_wf (db w)" and "host_insertable (h_project h) (h_id h) k (db w)"
    and "run_state (applyDecision (wired_host_evaluator tz n q iv) m h k v threshold now) w = ((), w')"
  shows "kind_state (db w') (h_id h) k = threshold_step threshold v (kind_state (db w) (h_id h) k) \<or>
    (sched w \<noteq> [] \<and> kind_state (db w') (h_id h) k = kind_state (db w) (h_id h) k)"
proof -
  let ?e = "wired_host_evaluator tz n q iv"
  let ?next = "threshold_step threshold v (kind_state (db w) (h_id h) k)"
  let ?find = "find (\<lambda>x. hi_host x = h_id h \<and> hi_kind x = k \<and> alert_open x) (t_host_incidents (db w))"
  have open_iff: "d_Open (Decide v ''gt'' threshold False) \<longleftrightarrow> v > threshold"
    and close_iff: "d_Close (Decide v ''gt'' threshold True) \<longleftrightarrow> v \<le> threshold - \<bar>threshold\<bar> / 20"
    by (simp_all add: Decide_def no_decision_def recoveryBand_def Let_def)
  have "wp (applyDecision ?e m h k v threshold now) (\<lambda>_. kind_decided (h_id h) k ?next w) w"
    unfolding applyDecision_def Let_def
  proof (rule wp_OpenFor_host, goal_cases)
    case (1 w1)
    show ?case
    proof (cases ?find)
      case None
      then have st: "kind_state (db w) (h_id h) k = None" by (simp add: kind_state_def)
      show ?thesis
        unfolding None sum.case option.case
        by (cases "v > threshold")
           (use 1 st assms(2) in \<open>auto simp: wp open_iff threshold_step_def intro!: decided_from [OF decided_open_threshold] decided_same\<close>)
    next
      case (Some x)
      then have st: "kind_state (db w) (h_id h) k = Some (hi_current x, hi_peak x)" by (simp add: kind_state_def)
      have find1: "find (\<lambda>x. hi_host x = h_id h \<and> hi_kind x = k \<and> alert_open x) (t_host_incidents (db w1)) = Some x"
        using Some 1 by simp
      have close: "wp (Resolve_host (a_id x) v) (\<lambda>_. kind_decided (h_id h) k None w) w1"
        by (rule decided_from [OF decided_Resolve_host [OF _ find1]]) (use 1 assms(1) in simp_all)
      have bump: "wp (ignore (Bump_host (a_id x) v pk)) (\<lambda>_. kind_decided (h_id h) k (Some (v, pk)) w) w1" for pk
        by (rule decided_from [OF decided_Bump_host [OF find1]]) (use 1 in simp_all)
      have closed: "wp (do {
            r \<leftarrow> Resolve_host (a_id x) v;
            (case r of
               Inl _ \<Rightarrow> State_Monad.return ()
             | Inr resolved \<Rightarrow> if resolved then recovery_page (hv_Source ?e) (a_id x) else State_Monad.return ())
          }) (\<lambda>_. kind_decided (h_id h) k None w) w1"
        by (rule decided_then_keeps [OF close])
           (simp only: wired_host_evaluator_source, intro guar host_view_pages.guar_recovery_page)
      show ?thesis
        unfolding Some sum.case option.case st threshold_step_def prod.case
        using closed bump by (auto simp: Decide_cases close_iff max_def simp del: wp_bind)
    qed
  qed (simp add: wp kind_decided_def)
  then show ?thesis using assms(3) by (simp add: wp_def kind_decided_def)
qed

subsection \<open>A young server opens no silence\<close>

definition silents :: "db \<Rightarrow> int set" where
  "silents d = a_id ` {x \<in> set (t_host_incidents d). hi_kind x = ''silent'' \<and> alert_open x}"

definition no_new_silence :: "db \<Rightarrow> db \<Rightarrow> bool" where
  "no_new_silence d d' \<longleftrightarrow> silents d' \<subseteq> silents d \<and>
     (t_host_settings d', t_host_overrides d', t_host_group_thresholds d') = (t_host_settings d, t_host_overrides d, t_host_group_thresholds d)"

lemma no_new_silence_rel: "reflp no_new_silence" "transp no_new_silence"
  by (auto simp: reflp_def transp_def no_new_silence_def)

lemma no_new_silence_same:
  "t_host_incidents d' = t_host_incidents d \<Longrightarrow> t_host_settings d' = t_host_settings d \<Longrightarrow> t_host_overrides d' = t_host_overrides d \<Longrightarrow>
     t_host_group_thresholds d' = t_host_group_thresholds d \<Longrightarrow> no_new_silence d d'"
  by (simp add: no_new_silence_def silents_def)

lemma no_new_silence_rows:
  assumes "\<And>x. p x \<Longrightarrow> a_id (f x) = a_id x \<and> hi_kind (f x) = hi_kind x \<and> (alert_open (f x) \<longrightarrow> alert_open x)"
  shows "no_new_silence d (d\<lparr>t_host_incidents := sql_update p f (t_host_incidents d)\<rparr>)"
  using assms by (auto simp: no_new_silence_def silents_def set_sql_update image_iff split: if_splits)

lemma guar_no_new_silence_rows:
  assumes "\<And>now x. a_id (f now x) = a_id x \<and> hi_kind (f now x) = hi_kind x \<and> (alert_open (f now x) \<longrightarrow> alert_open x)"
  shows "guar (on_db no_new_silence) (update_rows host_table p f)"
  using assms by (intro host_inc.guar_rows no_new_silence_rel) (simp add: update_returning_def no_new_silence_rows)

lemma guar_no_new_silence_writes:
  "guar (on_db no_new_silence) (Bump_host i c pk)" "guar (on_db no_new_silence) (Resolve_host i c)"
  "guar (on_db no_new_silence) (ResolveOpenByHostKind h k)" "guar (on_db no_new_silence) (MarkNotified_host i b)"
  "guar (on_db no_new_silence) (BumpEscalation_host i n)"
  unfolding Bump_host_def Resolve_host_def ResolveOpenByHostKind_def MarkNotified_host_def BumpEscalation_host_def bump_alert_def
    update_claim_def update_must_def update_count_def
  by (intro guar no_new_silence_rel guar_no_new_silence_rows; simp add: close_alert_def mark_alert_def)+

lemma guar_no_new_silence_Open:
  assumes "k \<in> {''disk'', ''memory'', ''load''}"
  shows "guar (on_db no_new_silence) (Open_host p h k c dt mt)"
proof -
  have "no_new_silence d (snd (insert_alert host_table host_key (host_insertable p h k) (new_host_incident p h k c dt mt now) d))" for now d
    using assms by (auto simp: insert_alert_def Let_def no_new_silence_def silents_def new_host_incident_def)
  then show ?thesis unfolding Open_host_def OpenFor_host_def by (intro guar no_new_silence_rel)
qed

interpretation silence_groups: grouper_relation no_new_silence suppressor_roots
proof
  show "no_new_silence d (snd (set_group p s i g d))" for d p s i g
  proof (cases "s = ''host''")
    case True
    then show ?thesis
      using no_new_silence_rows [of "\<lambda>x. a_id x = i \<and> a_project x = p \<and> may_join d (a_group x)" "\<lambda>x. x\<lparr>a_group := Some g\<rparr>" d]
      by (simp add: set_group_def set_alert_group_def Let_def)
  next
    case False
    then show ?thesis
      by (intro no_new_silence_same) (simp_all add: set_group_host, simp_all add: set_group_def Let_def case_prod_beta)
  qed
  show "no_new_silence d (snd (insert_group p s i k n t d))" for d p s i k n t
    by (rule no_new_silence_same) (simp_all add: insert_group_def Let_def split: option.split)
qed (simp_all add: no_new_silence_rel guar_suppressor_roots no_new_silence_same)

lemma no_new_silence_outbox: "only_outbox d d' \<Longrightarrow> no_new_silence d d'"
  using only_outbox_same [of d d' t_host_incidents] only_outbox_same [of d d' t_host_settings]
    only_outbox_same [of d d' t_host_overrides] only_outbox_same [of d d' t_host_group_thresholds]
  by (simp add: no_new_silence_same)

interpretation silence_tick: host_relation "on_db no_new_silence" "host_alert_source n" "wired_host_evaluator tz n q interval" "{''disk'', ''memory'', ''load''}"
  for n tz q interval
  by (rule host_relation_on_db [OF no_new_silence_rel])
     (simp_all add: guar_no_new_silence_writes guar_no_new_silence_Open silence_groups.grouper_relation_axioms
       no_new_silence_same no_new_silence_outbox)

text \<open>The settings that a tick has in its cache are valid.\<close>

definition valid_cache :: "eff_cache \<Rightarrow> bool" where
  "valid_cache c \<longleftrightarrow>
     (\<forall>p s x. ec_projects c p = Some (Some (s, x)) \<longrightarrow> Validate_settings s = None) \<and>
     (\<forall>p gs. ec_groups c p = Some gs \<longrightarrow> (\<forall>g \<in> set gs. ValidateOverride (gt_Override g) = None))"

lemma wp_load_project:
  assumes "thresholds_wf (db w)" and "valid_cache c"
  shows "wp (load_project p c) (\<lambda>(r, c') w'. db w' = db w \<and> valid_cache c' \<and> (\<forall>s x. r = Some (s, x) \<longrightarrow> Validate_settings s = None)) w"
proof (cases "ec_projects c p")
  case None
  have dflt: "Validate_settings DefaultSettings = None"
    by (simp add: Validate_settings_def DefaultSettings_def MinSilentAfter_def MaxSilentAfter_def)
  show ?thesis
    unfolding load_project_def None option.case GetWithExists_def wp_bind
    by (rule wp_sql_readI)
       (use assms dflt in \<open>auto simp: wp valid_cache_def thresholds_wf_def list_all_iff Let_def dest: map_of_SomeD split: option.splits\<close>)
next
  case (Some r)
  then show ?thesis using assms by (auto simp: load_project_def wp valid_cache_def)
qed

lemma wp_load_groups:
  assumes "thresholds_wf (db w)" and "valid_cache c"
  shows "wp (load_groups e p c) (\<lambda>(gs, c') w'. db w' = db w \<and> valid_cache c' \<and> (\<forall>g \<in> set gs. ValidateOverride (gt_Override g) = None)) w"
proof (cases "hv_Groups e \<and> ec_groups c p = None \<and> p \<notin> ec_failed c")
  case True
  then have b: "\<not> \<not> hv_Groups e" "ec_groups c p = None" "p \<notin> ec_failed c" by simp_all
  show ?thesis
    unfolding load_groups_def if_not_P [OF b(1)] b(2) option.case if_not_P [OF b(3)] List_thresholds_def wp_bind
    by (rule wp_sql_readI) (use assms in \<open>auto simp: wp valid_cache_def thresholds_wf_def list_all_iff\<close>)
next
  case False
  then show ?thesis using assms by (auto simp: load_groups_def wp valid_cache_def split: option.split)
qed

lemma wp_effFor:
  assumes "thresholds_wf (db w)" and "valid_cache c" and "\<And>i ov. overrides i = Some ov \<Longrightarrow> ValidateOverride ov = None"
  shows "wp (effFor e overrides h c) (\<lambda>(r, c') w'. db w' = db w \<and> valid_cache c' \<and> (\<forall>s. r = Some s \<longrightarrow> Validate_settings s = None)) w"
  unfolding effFor_def wp_bind
proof (rule wp_mono [OF wp_load_project [OF assms(1,2)]], clarify, goal_cases)
  case (1 p c1 w1)
  show ?case
  proof (cases p)
    case (Some sx)
    obtain s x where sx: "sx = (s, x)" by fastforce
    have wf1: "thresholds_wf (db w1)" using 1 assms(1) by simp
    show ?thesis
      unfolding Some sx option.case prod.case wp_bind
    proof (rule wp_mono [OF wp_load_groups [OF wf1]], use 1 in simp, clarify, goal_cases)
      case (1 gs c2 w2)
      then show ?case
        using \<open>\<forall>s x. p = Some (s, x) \<longrightarrow> Validate_settings s = None\<close> \<open>db w1 = db w\<close> Some sx assms(3)
        by (auto simp: wp intro!: Effective_valid)
    qed
  qed (use 1 in \<open>simp add: wp\<close>)
qed

lemma wp_budget_loop:
  assumes "\<And>b x w. I b w \<Longrightarrow> wp (f b x) (\<lambda>b' w'. I b' w') w" and "I b w"
  shows "wp (budget_loop deadline f (k, b) xs) (\<lambda>(_, b') w'. I b' w') w"
  using assms(2)
proof (induction xs arbitrary: k b w)
  case (Cons x xs)
  show ?case
    by (auto simp: wp Cons.prems intro: wp_mono [OF assms(1) [OF Cons.prems]] Cons.IH)
qed (simp add: wp)

lemma wp_silence_pass:
  assumes young: "now - startedAt \<le> MinSilentAfter" and ov: "\<And>i ov. overrides i = Some ov \<Longrightarrow> ValidateOverride ov = None"
    and I: "valid_cache c \<and> thresholds_wf (db w) \<and> no_new_silence d0 (db w)"
  shows "wp (silence_pass (wired_host_evaluator tz n q iv) startedAt overrides openKinds now c h)
    (\<lambda>c' w'. valid_cache c' \<and> thresholds_wf (db w') \<and> no_new_silence d0 (db w')) w"
  unfolding silence_pass_def wp_bind
proof (rule wp_mono [OF wp_effFor], use I in simp, use I in simp, rule ov, assumption, clarify, goal_cases)
  case (1 eff c1 w1)
  show ?case
  proof (cases eff)
    case None
    then show ?thesis using 1 I by (simp add: wp)
  next
    case (Some s)
    have "MinSilentAfter \<le> hs_SilentAfter s"
      using 1 Some by (auto simp: Validate_settings_def split: if_splits)
    then have "\<not> mayOpenSilent startedAt h s now"
      using young by (auto simp: mayOpenSilent_def time_sub_def MinSilentAfter_def)
    then have "guar (on_db no_new_silence) (evalSilent (wired_host_evaluator tz n q iv) startedAt h s now)"
      by (intro silence_tick.guar_evalSilent) simp
    then have "guar (on_db no_new_silence) (evalOrCloseKind h ''silent'' (hs_SilentEnabled s) openKinds ()
        (evalSilent (wired_host_evaluator tz n q iv) startedAt h s now))"
      by (rule silence_tick.guar_evalOrCloseKind)
    then have keep: "wp (evalOrCloseKind h ''silent'' (hs_SilentEnabled s) openKinds ()
        (evalSilent (wired_host_evaluator tz n q iv) startedAt h s now)) (\<lambda>_. on_db no_new_silence w1) w1"
      by (simp only: guar_wp)
    show ?thesis
      unfolding Some option.case wp_bind
      by (rule wp_mono [OF keep])
         (use 1 I transpD [OF no_new_silence_rel(2)] in \<open>auto simp: wp on_db_def no_new_silence_def thresholds_wf_def\<close>)
  qed
qed

text \<open>The two passes of a tick, over whatever hosts.\<close>

lemma wp_passes:
  assumes young: "now - startedAt \<le> MinSilentAfter" and wf: "thresholds_wf (db w)"
    and ov: "\<And>i ov. overrides i = Some ov \<Longrightarrow> ValidateOverride ov = None"
  shows "wp (do {
       (silentDone, c) \<leftarrow> budget_loop deadline (silence_pass (wired_host_evaluator tz n q iv) startedAt overrides openKinds now)
         (0, \<lparr>ec_projects = Map.empty, ec_groups = Map.empty, ec_failed = {}\<rparr>) hosts;
       (thresholdDone, _) \<leftarrow> (case hv_Metrics (wired_host_evaluator tz n q iv) of
           None \<Rightarrow> State_Monad.return (length hosts, (c, Map.empty))
         | Some qa \<Rightarrow> budget_loop deadline (threshold_pass (wired_host_evaluator tz n q iv) qa overrides openKinds now) (0, (c, Map.empty)) hosts);
       base \<leftarrow> end_tick hostKeyOf hosts deadline ts (min silentDone thresholdDone);
       State_Monad.return (f base)
     }) (\<lambda>_ w'. no_new_silence (db w) (db w')) w"
proof -
  let ?e = "wired_host_evaluator tz n q iv"
  let ?I = "\<lambda>c w'. valid_cache c \<and> thresholds_wf (db w') \<and> no_new_silence (db w) (db w')"
  have pass1: "wp (budget_loop deadline (silence_pass ?e startedAt overrides openKinds now)
      (0, \<lparr>ec_projects = Map.empty, ec_groups = Map.empty, ec_failed = {}\<rparr>) hosts) (\<lambda>(_, c) w'. ?I c w') w"
    by (rule wp_budget_loop [where I = ?I])
       (use wp_silence_pass [OF young] ov wf no_new_silence_rel(1) in \<open>auto simp: valid_cache_def reflpD\<close>)
  have "guar (on_db no_new_silence) (case hv_Metrics ?e of
      None \<Rightarrow> State_Monad.return (length hosts, (c, Map.empty))
    | Some qa \<Rightarrow> budget_loop deadline (threshold_pass ?e qa overrides openKinds now) (0, (c, Map.empty)) hosts)" for c
    by (intro guar no_new_silence_rel guar_budget_loop silence_tick.guar_threshold_pass) simp
  then have pass2: "wp (case hv_Metrics ?e of
      None \<Rightarrow> State_Monad.return (length hosts, (c, Map.empty))
    | Some qa \<Rightarrow> budget_loop deadline (threshold_pass ?e qa overrides openKinds now) (0, (c, Map.empty)) hosts)
    (\<lambda>_. on_db no_new_silence w3) w3" for c w3
    by (simp only: guar_wp)
  show ?thesis
    unfolding wp_bind
  proof (rule wp_mono [OF pass1], clarify, goal_cases)
    case (1 k c w4)
    show ?case
      unfolding wp_bind
      by (rule wp_mono [OF pass2])
         (use 1 in \<open>auto simp: wp end_tick_def on_db_def case_prod_beta dest: transpD [OF no_new_silence_rel(2)]\<close>)
  qed
qed

lemma wp_GetForHosts_valid:
  assumes "thresholds_wf (db w)"
  shows "wp (if b then GetForHosts ids else State_Monad.return (Inr Map.empty))
    (\<lambda>r w'. db w' = db w \<and> (\<forall>m i ov. r = Inr m \<and> m i = Some ov \<longrightarrow> ValidateOverride ov = None)) w"
proof -
  have stored: "ValidateOverride ov = None" if "map_of (t_host_overrides (db w)) i = Some ov" for i ov
    using assms map_of_SomeD [OF that] by (auto simp: thresholds_wf_def list_all_iff)
  show ?thesis
    unfolding GetForHosts_def by (auto simp: wp stored intro!: wp_sql_readI split: if_splits)
qed

text \<open>
  C32: a restart raises no false alarm: while the server has been running for no longer than
  the smallest silence that settings can ask for, a tick opens no incident of silence,
  whatever hosts, settings, overrides and group thresholds are stored, as long as they were
  stored through the validation, and whatever faults the tick meets after listing the hosts.
\<close>

theorem young_server_opens_no_silence:
  assumes "thresholds_wf (db w)" and "ht_StartedAt st = Some startedAt"
    and "go_now (snd (run_state (ListActiveWithProject freshWithin MaxActiveHostsPerTick) w)) - startedAt \<le> MinSilentAfter"
    and "run_state (Tick_host (wired_host_evaluator tz n q iv) st) w = (st', w')"
    and "x \<in> set (t_host_incidents (db w'))" and "hi_kind x = ''silent''" and "alert_open x"
  shows "\<exists>y \<in> set (t_host_incidents (db w)). a_id y = a_id x \<and> hi_kind y = ''silent'' \<and> alert_open y"
proof -
  let ?e = "wired_host_evaluator tz n q iv"
  let ?list = "ListActiveWithProject freshWithin MaxActiveHostsPerTick"
  have "wp ?list (\<lambda>_ w1. db w1 = db w) w"
    unfolding ListActiveWithProject_def by (simp only: wp, rule wp_sql_readI) simp_all
  then have listed: "wp ?list (\<lambda>_ w1. db w1 = db w \<and> w1 = snd (run_state ?list w)) w"
    by (simp add: wp_def case_prod_beta)
  have kinds: "wp (ListOpenKindsForHosts ids) (\<lambda>_ w'. db w' = db w2) w2" for ids w2
    unfolding ListOpenKindsForHosts_def by (auto simp: wp intro!: wp_sql_readI)
  have "wp (Tick_host ?e st) (\<lambda>_ w'. no_new_silence (db w) (db w')) w"
    unfolding Tick_host_def markStarted_def assms(2) option.case wp_bind wp_return wp_time_now
  proof (rule wp_mono [OF listed], goal_cases)
    case (1 r w1)
    then have d1: "db w1 = db w" by blast
    have young: "go_now w1 - startedAt \<le> MinSilentAfter" using 1 assms(3) by simp
    show ?case
    proof (cases r)
      case (Inl er)
      then show ?thesis using d1 no_new_silence_rel(1) by (simp add: wp reflpD)
    next
      case (Inr active)
      have wf1: "thresholds_wf (db w1)" using assms(1) d1 by simp
      show ?thesis
        unfolding Inr sum.case Let_def wp_bind [of time_now] wp_bind [of "if _ then GetForHosts _ else _"]
          wp_bind [of "ListOpenKindsForHosts _"] wp_time_now assms(2) option.sel
      proof (rule wp_mono [OF wp_GetForHosts_valid [OF wf1]], goal_cases)
        case (1 ov w2)
        have ov: "(case ov of Inl _ \<Rightarrow> Map.empty | Inr m \<Rightarrow> m) i = Some x \<Longrightarrow> ValidateOverride x = None" for i x
          using 1 by (auto split: sum.splits)
        show ?case
        proof (rule wp_mono [OF kinds], goal_cases)
          case (1 ok w3)
          have d3: "db w3 = db w" using 1 \<open>db w2 = db w1 \<and> _\<close> d1 by simp
          show ?case
            by (rule wp_mono [OF wp_passes [OF young _ ov]]) (use assms(1) d3 in simp_all)
        qed
      qed
    qed
  qed
  then have "silents (db w') \<subseteq> silents (db w)" using assms(4) by (simp add: wp_def no_new_silence_def)
  then have "a_id x \<in> silents (db w)" using assms(5-7) by (auto simp: silents_def)
  then show ?thesis by (auto simp: silents_def)
qed

fun take_int :: "int \<Rightarrow> 'a list \<Rightarrow> 'a list" where
  "take_int n [] = []"
| "take_int n (x # xs) = (if n \<le> 0 then [] else x # take_int (n - 1) xs)"

lemma take_int: "take_int n xs = take (nat n) xs"
proof (induction xs arbitrary: n)
  case (Cons x xs)
  then show ?case by (cases "n \<le> 0") (simp_all add: take_Cons' nat_diff_distrib')
qed simp

text \<open>For evaluation, the limit of hosts in a tick is an integer.\<close>

lemma ListActiveWithProject_code [code]:
  "ListActiveWithProject fresh limit =
     do {
       t \<leftarrow> time_now;
       sql_read (\<lambda>_ d. take_int (if limit \<le> 0 then 20000 else limit)
         (sort_key (\<lambda>h. (h_project h, h_name h)) (filter (\<lambda>h. t - fresh < h_last_seen h) (t_hosts d))))
     }"
  by (simp add: ListActiveWithProject_def take_int MaxActiveHostsPerTick_def)

lemma MaxActive_int [code_unfold]: "int MaxActiveHostsPerTick = 20000"
  by (simp add: MaxActiveHostsPerTick_def)

text \<open>A host that was last heard of at one o'clock, with a load of half of what its four cores take.\<close>

definition ex_host_notifier :: host_notifier where
  "ex_host_notifier = alert_notifier.extend ex_alert_notifier \<lparr>hn_DepCounts = None, hn_Overrides = True, hn_Groups = True\<rparr>"

definition ex_host_metrics :: host_metrics where
  "ex_host_metrics = \<lparr>hm_AggregateByHost = \<lambda>moment p name ls agg from to.
       Inr [''db1'' \<mapsto> (if name = ''system.filesystem.utilization'' then 19 / 20 else if name = ''system.memory.utilization'' then 1 / 2
                      else if name = ''system.cpu.logical.count'' then 4 else 2)],
     hm_SeriesGrouped = \<lambda>moment p name host attr agg from to step. Inr [(''/'', [1 / 2]), (''/var'', [1 / 2, 19 / 20])]\<rparr>"

definition ex_host_evaluator :: host_evaluator where
  "ex_host_evaluator = wired_host_evaluator (\<lambda>_. None) ex_host_notifier ex_host_metrics (60 * second)"

definition ex_quiet :: db where
  "ex_quiet = Host_Incident.ex_hosts\<lparr>t_host_incidents := [], t_host_incident_seq := 1\<rparr>"

abbreviation ex_quiet_host :: host_row where
  "ex_quiet_host \<equiv> hd (t_hosts ex_quiet)"

theorem silence_decides_incident_witness:
  "kind_state (db (snd (run_state (evalSilent ex_host_evaluator hour ex_quiet_host DefaultSettings (3 * hour)) (calm (3 * hour) ex_quiet)))) 1 ''silent'' =
     Some (7200, 7200)"
proof -
  let ?w = "calm (3 * hour) ex_quiet"
  let ?run = "run_state (evalSilent ex_host_evaluator hour ex_quiet_host DefaultSettings (3 * hour)) ?w"
  have wf: "host_wf (db ?w)" and ins: "host_insertable (h_project ex_quiet_host) (h_id ex_quiet_host) ''silent'' (db ?w)" by code_simp+
  have on: "hs_SilentEnabled DefaultSettings" by (simp add: DefaultSettings_def)
  have run: "run_state (evalSilent (wired_host_evaluator (\<lambda>_. None) ex_host_notifier ex_host_metrics (60 * second)) hour ex_quiet_host
      DefaultSettings (3 * hour)) ?w = ((), snd ?run)"
    by (simp add: prod_eq_iff ex_host_evaluator_def)
  have "h_id ex_quiet_host = 1" "silence_step (time_sub (3 * hour) hour > hs_SilentAfter DefaultSettings \<and>
      time_sub (h_last_seen ex_quiet_host) (h_first_seen ex_quiet_host) \<ge> hs_SilentAfter DefaultSettings)
      (seconds (hs_SilentAfter DefaultSettings)) (seconds (time_sub (3 * hour) (h_last_seen ex_quiet_host)))
      (kind_state (db ?w) 1 ''silent'') = Some (7200, 7200)" by code_simp+
  then show ?thesis using silence_decides_incident [OF wf ins on run] by simp
qed

theorem threshold_decides_incident_witness:
  "map (\<lambda>x. (hi_kind x, hi_detail x)) (t_host_incidents (db (snd (run_state
     (applyDecision ex_host_evaluator ex_host_metrics ex_quiet_host ''disk'' (19 / 20) (9 / 10) (3 * hour)) (calm (3 * hour) ex_quiet))))) = [(''disk'', ''/var'')] \<and>
   kind_state (db (snd (run_state
     (applyDecision ex_host_evaluator ex_host_metrics ex_quiet_host ''disk'' (19 / 20) (9 / 10) (3 * hour)) (calm (3 * hour) ex_quiet)))) 1 ''disk'' = Some (19 / 20, 19 / 20)"
proof -
  let ?w = "calm (3 * hour) ex_quiet"
  let ?run = "run_state (applyDecision ex_host_evaluator ex_host_metrics ex_quiet_host ''disk'' (19 / 20) (9 / 10) (3 * hour)) ?w"
  have wf: "host_wf (db ?w)" and ins: "host_insertable (h_project ex_quiet_host) (h_id ex_quiet_host) ''disk'' (db ?w)" by code_simp+
  have run: "run_state (applyDecision (wired_host_evaluator (\<lambda>_. None) ex_host_notifier ex_host_metrics (60 * second)) ex_host_metrics
      ex_quiet_host ''disk'' (19 / 20) (9 / 10) (3 * hour)) ?w = ((), snd ?run)"
    by (simp add: prod_eq_iff ex_host_evaluator_def)
  have "map (\<lambda>x. (hi_kind x, hi_detail x)) (t_host_incidents (db (snd ?run))) = [(''disk'', ''/var'')]" by code_simp
  moreover have "h_id ex_quiet_host = 1" "threshold_step (9 / 10) (19 / 20) (kind_state (db ?w) 1 ''disk'') = Some (19 / 20, 19 / 20)" by code_simp+
  ultimately show ?thesis using threshold_decides_incident [OF wf ins run] by simp
qed

text \<open>
  The server has been up for two minutes, and nothing is known of disk, memory and load: the
  incident of silence that is open is found again and renewed, and no other is opened.
\<close>

definition ex_blind_metrics :: host_metrics where
  "ex_blind_metrics = \<lparr>hm_AggregateByHost = \<lambda>moment p name ls agg from to. Inr Map.empty,
     hm_SeriesGrouped = \<lambda>moment p name host attr agg from to step. Inr []\<rparr>"

definition ex_blind_evaluator :: host_evaluator where
  "ex_blind_evaluator = wired_host_evaluator (\<lambda>_. None) ex_host_notifier ex_blind_metrics (60 * second)"

theorem young_server_opens_no_silence_witness:
  "let w' = snd (run_state (Tick_host ex_blind_evaluator
       \<lparr>ts_cursor = (0, ''''), ts_skipped = 0, ts_lastTick = 0, ht_StartedAt = Some (3 * hour - 2 * minute)\<rparr>) (calm (3 * hour) Host_Incident.ex_hosts))
   in map (\<lambda>x. (hi_kind x, a_id x)) (filter alert_open (t_host_incidents (db w'))) = [(''silent'', 1)] \<and>
      (\<exists>y \<in> set (t_host_incidents Host_Incident.ex_hosts). a_id y = 1 \<and> hi_kind y = ''silent'' \<and> alert_open y)"
proof -
  let ?w = "calm (3 * hour) Host_Incident.ex_hosts"
  let ?st = "\<lparr>ts_cursor = (0, ''''), ts_skipped = 0, ts_lastTick = 0, ht_StartedAt = Some (3 * hour - 2 * minute)\<rparr>"
  let ?run = "run_state (Tick_host ex_blind_evaluator ?st) ?w"
  have wf: "thresholds_wf (db ?w)" by (simp add: thresholds_wf_def Host_Incident.ex_hosts_def ex_defs)
  have st: "ht_StartedAt ?st = Some (3 * hour - 2 * minute)" by simp
  have young: "go_now (snd (run_state (ListActiveWithProject freshWithin MaxActiveHostsPerTick) ?w)) - (3 * hour - 2 * minute) \<le> MinSilentAfter"
    by (simp add: ListActiveWithProject_def run_state_bind MinSilentAfter_def)
  have run: "run_state (Tick_host (wired_host_evaluator (\<lambda>_. None) ex_host_notifier ex_blind_metrics (60 * second)) ?st) ?w = (fst ?run, snd ?run)"
    by (simp add: ex_blind_evaluator_def)
  have out: "map (\<lambda>x. (hi_kind x, a_id x)) (filter alert_open (t_host_incidents (db (snd ?run)))) = [(''silent'', 1)]" by code_simp
  have first: "\<exists>x. x \<in> set xs \<and> hi_kind x = k \<and> alert_open x \<and> a_id x = i"
    if "map (\<lambda>x. (hi_kind x, a_id x)) (filter alert_open xs) = (k, i) # ys" for xs :: "host_incident list" and k i ys
    using that by (auto simp: map_eq_Cons_conv filter_eq_Cons_iff)
  obtain x where x: "x \<in> set (t_host_incidents (db (snd ?run)))" "hi_kind x = ''silent''" "alert_open x" "a_id x = 1"
    using first [OF out] by blast
  have "\<exists>y \<in> set (t_host_incidents (db ?w)). a_id y = a_id x \<and> hi_kind y = ''silent'' \<and> alert_open y"
    by (rule young_server_opens_no_silence [OF wf st young run x(1-3)])
  then show ?thesis unfolding Let_def x(4) using out by simp
qed

subsection \<open>Invariants of the incidents of hosts\<close>

datatype host_event = HeTick host_tick_state | HeOp host_op

primrec run_host_event :: "host_evaluator \<Rightarrow> host_event \<Rightarrow> unit prog" where
  "run_host_event e (HeTick st) = ignore (Tick_host e st)"
| "run_host_event e (HeOp p) = run_host_op p"

lemma guar_host_event: "guar (on_db host_progress) (run_host_event (wired_host_evaluator tz n q iv) ev)"
proof (cases ev)
  case (HeTick st)
  then show ?thesis
    using host_tick.guar_Tick_host [of tz n q iv st] host_inc.progress_rules by (simp only: run_host_event.simps) (intro host_inc.progress_rules; simp)
qed (simp add: guar_host_op)

text \<open>
  C31: whatever ticks of evaluators and operations on host incidents replicas run in whatever
  order, and whatever faults and lost replies they meet, a host never has two open
  incidents of one kind, the status of an incident says whether it has an end, ids stay
  unique, and every incident only moves forward: none disappears, a resolution, an
  acknowledgement or a page once recorded is not undone, and the escalation level never falls.
\<close>

theorem host_ticks_keep_incidents_sound:
  assumes "host_wf (db w)" and "run_state (for_each evs (run_host_event (wired_host_evaluator tz n q iv))) w = ((), w')"
  shows "host_wf (db w') \<and>
         list_all2 (alert_le host_key) (t_host_incidents (db w)) (take (length (t_host_incidents (db w))) (t_host_incidents (db w')))"
proof -
  have "guar (on_db host_progress) (for_each evs (run_host_event (wired_host_evaluator tz n q iv)))"
    by (intro host_inc.progress_rules guar_host_event)
  from guarD [OF this, of w] show ?thesis using assms by (simp add: on_db_def alert_progress_def)
qed

theorem host_ticks_keep_incidents_sound_witness:
  "let w' = snd (run_state (for_each [HeTick \<lparr>ts_cursor = (0, ''''), ts_skipped = 0, ts_lastTick = 0, ht_StartedAt = Some 0\<rparr>,
         HeOp (HoOpen 1 1 ''silent'' 300 '''' False)]
       (run_host_event ex_blind_evaluator)) ((calm (hour + minute) Host_Incident.ex_hosts)\<lparr>sched := [(NoFault, 0), (NoFault, 1)]\<rparr>))
   in host_wf (db w') \<and> map (\<lambda>x. (hi_kind x, a_status x)) (t_host_incidents (db w')) = [(''silent'', ''resolved''), (''silent'', ''open'')]"
proof -
  let ?evs = "[HeTick \<lparr>ts_cursor = (0, ''''), ts_skipped = 0, ts_lastTick = 0, ht_StartedAt = Some 0\<rparr>, HeOp (HoOpen 1 1 ''silent'' 300 '''' False)]"
  let ?w = "(calm (hour + minute) Host_Incident.ex_hosts)\<lparr>sched := [(NoFault, 0), (NoFault, 1)]\<rparr>"
  let ?run = "run_state (for_each ?evs (run_host_event ex_blind_evaluator)) ?w"
  have wf: "host_wf (db ?w)" by code_simp
  have run: "run_state (for_each ?evs (run_host_event (wired_host_evaluator (\<lambda>_. None) ex_host_notifier ex_blind_metrics (60 * second)))) ?w = ((), snd ?run)"
    by (simp add: prod_eq_iff ex_blind_evaluator_def)
  have "map (\<lambda>x. (hi_kind x, a_status x)) (t_host_incidents (db (snd ?run))) = [(''silent'', ''resolved''), (''silent'', ''open'')]" by code_simp
  then show ?thesis using host_ticks_keep_incidents_sound [OF wf run] by (simp add: Let_def)
qed

subsection \<open>A host below a declared parent\<close>

text \<open>What decides about the page of a child, and whether statements still succeed.\<close>

definition page_view :: "db \<Rightarrow> (esc_row list \<times> outbox_row list) \<times> dep_edge list \<times> (int \<times> hostLabels) list" where
  "page_view d = ((t_esc d, t_outbox d), t_deps d,
     map (\<lambda>h. (h_id h, \<lparr>hl_projectID = h_project h, hl_env = h_env h, hl_role = h_role h\<rparr>)) (t_hosts d))"

definition host_calm_rel :: "world \<Rightarrow> world \<Rightarrow> bool" where
  "host_calm_rel w w' \<longleftrightarrow> (sched w = [] \<longrightarrow> sched w' = [])"

lemma calm_rel_rules: "reflp host_calm_rel" "transp host_calm_rel" "guar host_calm_rel (sql q)" "guar host_calm_rel time_now"
  by (auto simp: reflp_def transp_def host_calm_rel_def guar_def)

lemma calm_rel_read: "guar host_calm_rel (sql_read rq)"
  by (simp add: guar_def host_calm_rel_def)

lemma calm_roots: "guar host_calm_rel (rr_DownRoot suppressor_roots k n)" "guar host_calm_rel (rr_Invalidate suppressor_roots)"
  unfolding suppressor_roots_def root_resolver.select_convs DownRoot_def ask_def getSnapshot_def loadSnapshot_def option.case
  by (intro guar calm_rel_rules calm_rel_read)+

lemma calm_groups: "guar host_calm_rel (EnsureGroup p s i k n)" "guar host_calm_rel (SetGroup p s i g)"
  unfolding EnsureGroup_def SetGroup_def by (intro guar calm_rel_rules calm_rel_read)+

lemma calm_collect: "guar host_calm_rel (collect suppressor_roots src inc kind node project grp cs)"
proof (induction cs arbitrary: grp)
  case Nil
  show ?case unfolding collect.simps by (intro guar calm_rel_rules)
next
  case (Cons c cs)
  show ?case
    unfolding collect.simps by (intro guar calm_rel_rules calm_rel_read calm_roots calm_groups guar_case_prod_app Cons.IH)
qed

lemma calm_hook:
  "guar host_calm_rel (gh_Attach suppressor_hook s i k n)" "guar host_calm_rel (gh_OnRootOpened suppressor_hook s i k n p)"
  "guar host_calm_rel (gh_RootIncident suppressor_hook k n)" "guar host_calm_rel (pk_DownRoot suppressor_checker k n)"
  unfolding suppressor_hook_def group_hook.select_convs Attach_def OnRootOpened_def RootIncident_def join_group_def MemberEligible_def
    openCandidates_def suppressor_checker_def parent_checker.select_convs DownRoot_def ask_def getSnapshot_def loadSnapshot_def option.case
  by (intro guar calm_rel_rules calm_rel_read calm_roots calm_groups calm_collect guar_case_prod_app guar_case_bool)+

interpretation page_groups: grouper_relation "same_rel page_view" suppressor_roots
  by unfold_locales
     (simp_all add: guar guar_suppressor_roots same_rel_def page_view_def set_group_def insert_group_def Let_def case_prod_beta split: option.split)

definition undisturbed :: "world \<Rightarrow> world \<Rightarrow> bool" where
  "undisturbed w w' \<longleftrightarrow> page_view (db w') = page_view (db w) \<and> (sched w = [] \<longrightarrow> sched w' = [])"

lemma undisturbed_rel: "reflp undisturbed" "transp undisturbed"
  by (auto simp: reflp_def transp_def undisturbed_def)

lemma undisturbedI: "guar (on_db (same_rel page_view)) p \<Longrightarrow> guar host_calm_rel p \<Longrightarrow> guar undisturbed p"
  by (simp add: guar_def undisturbed_def on_db_def same_rel_def host_calm_rel_def)

lemma undisturbed_time: "guar undisturbed time_now"
  by (rule undisturbedI) (intro guar calm_rel_rules)+

lemma undisturbed_Open_host: "guar undisturbed (Open_host p h k c dt mt)"
  by (rule undisturbedI; unfold Open_host_def OpenFor_host_def; intro guar calm_rel_rules calm_rel_read)
     (simp add: same_rel_def page_view_def insert_alert_def Let_def)

lemma undisturbed_maintenance: "guar undisturbed (maintenance_now mt p now)"
  by (rule undisturbedI; unfold maintenance_now_def InMaintenance_def Windows_def; intro guar calm_rel_rules calm_rel_read)

lemma undisturbed_hooks:
  "guar undisturbed (groupGate_host (wired_host_evaluator tz n q iv) x h)"
  "guar undisturbed (groupRootOpened (wired_host_evaluator tz n q iv) x h att)"
proof -
  have hook: "guar undisturbed (gh_Attach suppressor_hook s i k m)" "guar undisturbed (gh_OnRootOpened suppressor_hook s i k m p)"
    "guar undisturbed (gh_RootIncident suppressor_hook k m)" "guar undisturbed (pk_DownRoot suppressor_checker k m)" for s i k m p
    by (intro undisturbedI calm_hook guar_suppressor_hook [OF page_groups.grouper_relation_axioms] guar_suppressor guar)+
  show "guar undisturbed (groupGate_host (wired_host_evaluator tz n q iv) x h)"
    "guar undisturbed (groupRootOpened (wired_host_evaluator tz n q iv) x h att)"
    unfolding groupGate_host_def groupRootOpened_def wired_host_evaluator_def host_evaluator.select_convs option.case
    by (intro guar guar_case_prod_app undisturbed_rel hook)+
qed

lemma no_page_below_parent:
  assumes "sched w = []" and "matchingParents (snapshot_of t (db w)) (''host'', h_id h) \<noteq> []"
  shows "wp (page_new_incident (wired_host_evaluator tz n q iv) h x mt gr) (\<lambda>_ w'. page_view (db w') = page_view (db w)) w"
proof -
  have "run_state (pk_HasParent suppressor_checker ''host'' (h_id h)) w =
      ((matchingParents (snapshot_of (go_now w) (db w)) (''host'', h_id h) \<noteq> [], None), w)"
    using assms(1) by (simp add: suppressor_checker_def HasParent_def ask_def getSnapshot_def run_state_bind run_loadSnapshot)
  moreover have "matchingParents (snapshot_of (go_now w) (db w)) m = matchingParents (snapshot_of t (db w)) m" for m
    by (simp add: matchingParents_def snapshot_of_def edgeMatchesChild_def isSelfMatchParent_def cong: if_cong option.case_cong)
  ultimately show ?thesis
    using assms(2) by (simp add: page_new_incident_def wired_host_evaluator_def wp_def run_state_bind)
qed

lemma parents_by_view: "page_view d' = page_view d \<Longrightarrow> matchingParents (snapshot_of t' d') m = matchingParents (snapshot_of t d) m"
  by (simp add: matchingParents_def snapshot_of_def edgeMatchesChild_def isSelfMatchParent_def page_view_def cong: if_cong option.case_cong)

text \<open>Programs that page nobody for a host that has a declared parent.\<close>

definition spares_child :: "int \<Rightarrow> 'a prog \<Rightarrow> bool" where
  "spares_child hid p \<longleftrightarrow>
     (\<forall>u. sched u = [] \<and> matchingParents (snapshot_of 0 (db u)) (''host'', hid) \<noteq> [] \<longrightarrow>
       wp p (\<lambda>_ w'. page_view (db w') = page_view (db u)) u)"

lemma spares_bind:
  assumes "guar undisturbed c" and "\<And>a. spares_child hid (f a)"
  shows "spares_child hid (State_Monad.bind c f)"
  unfolding spares_child_def wp_bind
proof (intro allI impI, elim conjE)
  fix u :: world assume u: "sched u = []" "matchingParents (snapshot_of 0 (db u)) (''host'', hid) \<noteq> []"
  have "wp c (\<lambda>_. undisturbed u) u" using assms(1) by (simp only: guar_wp)
  then show "wp c (\<lambda>a. wp (f a) (\<lambda>_ w'. page_view (db w') = page_view (db u))) u"
  proof (rule wp_mono)
    fix a w' assume "undisturbed u w'"
    then have v: "page_view (db w') = page_view (db u)" "sched w' = []" using u by (simp_all add: undisturbed_def)
    then have "matchingParents (snapshot_of 0 (db w')) (''host'', hid) \<noteq> []" using u parents_by_view [OF v(1)] by metis
    then have "wp (f a) (\<lambda>_ w''. page_view (db w'') = page_view (db w')) w'"
      using assms(2) [of a] v(2) by (simp add: spares_child_def)
    then show "wp (f a) (\<lambda>_ w''. page_view (db w'') = page_view (db u)) w'" using v(1) by simp
  qed
qed

lemma spares_rules:
  "spares_child hid (State_Monad.return a)"
  "spares_child hid p \<Longrightarrow> spares_child hid q \<Longrightarrow> spares_child hid (if b then p else q)"
  "(\<And>e. spares_child hid (l e)) \<Longrightarrow> (\<And>x. spares_child hid (r x)) \<Longrightarrow> spares_child hid (case s of Inl e \<Rightarrow> l e | Inr x \<Rightarrow> r x)"
  "(\<And>x y. spares_child hid (g x y)) \<Longrightarrow> spares_child hid (case z of (x, y) \<Rightarrow> g x y)"
  by (auto simp: spares_child_def wp split: sum.split prod.split)

lemma spares_page: "spares_child (h_id h) (page_new_incident (wired_host_evaluator tz n q iv) h x mt gr)"
  using no_page_below_parent by (auto simp: spares_child_def)

lemmas undisturbed_rules = undisturbed_time undisturbed_maintenance undisturbed_Open_host undisturbed_hooks

lemma spares_opens:
  "spares_child (h_id h) (open_silent (wired_host_evaluator tz n q iv) h v now)"
  "spares_child (h_id h) (open_threshold (wired_host_evaluator tz n q iv) m h k v now)"
  unfolding open_silent_def open_threshold_def worstMountpoint_def
  by (intro spares_bind spares_rules spares_page undisturbed_rules guar undisturbed_rel)+


definition ex_child :: db where
  "ex_child = ex_quiet\<lparr>t_hosts := t_hosts ex_quiet @ [ex_quiet_host\<lparr>h_id := 2, h_name := ''db2''\<rparr>], t_deps := [ex_edge 2 1]\<rparr>"


end
