(* ===== verification/Spec2Isabelle.thy ===== *)
theory Spec2Isabelle
  imports Escalation_Scheduler Uptime_Watchdog Outage_Hooks Host_Settings Host_Touch Host_Retention Host_Evaluator
begin

text \<open>
  Verification of the incident path of gotcha, a self-hosted observability server in Go.

  The program. Three sources of incidents are modelled. Checks of monitors are scheduled
  into a queue in PostgreSQL, leased to the built-in runner or to remote probes, and their
  results come back to the server (\<open>internal/uptime\<close>); a result moves the state of the monitor
  in its region, the states of the regions decide whether the monitor is down, and an
  incident is opened or resolved. Rules on metrics are evaluated by a periodic tick
  (\<open>internal/metric\<close>). Hosts are registered when their agents send data, with thresholds on
  three levels; a tick watches them for silence and for full disks, memory and load, and they are
  retired before they are purged (\<open>internal/host\<close>, \<open>internal/telemetry\<close>). Declared dependencies between hosts and monitors suppress pages of
  children while a parent is down (\<open>internal/depsuppress\<close>), and incidents below one root are
  collected into groups that are silent while their root pages (\<open>internal/incidentgroup\<close>).
  The first page of an incident is sent by its detector or evaluator, later pages by the
  escalation scheduler along a ladder of steps (\<open>internal/escalation\<close>). Every page goes through
  one dispatch function that gates and redacts it and puts one row per channel into an
  outbox; workers claim the rows and deliver them (\<open>internal/notify\<close>). Several replicas of the
  server run all of this at once against one database.

  How it is modelled. Tables are lists of rows in one record \<open>db\<close> (theory \<open>Store\<close>), one SQL
  statement is one atomic function on it, and Go code is a program in the state monad of
  the library over a \<open>world\<close>: the tables, the two clocks (\<open>now()\<close> of PostgreSQL and
  \<open>time.Now()\<close>) and a schedule of faults. Each statement takes the next entry of the
  schedule and either succeeds, fails without effect, or fails after its effect was applied
  (a lost reply); time may pass before it. A theorem without a hypothesis on \<open>sched\<close> holds
  for every schedule; \<open>sched w = []\<close> means that no statement fails. Go errors are values of
  the type \<open>error\<close>. Durations are integers of nanoseconds with the 64-bit wrap-around
  written out where the code can reach it; float64 values of metrics and thresholds are exact
  rationals, so nothing is claimed about rounding. Loops over rows are monadic folds; loops that
  are not structural are \<open>function\<close> with a termination proof, or \<open>partial_function (option)\<close>
  (\<open>day_loop\<close> and \<open>purgeTableHooked\<close>, whose return is part of the properties about them). Nothing runs on fuel, except
  that the rounds of a worker tick are bounded as the code bounds them (\<open>maxTicklessRounds\<close>).
  Concurrency is modelled where the code relies on it: as \<open>inductive\<close> machines of replicas
  and workers whose steps are the statements (\<open>Escalation_Step\<close>, \<open>Notify_Outbox\<close>), with
  refinement theorems that the sequential programs only make such steps, and as arbitrary
  sequences of operations in between (\<open>run_ops\<close>, \<open>run_qops\<close>).

  Theories, and what their properties show.

    \<^item> \<open>Prelude\<close>, \<open>Store\<close>: errors, time, SQL, faults; weakest preconditions (\<open>wp\<close>) and
      guarantees (\<open>guar R p\<close>: every run of \<open>p\<close> relates the states by \<open>R\<close>), the two logics
      all component proofs use.
    \<^item> \<open>Escalation_Policy\<close> (\<open>escalation/policy.go\<close>): which ladders are accepted; storing and
      reading a ladder is a round trip.
    \<^item> \<open>Escalation_Step\<close> (\<open>step.go\<close>, \<open>dispatch.go\<close>): claim, send, log, bump. No channel is paged
      twice for a step by any interleaving of replicas; the log is retried a bounded number
      of times; from which delay on the 64-bit product overflows.
    \<^item> \<open>Escalation_Scheduler\<close> (\<open>scheduler.go\<close>, \<open>source.go\<close>, \<open>retention.go\<close>): a tick over the
      sources, its fairness, and the purge, which never touches rows of open incidents. The
      locale \<open>escalation_source\<close> is what the scheduler expects of a source.
    \<^item> \<open>Notify_Outbox\<close> (\<open>notify/outbox.go\<close>, \<open>worker.go\<close>, \<open>direct.go\<close>, \<open>stats.go\<close>, \<open>janitor.go\<close>): a
      job marked sent is final, a worker refines the machine of the queue, the backoff.
    \<^item> \<open>Notify_Dispatch\<close> (\<open>escalation/notifydispatch.go\<close>, \<open>notify/redact.go\<close>, \<open>notify/project.go\<close>,
      the channels of \<open>alert/alert.go\<close>): gates and redaction.
    \<^item> \<open>Uptime_State\<close> (\<open>uptime/state.go\<close>, \<open>aggregate\<close> of \<open>detector.go\<close>): counters and status against
      a reference definition over the history; the meaning of each consensus.
    \<^item> \<open>Uptime_Monitor\<close> (\<open>monitor.go\<close>, \<open>config.go\<close>, \<open>service.go\<close>, \<open>probe.go\<close>): validation, storage,
      round trip, no leftovers of removed regions.
    \<^item> \<open>Uptime_Incident\<close> (\<open>incident.go\<close>): at most one open incident per monitor, incidents only
      move forward, levels are passed once; interprets \<open>escalation_source\<close>.
    \<^item> \<open>Uptime_Notifier\<close> (\<open>notifier.go\<close>): choice of channels and texts; interprets the locale
      \<open>step_effects\<close> of \<open>Escalation_Step\<close>, which carries at-most-once paging over to uptime.
    \<^item> \<open>Uptime_Queue\<close> (\<open>queue.go\<close>, \<open>scheduler.go\<close>, \<open>ingest.go\<close>, \<open>checker.go\<close>): due checks are queued,
      leases fence, a result counts once, probes see their own organization only.
    \<^item> \<open>Uptime_Maintenance\<close> (\<open>maintenance.go\<close>): windows with zones and clock times as in package
      time; the two readings of a window agree.
    \<^item> \<open>Uptime_Detector\<close> (\<open>detector.go\<close>): the reaction to a result as a whole; the open incident
      follows the aggregate, invariants hold through every run, recovery notices go only to
      paged channels, nothing is sent while a parent is down. The locales \<open>settle_relation\<close>
      and \<open>detector_relation\<close> say what the collaborators of the detector guarantee.
    \<^item> \<open>Uptime_Watchdog\<close> (\<open>watchdog.go\<close>): silent heartbeats, expiring certificates, reminders;
      each claimed once, a silent monitor counted as failing, and the monitors the watchdog
      misses because they lack its region. Interprets \<open>detector_relation\<close> once more.

    \<^item> \<open>Dep_Store\<close> (\<open>depsuppress/store.go\<close>): edges between hosts, groups of hosts given by a label,
      and monitors; the search for cycles is exact for the edges it looks at, and the graph
      of explicit edges stays acyclic. \<open>Dep_Suppressor\<close> (\<open>suppressor.go\<close>, \<open>preview.go\<close>): the
      snapshot of who is down, the least root, the preview against the resolver.
    \<^item> \<open>Group_Store\<close> (\<open>incidentgroup/group.go\<close>, \<open>janitor.go\<close>): one group per root, membership,
      sweep and purge. \<open>Group_Attach\<close> (\<open>grouper.go\<close>, \<open>depgate.go\<close>): joining a group, the join of
      earlier incidents when a root opens, the gate of the scheduler.
    \<^item> \<open>Alert_Incident\<close>: the statements that the incident tables of hosts, metrics and service
      levels share, with their invariant and progress, in the locale \<open>incident_table\<close>;
      \<open>Alert_Notify\<close>: numbers in messages, dispatch, first page and recovery of these sources, with
      the contract \<open>alert_pages\<close>; \<open>Eval_Tick\<close>: the rotation and budget of their ticks, and that
      every entry is served in turn.
    \<^item> \<open>Host_Incident\<close> (\<open>host/incident.go\<close>), \<open>Host_Settings\<close> (\<open>settings.go\<close>, \<open>override.go\<close>,
      \<open>resolve.go\<close>: the cascade is the overlay of its levels), \<open>Host_Store\<close> (\<open>host.go\<close>: a batch of
      registrations under the limit of a project), \<open>Host_Touch\<close> (\<open>touch.go\<close>: the memory of recent
      writes stays bounded), \<open>Host_Notifier\<close> (\<open>notify.go\<close>, \<open>value.go\<close>, \<open>retire.go\<close>) and
      \<open>Host_Retention\<close> (\<open>telemetry/entity_janitor.go\<close>: the purge returns, and keeps a host whose
      retirement could not be announced). \<open>Host_Evaluator\<close> (\<open>evaluator.go\<close>): both passes of a tick;
      an incident follows the silence or the value of its host, incidents stay sound, a young
      server raises no alarm, and a host below a parent is not paged by its own evaluator.
      The locales \<open>host_page_relation\<close> and \<open>host_relation\<close> say what a relation must tolerate to hold
      through a tick.
    \<^item> \<open>Outage_Hooks\<close>: the suppressor of dependencies as the detector and the evaluators see it.
    \<^item> \<open>Metric_Rule\<close> (\<open>metric/decide.go\<close>, \<open>rule.go\<close>, \<open>incident.go\<close>): the decision and its band, rules,
      incidents. \<open>Metric_Evaluator\<close> (\<open>evaluator.go\<close>, \<open>notify.go\<close>): a tick over the rules; the incident
      of a rule follows its decisions, maintenance is silent, a rule that is switched off has
      no open incident, and the race that lets one appear again.
    \<^item> This theory: detector and suppressor together.

  Parameters, with what is assumed of them in the properties that need it: strict JSON
  decoding, URL parsing and the sealing of secrets (\<open>codec\<close>; opening a sealed text gives it
  back), message texts (\<open>i18n\<close>), the zone database (\<open>tzdata\<close>), the network checks and the
  senders, the writer of results to ClickHouse, and the queries of metrics in ClickHouse.
  Names are compared in byte order, as the collation of the PostgreSQL image does.

  Not modelled: the goroutines that repeat the modelled ticks and rounds (\<open>Run\<close>) and the
  cancellation of their contexts, other than as the budget of a tick; logging and
  self-metrics; network checks and senders (I/O); ClickHouse queries; re-encryption of
  stored secrets (\<open>RewrapSecrets\<close>); status pages; the sources service
  levels, traces and profiles; error tracking and its alerts; ingestion; accounts and the
  web interface.
\<close>

subsection \<open>Detector and dependency suppression together\<close>

definition suppressed_detector :: "tzdata \<Rightarrow> outbox_notifier \<Rightarrow> duration \<Rightarrow> detector" where
  "suppressed_detector tz n grace = (plain_detector tz n grace)\<lparr>dt_Dep := Some suppressor_checker\<rparr>"

lemma suppressed_hooks:
  assumes "reflp R" and "transp R" and "hooks_guar (on_db R) (plain_detector tz n grace)"
  shows "hooks_guar (on_db R) (suppressed_detector tz n grace)"
  using assms(3) guar_suppressor [OF assms(1,2)] by (simp add: hooks_guar_def suppressed_detector_def)

interpretation suppressed: detector_relation "on_db tables_rel" "suppressed_detector tz n grace" for tz n grace
  by (rule detector_tables [OF suppressed_hooks [OF tables_rel_rel plain_hooks_tables]])

lemma run_checker:
  "sched w = [] \<Longrightarrow> run_state (pk_ParentDown suppressor_checker k n) w =
     ((parentDownFromSnapshot (snapshot_of (go_now w) (db w)) (k, n), None), w)"
  by (simp add: suppressor_checker_def ParentDown_def ask_def getSnapshot_def run_state_bind run_loadSnapshot)


text \<open>A host that is down, a monitor that depends on it, and the incident of that monitor.\<close>

definition ex_dependent :: db where
  "ex_dependent = ex_db\<lparr>t_incidents := [ex_incident\<lparr>i_notified_open := False\<rparr>], t_hosts := [ex_host 1],
     t_host_incidents := [ex_silent 1],
     t_deps := [(ex_edge 1 2)\<lparr>de_ID := 1, de_ChildHostID := None, de_ChildMonitorID := Some 1\<rparr>]\<rparr>"


end
